(* ===== verification/Rust_Prelude.thy ===== *)
theory Rust_Prelude
  imports Main "HOL-Library.Word"
begin

text \<open>
  Shared vocabulary of the development: the fragment of Rust's standard library that the
  modelled modules use, and the generic lemmas the components rely on.

  A Rust \<^verbatim>\<open>char\<close> is a HOL \<^typ>\<open>char\<close>, read as the Unicode scalar value U+0000..U+00FF with the
  same number; a Rust \<^verbatim>\<open>str\<close>/\<^verbatim>\<open>String\<close> is a \<^typ>\<open>string\<close>. The standard library's character
  classes and case mappings are modelled exactly on that plane; a character above U+007F
  takes two bytes in UTF-8, which is what \<^verbatim>\<open>str::len\<close> counts. Machine integers are words
  (\<^verbatim>\<open>u32\<close> is \<open>32 word\<close>) where the code stores them at that width. A fallible function
  returns a sum whose left summand is the error.
\<close>

section \<open>Collections of rules\<close>

named_theorems str_defs \<open>definitions of the string primitives\<close>
named_theorems wire_simps \<open>evaluation rules of the persisted formats\<close>
named_theorems step_intros \<open>introduction rules of the step relations\<close>

type_synonym u32 = "32 word"
type_synonym u64 = "64 word"

section \<open>Characters\<close>

definition char_code :: "char \<Rightarrow> nat" where
  [str_defs]: "char_code c = of_char c"

definition is_ascii :: "char \<Rightarrow> bool" where
  [str_defs]: "is_ascii c \<longleftrightarrow> char_code c < 128"

definition is_whitespace :: "char \<Rightarrow> bool" where
  [str_defs]: "is_whitespace c \<longleftrightarrow>
     (let n = char_code c in (9 \<le> n \<and> n \<le> 13) \<or> n = 32 \<or> n = 133 \<or> n = 160)"

definition is_control :: "char \<Rightarrow> bool" where
  [str_defs]: "is_control c \<longleftrightarrow> (let n = char_code c in n < 32 \<or> (127 \<le> n \<and> n < 160))"

definition is_ascii_digit :: "char \<Rightarrow> bool" where
  [str_defs]: "is_ascii_digit c \<longleftrightarrow> (let n = char_code c in 48 \<le> n \<and> n \<le> 57)"

definition is_ascii_alphanumeric :: "char \<Rightarrow> bool" where
  [str_defs]: "is_ascii_alphanumeric c \<longleftrightarrow>
     (let n = char_code c in (48 \<le> n \<and> n \<le> 57) \<or> (65 \<le> n \<and> n \<le> 90) \<or> (97 \<le> n \<and> n \<le> 122))"

definition is_ascii_graphic :: "char \<Rightarrow> bool" where
  [str_defs]: "is_ascii_graphic c \<longleftrightarrow> (let n = char_code c in 33 \<le> n \<and> n \<le> 126)"

definition char_to_lowercase :: "char \<Rightarrow> char" where
  [str_defs]: "char_to_lowercase c =
     (let n = char_code c
      in if (65 \<le> n \<and> n \<le> 90) \<or> (192 \<le> n \<and> n \<le> 222 \<and> n \<noteq> 215) then char_of (n + 32) else c)"

definition char_to_ascii_lowercase :: "char \<Rightarrow> char" where
  [str_defs]: "char_to_ascii_lowercase c =
     (let n = char_code c in if 65 \<le> n \<and> n \<le> 90 then char_of (n + 32) else c)"

definition char_to_ascii_uppercase :: "char \<Rightarrow> char" where
  [str_defs]: "char_to_ascii_uppercase c =
     (let n = char_code c in if 97 \<le> n \<and> n \<le> 122 then char_of (n - 32) else c)"

section \<open>Strings\<close>

definition utf8_len :: "char \<Rightarrow> nat" where
  [str_defs]: "utf8_len c = (if is_ascii c then 1 else 2)"

definition str_len :: "string \<Rightarrow> nat" where
  "str_len s = sum_list (map utf8_len s)"

definition to_lowercase :: "string \<Rightarrow> string" where
  "to_lowercase s = map char_to_lowercase s"

definition to_ascii_lowercase :: "string \<Rightarrow> string" where
  "to_ascii_lowercase s = map char_to_ascii_lowercase s"

definition to_ascii_uppercase :: "string \<Rightarrow> string" where
  "to_ascii_uppercase s = map char_to_ascii_uppercase s"

definition eq_ignore_ascii_case :: "string \<Rightarrow> string \<Rightarrow> bool" where
  "eq_ignore_ascii_case a b \<longleftrightarrow> to_ascii_lowercase a = to_ascii_lowercase b"

definition trim_start_matches :: "char \<Rightarrow> string \<Rightarrow> string" where
  "trim_start_matches c s = dropWhile (\<lambda>x. x = c) s"

definition trim :: "string \<Rightarrow> string" where
  "trim s = rev (dropWhile is_whitespace (rev (dropWhile is_whitespace s)))"

definition is_blank :: "string \<Rightarrow> bool" where
  "is_blank s \<longleftrightarrow> trim s = []"

definition strip_prefix :: "string \<Rightarrow> string \<Rightarrow> string option" where
  "strip_prefix p s = (if take (length p) s = p then Some (drop (length p) s) else None)"

definition starts_with :: "string \<Rightarrow> string \<Rightarrow> bool" where
  "starts_with p s \<longleftrightarrow> take (length p) s = p"

fun str_contains :: "string \<Rightarrow> string \<Rightarrow> bool" where
  "str_contains n [] \<longleftrightarrow> n = []"
| "str_contains n (c # s) \<longleftrightarrow> starts_with n (c # s) \<or> str_contains n s"

fun split_on :: "char \<Rightarrow> string \<Rightarrow> string list" where
  "split_on c [] = [[]]"
| "split_on c (x # xs) =
     (if x = c then [] # split_on c xs
      else (case split_on c xs of [] \<Rightarrow> [[x]] | y # ys \<Rightarrow> (x # y) # ys))"

fun split_once :: "char \<Rightarrow> string \<Rightarrow> (string \<times> string) option" where
  "split_once c [] = None"
| "split_once c (x # xs) =
     (if x = c then Some ([], xs)
      else map_option (\<lambda>(a, b). (x # a, b)) (split_once c xs))"

fun join :: "string \<Rightarrow> string list \<Rightarrow> string" where
  "join sep [] = []"
| "join sep [s] = s"
| "join sep (s # t # ss) = s @ sep @ join sep (t # ss)"

text \<open>\<^verbatim>\<open>str::replace\<close> and \<^verbatim>\<open>str::find\<close> for a non-empty pattern.\<close>

function str_replace :: "string \<Rightarrow> string \<Rightarrow> string \<Rightarrow> string" where
  "str_replace pat rep [] = []"
| "str_replace pat rep (c # s) =
     (if pat \<noteq> [] \<and> starts_with pat (c # s)
      then rep @ str_replace pat rep (drop (length pat) (c # s))
      else c # str_replace pat rep s)"
  by pat_completeness auto
termination
  by (relation "measure (\<lambda>(pat, rep, s). length s)") (auto simp: neq_Nil_conv)

fun str_find :: "string \<Rightarrow> string \<Rightarrow> nat option" where
  "str_find pat [] = (if pat = [] then Some 0 else None)"
| "str_find pat (c # s) =
     (if starts_with pat (c # s) then Some 0 else map_option Suc (str_find pat s))"

definition trim_end_char :: "char \<Rightarrow> string \<Rightarrow> string" where
  "trim_end_char c s = rev (dropWhile (\<lambda>x. x = c) (rev s))"

subsection \<open>Decimal numbers\<close>

definition digit_char :: "nat \<Rightarrow> char" where
  "digit_char d = char_of (48 + d)"

fun show_nat :: "nat \<Rightarrow> string" where
  "show_nat n = (if n < 10 then [digit_char n] else show_nat (n div 10) @ [digit_char (n mod 10)])"

declare show_nat.simps [simp del]

definition show_int :: "int \<Rightarrow> string" where
  "show_int i = (if i < 0 then CHR ''-'' # show_nat (nat (- i)) else show_nat (nat i))"

definition digits_value :: "string \<Rightarrow> nat" where
  "digits_value s = foldl (\<lambda>acc c. 10 * acc + (char_code c - 48)) 0 s"

text \<open>Rust's \<^verbatim>\<open>str::parse\<close> for an unsigned type of the given number of bits: an optional plus
  sign, at least one ASCII digit and nothing else, and no overflow.\<close>

definition parse_unsigned :: "nat \<Rightarrow> string \<Rightarrow> nat option" where
  "parse_unsigned bits s =
     (let ds = (case s of [] \<Rightarrow> [] | c # cs \<Rightarrow> if c = CHR ''+'' then cs else s)
      in if ds \<noteq> [] \<and> list_all is_ascii_digit ds \<and> digits_value ds < 2 ^ bits
         then Some (digits_value ds) else None)"

subsection \<open>Debug output\<close>

text \<open>The \<^verbatim>\<open>{:?}\<close> form of a string: quoted, with the escapes of \<^verbatim>\<open>char::escape_debug\<close>.\<close>

definition hex_digit :: "nat \<Rightarrow> char" where
  "hex_digit d = (if d < 10 then char_of (48 + d) else char_of (87 + d))"

fun show_hex :: "nat \<Rightarrow> string" where
  "show_hex n = (if n < 16 then [hex_digit n] else show_hex (n div 16) @ [hex_digit (n mod 16)])"

declare show_hex.simps [simp del]

definition escape_debug :: "char \<Rightarrow> string" where
  "escape_debug c =
     (let n = char_code c
      in if n = 0 then [CHR 0x5C, CHR ''0'']
         else if n = 9 then [CHR 0x5C, CHR ''t'']
         else if n = 10 then [CHR 0x5C, CHR ''n'']
         else if n = 13 then [CHR 0x5C, CHR ''r'']
         else if n = 34 \<or> n = 92 then [CHR 0x5C, c]
         else if is_control c \<or> n = 160 \<or> n = 173 then [CHR 0x5C, CHR ''u'', CHR 0x7B] @ show_hex n @ [CHR 0x7D]
         else [c])"

definition debug_str :: "string \<Rightarrow> string" where
  "debug_str s = [CHR 0x22] @ concat (map escape_debug s) @ [CHR 0x22]"

section \<open>Maps of lists\<close>

text \<open>\<^verbatim>\<open>map.entry(key).or_default().push(value)\<close>, the hash map as an association list.\<close>

fun push_entry :: "('k \<times> 'v list) list \<Rightarrow> 'k \<Rightarrow> 'v \<Rightarrow> ('k \<times> 'v list) list" where
  "push_entry [] k v = [(k, [v])]"
| "push_entry ((l, vs) # m) k v =
     (if l = k then (l, vs @ [v]) # m else (l, vs) # push_entry m k v)"

definition group_entries :: "('k \<times> 'v) list \<Rightarrow> ('k \<times> 'v list) list" where
  "group_entries kvs = foldl (\<lambda>m (k, v). push_entry m k v) [] kvs"

text \<open>\<^verbatim>\<open>slice::chunks\<close> for a positive size.\<close>

function chunks :: "nat \<Rightarrow> 'a list \<Rightarrow> 'a list list" where
  "chunks n xs = (if xs = [] \<or> n = 0 then [] else take n xs # chunks n (drop n xs))"
  by pat_completeness auto
termination by (relation "measure (\<lambda>(n, xs). length xs)") auto

declare chunks.simps [simp del]

section \<open>Results\<close>

text \<open>The \<^verbatim>\<open>?\<close> operator: continue on success, return the error otherwise.\<close>

definition and_then :: "'e + 'a \<Rightarrow> ('a \<Rightarrow> 'e + 'b) \<Rightarrow> 'e + 'b" where
  "and_then r f = (case r of Inl e \<Rightarrow> Inl e | Inr a \<Rightarrow> f a)"

definition ok_or :: "'e \<Rightarrow> 'a option \<Rightarrow> 'e + 'a" where
  "ok_or e v = (case v of None \<Rightarrow> Inl e | Some a \<Rightarrow> Inr a)"

definition or_default :: "'a \<Rightarrow> 'a option \<Rightarrow> 'a" where
  "or_default d v = (case v of None \<Rightarrow> d | Some a \<Rightarrow> a)"

text \<open>Collecting an iterator of options: \<^term>\<open>None\<close> as soon as one element is \<^term>\<open>None\<close>.\<close>

fun collect_options :: "'a option list \<Rightarrow> 'a list option" where
  "collect_options [] = Some []"
| "collect_options (None # xs) = None"
| "collect_options (Some x # xs) = map_option (\<lambda>ys. x # ys) (collect_options xs)"

text \<open>\<^verbatim>\<open>flatten\<close> on an iterator of options.\<close>

fun somes :: "'a option list \<Rightarrow> 'a list" where
  "somes [] = []"
| "somes (None # xs) = somes xs"
| "somes (Some x # xs) = x # somes xs"

section \<open>Lemmas\<close>

lemma set_somes: "set (somes xs) = {x. Some x \<in> set xs}"
  by (induction xs rule: somes.induct) auto

lemma somes_append [simp]: "somes (xs @ ys) = somes xs @ somes ys"
  by (induction xs rule: somes.induct) auto

lemma and_then_simps [simp]:
  "and_then (Inl e) f = Inl e" "and_then (Inr a) f = f a"
  by (simp_all add: and_then_def)

lemma and_then_eq_Inr [simp]: "and_then r f = Inr b \<longleftrightarrow> (\<exists>a. r = Inr a \<and> f a = Inr b)"
  by (cases r) (auto simp: and_then_def)

lemma ok_or_simps [simp]: "ok_or e None = Inl e" "ok_or e (Some a) = Inr a"
  by (simp_all add: ok_or_def)

lemma ok_or_eq_Inr [simp]: "ok_or e v = Inr a \<longleftrightarrow> v = Some a"
  by (cases v) (auto simp: ok_or_def)

lemma collect_options_map_Some [simp]: "collect_options (map (\<lambda>x. Some (f x)) xs) = Some (map f xs)"
  by (induction xs) auto

lemma collect_options_inverse:
  "(\<And>x. x \<in> set xs \<Longrightarrow> g (f x) = Some x) \<Longrightarrow> collect_options (map g (map f xs)) = Some xs"
  by (induction xs) auto

lemma collect_options_SomeD:
  "collect_options (map g xs) = Some ys \<Longrightarrow> list_all2 (\<lambda>x y. g x = Some y) xs ys"
proof (induction xs arbitrary: ys)
  case Nil
  then show ?case by simp
next
  case (Cons x xs)
  then show ?case by (cases "g x") auto
qed

lemma strip_prefix_append [simp]: "strip_prefix p (p @ s) = Some s"
  by (simp add: strip_prefix_def)

lemma strip_prefix_Some: "strip_prefix p s = Some t \<longleftrightarrow> s = p @ t"
  by (auto simp: strip_prefix_def) (metis append_take_drop_id)

lemma char_code_bound: "char_code c < 256"
  using char_of_quasi_inj [of "of_char c" "of_char c :: nat"]
  by (simp add: char_code_def)

lemma char_code_inject [simp]: "char_code a = char_code b \<longleftrightarrow> a = b"
  by (simp add: char_code_def)

lemma char_code_char_of [simp]: "n < 256 \<Longrightarrow> char_code (char_of n) = n"
  by (simp add: char_code_def)

lemma set_map_filter: "set (List.map_filter f xs) = {y. \<exists>x \<in> set xs. f x = Some y}"
  by (force simp: List.map_filter_def)

text \<open>The entries of a grouped map, and its keys.\<close>

lemma push_entry_pairs:
  "(\<exists>vs. (l, vs) \<in> set (push_entry m k v) \<and> w \<in> set vs) \<longleftrightarrow>
     (\<exists>vs. (l, vs) \<in> set m \<and> w \<in> set vs) \<or> (l = k \<and> w = v)"
  by (induction m k v rule: push_entry.induct) auto

lemma group_entries_pairs:
  "(\<exists>vs. (l, vs) \<in> set (group_entries kvs) \<and> w \<in> set vs) \<longleftrightarrow> (l, w) \<in> set kvs"
proof -
  have "(\<exists>vs. (l, vs) \<in> set (foldl (\<lambda>m (k, v). push_entry m k v) m kvs) \<and> w \<in> set vs) \<longleftrightarrow>
      (\<exists>vs. (l, vs) \<in> set m \<and> w \<in> set vs) \<or> (l, w) \<in> set kvs" for m
  proof (induction kvs arbitrary: m)
    case (Cons kv kvs)
    obtain k v where kv: "kv = (k, v)" by (cases kv)
    show ?case using Cons.IH [of "push_entry m k v"] by (auto simp: kv push_entry_pairs)
  qed simp
  from this [of "[]"] show ?thesis by (simp add: group_entries_def)
qed

lemma push_entry_keys:
  "distinct (map fst m) \<Longrightarrow> distinct (map fst (push_entry m k v)) \<and> fst ` set (push_entry m k v) = insert k (fst ` set m)"
  by (induction m k v rule: push_entry.induct) auto

lemma map_of_push_entry:
  "map_of (push_entry m k v) = (map_of m)(k \<mapsto> (case map_of m k of None \<Rightarrow> [v] | Some vs \<Rightarrow> vs @ [v]))"
  by (induction m k v rule: push_entry.induct) (auto simp: fun_upd_twist)

lemma group_entries_snoc: "group_entries (kvs @ [(k, v)]) = push_entry (group_entries kvs) k v"
  by (simp add: group_entries_def)

lemma group_entries_keys: "distinct (map fst (group_entries kvs))"
proof (induction kvs rule: rev_induct)
  case (snoc kv kvs)
  then show ?case by (cases kv) (simp add: group_entries_snoc push_entry_keys)
qed (simp add: group_entries_def)

lemma map_of_group_entries:
  "map_of (group_entries kvs) k =
     (let vs = map snd (filter (\<lambda>(l, _). l = k) kvs) in if vs = [] then None else Some vs)"
proof (induction kvs rule: rev_induct)
  case (snoc kv kvs)
  then show ?case by (cases kv) (auto simp: group_entries_snoc map_of_push_entry Let_def)
qed (simp add: group_entries_def)

lemma group_entries_member:
  "(k, vs) \<in> set (group_entries kvs) \<longleftrightarrow> vs \<noteq> [] \<and> vs = map snd (filter (\<lambda>(l, _). l = k) kvs)"
  using map_of_group_entries [of kvs k] map_of_eq_Some_iff [OF group_entries_keys, of kvs k vs]
  by (auto simp: Let_def split: if_splits)

lemma distinct_map_filterI:
  assumes "distinct xs" and "\<And>x y k. x \<in> set xs \<Longrightarrow> y \<in> set xs \<Longrightarrow> f x = Some k \<Longrightarrow> f y = Some k \<Longrightarrow> x = y"
  shows "distinct (List.map_filter f xs)"
  using assms
proof (induction xs)
  case (Cons x xs)
  then show ?case by (cases "f x") (auto simp: set_map_filter)
qed simp

lemma mem_tl_sort_key:
  fixes f :: "'a \<Rightarrow> 'b::linorder"
  assumes "distinct xs" and "inj_on f (set xs)"
  shows "x \<in> set (tl (sort_key f xs)) \<longleftrightarrow> x \<in> set xs \<and> (\<exists>y \<in> set xs. f y < f x)"
proof (cases "sort_key f xs")
  case Nil
  then have "set xs = {}" by (metis set_empty set_sort)
  with Nil show ?thesis by simp
next
  case (Cons y ys)
  then have sets: "set xs = insert y (set ys)" by (metis list.simps(15) set_sort)
  have sorted: "sorted (map f (y # ys))" using sorted_sort_key [of f xs] Cons by simp
  have "distinct (y # ys)" using assms(1) Cons by (metis distinct_sort)
  with sorted sets assms(2) have "z \<in> set ys \<Longrightarrow> f y < f z" for z
    by (auto simp: inj_on_def less_le)
  with sets Cons show ?thesis by fastforce
qed

subsection \<open>Decimal numbers\<close>

lemma char_code_digit_char [simp]: "d < 10 \<Longrightarrow> char_code (digit_char d) = 48 + d"
  by (simp add: digit_char_def)

lemma digits_value_snoc [simp]: "digits_value (s @ [c]) = 10 * digits_value s + (char_code c - 48)"
  by (simp add: digits_value_def)

lemma digits_value_show_nat [simp]: "digits_value (show_nat n) = n"
proof (induction n rule: show_nat.induct)
  case (1 n)
  show ?case
  proof (cases "n < 10")
    case True
    then show ?thesis by (simp add: show_nat.simps [of n] digits_value_def)
  next
    case False
    with "1.IH" show ?thesis by (simp add: show_nat.simps [of n])
  qed
qed

lemma show_nat_inject [simp]: "show_nat m = show_nat n \<longleftrightarrow> m = n"
  by (metis digits_value_show_nat)

lemma is_ascii_digit_digit_char [simp]: "d < 10 \<Longrightarrow> is_ascii_digit (digit_char d)"
  by (simp add: is_ascii_digit_def)

lemma show_nat_digits: "list_all is_ascii_digit (show_nat n)"
proof (induction n rule: show_nat.induct)
  case (1 n)
  then show ?case by (cases "n < 10") (simp_all add: show_nat.simps [of n])
qed

lemma show_nat_nonempty [simp]: "show_nat n \<noteq> []"
  by (subst show_nat.simps) simp

lemma parse_unsigned_show_nat: "n < 2 ^ bits \<Longrightarrow> parse_unsigned bits (show_nat n) = Some n"
proof -
  assume bound: "n < 2 ^ bits"
  have no_plus: "show_nat n = c # cs \<Longrightarrow> c \<noteq> CHR ''+''" for c cs
    using show_nat_digits [of n] by (auto simp: is_ascii_digit_def char_code_def)
  then show ?thesis
    using bound show_nat_digits [of n]
    by (cases "show_nat n") (auto simp: parse_unsigned_def Let_def dest: sym)
qed

section \<open>Splitting and joining\<close>

lemma split_on_nonempty: "split_on c s \<noteq> []"
  by (induction s) (auto split: list.split)

lemma split_on_plain: "c \<notin> set s \<Longrightarrow> split_on c s = [s]"
  by (induction s) auto

lemma split_on_cons: "c \<notin> set s \<Longrightarrow> split_on c (s @ c # t) = s # split_on c t"
  by (induction s) auto

lemma split_on_join:
  "ps \<noteq> [] \<Longrightarrow> (\<And>p. p \<in> set ps \<Longrightarrow> c \<notin> set p) \<Longrightarrow> split_on c (join [c] ps) = ps"
  by (induction "[c]" ps rule: join.induct) (auto simp: split_on_plain split_on_cons)

lemma split_once_append: "c \<notin> set s \<Longrightarrow> split_once c (s @ c # t) = Some (s, t)"
  by (induction s) auto

lemma set_join: "set (join sep ps) \<subseteq> set sep \<union> (\<Union>p \<in> set ps. set p)"
  by (induction sep ps rule: join.induct) auto

lemma length_join:
  "(\<And>p. p \<in> set ps \<Longrightarrow> length p \<le> k) \<Longrightarrow> length (join sep ps) \<le> length ps * (k + length sep)"
proof (induction sep ps rule: join.induct)
  case (3 sep s t ss)
  have "length (join sep (t # ss)) \<le> length (t # ss) * (k + length sep)" by (rule "3.IH") (use "3.prems" in simp)
  moreover have "length s \<le> k" using "3.prems" by simp
  ultimately show ?case by simp
qed (auto intro: trans_le_add1)

lemma dropWhile_none: "\<forall>c \<in> set s. \<not> P c \<Longrightarrow> dropWhile P s = s"
  by (cases s) auto

lemma trim_id: "list_all (\<lambda>c. \<not> is_whitespace c) s \<Longrightarrow> trim s = s"
  by (simp add: trim_def list_all_iff dropWhile_none)

lemma str_len_simps [simp]:
  "str_len [] = 0" "str_len (c # s) = utf8_len c + str_len s" "str_len (s @ t) = str_len s + str_len t"
  by (simp_all add: str_len_def)

lemma str_len_ascii: "list_all is_ascii s \<Longrightarrow> str_len s = length s"
  by (induction s) (auto simp: str_len_def utf8_len_def)

lemma length_show_nat: "n < 10 ^ Suc k \<Longrightarrow> length (show_nat n) \<le> Suc k"
proof (induction k arbitrary: n)
  case 0
  then show ?case by (subst show_nat.simps) simp
next
  case (Suc k)
  show ?case
  proof (cases "n < 10")
    case True
    then show ?thesis by (subst show_nat.simps) simp
  next
    case False
    have "n div 10 < 10 ^ Suc k" using Suc.prems by (simp add: less_mult_imp_div_less mult.commute)
    from Suc.IH [OF this] show ?thesis using False by (subst show_nat.simps) simp
  qed
qed

text \<open>Bounds of machine types are compared as integers, whose numerals are binary.\<close>

lemma parse_unsigned_code [code]:
  "parse_unsigned bits s =
     (let ds = (case s of [] \<Rightarrow> [] | c # cs \<Rightarrow> if c = CHR ''+'' then cs else s)
      in if ds \<noteq> [] \<and> list_all is_ascii_digit ds \<and> int (digits_value ds) < 2 ^ bits
         then Some (digits_value ds) else None)"
proof -
  have "int n < 2 ^ k \<longleftrightarrow> n < 2 ^ k" for n k by (metis of_nat_less_iff of_nat_numeral of_nat_power)
  then show ?thesis by (simp add: parse_unsigned_def)
qed

lemma pred_option_code [code]: "pred_option P None = True" "pred_option P (Some a) = P a"
  by simp_all

text \<open>The character classes compare the character's number as an integer as well.\<close>

lemma char_code_int: "int (char_code c) = of_char c"
  unfolding char_code_def by (simp add: of_char_def horner_sum_foldr)

lemma char_class_code [code]:
  "is_ascii c \<longleftrightarrow> (of_char c :: int) < 128"
  "is_whitespace c \<longleftrightarrow> (let n = (of_char c :: int) in (9 \<le> n \<and> n \<le> 13) \<or> n = 32 \<or> n = 133 \<or> n = 160)"
  "is_control c \<longleftrightarrow> (let n = (of_char c :: int) in n < 32 \<or> (127 \<le> n \<and> n < 160))"
  "is_ascii_digit c \<longleftrightarrow> (let n = (of_char c :: int) in 48 \<le> n \<and> n \<le> 57)"
  by (auto simp: str_defs Let_def simp flip: char_code_int)

lemma to_upper_code [code]:
  "char_to_ascii_uppercase c = (let n = (of_char c :: int) in if 97 \<le> n \<and> n \<le> 122 then char_of (n - 32) else c)"
proof -
  have "char_of (int n - 32) = (char_of (n - 32) :: char)" if "97 \<le> n" for n
  proof -
    have "int n - 32 = int (n - 32)" using that by simp
    then show ?thesis by (simp only: char_of_nat)
  qed
  then show ?thesis
    unfolding char_to_ascii_uppercase_def Let_def char_code_int [symmetric] by auto
qed

section \<open>Chunks of a list\<close>

lemma concat_chunks: "0 < n \<Longrightarrow> concat (chunks n xs) = xs"
proof (induction n xs rule: chunks.induct)
  case (1 n xs)
  then show ?case by (subst chunks.simps) auto
qed

lemma chunks_size: "c \<in> set (chunks n xs) \<Longrightarrow> c \<noteq> [] \<and> length c \<le> n"
proof (induction n xs rule: chunks.induct)
  case (1 n xs)
  then show ?case by (subst (asm) (2) chunks.simps) (auto split: if_splits)
qed

end
