(* ===== verification/Error_Model.thy ===== *)
theory Error_Model
  imports Rust_Prelude
begin

text \<open>
  The error type every fallible operation of the backend returns (\<^verbatim>\<open>error.rs\<close>). A SQLite or
  I/O error is carried as the text its library displays.
\<close>

datatype CalendarMutationBlockReason = Recurring | UnknownRecurrence

datatype error =
    Database string
  | Imap_error string
  | MailParse string
  | Io string
  | AccountNotFound string
  | MessageNotFound string
  | Sync_error string
  | CalendarReadIncomplete string
  | GraphThrottled u64
  | Keyring string
  | AuthRequired string
  | OAuthStateMissing
  | OAuthStateMismatch
  | UnsupportedCapability string string
  | IndeterminateDelivery
  | CalendarMutationBlocked CalendarMutationBlockReason
  | Other string

type_synonym 'a result = "error + 'a"

fun block_reason_text :: "CalendarMutationBlockReason \<Rightarrow> string" where
  "block_reason_text Recurring =
     ''Editing, deleting, or moving recurring events is not supported in Chithi.''"
| "block_reason_text UnknownRecurrence =
     ''Recurrence information is unavailable. Refresh this event before editing.''"

fun error_to_string :: "error \<Rightarrow> string" where
  "error_to_string (Database e) = ''Database error: '' @ e"
| "error_to_string (Imap_error e) = ''IMAP error: '' @ e"
| "error_to_string (MailParse e) = ''Mail parse error: '' @ e"
| "error_to_string (Io e) = ''IO error: '' @ e"
| "error_to_string (AccountNotFound e) = ''Account not found: '' @ e"
| "error_to_string (MessageNotFound e) = ''Message not found: '' @ e"
| "error_to_string (Sync_error e) = ''Sync error: '' @ e"
| "error_to_string (CalendarReadIncomplete e) = ''Calendar read incomplete: '' @ e"
| "error_to_string (GraphThrottled n) =
     ''Graph throttled (429); retry after '' @ show_nat (unat n) @ '' seconds''"
| "error_to_string (Keyring e) = ''Keyring error: '' @ e"
| "error_to_string (AuthRequired e) = ''Re-authentication required: '' @ e"
| "error_to_string OAuthStateMissing = ''OAuth2 callback missing required state parameter''"
| "error_to_string OAuthStateMismatch = ''OAuth2 state mismatch (possible CSRF)''"
| "error_to_string (UnsupportedCapability p c) = p @ '' does not support '' @ c"
| "error_to_string IndeterminateDelivery = ''Delivery outcome is unknown''"
| "error_to_string (CalendarMutationBlocked r) = block_reason_text r"
| "error_to_string (Other e) = e"

fun is_indeterminate_delivery :: "error \<Rightarrow> bool" where
  "is_indeterminate_delivery IndeterminateDelivery = True"
| "is_indeterminate_delivery _ = False"

lemma is_indeterminate_delivery_iff: "is_indeterminate_delivery e \<longleftrightarrow> e = IndeterminateDelivery"
  by (cases e) simp_all

end
