(* ===== verification/Sql_Store.thy ===== *)
theory Sql_Store
  imports Error_Model
begin

text \<open>
  What the program relies on of SQLite, shared by every table that is modelled. A connection
  extends \<open>sqlite\<close>, which holds a schedule of faults: the statement that meets \<^term>\<open>True\<close> at the
  head of the schedule fails and changes nothing, every other statement takes effect at once.
  A transaction restores everything but the schedule when its body or its commit fails.
\<close>

section \<open>Statements\<close>

record sqlite =
  faults :: "bool list"

text \<open>Operations on a state that return a value or an error.\<close>

type_synonym ('s, 'a) run = "'s \<Rightarrow> 'a result \<times> 's"

definition sql :: "('c sqlite_scheme \<Rightarrow> 'a \<times> 'c sqlite_scheme) \<Rightarrow> ('c sqlite_scheme, 'a) run" where
  "sql f c =
     (case faults c of
        [] \<Rightarrow> (case f c of (a, c') \<Rightarrow> (Inr a, c'))
      | True # fs \<Rightarrow> (Inl (Database ''statement failed''), c\<lparr>faults := fs\<rparr>)
      | False # fs \<Rightarrow> (case f (c\<lparr>faults := fs\<rparr>) of (a, c') \<Rightarrow> (Inr a, c')))"

text \<open>A constraint the statement may violate: the statement then fails and changes nothing.\<close>

definition sql_checked ::
  "('c sqlite_scheme \<Rightarrow> bool) \<Rightarrow> string \<Rightarrow> ('c sqlite_scheme \<Rightarrow> 'a \<times> 'c sqlite_scheme) \<Rightarrow> ('c sqlite_scheme, 'a) run" where
  "sql_checked holds violated f c =
     (case sql (\<lambda>c. if holds c then map_prod Some id (f c) else (None, c)) c of
        (Inl e, c') \<Rightarrow> (Inl e, c')
      | (Inr None, c') \<Rightarrow> (Inl (Database violated), c')
      | (Inr (Some a), c') \<Rightarrow> (Inr a, c'))"

section \<open>Sequencing\<close>

definition db_return :: "'a \<Rightarrow> ('s, 'a) run" where
  "db_return a c = (Inr a, c)"

definition db_fail :: "error \<Rightarrow> ('s, 'a) run" where
  "db_fail e c = (Inl e, c)"

definition db_bind :: "('s, 'a) run \<Rightarrow> ('a \<Rightarrow> ('s, 'b) run) \<Rightarrow> ('s, 'b) run" where
  "db_bind m f c = (case m c of (Inl e, c') \<Rightarrow> (Inl e, c') | (Inr a, c') \<Rightarrow> f a c')"

fun db_each :: "('a \<Rightarrow> ('s, unit) run) \<Rightarrow> 'a list \<Rightarrow> ('s, unit) run" where
  "db_each f [] = db_return ()"
| "db_each f (x # xs) = db_bind (f x) (\<lambda>_. db_each f xs)"

definition rollback :: "'c sqlite_scheme \<Rightarrow> 'c sqlite_scheme \<Rightarrow> 'c sqlite_scheme" where
  "rollback before after = before\<lparr>faults := faults after\<rparr>"

definition transaction :: "('c sqlite_scheme, 'a) run \<Rightarrow> ('c sqlite_scheme, 'a) run" where
  "transaction body c =
     (case sql (Pair ()) c of
        (Inl e, c1) \<Rightarrow> (Inl e, c1)
      | (Inr _, c1) \<Rightarrow>
          (case body c1 of
             (Inl e, c2) \<Rightarrow> (Inl e, rollback c1 c2)
           | (Inr a, c2) \<Rightarrow>
               (case sql (Pair ()) c2 of
                  (Inl e, c3) \<Rightarrow> (Inl e, rollback c1 c3)
                | (Inr _, c3) \<Rightarrow> (Inr a, c3))))"

text \<open>Two connections with the same contents.\<close>

definition same_data :: "'c sqlite_scheme \<Rightarrow> 'c sqlite_scheme \<Rightarrow> bool" where
  "same_data c d \<longleftrightarrow> c\<lparr>faults := []\<rparr> = d\<lparr>faults := []\<rparr>"

section \<open>Lemmas\<close>

lemma same_data_refl [simp]: "same_data c c"
  by (simp add: same_data_def)

lemma same_data_sym: "same_data c d \<Longrightarrow> same_data d c"
  by (simp add: same_data_def)

lemma same_data_trans: "same_data a b \<Longrightarrow> same_data b c \<Longrightarrow> same_data a c"
  by (simp add: same_data_def)

lemma same_data_faults [simp]: "same_data (c\<lparr>faults := fs\<rparr>) c"
  by (simp add: same_data_def)

lemma same_data_rollback [simp]: "same_data (rollback c d) c"
  by (simp add: rollback_def)

lemma sql_data_cases [consumes 1, case_names failed ok]:
  assumes "sql f c = (r, c')"
  obtains (failed) e where "r = Inl e" "same_data c' c"
    | (ok) a fs d where "f (c\<lparr>faults := fs\<rparr>) = (a, d)" "r = Inr a" "c' = d"
proof (cases "faults c")
  case Nil
  then have same: "c\<lparr>faults := []\<rparr> = c" by simp
  show ?thesis
    by (rule ok [of "[]" "fst (f c)" "snd (f c)"], unfold same)
       (use assms Nil in \<open>auto simp: sql_def split: prod.splits\<close>)
next
  case (Cons b fs)
  show ?thesis
  proof (cases b)
    case True
    with assms Cons show ?thesis by (auto simp: sql_def intro!: failed)
  next
    case False
    with assms Cons show ?thesis
      by (auto simp: sql_def split: prod.splits intro!: ok [of fs])
  qed
qed

lemma sql_checked_cases [consumes 1, case_names failed ok]:
  assumes "sql_checked holds violated f c = (r, c')"
  obtains (failed) e where "r = Inl e" "same_data c' c"
    | (ok) a fs d where "holds (c\<lparr>faults := fs\<rparr>)" "f (c\<lparr>faults := fs\<rparr>) = (a, d)" "r = Inr a" "c' = d"
proof -
  let ?g = "\<lambda>c. if holds c then map_prod Some id (f c) else (None, c)"
  obtain r0 d where run: "sql ?g c = (r0, d)" by (cases "sql ?g c")
  from run show ?thesis
  proof (cases rule: sql_data_cases)
    case (failed e)
    with assms run show ?thesis by (auto simp: sql_checked_def intro!: that(1))
  next
    case (ok a fs d')
    show ?thesis
    proof (cases "holds (c\<lparr>faults := fs\<rparr>)")
      case True
      with assms run ok show ?thesis
        by (cases "f (c\<lparr>faults := fs\<rparr>)") (auto simp: sql_checked_def intro!: that(2))
    next
      case False
      with assms run ok show ?thesis by (auto simp: sql_checked_def intro!: that(1))
    qed
  qed
qed

lemma db_bind_cases [consumes 1, case_names failed ok]:
  assumes "db_bind m f c = (r, c')"
  obtains (failed) e where "m c = (Inl e, c')" "r = Inl e"
    | (ok) a d where "m c = (Inr a, d)" "f a d = (r, c')"
  using assms by (auto simp: db_bind_def split: prod.splits sum.splits)

lemma db_bind_return [simp]: "db_bind (db_return a) f = f a"
  by (rule ext) (simp add: db_bind_def db_return_def)

lemma sql_Pair_data: "sql (Pair ()) c = (r, c') \<Longrightarrow> same_data c' c"
  by (erule sql_data_cases) auto

text \<open>A transaction is all or nothing: an error leaves the data as they were.\<close>

lemma transaction_error_data: "transaction body c = (Inl e, c') \<Longrightarrow> same_data c' c"
  by (auto simp: transaction_def split: prod.splits sum.splits
      dest!: sql_Pair_data intro: same_data_trans [OF same_data_rollback])

lemma transaction_ok_data:
  assumes "transaction body c = (Inr a, c')"
  obtains c1 c2 where "same_data c1 c" "body c1 = (Inr a, c2)" "same_data c' c2"
  using assms by (auto simp: transaction_def split: prod.splits sum.splits dest!: sql_Pair_data)

end
