(* ===== verification/Outbox_Table.thy ===== *)
theory Outbox_Table
  imports Sql_Store
begin

text \<open>
  The \<^verbatim>\<open>outbox\<close> table of \<^verbatim>\<open>db/schema.rs\<close> and the SQLite statements the program runs on it. A
  connection holds the rows in rowid order and the next AUTOINCREMENT value. The \<^verbatim>\<open>created_at\<close>
  column is never read and is left out.
\<close>

section \<open>State\<close>

record outbox_row =
  row_id :: int
  row_account :: string
  row_action :: string
  row_payload :: string
  row_status :: string
  row_retry :: int
  row_error :: "string option"

record conn = sqlite +
  outbox :: "outbox_row list"
  next_rowid :: int

type_synonym 'a db = "(conn, 'a) run"

section \<open>Statements\<close>

definition sql_insert :: "(int \<Rightarrow> outbox_row) \<Rightarrow> int db" where
  "sql_insert mk = sql (\<lambda>c. (next_rowid c,
     c\<lparr>outbox := outbox c @ [mk (next_rowid c)], next_rowid := next_rowid c + 1\<rparr>))"

definition sql_update :: "(outbox_row \<Rightarrow> bool) \<Rightarrow> (outbox_row \<Rightarrow> outbox_row) \<Rightarrow> outbox_row list db" where
  "sql_update p u = sql (\<lambda>c. (map u (filter p (outbox c)),
     c\<lparr>outbox := map (\<lambda>r. if p r then u r else r) (outbox c)\<rparr>))"

definition sql_delete :: "(outbox_row \<Rightarrow> bool) \<Rightarrow> nat db" where
  "sql_delete p = sql (\<lambda>c. (length (filter p (outbox c)),
     c\<lparr>outbox := filter (\<lambda>r. \<not> p r) (outbox c)\<rparr>))"

definition sql_select :: "(outbox_row \<Rightarrow> bool) \<Rightarrow> outbox_row list db" where
  "sql_select p = sql (\<lambda>c. (filter p (outbox c), c))"

section \<open>Identity of rows\<close>

text \<open>Row ids are distinct and below the next AUTOINCREMENT value.\<close>

definition ids_ok :: "conn \<Rightarrow> bool" where
  "ids_ok c \<longleftrightarrow> distinct (map row_id (outbox c)) \<and> list_all (\<lambda>r. row_id r < next_rowid c) (outbox c)"

text \<open>A row some task has claimed for delivery.\<close>

definition claimed :: "outbox_row \<Rightarrow> bool" where
  "claimed r \<longleftrightarrow> row_action r = ''send'' \<and> row_status r = ''sending''"

text \<open>Two connections with the same table.\<close>

definition same_table :: "conn \<Rightarrow> conn \<Rightarrow> bool" where
  "same_table c d \<longleftrightarrow> outbox c = outbox d \<and> next_rowid c = next_rowid d"

section \<open>Lemmas\<close>

lemma same_data_table: "same_data c d \<Longrightarrow> same_table c d"
  by (cases c; cases d) (simp add: same_data_def same_table_def)

lemma sql_cases [consumes 1, case_names failed ok]:
  assumes "sql f c = (r, c')"
  obtains (failed) e where "r = Inl e" "same_table c' c"
    | (ok) a fs d where "f (c\<lparr>faults := fs\<rparr>) = (a, d)" "r = Inr a" "c' = d"
  using assms by (cases rule: sql_data_cases) (auto dest: same_data_table)

lemma same_table_refl [simp]: "same_table c c"
  by (simp add: same_table_def)

lemma same_table_rollback [simp]: "same_table (rollback c d) c"
  by (simp add: rollback_def same_table_def)

lemma same_table_ids_ok: "same_table c d \<Longrightarrow> ids_ok c = ids_ok d"
  by (simp add: same_table_def ids_ok_def)

lemma filter_eq_member: "filter P xs = filter P ys \<Longrightarrow> x \<in> set xs \<Longrightarrow> P x \<Longrightarrow> x \<in> set ys"
  by (metis filter_set mem_Collect_eq set_filter)

lemma same_table_trans: "same_table a b \<Longrightarrow> same_table b c \<Longrightarrow> same_table a c"
  by (simp add: same_table_def)

lemma transaction_error: "transaction body c = (Inl e, c') \<Longrightarrow> same_table c' c"
  by (blast intro: same_data_table transaction_error_data)

lemma transaction_ok:
  assumes "transaction body c = (Inr a, c')"
  obtains c1 c2 where "same_table c1 c" "body c1 = (Inr a, c2)" "same_table c' c2"
  using assms by (blast elim: transaction_ok_data dest: same_data_table)

section \<open>Contracts of operations\<close>

text \<open>
  A contract is a relation between the connection before and after an operation. Every
  contract that depends on the table only, is reflexive and transitive and keeps the row ids
  in order is established statement by statement.
\<close>

definition obeys :: "(conn \<Rightarrow> conn \<Rightarrow> bool) \<Rightarrow> 'a db \<Rightarrow> bool" where
  "obeys R run \<longleftrightarrow> (\<forall>c r c'. ids_ok c \<longrightarrow> run c = (r, c') \<longrightarrow> R c c')"

lemma obeysI: "(\<And>c r c'. ids_ok c \<Longrightarrow> run c = (r, c') \<Longrightarrow> R c c') \<Longrightarrow> obeys R run"
  by (simp add: obeys_def)

lemma obeysD: "obeys R run \<Longrightarrow> ids_ok c \<Longrightarrow> run c = (r, c') \<Longrightarrow> R c c'"
  by (simp add: obeys_def)

locale step_contract =
  fixes R :: "conn \<Rightarrow> conn \<Rightarrow> bool"
  assumes reflexive: "ids_ok c \<Longrightarrow> R c c"
    and transitive: "R a b \<Longrightarrow> R b c \<Longrightarrow> R a c"
    and table_only: "R c c' \<Longrightarrow> same_table d c \<Longrightarrow> same_table d' c' \<Longrightarrow> R d d'"
    and ids_stay: "R c c' \<Longrightarrow> ids_ok c'"
begin

lemma same_table_related: "ids_ok c \<Longrightarrow> same_table c' c \<Longrightarrow> R c c'"
  using table_only [OF reflexive same_table_refl] by blast

lemma obeys_sql:
  assumes "\<And>c a d. ids_ok c \<Longrightarrow> f c = (a, d) \<Longrightarrow> R c d"
  shows "obeys R (sql f)"
proof (rule obeysI)
  fix c r c' assume ids: "ids_ok c" and "sql f c = (r, c')"
  from this(2) show "R c c'"
  proof (cases rule: sql_cases)
    case (failed e)
    with ids show ?thesis by (simp add: same_table_related)
  next
    case (ok a fs d)
    have "ids_ok (c\<lparr>faults := fs\<rparr>)" using ids by (simp add: ids_ok_def)
    from assms [OF this ok(1)] have "R (c\<lparr>faults := fs\<rparr>) d" .
    then have "R c d" by (rule table_only) (simp_all add: same_table_def)
    with ok(3) show ?thesis by simp
  qed
qed

lemma obeys_return: "obeys R (db_return a)"
  by (rule obeysI) (auto simp: db_return_def intro: reflexive)

lemma obeys_fail: "obeys R (db_fail e)"
  by (rule obeysI) (auto simp: db_fail_def intro: reflexive)

lemma obeys_select: "obeys R (sql_select p)"
  unfolding sql_select_def by (rule obeys_sql) (auto intro: reflexive)

lemma obeys_bind:
  assumes "obeys R m" and "\<And>a. obeys R (f a)"
  shows "obeys R (db_bind m f)"
proof (rule obeysI)
  fix c r c' assume ids: "ids_ok c" and "db_bind m f c = (r, c')"
  from this(2) show "R c c'"
  proof (cases rule: db_bind_cases)
    case (failed e)
    with assms(1) ids show ?thesis by (auto dest: obeysD)
  next
    case (ok a d)
    have "R c d" using obeysD [OF assms(1) ids ok(1)] .
    moreover from this have "R d c'"
      using obeysD [OF assms(2) ids_stay ok(2)] by simp
    ultimately show ?thesis by (rule transitive)
  qed
qed

lemma obeys_if: "obeys R a \<Longrightarrow> obeys R b \<Longrightarrow> obeys R (if p then a else b)"
  by simp

text \<open>A transaction respects what its body does from a given table.\<close>

lemma transaction_related:
  assumes "transaction body c = (r, c')" and "ids_ok c"
    and "\<And>c1 c2 a. same_table c1 c \<Longrightarrow> body c1 = (Inr a, c2) \<Longrightarrow> R c1 c2"
  shows "R c c'"
proof (cases r)
  case (Inl e)
  with assms(1,2) show ?thesis by (auto dest: transaction_error intro: same_table_related)
next
  case (Inr a)
  with assms(1) have "transaction body c = (Inr a, c')" by simp
  then obtain c1 c2 where c1: "same_table c1 c" and b: "body c1 = (Inr a, c2)" and c2: "same_table c' c2"
    by (rule transaction_ok)
  have "same_table c c1" using c1 by (simp add: same_table_def)
  from table_only [OF assms(3) [OF c1 b] this c2] show ?thesis .
qed

end

subsection \<open>Claims\<close>

text \<open>
  The contract of every operation that may run while a delivery is in flight: row ids stay
  unique and are never reused, and the claimed rows are exactly what they were.
\<close>

definition claims_kept :: "conn \<Rightarrow> conn \<Rightarrow> bool" where
  "claims_kept c c' \<longleftrightarrow> ids_ok c' \<and> next_rowid c \<le> next_rowid c'
     \<and> filter claimed (outbox c') = filter claimed (outbox c)"

interpretation claims: step_contract claims_kept
  by unfold_locales (auto simp: claims_kept_def same_table_def ids_ok_def)

subsection \<open>Queued sends\<close>

text \<open>
  A send that waits for automatic delivery. Operations that are not a retry let a row wait
  only if it already did, with the same retry count, or if they inserted it.
\<close>

definition waiting :: "outbox_row \<Rightarrow> bool" where
  "waiting r \<longleftrightarrow> row_action r = ''send'' \<and> row_status r = ''pending''"

definition no_requeue :: "conn \<Rightarrow> conn \<Rightarrow> bool" where
  "no_requeue c c' \<longleftrightarrow>
     (\<forall>r' \<in> set (outbox c'). waiting r' \<longrightarrow>
        (\<exists>r \<in> set (outbox c). waiting r \<and> row_id r = row_id r' \<and> row_retry r = row_retry r')
      \<or> (next_rowid c \<le> row_id r' \<and> row_retry r' = 0))"

definition quiet :: "conn \<Rightarrow> conn \<Rightarrow> bool" where
  "quiet c c' \<longleftrightarrow> claims_kept c c' \<and> no_requeue c c'"

lemma no_requeue_trans:
  assumes "no_requeue a b" and "no_requeue b c" and "next_rowid a \<le> next_rowid b"
  shows "no_requeue a c"
  unfolding no_requeue_def
proof (intro ballI impI)
  fix r' assume "r' \<in> set (outbox c)" and "waiting r'"
  with assms(2) consider r where "r \<in> set (outbox b)" "waiting r" "row_id r = row_id r'" "row_retry r = row_retry r'"
    | "next_rowid b \<le> row_id r'" "row_retry r' = 0"
    unfolding no_requeue_def by blast
  then show "(\<exists>r \<in> set (outbox a). waiting r \<and> row_id r = row_id r' \<and> row_retry r = row_retry r')
      \<or> (next_rowid a \<le> row_id r' \<and> row_retry r' = 0)"
    using assms(1,3) unfolding no_requeue_def by (cases) fastforce+
qed

interpretation quiet: step_contract quiet
proof unfold_locales
  show "quiet c c" if "ids_ok c" for c
    using that by (auto simp: quiet_def no_requeue_def claims.reflexive)
  show "quiet a c" if "quiet a b" "quiet b c" for a b c
    using that no_requeue_trans [of a b c] claims.transitive [of a b c]
    by (auto simp: quiet_def claims_kept_def)
  show "quiet d d'" if "quiet c c'" "same_table d c" "same_table d' c'" for c c' d d'
    using that claims.table_only [of c c' d d'] by (simp add: quiet_def no_requeue_def same_table_def)
  show "ids_ok c'" if "quiet c c'" for c c'
    using that by (auto simp: quiet_def claims.ids_stay)
qed

subsection \<open>Operations\<close>

locale claim_neutral =
  fixes run :: "'a db"
  assumes obeys_claims: "obeys claims_kept run"
begin

lemma claimed_row_survives:
  "ids_ok c \<Longrightarrow> run c = (r, c') \<Longrightarrow> row \<in> set (outbox c) \<Longrightarrow> claimed row \<Longrightarrow> row \<in> set (outbox c')"
  using obeysD [OF obeys_claims, of c r c']
  by (auto simp: claims_kept_def intro: filter_eq_member [OF sym])

lemma no_new_claims:
  "ids_ok c \<Longrightarrow> run c = (r, c') \<Longrightarrow> row \<in> set (outbox c') \<Longrightarrow> claimed row \<Longrightarrow> row \<in> set (outbox c)"
  using obeysD [OF obeys_claims, of c r c']
  by (auto simp: claims_kept_def intro: filter_eq_member)

end

locale quiet_operation =
  fixes run :: "'a db"
  assumes obeys_quiet: "obeys quiet run"

sublocale quiet_operation \<subseteq> claim_neutral run
  using obeys_quiet by unfold_locales (auto simp: obeys_def quiet_def)


subsection \<open>Statements\<close>

lemma filter_map_unclaimed:
  "(\<And>r. p r \<Longrightarrow> \<not> claimed r \<and> \<not> claimed (u r)) \<Longrightarrow>
     filter claimed (map (\<lambda>r. if p r then u r else r) xs) = filter claimed xs"
  by (induction xs) auto

lemma map_row_id_update:
  "(\<And>r. p r \<Longrightarrow> row_id (u r) = row_id r) \<Longrightarrow>
     map row_id (map (\<lambda>r. if p r then u r else r) xs) = map row_id xs"
  by (induction xs) auto

lemma ids_ok_iff: "ids_ok c \<longleftrightarrow> distinct (map row_id (outbox c)) \<and> (\<forall>i \<in> set (map row_id (outbox c)). i < next_rowid c)"
  by (auto simp: ids_ok_def list_all_iff)

lemma ids_ok_update:
  assumes "ids_ok c" and "\<And>r. p r \<Longrightarrow> row_id (u r) = row_id r"
  shows "ids_ok (c\<lparr>outbox := map (\<lambda>r. if p r then u r else r) (outbox c)\<rparr>)"
proof -
  have "map row_id (map (\<lambda>r. if p r then u r else r) (outbox c)) = map row_id (outbox c)"
    using assms(2) by (rule map_row_id_update)
  with assms(1) show ?thesis unfolding ids_ok_iff by (simp del: map_map set_map)
qed

lemma claims_kept_update:
  assumes "ids_ok c" and "\<And>r. p r \<Longrightarrow> \<not> claimed r \<and> \<not> claimed (u r) \<and> row_id (u r) = row_id r"
  shows "claims_kept c (c\<lparr>outbox := map (\<lambda>r. if p r then u r else r) (outbox c)\<rparr>)"
  using ids_ok_update [OF assms(1), of p u] filter_map_unclaimed [of p u "outbox c"] assms(2)
  by (auto simp: claims_kept_def)

lemma claims_update:
  assumes "\<And>r. p r \<Longrightarrow> \<not> claimed r \<and> \<not> claimed (u r) \<and> row_id (u r) = row_id r"
  shows "obeys claims_kept (sql_update p u)"
  unfolding sql_update_def
  by (rule claims.obeys_sql) (use claims_kept_update assms in auto)

lemma claims_delete:
  assumes "\<And>r. p r \<Longrightarrow> \<not> claimed r"
  shows "obeys claims_kept (sql_delete p)"
  unfolding sql_delete_def
proof (rule claims.obeys_sql)
  fix c a d
  assume "ids_ok c" and "(length (filter p (outbox c)), c\<lparr>outbox := filter (\<lambda>r. \<not> p r) (outbox c)\<rparr>) = (a, d)"
  moreover have "filter claimed (filter (\<lambda>r. \<not> p r) xs) = filter claimed xs" for xs
    using assms by (induction xs) auto
  ultimately show "claims_kept c d"
    by (auto simp: claims_kept_def ids_ok_def list_all_iff distinct_map_filter)
qed

lemma quiet_update:
  assumes "\<And>r. p r \<Longrightarrow> \<not> claimed r \<and> \<not> claimed (u r) \<and> row_id (u r) = row_id r
      \<and> (waiting (u r) \<longrightarrow> waiting r \<and> row_retry (u r) = row_retry r)"
  shows "obeys quiet (sql_update p u)"
  unfolding sql_update_def
proof (rule quiet.obeys_sql)
  fix c a d
  assume "ids_ok c"
    and d: "(map u (filter p (outbox c)), c\<lparr>outbox := map (\<lambda>r. if p r then u r else r) (outbox c)\<rparr>) = (a, d)"
  then have "claims_kept c d" using claims_kept_update [of c p u] assms by auto
  moreover have "no_requeue c (c\<lparr>outbox := map (\<lambda>r. if p r then u r else r) (outbox c)\<rparr>)"
    unfolding no_requeue_def using assms by fastforce
  ultimately show "quiet c d" using d by (auto simp: quiet_def)
qed

lemma quiet_delete:
  assumes "\<And>r. p r \<Longrightarrow> \<not> claimed r"
  shows "obeys quiet (sql_delete p)"
proof -
  have "obeys claims_kept (sql_delete p)" using assms by (rule claims_delete)
  moreover have "obeys no_requeue (sql_delete p)"
    by (intro obeysI) (auto simp: sql_delete_def no_requeue_def same_table_def elim!: sql_cases)
  ultimately show ?thesis by (simp add: obeys_def quiet_def)
qed

text \<open>An inserted row is fresh; it may wait with retry count zero, but it is not claimed.\<close>

lemma quiet_insert:
  assumes "\<And>i. \<not> claimed (mk i) \<and> row_id (mk i) = i \<and> row_retry (mk i) = 0"
  shows "obeys quiet (sql_insert mk)"
  unfolding sql_insert_def
proof (rule quiet.obeys_sql)
  fix c a d
  assume "ids_ok c"
    and "(next_rowid c, c\<lparr>outbox := outbox c @ [mk (next_rowid c)], next_rowid := next_rowid c + 1\<rparr>) = (a, d)"
  then show "quiet c d"
    using assms by (fastforce simp: quiet_def no_requeue_def claims_kept_def ids_ok_def list_all_iff)
qed

lemmas quiet_intros =
  quiet.obeys_bind quiet.obeys_return quiet.obeys_fail quiet.obeys_select quiet_update quiet_delete quiet_insert


section \<open>The table as a map\<close>

text \<open>The abstract table: the row of each id. Statements on one id are map updates.\<close>

definition table_of :: "conn \<Rightarrow> int \<Rightarrow> outbox_row option" where
  "table_of c = map_of (map (\<lambda>r. (row_id r, r)) (outbox c))"

lemma rows_Some: "ids_ok c \<Longrightarrow> table_of c i = Some r \<longleftrightarrow> r \<in> set (outbox c) \<and> row_id r = i"
  unfolding table_of_def ids_ok_def
  by (subst map_of_eq_Some_iff) (auto simp: o_def)

lemma rows_table: "same_table c d \<Longrightarrow> table_of c = table_of d"
  by (simp add: table_of_def same_table_def)

lemma rows_row_id: "ids_ok c \<Longrightarrow> table_of c i = Some r \<Longrightarrow> row_id r = i"
  by (simp add: rows_Some)

lemma rows_below_next: "ids_ok c \<Longrightarrow> table_of c i = Some r \<Longrightarrow> i < next_rowid c"
  by (auto simp: rows_Some ids_ok_def list_all_iff)

lemma filter_one:
  assumes "distinct (map row_id xs)" and "\<And>r. p r \<Longrightarrow> row_id r = i"
  shows "filter p xs = (case map_of (map (\<lambda>r. (row_id r, r)) xs) i of
           None \<Rightarrow> [] | Some r \<Rightarrow> if p r then [r] else [])"
  using assms(1)
proof (induction xs)
  case (Cons y ys)
  show ?case
  proof (cases "row_id y = i")
    case True
    then have "\<forall>r \<in> set ys. row_id r \<noteq> i" using Cons.prems by (metis distinct.simps(2) imageI list.simps(9) set_map)
    then have "filter p ys = []" using assms(2) by (auto simp: filter_empty_conv)
    with True show ?thesis by simp
  next
    case False
    with Cons assms(2) [of y] show ?thesis by auto
  qed
qed simp

lemma map_of_update_rows:
  assumes "\<And>r. row_id (u r) = row_id r"
  shows "map_of (map (\<lambda>r. (row_id r, r)) (map (\<lambda>r. if p r then u r else r) xs)) k
       = map_option (\<lambda>r. if p r then u r else r) (map_of (map (\<lambda>r. (row_id r, r)) xs) k)"
  using assms by (induction xs) auto

text \<open>What a statement on one id returns and does, on a table with unique ids.\<close>

lemma update_one:
  assumes "ids_ok c" and "sql_update p u c = (res, c')"
    and one: "\<And>r. p r \<Longrightarrow> row_id r = i" and same: "\<And>r. row_id (u r) = row_id r"
  shows "ids_ok c' \<and> next_rowid c' = next_rowid c \<and>
     (case res of
        Inl e \<Rightarrow> table_of c' = table_of c
      | Inr rs \<Rightarrow>
          (case table_of c i of
             Some r \<Rightarrow> if p r then rs = [u r] \<and> table_of c' = (table_of c)(i \<mapsto> u r) else rs = [] \<and> table_of c' = table_of c
           | None \<Rightarrow> rs = [] \<and> table_of c' = table_of c))"
  using assms(2) [unfolded sql_update_def]
proof (cases rule: sql_cases)
  case (failed e)
  with assms(1) show ?thesis by (auto simp: rows_table same_table_ids_ok) (simp add: same_table_def)
next
  case (ok a fs d)
  let ?xs = "outbox c" and ?v = "\<lambda>r. if p r then u r else r"
  have out: "outbox c' = map ?v ?xs" "next_rowid c' = next_rowid c" "a = map u (filter p ?xs)"
    using ok by auto
  have ids: "ids_ok c'"
    using ids_ok_update [OF assms(1), of p u] same out by (simp add: ids_ok_def)
  have rows': "table_of c' k = map_option ?v (table_of c k)" for k
    unfolding table_of_def out(1) using same by (rule map_of_update_rows)
  have flt: "filter p ?xs = (case table_of c i of None \<Rightarrow> [] | Some r \<Rightarrow> if p r then [r] else [])"
    using filter_one [OF _ one, of ?xs] assms(1) by (simp add: ids_ok_def table_of_def)
  have other: "table_of c' k = table_of c k" if "k \<noteq> i" for k
    using that rows' [of k] one rows_row_id [OF assms(1), of k] by (cases "table_of c k") auto
  have "table_of c' = (table_of c)(i := map_option ?v (table_of c i))"
    using other rows' [of i] by (auto simp: fun_eq_iff)
  then show ?thesis
    using ids out(2,3) ok(2) flt by (cases "table_of c i") (auto simp: fun_upd_idem)
qed

lemma option_filter:
  assumes "\<And>r. a = Some r \<longleftrightarrow> b = Some r \<and> \<not> p r"
  shows "a = (case b of None \<Rightarrow> None | Some r \<Rightarrow> if p r then None else Some r)"
proof (cases a)
  case None
  then have "b = Some r \<Longrightarrow> p r" for r using assms [of r] by simp
  with None show ?thesis by (simp split: option.split)
next
  case (Some r)
  then have "b = Some r \<and> \<not> p r" using assms [of r] by simp
  with Some show ?thesis by simp
qed

lemma delete_one:
  assumes "ids_ok c" and "sql_delete p c = (res, c')" and one: "\<And>r. p r \<Longrightarrow> row_id r = i"
  shows "ids_ok c' \<and> next_rowid c' = next_rowid c \<and>
     (case res of
        Inl e \<Rightarrow> table_of c' = table_of c
      | Inr n \<Rightarrow>
          (case table_of c i of
             Some r \<Rightarrow> if p r then n = 1 \<and> table_of c' = (table_of c)(i := None) else n = 0 \<and> table_of c' = table_of c
           | None \<Rightarrow> n = 0 \<and> table_of c' = table_of c))"
  using assms(2) [unfolded sql_delete_def]
proof (cases rule: sql_cases)
  case (failed e)
  with assms(1) show ?thesis by (auto simp: rows_table same_table_ids_ok) (simp add: same_table_def)
next
  case (ok a fs d)
  have out: "outbox c' = filter (\<lambda>r. \<not> p r) (outbox c)" "next_rowid c' = next_rowid c"
    "a = length (filter p (outbox c))" using ok by auto
  have ids: "ids_ok c'"
    using assms(1) out(1,2) by (auto simp: ids_ok_def list_all_iff distinct_map_filter)
  have rows': "table_of c' k = Some r \<longleftrightarrow> table_of c k = Some r \<and> \<not> p r" for k r
    using out(1) by (auto simp: rows_Some [OF ids] rows_Some [OF assms(1)])
  have flt: "filter p (outbox c) = (case table_of c i of None \<Rightarrow> [] | Some r \<Rightarrow> if p r then [r] else [])"
    using filter_one [OF _ one, of "outbox c"] assms(1) by (simp add: ids_ok_def table_of_def)
  have other: "table_of c' k = table_of c k" if "k \<noteq> i" for k
    using that rows' [of k] one rows_row_id [OF assms(1), of k] by (metis not_None_eq)
  have "table_of c' i = (case table_of c i of None \<Rightarrow> None | Some r \<Rightarrow> if p r then None else Some r)"
    using rows' [of i] by (rule option_filter)
  then have "table_of c' = (table_of c)(i := case table_of c i of None \<Rightarrow> None | Some r \<Rightarrow> if p r then None else Some r)"
    using other by (auto simp: fun_eq_iff)
  then show ?thesis
    using ids out(2,3) ok(2) flt by (cases "table_of c i") (auto simp: fun_upd_idem)
qed

lemma insert_one:
  assumes "ids_ok c" and "sql_insert mk c = (res, c')" and "\<And>i. row_id (mk i) = i"
  shows "ids_ok c' \<and> next_rowid c \<le> next_rowid c' \<and>
     (case res of
        Inl e \<Rightarrow> table_of c' = table_of c
      | Inr i \<Rightarrow> i = next_rowid c \<and> next_rowid c' = next_rowid c + 1 \<and> table_of c i = None
               \<and> table_of c' = (table_of c)(i \<mapsto> mk i))"
  using assms(2) [unfolded sql_insert_def]
proof (cases rule: sql_cases)
  case (failed e)
  with assms(1) show ?thesis by (auto simp: rows_table same_table_ids_ok) (simp add: same_table_def)
next
  case (ok a fs d)
  have out: "outbox c' = outbox c @ [mk a]" "next_rowid c' = next_rowid c + 1" "a = next_rowid c"
    using ok by auto
  have ids: "ids_ok c'"
    using assms(1,3) out by (fastforce simp: ids_ok_def list_all_iff)
  have new: "table_of c a = None" using rows_below_next [OF assms(1), of a] out(3) by (cases "table_of c a") auto
  have "table_of c' k = ((table_of c)(a \<mapsto> mk a)) k" for k
    using out(1) new assms(3) by (cases "table_of c k") (auto simp: table_of_def map_add_def split: option.splits)
  with ids new out ok(2) show ?thesis by auto
qed

end
