(* ===== verification/Message.thy ===== *)
theory Message
  imports Rust_Prelude
begin

text \<open>
  Provider-neutral message identities (\<^verbatim>\<open>message.rs\<close>): the references the queue, the flag
  algebra, the outbox and the filters speak about; their persisted database ids; the meaning
  of the persisted body location; and the canonical Message-ID.
\<close>

section \<open>Message references\<close>

text \<open>\<open>Imap folder_path uid\<close>, \<open>Jmap mailbox_id email_id\<close> or \<open>Graph item_id\<close>.\<close>

datatype BackendMessageRef =
    Imap string u32
  | Jmap string string
  | Graph string

definition graph_from_db_id :: "string \<Rightarrow> string \<Rightarrow> BackendMessageRef" where
  "graph_from_db_id account_id db_id =
     (let prefix = account_id @ ''_''
      in Graph (case strip_prefix prefix db_id of None \<Rightarrow> db_id | Some rest \<Rightarrow> rest))"

definition jmap_from_db_id :: "string \<Rightarrow> string \<Rightarrow> string \<Rightarrow> BackendMessageRef option" where
  "jmap_from_db_id account_id mailbox db_id =
     (let prefix = account_id @ ''_'' @ mailbox @ ''_''
      in map_option (Jmap mailbox) (strip_prefix prefix db_id))"

definition from_db_row ::
  "string \<Rightarrow> string \<Rightarrow> string \<Rightarrow> string \<Rightarrow> u32 \<Rightarrow> BackendMessageRef option" where
  "from_db_row protocol account_id db_id folder u =
     (if protocol = ''graph'' then Some (graph_from_db_id account_id db_id)
      else if protocol = ''jmap'' then jmap_from_db_id account_id folder db_id
      else Some (Imap folder u))"

fun to_db_id :: "BackendMessageRef \<Rightarrow> string \<Rightarrow> string" where
  "to_db_id (Imap folder u) account_id =
     account_id @ ''_'' @ folder @ ''_'' @ show_nat (unat u)"
| "to_db_id (Jmap mailbox email) account_id = account_id @ ''_'' @ mailbox @ ''_'' @ email"
| "to_db_id (Graph item) account_id = account_id @ ''_'' @ item"

fun graph_item_id :: "BackendMessageRef \<Rightarrow> string option" where
  "graph_item_id (Graph item) = Some item"
| "graph_item_id _ = None"

fun into_jmap_email_id :: "BackendMessageRef \<Rightarrow> string option" where
  "into_jmap_email_id (Jmap _ email) = Some email"
| "into_jmap_email_id _ = None"

text \<open>Two references identify the same provider object. A JMAP email lives in several
  mailboxes, so the mailbox is not part of its identity.\<close>

fun same_message :: "BackendMessageRef \<Rightarrow> BackendMessageRef \<Rightarrow> bool" where
  "same_message (Jmap _ l) (Jmap _ r) \<longleftrightarrow> l = r"
| "same_message a b \<longleftrightarrow> a = b"

section \<open>Body location\<close>

datatype BodyLocation = NotFetched | Local string | GraphRemote string

definition from_persisted :: "string \<Rightarrow> BodyLocation" where
  "from_persisted v =
     (if v = [] then NotFetched
      else case strip_prefix ''graph:'' v of
        Some item \<Rightarrow> GraphRemote item
      | None \<Rightarrow> Local v)"

fun to_persisted :: "BodyLocation \<Rightarrow> string" where
  "to_persisted NotFetched = []"
| "to_persisted (Local path) = path"
| "to_persisted (GraphRemote item) = ''graph:'' @ item"

fun local_path :: "BodyLocation \<Rightarrow> string option" where
  "local_path (Local path) = Some path"
| "local_path _ = None"

fun body_graph_item_id :: "BodyLocation \<Rightarrow> string option" where
  "body_graph_item_id (GraphRemote item) = Some item"
| "body_graph_item_id _ = None"

definition needs_fetch :: "BodyLocation \<Rightarrow> bool" where
  "needs_fetch l \<longleftrightarrow> local_path l = None"

section \<open>Message-ID\<close>

definition message_id_core :: "string \<Rightarrow> string" where
  "message_id_core v = filter (\<lambda>c. \<not> is_whitespace c \<and> c \<noteq> CHR ''<'' \<and> c \<noteq> CHR ''>'') v"

definition normalize_message_id :: "string \<Rightarrow> string option" where
  "normalize_message_id v =
     (let core = message_id_core v
      in if core = [] then None else Some (''<'' @ core @ ''>''))"

section \<open>Search fields\<close>

record SearchFields =
  search_subject :: bool
  search_from :: bool
  search_to :: bool
  search_body :: bool

definition default_search_fields :: SearchFields where
  "default_search_fields = \<lparr>search_subject = True, search_from = True,
     search_to = True, search_body = True\<rparr>"

definition all_enabled :: "SearchFields \<Rightarrow> bool" where
  "all_enabled f \<longleftrightarrow> search_subject f \<and> search_from f \<and> search_to f \<and> search_body f"

definition any_enabled :: "SearchFields \<Rightarrow> bool" where
  "any_enabled f \<longleftrightarrow> search_subject f \<or> search_from f \<or> search_to f \<or> search_body f"

section \<open>The identity contract\<close>

text \<open>
  What the clients of an identity test rely on: it is an equivalence. The two list operations
  that the queue and the flag algebra build on it, membership up to identity and insertion
  without duplicates, are proved once from these laws.
\<close>

locale identity_test =
  fixes same :: "'a \<Rightarrow> 'a \<Rightarrow> bool"
  assumes same_refl: "same a a"
    and same_sym: "same a b \<Longrightarrow> same b a"
    and same_trans: "same a b \<Longrightarrow> same b c \<Longrightarrow> same a c"
begin

lemma same_cong: "same a b \<Longrightarrow> same c a \<longleftrightarrow> same c b"
  by (meson same_sym same_trans)

lemma ex_same_cong: "same a b \<Longrightarrow> (\<exists>x \<in> S. same x a) \<longleftrightarrow> (\<exists>x \<in> S. same x b)"
  using same_cong by blast

end

lemma same_message_refl [simp]: "same_message a a"
  by (cases a) simp_all

lemma same_message_sym: "same_message a b \<Longrightarrow> same_message b a"
  by (cases a; cases b) auto

lemma same_message_trans: "same_message a b \<Longrightarrow> same_message b c \<Longrightarrow> same_message a c"
  by (cases a; cases b; cases c) auto

interpretation ref_identity: identity_test same_message
  by unfold_locales (auto intro: same_message_sym same_message_trans)

lemma same_message_Imap [simp]:
  "same_message (Imap f u) r \<longleftrightarrow> r = Imap f u" "same_message r (Imap f u) \<longleftrightarrow> r = Imap f u"
  by (cases r; auto)+

lemma same_message_Graph [simp]:
  "same_message (Graph i) r \<longleftrightarrow> r = Graph i" "same_message r (Graph i) \<longleftrightarrow> r = Graph i"
  by (cases r; auto)+

section \<open>Persisted identities\<close>

fun protocol_of :: "BackendMessageRef \<Rightarrow> string" where
  "protocol_of (Imap _ _) = ''imap''"
| "protocol_of (Jmap _ _) = ''jmap''"
| "protocol_of (Graph _) = ''graph''"

fun row_folder :: "BackendMessageRef \<Rightarrow> string \<Rightarrow> string" where
  "row_folder (Imap folder _) _ = folder"
| "row_folder (Jmap mailbox _) _ = mailbox"
| "row_folder (Graph _) other = other"

fun row_uid :: "BackendMessageRef \<Rightarrow> u32 \<Rightarrow> u32" where
  "row_uid (Imap _ u) _ = u"
| "row_uid _ other = other"

lemma graph_from_db_id_to_db_id: "graph_from_db_id account (to_db_id (Graph item) account) = Graph item"
  using strip_prefix_append [of "account @ ''_''" item]
  by (simp add: graph_from_db_id_def)

lemma jmap_from_db_id_to_db_id:
  "jmap_from_db_id account mailbox (to_db_id (Jmap mailbox email) account) = Some (Jmap mailbox email)"
  using strip_prefix_append [of "account @ ''_'' @ mailbox @ ''_''" email]
  by (simp add: jmap_from_db_id_def)

lemma jmap_from_db_id_SomeD:
  "jmap_from_db_id account mailbox db_id = Some r \<Longrightarrow>
     \<exists>email. r = Jmap mailbox email \<and> db_id = to_db_id r account"
  by (auto simp: jmap_from_db_id_def strip_prefix_Some)

lemma message_id_core_idem: "message_id_core (''<'' @ message_id_core v @ ''>'') = message_id_core v"
  by (simp add: message_id_core_def)

lemma message_id_core_bracketed [simp]: "message_id_core (CHR ''<'' # message_id_core v @ ''>'') = message_id_core v"
  using message_id_core_idem [of v] by simp

section \<open>Properties\<close>

text \<open>A message reference is recovered from the database row written for it, whatever
  underscores the account, folder, mailbox or item ids contain.\<close>

theorem message_ref_db_roundtrip:
  "from_db_row (protocol_of r) account (to_db_id r account) (row_folder r other) (row_uid r u) = Some r"
  by (cases r)
     (simp_all add: from_db_row_def graph_from_db_id_to_db_id jmap_from_db_id_to_db_id
       del: to_db_id.simps)

text \<open>A JMAP row is recognised exactly when its id is the one written for an email of that
  account and mailbox; no other id is ever split into a reference.\<close>

theorem jmap_row_exact:
  "from_db_row ''jmap'' account db_id mailbox u = Some r \<longleftrightarrow>
     (\<exists>email. r = Jmap mailbox email \<and> db_id = to_db_id (Jmap mailbox email) account)"
  by (auto simp: from_db_row_def jmap_from_db_id_def strip_prefix_Some)

text \<open>The persisted body location loses nothing: writing back what was read gives the stored
  text, and reading back what was written gives the location, except for a local path that
  is empty or looks like a Graph marker.\<close>

theorem body_location_persisted:
  "to_persisted (from_persisted v) = v \<and>
   (from_persisted (to_persisted l) = l \<longleftrightarrow>
      (case l of Local p \<Rightarrow> p \<noteq> [] \<and> \<not> starts_with ''graph:'' p | _ \<Rightarrow> True))"
proof
  show "to_persisted (from_persisted v) = v"
    by (auto simp: from_persisted_def strip_prefix_Some split: option.splits)
  show "from_persisted (to_persisted l) = l \<longleftrightarrow>
      (case l of Local p \<Rightarrow> p \<noteq> [] \<and> \<not> starts_with ''graph:'' p | _ \<Rightarrow> True)"
    using strip_prefix_append [of "''graph:''"]
    by (cases l) (auto simp: from_persisted_def strip_prefix_def starts_with_def)
qed

text \<open>Message-ID normalisation is idempotent, and two spellings normalise alike exactly when
  they agree after removing whitespace and angle brackets.\<close>

theorem normalize_message_id_canonical:
  "Option.bind (normalize_message_id v) normalize_message_id = normalize_message_id v \<and>
   (normalize_message_id v = normalize_message_id w \<longleftrightarrow> message_id_core v = message_id_core w)"
  by (auto simp: normalize_message_id_def Let_def)

end
