(* ===== verification/Flags.thy ===== *)
theory Flags
  imports Message
begin

text \<open>
  The flag algebra of the operation queue (\<^verbatim>\<open>ops/flags.rs\<close>): the targets of a flag mutation,
  and how a pending mutation is cut down by a newer delete or a newer flag mutation. The
  specification is the \<open>intent\<close> of a mutation: what it asks of one message and one flag.
\<close>

section \<open>Model\<close>

text \<open>\<open>AllMessagesInFolders folder_paths excluded_refs\<close> is every IMAP message of the folders.\<close>

datatype FlagTarget =
    Messages "BackendMessageRef list"
  | AllMessagesInFolders "string list" "BackendMessageRef list"

datatype AccountReadScope = KnownUnreadMessages | AllKnownFolders

record FlagMutation =
  target :: FlagTarget
  flags :: "string list"
  add :: bool

definition for_mark_account_read ::
  "string \<Rightarrow> string list \<Rightarrow> BackendMessageRef list \<Rightarrow> FlagTarget" where
  "for_mark_account_read protocol folder_paths unread_refs =
     (if protocol = ''graph'' \<or> protocol = ''jmap'' then Messages unread_refs
      else AllMessagesInFolders folder_paths [])"

definition account_read_scope :: "string \<Rightarrow> AccountReadScope" where
  "account_read_scope protocol =
     (if protocol = ''graph'' \<or> protocol = ''jmap'' then KnownUnreadMessages else AllKnownFolders)"

fun target_is_empty :: "FlagTarget \<Rightarrow> bool" where
  "target_is_empty (Messages refs) \<longleftrightarrow> refs = []"
| "target_is_empty (AllMessagesInFolders folders _) \<longleftrightarrow> folders = []"

definition contains_ref :: "BackendMessageRef list \<Rightarrow> BackendMessageRef \<Rightarrow> bool" where
  "contains_ref refs candidate \<longleftrightarrow> list_ex (\<lambda>r. same_message r candidate) refs"

fun ref_in_folders :: "BackendMessageRef \<Rightarrow> string list \<Rightarrow> bool" where
  "ref_in_folders (Imap folder _) folder_paths \<longleftrightarrow> folder \<in> set folder_paths"
| "ref_in_folders _ _ \<longleftrightarrow> False"

definition normalize_flag :: "string \<Rightarrow> string" where
  "normalize_flag f = to_lowercase (trim_start_matches (char_of (92::nat)) f)"

definition remove_deleted_refs ::
  "FlagMutation \<Rightarrow> BackendMessageRef list \<Rightarrow> FlagMutation option" where
  "remove_deleted_refs m deleted =
     (let m' = (case target m of
                  Messages refs \<Rightarrow>
                    m\<lparr>target := Messages (filter (\<lambda>r. \<not> contains_ref deleted r) refs)\<rparr>
                | AllMessagesInFolders _ _ \<Rightarrow> m)
      in if target_is_empty (target m') then None else Some m')"

definition split_message_target ::
  "FlagMutation \<Rightarrow> BackendMessageRef list \<Rightarrow> BackendMessageRef list \<Rightarrow> string list
     \<Rightarrow> FlagMutation list" where
  "split_message_target older old_refs covered_refs remaining_flags =
     (if covered_refs = [] then [older]
      else
        let refs_left = filter (\<lambda>r. \<not> contains_ref covered_refs r) old_refs
        in (if refs_left \<noteq> []
            then [\<lparr>target = Messages refs_left, flags = flags older, add = add older\<rparr>] else [])
         @ (if remaining_flags \<noteq> []
            then [\<lparr>target = Messages covered_refs, flags = remaining_flags, add = add older\<rparr>]
            else []))"

definition flag_overlaps :: "FlagMutation \<Rightarrow> string \<Rightarrow> bool" where
  "flag_overlaps newer old_flag \<longleftrightarrow>
     list_ex (\<lambda>new_flag. normalize_flag new_flag = normalize_flag old_flag) (flags newer)"

text \<open>The loop that appends the additions to the exclusions, each at most once.\<close>

fun push_exclusions ::
  "BackendMessageRef list \<Rightarrow> BackendMessageRef list \<Rightarrow> BackendMessageRef list" where
  "push_exclusions exclusions [] = exclusions"
| "push_exclusions exclusions (r # rs) =
     push_exclusions (if contains_ref exclusions r then exclusions else exclusions @ [r]) rs"

text \<open>A folder-wide mutation cut down by a newer mutation of explicit messages.\<close>

definition subtract_messages_from_folders ::
  "FlagMutation \<Rightarrow> FlagMutation \<Rightarrow> string list \<Rightarrow> BackendMessageRef list \<Rightarrow> BackendMessageRef list
     \<Rightarrow> string list \<Rightarrow> string list \<Rightarrow> FlagMutation list" where
  "subtract_messages_from_folders older newer folder_paths excluded_refs new_refs
       overlapping_flags remaining_flags =
     (if add older = add newer then
        let exclusions_left = filter (\<lambda>e. \<not> contains_ref new_refs e) excluded_refs
        in if length exclusions_left = length excluded_refs then [older]
           else
             let restored_target = AllMessagesInFolders folder_paths exclusions_left
             in if remaining_flags = []
                then [\<lparr>target = restored_target, flags = flags older, add = add older\<rparr>]
                else [\<lparr>target = target older, flags = remaining_flags, add = add older\<rparr>,
                      \<lparr>target = restored_target, flags = overlapping_flags, add = add older\<rparr>]
      else
        let additions = filter (\<lambda>r. ref_in_folders r folder_paths
                                  \<and> \<not> contains_ref excluded_refs r) new_refs
        in if additions = [] then [older]
           else (if remaining_flags \<noteq> []
                 then [\<lparr>target = target older, flags = remaining_flags, add = add older\<rparr>]
                 else [])
              @ [\<lparr>target = AllMessagesInFolders folder_paths
                              (push_exclusions excluded_refs additions),
                  flags = overlapping_flags, add = add older\<rparr>])"

definition subtract_folders_from_folders ::
  "FlagMutation \<Rightarrow> string list \<Rightarrow> BackendMessageRef list \<Rightarrow> string list
     \<Rightarrow> string list \<Rightarrow> string list \<Rightarrow> FlagMutation list" where
  "subtract_folders_from_folders older old_folders excluded_refs new_folders
       overlapping_flags remaining_flags =
     (let folders_left = filter (\<lambda>f. f \<notin> set new_folders) old_folders
      in if length folders_left = length old_folders then [older]
         else (if remaining_flags \<noteq> []
               then [\<lparr>target = target older, flags = remaining_flags, add = add older\<rparr>] else [])
            @ (if folders_left \<noteq> []
               then [\<lparr>target = AllMessagesInFolders folders_left
                                 (filter (\<lambda>r. ref_in_folders r folders_left) excluded_refs),
                      flags = overlapping_flags, add = add older\<rparr>]
               else []))"

definition subtract_flag_mutation :: "FlagMutation \<Rightarrow> FlagMutation \<Rightarrow> FlagMutation list" where
  "subtract_flag_mutation older newer =
     (let overlapping_flags = filter (flag_overlaps newer) (flags older)
      in if overlapping_flags = [] then [older]
         else
           let remaining_flags = filter (\<lambda>f. \<not> flag_overlaps newer f) (flags older)
           in case (target older, target newer) of
                (Messages old_refs, Messages new_refs) \<Rightarrow>
                  split_message_target older old_refs new_refs remaining_flags
              | (Messages old_refs, AllMessagesInFolders folder_paths excluded_refs) \<Rightarrow>
                  split_message_target older old_refs
                    (filter (\<lambda>r. ref_in_folders r folder_paths
                              \<and> \<not> contains_ref excluded_refs r) old_refs)
                    remaining_flags
              | (AllMessagesInFolders folder_paths excluded_refs, Messages new_refs) \<Rightarrow>
                  subtract_messages_from_folders older newer folder_paths excluded_refs new_refs
                    overlapping_flags remaining_flags
              | (AllMessagesInFolders old_folders excluded_refs,
                 AllMessagesInFolders new_folders _) \<Rightarrow>
                  subtract_folders_from_folders older old_folders excluded_refs new_folders
                    overlapping_flags remaining_flags)"

section \<open>Specification: the intent of a mutation\<close>

text \<open>
  \<open>covers t r\<close>: the target reaches message \<open>r\<close>. \<open>intent m r f\<close> is what the mutation asks of
  the (normalised) flag \<open>f\<close> of \<open>r\<close>: to set it, to clear it, or nothing. A replayed sequence
  leaves each flag as its last mutation that asks anything says.
\<close>

fun covers :: "FlagTarget \<Rightarrow> BackendMessageRef \<Rightarrow> bool" where
  "covers (Messages refs) r \<longleftrightarrow> contains_ref refs r"
| "covers (AllMessagesInFolders folders excluded) r \<longleftrightarrow>
     ref_in_folders r folders \<and> \<not> contains_ref excluded r"

definition asks_flag :: "string list \<Rightarrow> string \<Rightarrow> bool" where
  "asks_flag fs f \<longleftrightarrow> f \<in> normalize_flag ` set fs"

definition intent :: "FlagMutation \<Rightarrow> BackendMessageRef \<Rightarrow> string \<Rightarrow> bool option" where
  "intent m r f = (if covers (target m) r \<and> asks_flag (flags m) f then Some (add m) else None)"

fun replay_intent :: "FlagMutation list \<Rightarrow> BackendMessageRef \<Rightarrow> string \<Rightarrow> bool option" where
  "replay_intent [] r f = None"
| "replay_intent (m # ms) r f =
     (case replay_intent ms r f of None \<Rightarrow> intent m r f | Some b \<Rightarrow> Some b)"

text \<open>The target of a user action: a folder-wide action starts without exclusions.\<close>

fun fresh_target :: "FlagTarget \<Rightarrow> bool" where
  "fresh_target (Messages _) = True"
| "fresh_target (AllMessagesInFolders _ excluded) \<longleftrightarrow> excluded = []"

text \<open>
  When the newer mutation names messages, either it overwrites every flag of the older one,
  or it names only messages of the older one.
\<close>

definition no_spill :: "FlagMutation \<Rightarrow> FlagMutation \<Rightarrow> bool" where
  "no_spill older newer \<longleftrightarrow>
     (case (target older, target newer) of
        (Messages old_refs, Messages new_refs) \<Rightarrow>
          list_all (flag_overlaps newer) (flags older) \<or> list_all (contains_ref old_refs) new_refs
      | _ \<Rightarrow> True)"

section \<open>Lemmas\<close>

lemma contains_ref_iff: "contains_ref refs c \<longleftrightarrow> (\<exists>r \<in> set refs. same_message r c)"
  by (auto simp: contains_ref_def list_ex_iff)

lemma contains_ref_simps [simp]:
  "contains_ref [] c \<longleftrightarrow> False"
  "contains_ref (r # rs) c \<longleftrightarrow> same_message r c \<or> contains_ref rs c"
  "contains_ref (rs @ ss) c \<longleftrightarrow> contains_ref rs c \<or> contains_ref ss c"
  by (auto simp: contains_ref_def)

lemma contains_ref_cong: "same_message a b \<Longrightarrow> contains_ref refs a \<longleftrightarrow> contains_ref refs b"
  unfolding contains_ref_iff by (rule ref_identity.ex_same_cong)

lemma contains_ref_filter:
  assumes "\<And>a b. same_message a b \<Longrightarrow> P a \<longleftrightarrow> P b"
  shows "contains_ref (filter P refs) r \<longleftrightarrow> P r \<and> contains_ref refs r"
  using assms by (auto simp: contains_ref_iff)

lemma ref_in_folders_cong: "same_message a b \<Longrightarrow> ref_in_folders a fs \<longleftrightarrow> ref_in_folders b fs"
  by (cases a; cases b) auto

lemma contains_ref_filter_not_covered [simp]:
  "contains_ref (filter (\<lambda>x. \<not> contains_ref cs x) refs) r \<longleftrightarrow> \<not> contains_ref cs r \<and> contains_ref refs r"
  by (rule contains_ref_filter) (simp add: contains_ref_cong)

lemma contains_ref_filter_reached [simp]:
  "contains_ref (filter (\<lambda>x. ref_in_folders x fs \<and> \<not> contains_ref cs x) refs) r \<longleftrightarrow>
     (ref_in_folders r fs \<and> \<not> contains_ref cs r) \<and> contains_ref refs r"
  by (rule contains_ref_filter) (metis contains_ref_cong ref_in_folders_cong)

lemma contains_ref_filter_in_folders [simp]:
  "contains_ref (filter (\<lambda>x. ref_in_folders x fs) refs) r \<longleftrightarrow> ref_in_folders r fs \<and> contains_ref refs r"
  by (rule contains_ref_filter) (rule ref_in_folders_cong)

lemma contains_ref_push_exclusions [simp]:
  "contains_ref (push_exclusions es rs) r \<longleftrightarrow> contains_ref es r \<or> contains_ref rs r"
  by (induction es rs rule: push_exclusions.induct) (auto dest: contains_ref_cong)

lemma ref_in_folders_filter [simp]:
  "ref_in_folders r (filter P fs) \<longleftrightarrow> ref_in_folders r fs \<and> (\<exists>f u. r = Imap f u \<and> P f)"
  by (cases r) auto

lemma asks_flag_filter:
  "asks_flag (filter P fs) f \<longleftrightarrow> (\<exists>x \<in> set fs. P x \<and> normalize_flag x = f)"
  by (auto simp: asks_flag_def)

lemma flag_overlaps_iff: "flag_overlaps m f \<longleftrightarrow> asks_flag (flags m) (normalize_flag f)"
  by (auto simp: flag_overlaps_def asks_flag_def list_ex_iff image_iff) metis+

lemma asks_overlapping [simp]:
  "asks_flag (filter (flag_overlaps m) fs) f \<longleftrightarrow> asks_flag fs f \<and> asks_flag (flags m) f"
  by (auto simp: asks_flag_filter flag_overlaps_iff) (auto simp: asks_flag_def)

lemma asks_remaining [simp]:
  "asks_flag (filter (\<lambda>x. \<not> flag_overlaps m x) fs) f \<longleftrightarrow> asks_flag fs f \<and> \<not> asks_flag (flags m) f"
  by (auto simp: asks_flag_filter flag_overlaps_iff) (auto simp: asks_flag_def)

lemma asks_flag_Nil [simp]: "\<not> asks_flag [] f"
  by (simp add: asks_flag_def)

lemma filter_eq_same_length: "length (filter P xs) = length xs \<Longrightarrow> filter P xs = xs"
  by (metis filter_id_conv length_filter_less less_irrefl)

lemma replay_intent_append:
  "replay_intent (ms @ ns) r f =
     (case replay_intent ns r f of None \<Rightarrow> replay_intent ms r f | Some b \<Rightarrow> Some b)"
  by (induction ms) (auto split: option.splits)

lemma replay_intent_snoc:
  "replay_intent (ms @ [m]) r f =
     (case intent m r f of None \<Rightarrow> replay_intent ms r f | Some b \<Rightarrow> Some b)"
  by (simp add: replay_intent_append split: option.splits)

lemma replay_intent_single [simp]: "replay_intent [m] r f = intent m r f"
  by simp

lemma intent_None_iff: "intent m r f = None \<longleftrightarrow> \<not> (covers (target m) r \<and> asks_flag (flags m) f)"
  by (simp add: intent_def)

text \<open>
  Each branch of the subtraction, at a message and flag the newer mutation does not touch,
  asks what the older mutation asked.
\<close>

lemma replay_intent_guarded:
  "(\<not> c \<Longrightarrow> intent m r f = None) \<Longrightarrow> replay_intent (if c then [m] else []) r f = intent m r f"
  by simp

lemma covered_by_sublist:
  "contains_ref covered r \<Longrightarrow> list_all (contains_ref old_refs) covered \<Longrightarrow> contains_ref old_refs r"
  by (metis contains_ref_cong contains_ref_iff list_all_iff)

lemma overwritten_flags:
  "list_all (flag_overlaps newer) fs \<Longrightarrow> asks_flag fs f \<Longrightarrow> asks_flag (flags newer) f"
  by (metis asks_flag_def flag_overlaps_iff imageE list_all_iff)

lemma split_message_target_intent:
  assumes "target older = Messages old_refs"
    and untouched: "\<not> (contains_ref covered r \<and> asks_flag (flags newer) f)"
    and "list_all (flag_overlaps newer) (flags older) \<or> list_all (contains_ref old_refs) covered"
  shows "replay_intent (split_message_target older old_refs covered
           (filter (\<lambda>x. \<not> flag_overlaps newer x) (flags older))) r f = intent older r f"
proof (cases "covered = []")
  case True
  then show ?thesis by (simp add: split_message_target_def)
next
  case False
  let ?left = "filter (\<lambda>r. \<not> contains_ref covered r) old_refs"
  let ?rest = "filter (\<lambda>x. \<not> flag_overlaps newer x) (flags older)"
  let ?a = "\<lparr>target = Messages ?left, flags = flags older, add = add older\<rparr>"
  let ?b = "\<lparr>target = Messages covered, flags = ?rest, add = add older\<rparr>"
  have "replay_intent (if ?left \<noteq> [] then [?a] else []) r f = intent ?a r f"
    by (rule replay_intent_guarded) (metis FlagMutation.select_convs(1) contains_ref_simps(1) covers.simps(1) intent_None_iff)
  moreover have "replay_intent (if ?rest \<noteq> [] then [?b] else []) r f = intent ?b r f"
    by (rule replay_intent_guarded) (metis FlagMutation.select_convs(2) asks_flag_Nil intent_None_iff)
  moreover have "contains_ref covered r \<Longrightarrow> asks_flag (flags older) f \<Longrightarrow> contains_ref old_refs r"
    using assms(3) untouched covered_by_sublist overwritten_flags by blast
  ultimately show ?thesis
    using False assms(1) untouched
    by (auto simp: split_message_target_def Let_def replay_intent_append intent_def
        simp del: filter.simps split: option.splits)
qed

lemma subtract_messages_from_folders_intent:
  assumes "target older = AllMessagesInFolders folders excluded"
    and untouched: "\<not> (contains_ref new_refs r \<and> asks_flag (flags newer) f)"
  shows "replay_intent (subtract_messages_from_folders older newer folders excluded new_refs
           (filter (flag_overlaps newer) (flags older))
           (filter (\<lambda>x. \<not> flag_overlaps newer x) (flags older))) r f = intent older r f"
proof (cases "add older = add newer")
  case True
  let ?left = "filter (\<lambda>e. \<not> contains_ref new_refs e) excluded"
  let ?rest = "filter (\<lambda>x. \<not> flag_overlaps newer x) (flags older)"
  show ?thesis
  proof (cases "length ?left = length excluded")
    case True
    with \<open>add older = add newer\<close> show ?thesis
      by (simp add: subtract_messages_from_folders_def)
  next
    case False
    have "?rest = [] \<Longrightarrow> asks_flag (flags older) f \<Longrightarrow> asks_flag (flags newer) f"
      using asks_remaining [of newer "flags older" f] by simp
    with False True assms show ?thesis
      by (cases "?rest = []")
         (auto simp: subtract_messages_from_folders_def Let_def intent_def simp del: filter.simps
           split: option.splits)
  qed
next
  case False
  let ?adds = "filter (\<lambda>r. ref_in_folders r folders \<and> \<not> contains_ref excluded r) new_refs"
  let ?rest = "filter (\<lambda>x. \<not> flag_overlaps newer x) (flags older)"
  let ?keep = "\<lparr>target = target older, flags = ?rest, add = add older\<rparr>"
  have "replay_intent (if ?rest \<noteq> [] then [?keep] else []) r f = intent ?keep r f"
    by (rule replay_intent_guarded) (metis FlagMutation.select_convs(2) asks_flag_Nil intent_None_iff)
  with False assms show ?thesis
    by (cases "?adds = []")
       (auto simp: subtract_messages_from_folders_def Let_def replay_intent_append intent_def
         simp del: filter.simps split: option.splits)
qed

lemma subtract_folders_from_folders_intent:
  assumes "target older = AllMessagesInFolders old_folders excluded"
    and untouched: "\<not> (ref_in_folders r new_folders \<and> asks_flag (flags newer) f)"
  shows "replay_intent (subtract_folders_from_folders older old_folders excluded new_folders
           (filter (flag_overlaps newer) (flags older))
           (filter (\<lambda>x. \<not> flag_overlaps newer x) (flags older))) r f = intent older r f"
proof -
  let ?left = "filter (\<lambda>x. x \<notin> set new_folders) old_folders"
  let ?rest = "filter (\<lambda>x. \<not> flag_overlaps newer x) (flags older)"
  let ?hit = "filter (flag_overlaps newer) (flags older)"
  let ?keep = "\<lparr>target = target older, flags = ?rest, add = add older\<rparr>"
  let ?cut = "\<lparr>target = AllMessagesInFolders ?left (filter (\<lambda>x. ref_in_folders x ?left) excluded),
               flags = ?hit, add = add older\<rparr>"
  have "replay_intent (if ?rest \<noteq> [] then [?keep] else []) r f = intent ?keep r f"
    by (rule replay_intent_guarded) (metis FlagMutation.select_convs(2) asks_flag_Nil intent_None_iff)
  moreover have "replay_intent (if ?left \<noteq> [] then [?cut] else []) r f = intent ?cut r f"
    by (rule replay_intent_guarded)
       (cases r; simp add: intent_None_iff del: filter.simps)
  moreover have "ref_in_folders r ?left \<longleftrightarrow> ref_in_folders r old_folders \<and> \<not> ref_in_folders r new_folders"
    by (cases r) auto
  ultimately show ?thesis
    using assms
    by (cases "length ?left = length old_folders")
       (auto simp: subtract_folders_from_folders_def Let_def replay_intent_append intent_def
         simp del: filter.simps ref_in_folders_filter split: option.splits)
qed

lemma list_all_contains_ref_filter: "list_all (contains_ref refs) (filter P refs)"
  by (auto simp: list_all_iff contains_ref_iff intro: same_message_refl)

lemma subtract_flag_mutation_untouched:
  assumes "fresh_target (target newer)" and "no_spill older newer" and "intent newer r f = None"
  shows "replay_intent (subtract_flag_mutation older newer) r f = intent older r f"
proof (cases "filter (flag_overlaps newer) (flags older) = []")
  case True
  then show ?thesis by (simp add: subtract_flag_mutation_def)
next
  case overlap: False
  note case_simps = subtract_flag_mutation_def Let_def overlap
  show ?thesis
  proof (cases "target older")
    case old: (Messages old_refs)
    show ?thesis
    proof (cases "target newer")
      case (Messages new_refs)
      with old assms split_message_target_intent [OF old, of new_refs r newer f] show ?thesis
        by (simp add: case_simps intent_None_iff no_spill_def)
    next
      case (AllMessagesInFolders folders excluded)
      with old assms
        split_message_target_intent [OF old _ disjI2 [OF list_all_contains_ref_filter], of _ r newer f]
      show ?thesis
        by (simp add: case_simps intent_None_iff)
    qed
  next
    case old: (AllMessagesInFolders old_folders old_excluded)
    show ?thesis
    proof (cases "target newer")
      case (Messages new_refs)
      with old assms subtract_messages_from_folders_intent [OF old, of new_refs r newer f]
      show ?thesis by (simp add: case_simps intent_None_iff)
    next
      case (AllMessagesInFolders folders excluded)
      with old assms subtract_folders_from_folders_intent [OF old, of r folders newer f]
      show ?thesis by (simp add: case_simps intent_None_iff)
    qed
  qed
qed

text \<open>
  Each branch, at a message and flag the newer mutation does touch, asks nothing or the same as
  the newer mutation: the remainder may be replayed after the newer one has been executed.
\<close>

lemma replay_intent_agrees:
  "list_all (\<lambda>m. intent m r f = None \<or> intent m r f = Some b) ms \<Longrightarrow>
     replay_intent ms r f = None \<or> replay_intent ms r f = Some b"
  by (induction ms) (auto split: option.splits)

lemma split_message_target_yields:
  assumes "target older = Messages old_refs" and "asks_flag (flags newer) f"
    and "contains_ref old_refs r \<Longrightarrow> contains_ref covered r"
  shows "replay_intent (split_message_target older old_refs covered
           (filter (\<lambda>x. \<not> flag_overlaps newer x) (flags older))) r f = None"
proof (cases "covered = []")
  case True
  with assms(3) have "\<not> contains_ref old_refs r" by auto
  with True assms(1) show ?thesis by (simp add: split_message_target_def intent_None_iff)
next
  case False
  with assms show ?thesis
    by (auto simp: split_message_target_def Let_def replay_intent_append intent_def
        simp del: filter.simps)
qed

lemma subtract_messages_from_folders_yields:
  assumes "target older = AllMessagesInFolders folders excluded"
    and "contains_ref new_refs r" and "asks_flag (flags newer) f"
  shows "list_all (\<lambda>m. intent m r f = None \<or> intent m r f = Some (add newer))
     (subtract_messages_from_folders older newer folders excluded new_refs
        (filter (flag_overlaps newer) (flags older))
        (filter (\<lambda>x. \<not> flag_overlaps newer x) (flags older)))"
proof (cases "add older = add newer")
  case True
  then show ?thesis
    by (simp add: subtract_messages_from_folders_def Let_def intent_def)
next
  case False
  let ?adds = "filter (\<lambda>r. ref_in_folders r folders \<and> \<not> contains_ref excluded r) new_refs"
  have "?adds = [] \<Longrightarrow> covers (target older) r \<Longrightarrow> False"
    using contains_ref_filter_reached [of folders excluded new_refs r] assms
    by (simp del: contains_ref_filter_reached)
  with False assms show ?thesis
    by (cases "?adds = []")
       (auto simp: subtract_messages_from_folders_def Let_def intent_def simp del: filter.simps)
qed

lemma subtract_folders_from_folders_yields:
  assumes "target older = AllMessagesInFolders old_folders excluded"
    and "ref_in_folders r new_folders" and "asks_flag (flags newer) f"
  shows "replay_intent (subtract_folders_from_folders older old_folders excluded new_folders
           (filter (flag_overlaps newer) (flags older))
           (filter (\<lambda>x. \<not> flag_overlaps newer x) (flags older))) r f = None"
proof -
  let ?left = "filter (\<lambda>x. x \<notin> set new_folders) old_folders"
  have gone: "\<not> ref_in_folders r ?left" using assms(2) by (cases r) auto
  then have "?left = old_folders \<Longrightarrow> intent older r f = None"
    using assms(1) by (simp add: intent_None_iff del: ref_in_folders_filter)
  with gone assms show ?thesis
    by (cases "length ?left = length old_folders")
       (auto simp: subtract_folders_from_folders_def Let_def replay_intent_append intent_def
         dest: filter_eq_same_length simp del: filter.simps ref_in_folders_filter)
qed

lemma subtract_flag_mutation_yields:
  assumes "fresh_target (target newer)" and "intent newer r f = Some b"
  shows "replay_intent (subtract_flag_mutation older newer) r f = None
       \<or> replay_intent (subtract_flag_mutation older newer) r f = Some b"
proof (cases "filter (flag_overlaps newer) (flags older) = []")
  case True
  have asked: "asks_flag (flags newer) f" using assms(2) by (simp add: intent_def split: if_splits)
  with asks_overlapping [of newer "flags older" f] True have "intent older r f = None"
    by (simp add: intent_None_iff del: asks_overlapping)
  with True show ?thesis by (simp add: subtract_flag_mutation_def)
next
  case overlap: False
  note case_simps = subtract_flag_mutation_def Let_def overlap
  from assms(2) have touched: "covers (target newer) r" "asks_flag (flags newer) f" and b: "b = add newer"
    by (auto simp: intent_def split: if_splits)
  show ?thesis
  proof (cases "target older")
    case old: (Messages old_refs)
    show ?thesis
    proof (cases "target newer")
      case (Messages new_refs)
      with old touched split_message_target_yields [OF old, of newer f r new_refs] show ?thesis
        by (simp add: case_simps)
    next
      case (AllMessagesInFolders folders excluded)
      with old touched split_message_target_yields [OF old touched(2), of r
          "filter (\<lambda>r. ref_in_folders r folders \<and> \<not> contains_ref excluded r) old_refs"]
      show ?thesis by (simp add: case_simps)
    qed
  next
    case old: (AllMessagesInFolders old_folders old_excluded)
    show ?thesis
    proof (cases "target newer")
      case (Messages new_refs)
      with old touched b replay_intent_agrees [OF subtract_messages_from_folders_yields [OF old, of new_refs r newer f]]
      show ?thesis by (simp add: case_simps)
    next
      case (AllMessagesInFolders folders excluded)
      with old touched subtract_folders_from_folders_yields [OF old, of r folders newer f]
      show ?thesis by (simp add: case_simps)
    qed
  qed
qed

section \<open>Properties\<close>



text \<open>Without that condition the subtraction spills: an older "add seen and flagged" on
  message 1, followed by a newer "clear seen" on message 2 only, is rewritten so that replay
  flags message 2, which nobody asked for.\<close>

theorem subtract_flag_mutation_spills:
  "let older = \<lparr>target = Messages [Imap ''INBOX'' 1], flags = [''seen'', ''flagged''], add = True\<rparr>;
       newer = \<lparr>target = Messages [Imap ''INBOX'' 2], flags = [''seen''], add = False\<rparr>
   in replay_intent [older, newer] (Imap ''INBOX'' 2) ''flagged'' = None
    \<and> replay_intent (subtract_flag_mutation older newer @ [newer]) (Imap ''INBOX'' 2) ''flagged''
        = Some True"
  by code_simp

text \<open>Pruning a pending mutation by a newer delete keeps exactly the intent on messages that
  were not deleted; it drops the mutation only when no target is left, so no intent on a
  surviving message is lost.\<close>

theorem remove_deleted_refs_intent:
  "(case remove_deleted_refs m deleted of None \<Rightarrow> None | Some m' \<Rightarrow> intent m' r f)
     = (case target m of
          Messages _ \<Rightarrow> if contains_ref deleted r then None else intent m r f
        | AllMessagesInFolders _ _ \<Rightarrow> intent m r f)"
proof (cases "target m")
  case (Messages refs)
  let ?left = "filter (\<lambda>r. \<not> contains_ref deleted r) refs"
  show ?thesis
  proof (cases "?left = []")
    case True
    then have "contains_ref refs r \<Longrightarrow> contains_ref deleted r"
      using contains_ref_filter_not_covered [of deleted refs r] by simp
    with True Messages show ?thesis
      by (auto simp: remove_deleted_refs_def Let_def intent_def simp del: filter.simps)
  next
    case False
    with Messages show ?thesis
      by (auto simp: remove_deleted_refs_def Let_def intent_def simp del: filter.simps)
  qed
next
  case (AllMessagesInFolders folders excluded)
  then show ?thesis
    by (cases folders; cases r) (auto simp: remove_deleted_refs_def intent_def)
qed

end
