(* ===== verification/Queue.thy ===== *)
theory Queue
  imports Flags "HOL-Library.Sublist"
begin

text \<open>
  The per-account operation queue (\<^verbatim>\<open>ops/queue.rs\<close>) and the coalescing of a drained batch
  (\<^verbatim>\<open>ops/coalesce.rs\<close>).
\<close>

section \<open>Operations and priorities\<close>

text \<open>Message bytes are characters; the other fields are in the source's order.\<close>

datatype MailOp =
    SyncFolder string
  | ReplayOffline
  | MoveMessages "BackendMessageRef list" string
  | DeleteMessages "BackendMessageRef list"
  | SetFlags "FlagMutation list"
  | CopyMessages "BackendMessageRef list" string
  | SendRaw "8 word list" string "string list" "string list" "string list" string

fun is_sync :: "MailOp \<Rightarrow> bool" where
  "is_sync (SyncFolder _) = True"
| "is_sync _ = False"

fun is_jmap_ref :: "BackendMessageRef \<Rightarrow> bool" where
  "is_jmap_ref (Jmap _ _) = True"
| "is_jmap_ref _ = False"

fun can_retry_after_execution_failure :: "MailOp \<Rightarrow> bool" where
  "can_retry_after_execution_failure (CopyMessages refs _) \<longleftrightarrow> refs \<noteq> [] \<and> list_all is_jmap_ref refs"
| "can_retry_after_execution_failure _ \<longleftrightarrow> True"

datatype OpPriority = User | Sync

instantiation OpPriority :: linorder
begin

fun less_eq_OpPriority :: "OpPriority \<Rightarrow> OpPriority \<Rightarrow> bool" where
  "less_eq_OpPriority Sync User = False"
| "less_eq_OpPriority _ _ = True"

definition less_OpPriority :: "OpPriority \<Rightarrow> OpPriority \<Rightarrow> bool" where
  "less_OpPriority a b \<longleftrightarrow> a = User \<and> b = Sync"

instance
proof
  fix x y z :: OpPriority
  show "x < y \<longleftrightarrow> x \<le> y \<and> \<not> y \<le> x"
    by (cases x; cases y) (simp_all add: less_OpPriority_def)
  show "x \<le> x" by (cases x) simp_all
  show "x \<le> y \<Longrightarrow> y \<le> z \<Longrightarrow> x \<le> z" by (cases x; cases y; cases z) simp_all
  show "x \<le> y \<Longrightarrow> y \<le> x \<Longrightarrow> x = y" by (cases x; cases y) simp_all
  show "x \<le> y \<or> y \<le> x" by (cases x; cases y) simp_all
qed

end

record OpEntry =
  op :: MailOp
  priority :: OpPriority

section \<open>Coalescing\<close>

text \<open>Appending a reference unless one accepted as the same is already there.\<close>

definition push_unique :: "('a \<Rightarrow> 'a \<Rightarrow> bool) \<Rightarrow> 'a list \<Rightarrow> 'a \<Rightarrow> 'a list" where
  "push_unique same refs candidate =
     (if list_ex (\<lambda>existing. same existing candidate) refs then refs else refs @ [candidate])"

definition push_unique_ref ::
  "BackendMessageRef list \<Rightarrow> BackendMessageRef \<Rightarrow> BackendMessageRef list" where
  "push_unique_ref = push_unique same_message"

fun is_replay :: "MailOp \<Rightarrow> bool" where
  "is_replay ReplayOffline = True"
| "is_replay _ = False"

text \<open>
  The result vector is kept newest first, so its last element is the head of the list. The
  branches of the loop, in the source's order: deletes, moves, flags, the replay signal.
\<close>

definition coalesce_delete ::
  "OpEntry list \<Rightarrow> BackendMessageRef list \<Rightarrow> OpPriority \<Rightarrow> OpEntry list" where
  "coalesce_delete result refs p =
     (let fresh = \<lparr>op = DeleteMessages (foldl push_unique_ref [] refs), priority = p\<rparr> # result
      in case result of
           [] \<Rightarrow> fresh
         | pending # rest \<Rightarrow>
             (case op pending of
                DeleteMessages pending_refs \<Rightarrow>
                  pending\<lparr>op := DeleteMessages (foldl push_unique_ref pending_refs refs)\<rparr> # rest
              | _ \<Rightarrow> fresh))"

definition coalesce_move ::
  "OpEntry list \<Rightarrow> BackendMessageRef list \<Rightarrow> string \<Rightarrow> OpPriority \<Rightarrow> OpEntry list" where
  "coalesce_move result refs target_folder p =
     (let fresh = \<lparr>op = MoveMessages refs target_folder, priority = p\<rparr> # result
      in case result of
           [] \<Rightarrow> fresh
         | pending # rest \<Rightarrow>
             (case op pending of
                MoveMessages pending_refs pending_target \<Rightarrow>
                  if pending_target = target_folder
                  then pending\<lparr>op := MoveMessages (foldl (push_unique (=)) pending_refs refs)
                                       pending_target\<rparr> # rest
                  else fresh
              | _ \<Rightarrow> fresh))"

definition coalesce_flags ::
  "OpEntry list \<Rightarrow> FlagMutation list \<Rightarrow> OpPriority \<Rightarrow> OpEntry list" where
  "coalesce_flags result mutations p =
     (let fresh = \<lparr>op = SetFlags mutations, priority = p\<rparr> # result
      in case (result, mutations) of
           (pending # rest, [mutation]) \<Rightarrow>
             (case op pending of
                SetFlags [pending_mutation] \<Rightarrow>
                  if flags pending_mutation = flags mutation \<and> add pending_mutation = add mutation
                  then (case (target pending_mutation, target mutation) of
                          (Messages pending_refs, Messages refs) \<Rightarrow>
                            pending\<lparr>op := SetFlags
                              [pending_mutation\<lparr>target := Messages (pending_refs @ refs)\<rparr>]\<rparr> # rest
                        | _ \<Rightarrow> fresh)
                  else fresh
              | _ \<Rightarrow> fresh)
         | _ \<Rightarrow> fresh)"

definition coalesce_entry :: "OpEntry list \<Rightarrow> OpEntry \<Rightarrow> OpEntry list" where
  "coalesce_entry result entry =
     (case op entry of
        DeleteMessages refs \<Rightarrow> coalesce_delete result refs (priority entry)
      | MoveMessages refs target_folder \<Rightarrow> coalesce_move result refs target_folder (priority entry)
      | SetFlags mutations \<Rightarrow> coalesce_flags result mutations (priority entry)
      | ReplayOffline \<Rightarrow>
          if list_ex (\<lambda>pending. is_replay (op pending)) result then result
          else \<lparr>op = ReplayOffline, priority = priority entry\<rparr> # result
      | other \<Rightarrow> \<lparr>op = other, priority = priority entry\<rparr> # result)"

definition coalesce :: "OpEntry list \<Rightarrow> OpEntry list" where
  "coalesce ops =
     (if ops = [] then ops else rev (foldl coalesce_entry [] (sort_key priority ops)))"

section \<open>Specification: the elementary effects of a queue\<close>

text \<open>
  What an operation asks of single messages, in order. Coalescing may only drop an effect
  that an equal earlier one already asks for.
\<close>

datatype effect =
    EDelete BackendMessageRef
  | EMove BackendMessageRef string
  | EFlag BackendMessageRef "string list" bool
  | EFolderFlags FlagMutation
  | EOther MailOp

fun mutation_effects :: "FlagMutation \<Rightarrow> effect list" where
  "mutation_effects m =
     (case target m of
        Messages refs \<Rightarrow> map (\<lambda>r. EFlag r (flags m) (add m)) refs
      | AllMessagesInFolders _ _ \<Rightarrow> [EFolderFlags m])"

fun op_effects :: "MailOp \<Rightarrow> effect list" where
  "op_effects (DeleteMessages refs) = map EDelete refs"
| "op_effects (MoveMessages refs target_folder) = map (\<lambda>r. EMove r target_folder) refs"
| "op_effects (SetFlags mutations) = concat (map mutation_effects mutations)"
| "op_effects other = [EOther other]"

definition queue_effects :: "OpEntry list \<Rightarrow> effect list" where
  "queue_effects entries = concat (map (\<lambda>e. op_effects (op e)) entries)"

fun same_effect :: "effect \<Rightarrow> effect \<Rightarrow> bool" where
  "same_effect (EDelete a) (EDelete b) \<longleftrightarrow> same_message a b"
| "same_effect a b \<longleftrightarrow> a = b"

text \<open>\<open>thinned xs ys\<close>: \<open>ys\<close> is \<open>xs\<close> less some effects, each with the same effect before it.\<close>

inductive thinned :: "effect list \<Rightarrow> effect list \<Rightarrow> bool" where
  thin_nil: "thinned [] []"
| thin_keep: "thinned xs ys \<Longrightarrow> thinned (xs @ [e]) (ys @ [e])"
| thin_drop: "thinned xs ys \<Longrightarrow> \<exists>e' \<in> set ys. same_effect e' e \<Longrightarrow> thinned (xs @ [e]) ys"

declare thinned.intros [step_intros]

text \<open>Operations that are never merged keep their entries.\<close>

fun unmerged :: "MailOp \<Rightarrow> bool" where
  "unmerged (CopyMessages _ _) = True"
| "unmerged (SendRaw _ _ _ _ _ _) = True"
| "unmerged (SyncFolder _) = True"
| "unmerged _ = False"

text \<open>What every result of the loop satisfies: deletes without duplicates, one replay signal.\<close>

fun distinct_refs :: "BackendMessageRef list \<Rightarrow> bool" where
  "distinct_refs [] = True"
| "distinct_refs (r # rs) \<longleftrightarrow> \<not> contains_ref rs r \<and> distinct_refs rs"

fun delete_refs :: "MailOp \<Rightarrow> BackendMessageRef list" where
  "delete_refs (DeleteMessages refs) = refs"
| "delete_refs _ = []"

definition coalesced :: "OpEntry list \<Rightarrow> bool" where
  "coalesced R \<longleftrightarrow> list_all (\<lambda>e. distinct_refs (delete_refs (op e))) R
     \<and> length (filter (\<lambda>e. is_replay (op e)) R) \<le> 1"

section \<open>Lemmas\<close>

lemmas coalesce_branch_defs =
  coalesce_entry_def coalesce_delete_def coalesce_move_def coalesce_flags_def Let_def

lemma queue_effects_simps [simp]:
  "queue_effects [] = []"
  "queue_effects (e # es) = op_effects (op e) @ queue_effects es"
  "queue_effects (es @ fs) = queue_effects es @ queue_effects fs"
  by (simp_all add: queue_effects_def)

lemma thinned_append: "thinned xs ys \<Longrightarrow> thinned (xs @ zs) (ys @ zs)"
proof (induction zs rule: rev_induct)
  case Nil
  then show ?case by simp
next
  case (snoc z zs)
  then have "thinned ((xs @ zs) @ [z]) ((ys @ zs) @ [z])"
    by (blast intro: step_intros)
  then show ?case by simp
qed

lemma thinned_subseq: "thinned xs ys \<Longrightarrow> subseq ys xs"
  by (induction rule: thinned.induct) (auto intro: list_emb_append_mono subseq_rev_drop_many)

lemma same_effect_refl [simp]: "same_effect e e"
  by (cases e) simp_all

lemma thinned_covers: "thinned xs ys \<Longrightarrow> e \<in> set xs \<Longrightarrow> \<exists>e' \<in> set ys. same_effect e' e"
  by (induction rule: thinned.induct) (auto intro: same_effect_refl)

lemma thinned_push_unique:
  assumes "\<And>a b. same a b \<Longrightarrow> same_effect (E a) (E b)"
  shows "thinned xs (ys @ map E pending) \<Longrightarrow>
    thinned (xs @ map E refs) (ys @ map E (foldl (push_unique same) pending refs))"
proof (induction refs arbitrary: xs pending)
  case Nil
  then show ?case by simp
next
  case (Cons r refs)
  have "thinned (xs @ [E r]) (ys @ map E (push_unique same pending r))"
  proof (cases "list_ex (\<lambda>x. same x r) pending")
    case True
    then have "\<exists>e' \<in> set (ys @ map E pending). same_effect e' (E r)"
      using assms by (auto simp: list_ex_iff)
    from thin_drop [OF Cons.prems this] True show ?thesis by (simp add: push_unique_def)
  next
    case False
    with thin_keep [OF Cons.prems, of "E r"] show ?thesis by (simp add: push_unique_def)
  qed
  from Cons.IH [OF this] show ?case by simp
qed

lemmas thinned_delete =
  thinned_push_unique [of same_message EDelete, folded push_unique_ref_def, simplified]
lemmas thinned_move = thinned_push_unique [of "(=)" "\<lambda>r. EMove r t" for t, simplified]

lemma coalesce_delete_thinned:
  assumes "thinned xs (queue_effects (rev R))"
  shows "thinned (xs @ map EDelete refs) (queue_effects (rev (coalesce_delete R refs p)))"
proof -
  have fresh: "thinned (xs @ map EDelete refs)
      (queue_effects (rev R) @ map EDelete (foldl push_unique_ref [] refs))"
    using thinned_delete [of xs "queue_effects (rev R)" "[]" refs] assms by simp
  show ?thesis
  proof (cases R)
    case Nil
    with fresh show ?thesis by (simp add: coalesce_delete_def)
  next
    case (Cons e es)
    with fresh assms thinned_delete [of xs "queue_effects (rev es)" _ refs] show ?thesis
      by (auto simp: coalesce_delete_def Let_def split: MailOp.splits)
  qed
qed

lemma coalesce_move_thinned:
  assumes "thinned xs (queue_effects (rev R))"
  shows "thinned (xs @ map (\<lambda>r. EMove r t) refs) (queue_effects (rev (coalesce_move R refs t p)))"
proof -
  have fresh: "thinned (xs @ map (\<lambda>r. EMove r t) refs)
      (queue_effects (rev R) @ map (\<lambda>r. EMove r t) refs)"
    using assms by (rule thinned_append)
  show ?thesis
  proof (cases R)
    case Nil
    with fresh show ?thesis by (simp add: coalesce_move_def)
  next
    case (Cons e es)
    with fresh assms thinned_move [of xs "queue_effects (rev es)" t _ refs] show ?thesis
      by (auto simp: coalesce_move_def Let_def split: MailOp.splits)
  qed
qed

lemma coalesce_flags_effects:
  "queue_effects (rev (coalesce_flags R ms p)) = queue_effects (rev R) @ op_effects (SetFlags ms)"
  by (auto simp: coalesce_flags_def Let_def split: list.splits MailOp.splits FlagTarget.splits if_splits)

lemma replay_effect: "list_ex (\<lambda>e. is_replay (op e)) R \<Longrightarrow> EOther ReplayOffline \<in> set (queue_effects (rev R))"
  by (induction R) (auto elim!: is_replay.elims)

lemma coalesce_entry_thinned:
  assumes "thinned xs (queue_effects (rev R))"
  shows "thinned (xs @ op_effects (op e)) (queue_effects (rev (coalesce_entry R e)))"
proof (cases "op e")
  case (DeleteMessages refs)
  with coalesce_delete_thinned [OF assms] show ?thesis by (simp add: coalesce_entry_def)
next
  case (MoveMessages refs t)
  with coalesce_move_thinned [OF assms] show ?thesis by (simp add: coalesce_entry_def)
next
  case (SetFlags ms)
  with thinned_append [OF assms] show ?thesis
    by (simp add: coalesce_entry_def coalesce_flags_effects)
next
  case ReplayOffline
  with assms thinned_append [OF assms] show ?thesis
    by (auto simp: coalesce_entry_def intro!: thin_drop bexI [OF _ replay_effect])
qed (use thinned_append [OF assms] in \<open>simp_all add: coalesce_entry_def\<close>)

lemma coalesce_fold_thinned:
  "thinned xs (queue_effects (rev R)) \<Longrightarrow>
     thinned (xs @ queue_effects es) (queue_effects (rev (foldl coalesce_entry R es)))"
proof (induction es arbitrary: xs R)
  case Nil
  then show ?case by simp
next
  case (Cons e es)
  from Cons.IH [OF coalesce_entry_thinned [OF Cons.prems]] show ?case by simp
qed

text \<open>Every round keeps the result, pushes one entry, or rewrites its newest entry.\<close>

definition round_shape :: "OpEntry list \<Rightarrow> OpEntry \<Rightarrow> OpEntry list \<Rightarrow> bool" where
  "round_shape R e R' \<longleftrightarrow>
     (R' = R \<and> \<not> unmerged (op e))
   \<or> (\<exists>x. R' = x # R \<and> priority x = priority e
        \<and> (op x = op e \<or> \<not> unmerged (op x) \<and> \<not> unmerged (op e)))
   \<or> (\<exists>x y es. R = x # es \<and> R' = y # es \<and> priority y = priority x
        \<and> \<not> unmerged (op y) \<and> \<not> unmerged (op x) \<and> \<not> unmerged (op e))"

lemma coalesce_delete_shape:
  "op e = DeleteMessages refs \<Longrightarrow> round_shape R e (coalesce_delete R refs (priority e))"
  by (cases R) (auto simp: round_shape_def coalesce_delete_def Let_def split: MailOp.splits)

lemma coalesce_move_shape:
  "op e = MoveMessages refs t \<Longrightarrow> round_shape R e (coalesce_move R refs t (priority e))"
  by (cases R) (auto simp: round_shape_def coalesce_move_def Let_def split: MailOp.splits)

lemma coalesce_flags_shape:
  "op e = SetFlags ms \<Longrightarrow> round_shape R e (coalesce_flags R ms (priority e))"
  by (cases R) (auto simp: round_shape_def coalesce_flags_def Let_def
      split: MailOp.splits list.splits FlagTarget.splits)

lemma coalesce_entry_shape: "round_shape R e (coalesce_entry R e)"
proof (cases "op e")
  case (DeleteMessages refs)
  with coalesce_delete_shape show ?thesis by (simp add: coalesce_entry_def)
next
  case (MoveMessages refs t)
  with coalesce_move_shape show ?thesis by (simp add: coalesce_entry_def)
next
  case (SetFlags ms)
  with coalesce_flags_shape show ?thesis by (simp add: coalesce_entry_def)
qed (auto simp: coalesce_entry_def round_shape_def)

lemma coalesce_entry_priorities:
  "map priority (coalesce_entry R e) = map priority R \<or>
   map priority (coalesce_entry R e) = priority e # map priority R"
  using coalesce_entry_shape [of R e] by (auto simp: round_shape_def)

lemma coalesce_fold_priorities:
  "sorted (map priority (rev R)) \<Longrightarrow> sorted (map priority es) \<Longrightarrow>
   (\<forall>x \<in> set R. \<forall>y \<in> set es. priority x \<le> priority y) \<Longrightarrow>
   sorted (map priority (rev (foldl coalesce_entry R es)))"
proof (induction es arbitrary: R)
  case Nil
  then show ?case by simp
next
  case (Cons e es)
  let ?R = "coalesce_entry R e"
  have same: "map priority ?R = map priority R \<or> map priority ?R = priority e # map priority R"
    by (rule coalesce_entry_priorities)
  then have "sorted (map priority (rev ?R))"
    using Cons.prems by (auto simp: rev_map [symmetric] sorted_append)
  moreover have "set (map priority ?R) \<subseteq> insert (priority e) (set (map priority R))"
    using same by (elim disjE) (simp_all only: list.simps(15) subset_insertI order_refl)
  then have "priority x = priority e \<or> (\<exists>z \<in> set R. priority x = priority z)" if "x \<in> set ?R" for x
    using that by auto
  then have "\<forall>x \<in> set ?R. \<forall>y \<in> set es. priority x \<le> priority y"
    using Cons.prems by (metis list.set_intros(2) list.simps(9) set_map image_eqI sorted_simps(2))
  ultimately show ?case using Cons by simp
qed

lemma coalesce_entry_unmerged:
  "filter (\<lambda>x. unmerged (op x)) (rev (coalesce_entry R e)) =
     filter (\<lambda>x. unmerged (op x)) (rev R @ [e])"
  using coalesce_entry_shape [of R e] by (cases e) (auto simp: round_shape_def)

lemma coalesce_fold_unmerged:
  "filter (\<lambda>x. unmerged (op x)) (rev (foldl coalesce_entry R es)) =
     filter (\<lambda>x. unmerged (op x)) (rev R @ es)"
proof (induction es arbitrary: R)
  case Nil
  then show ?case by simp
next
  case (Cons e es)
  then show ?case using coalesce_entry_unmerged [of R e] by simp
qed

lemma distinct_refs_snoc: "distinct_refs (rs @ [r]) \<longleftrightarrow> \<not> contains_ref rs r \<and> distinct_refs rs"
proof (induction rs)
  case Nil
  then show ?case by simp
next
  case (Cons a rs)
  have "same_message r a \<longleftrightarrow> same_message a r" by (blast intro: same_message_sym)
  with Cons show ?case by auto
qed

lemma distinct_refs_push: "distinct_refs rs \<Longrightarrow> distinct_refs (push_unique_ref rs r)"
  by (auto simp: push_unique_ref_def push_unique_def distinct_refs_snoc contains_ref_def)

lemma distinct_refs_fold: "distinct_refs rs \<Longrightarrow> distinct_refs (foldl push_unique_ref rs xs)"
  by (induction xs arbitrary: rs) (auto intro: distinct_refs_push)

lemma coalesced_Nil [simp]: "coalesced []"
  by (simp add: coalesced_def)

lemma coalesced_push:
  "coalesced R \<Longrightarrow> distinct_refs (delete_refs (op e)) \<Longrightarrow>
     (is_replay (op e) \<Longrightarrow> \<not> list_ex (\<lambda>x. is_replay (op x)) R) \<Longrightarrow> coalesced (e # R)"
  by (auto simp: coalesced_def list_ex_iff filter_empty_conv)

lemma coalesced_replace:
  "coalesced (e # R) \<Longrightarrow> \<not> is_replay m \<Longrightarrow> distinct_refs (delete_refs m) \<Longrightarrow> coalesced (e\<lparr>op := m\<rparr> # R)"
  by (auto simp: coalesced_def split: if_splits)

lemma coalesced_head: "coalesced (e # R) \<Longrightarrow> distinct_refs (delete_refs (op e))"
  by (simp add: coalesced_def)

lemma coalesce_delete_coalesced: "coalesced R \<Longrightarrow> coalesced (coalesce_delete R refs p)"
  by (auto simp: coalesce_delete_def Let_def distinct_refs_fold split: list.splits MailOp.splits
      intro!: coalesced_push coalesced_replace dest: coalesced_head)

lemma coalesce_move_coalesced: "coalesced R \<Longrightarrow> coalesced (coalesce_move R refs t p)"
  by (auto simp: coalesce_move_def Let_def split: list.splits MailOp.splits
      intro!: coalesced_push coalesced_replace)

lemma coalesce_flags_coalesced: "coalesced R \<Longrightarrow> coalesced (coalesce_flags R ms p)"
  by (auto simp: coalesce_flags_def Let_def split: list.splits MailOp.splits FlagTarget.splits
      intro!: coalesced_push coalesced_replace)

lemma coalesce_entry_coalesced: "coalesced R \<Longrightarrow> coalesced (coalesce_entry R e)"
  by (cases "op e")
     (auto simp: coalesce_entry_def coalesce_delete_coalesced coalesce_move_coalesced
       coalesce_flags_coalesced intro: coalesced_push)

lemma coalesce_fold_coalesced: "coalesced R \<Longrightarrow> coalesced (foldl coalesce_entry R es)"
  by (induction es arbitrary: R) (auto intro: coalesce_entry_coalesced)

lemma coalesced_rev [simp]: "coalesced (rev R) = coalesced R"
  by (simp add: coalesced_def rev_filter [symmetric])

section \<open>Properties\<close>

text \<open>C12: Coalescing a batch keeps its effects in priority order: the effects of the result are
  those of the stably sorted batch, less effects that repeat an earlier kept one (the same
  message deleted again, the same message moved again to the same folder, a second replay
  signal); nothing is reordered and nothing new appears.\<close>

theorem coalesce_thins_effects:
  "thinned (queue_effects (sort_key priority ops)) (queue_effects (coalesce ops))"
  using coalesce_fold_thinned [of "[]" "[]" "sort_key priority ops"]
  by (auto simp: coalesce_def intro: step_intros)

text \<open>C13: In a coalesced batch user operations precede background ones, and copies, sends and
  folder syncs are neither merged, dropped nor reordered.\<close>

theorem coalesce_order_and_copies:
  "sorted (map priority (coalesce ops)) \<and>
   filter (\<lambda>x. unmerged (op x)) (coalesce ops) = filter (\<lambda>x. unmerged (op x)) (sort_key priority ops)"
  using coalesce_fold_priorities [of "[]" "sort_key priority ops"]
    coalesce_fold_unmerged [of "[]" "sort_key priority ops"]
  by (simp add: coalesce_def)

text \<open>A coalesced batch deletes no message twice within one delete operation (JMAP emails
  counted once across mailboxes) and carries at most one replay signal.\<close>

theorem coalesce_coalesced: "coalesced (coalesce ops)"
  using coalesce_fold_coalesced [of "[]"]
  by (simp add: coalesce_def)

end
