(* ===== verification/Json_Value.thy ===== *)
theory Json_Value
  imports Rust_Prelude "HOL-Library.Multiset" "HOL-Library.Char_ord" "HOL-Library.List_Lexorder"
begin

text \<open>
  JSON documents as the outbox handles them, and the external codecs as parameters. A value
  of \<open>externals\<close> bundles the functions of the third-party crates (JSON text, base64) and the
  unspecified iteration order of Rust's \<^verbatim>\<open>HashMap\<close>; theorems assume only what those crates
  document, collected in \<open>sound_externals\<close>.
\<close>

section \<open>Documents\<close>

text \<open>A number that is not an integer is kept as its text.\<close>

datatype json =
    JNull
  | JBool bool
  | JInt int
  | JFloat string
  | JStr string
  | JArr "json list"
  | JObj "(string \<times> json) list"

text \<open>
  An object under construction: \<^verbatim>\<open>serde_json\<close> keeps the fields of an object ordered by key.
\<close>

definition jobj :: "(string \<times> json) list \<Rightarrow> json" where
  "jobj fields = JObj (sort_key fst fields)"

fun jget :: "string \<Rightarrow> json \<Rightarrow> json option" where
  "jget k (JObj fields) = map_of fields k"
| "jget k _ = None"

fun as_str :: "json \<Rightarrow> string option" where
  "as_str (JStr s) = Some s"
| "as_str _ = None"

fun as_bool :: "json \<Rightarrow> bool option" where
  "as_bool (JBool b) = Some b"
| "as_bool _ = None"

fun as_array :: "json \<Rightarrow> json list option" where
  "as_array (JArr xs) = Some xs"
| "as_array _ = None"

fun as_object :: "json \<Rightarrow> (string \<times> json) list option" where
  "as_object (JObj members) = Some members"
| "as_object _ = None"

text \<open>\<^verbatim>\<open>v["key"]\<close> and \<^verbatim>\<open>v[i]\<close> give null when the member is absent, \<^verbatim>\<open>v.get\<close> gives nothing.\<close>

definition jfield :: "string \<Rightarrow> json \<Rightarrow> json" where
  "jfield k v = (case jget k v of None \<Rightarrow> JNull | Some w \<Rightarrow> w)"

fun jelem :: "nat \<Rightarrow> json \<Rightarrow> json" where
  "jelem i (JArr vs) = (if i < length vs then vs ! i else JNull)"
| "jelem i _ = JNull"

fun as_u64 :: "json \<Rightarrow> nat option" where
  "as_u64 (JInt i) = (if 0 \<le> i \<and> i < 2 ^ 64 then Some (nat i) else None)"
| "as_u64 _ = None"

text \<open>\<^verbatim>\<open>u32::try_from\<close> on an unsigned 64-bit number.\<close>

definition u32_of_nat :: "nat \<Rightarrow> u32 option" where
  "u32_of_nat n = (if n < 2 ^ 32 then Some (word_of_nat n) else None)"

definition value_u32 :: "json \<Rightarrow> u32 option" where
  "value_u32 v = Option.bind (as_u64 v) u32_of_nat"

definition value_strings :: "json \<Rightarrow> string list option" where
  "value_strings v = Option.bind (as_array v) (\<lambda>xs. collect_options (map as_str xs))"

definition value_uids :: "json \<Rightarrow> u32 list option" where
  "value_uids v = Option.bind (as_array v) (\<lambda>xs. collect_options (map value_u32 xs))"

fun value_by_folder :: "json \<Rightarrow> (string \<times> u32 list) list option" where
  "value_by_folder (JObj fields) =
     collect_options (map (\<lambda>(k, v). map_option (Pair k) (value_uids v)) fields)"
| "value_by_folder _ = None"

definition json_strings :: "string list \<Rightarrow> json" where
  "json_strings ss = JArr (map JStr ss)"

definition json_u32 :: "u32 \<Rightarrow> json" where
  "json_u32 u = JInt (uint u)"

definition json_by_folder :: "(string \<times> u32 list) list \<Rightarrow> json" where
  "json_by_folder m = jobj (map (\<lambda>(k, us). (k, JArr (map json_u32 us))) m)"

definition contains_key :: "string \<Rightarrow> (string \<times> json) list \<Rightarrow> bool" where
  "contains_key k members \<longleftrightarrow> k \<in> fst ` set members"

text \<open>A JSON object built by insertions: a later value replaces an earlier one of its key.\<close>

definition map_insert :: "(string \<times> json) list \<Rightarrow> string \<times> json \<Rightarrow> (string \<times> json) list" where
  "map_insert members kv =
     (if contains_key (fst kv) members
      then map (\<lambda>(l, w). if l = fst kv then (l, snd kv) else (l, w)) members
      else members @ [kv])"

definition inserted_object :: "(string \<times> json) list \<Rightarrow> json" where
  "inserted_object kvs = jobj (foldl map_insert [] kvs)"

section \<open>External code\<close>

record externals =
  json_text :: "json \<Rightarrow> string"
  json_parse :: "string \<Rightarrow> json option"
  b64_encode :: "8 word list \<Rightarrow> string"
  b64_decode :: "string \<Rightarrow> 8 word list option"
  hash_iter :: "(string \<times> u32 list) list \<Rightarrow> (string \<times> u32 list) list"

text \<open>
  What the code relies on for one document and one byte string: parsing the text of a document
  gives it back, decoding inverts encoding, and iterating over a hash map visits each entry
  once, in any order.
\<close>

definition sound_externals :: "externals \<Rightarrow> json \<Rightarrow> 8 word list \<Rightarrow> bool" where
  "sound_externals x doc bytes \<longleftrightarrow>
     json_parse x (json_text x doc) = Some doc
   \<and> b64_decode x (b64_encode x bytes) = Some bytes
   \<and> (\<forall>m. mset (hash_iter x m) = mset m)"

section \<open>Lemmas\<close>

lemma value_u32_json [simp]: "value_u32 (json_u32 u) = Some u"
proof -
  have "uint u < 2 ^ 32" and "unat u < 2 ^ 32"
    using unsigned_less [of u, where ?'a = int] unsigned_less [of u, where ?'a = nat] by simp_all
  then show ?thesis
    by (simp add: value_u32_def json_u32_def u32_of_nat_def)
qed

lemma value_strings_json [simp]: "value_strings (json_strings ss) = Some ss"
  using collect_options_inverse [of ss as_str JStr]
  by (simp add: value_strings_def json_strings_def)

lemma value_uids_json [simp]: "value_uids (JArr (map json_u32 us)) = Some us"
  using collect_options_inverse [of us value_u32 json_u32]
  by (simp add: value_uids_def)

lemma map_of_filter: "map_of xs k = map_option snd (case filter (\<lambda>p. fst p = k) xs of [] \<Rightarrow> None | p # _ \<Rightarrow> Some p)"
  by (induction xs) auto

lemma map_of_sort_key [simp]: "map_of (sort_key fst xs) k = map_of xs k"
  by (simp add: map_of_filter sort_key_stable)

lemma jget_jobj [simp]: "jget k (jobj fs) = map_of fs k"
  by (simp add: jobj_def)

lemma sort_key_map: "sort_key f (map g xs) = map g (sort_key (\<lambda>x. f (g x)) xs)"
proof (induction xs)
  case (Cons x xs)
  have "insort_key f (g x) (map g ys) = map g (insort_key (\<lambda>x. f (g x)) x ys)" for ys
    by (induction ys) auto
  with Cons show ?case by simp
qed simp

lemma value_by_folder_json [simp]: "value_by_folder (json_by_folder m) = Some (sort_key fst m)"
proof -
  let ?enc = "\<lambda>(k, us). (k, JArr (map json_u32 us))"
  have sorted: "sort_key fst (map ?enc m) = map ?enc (sort_key fst m)"
    by (simp add: sort_key_map case_prod_unfold)
  have "collect_options (map (\<lambda>(k, v). map_option (Pair k) (value_uids v))
          (map ?enc (sort_key fst m))) = Some (sort_key fst m)"
    by (rule collect_options_inverse) auto
  then show ?thesis by (simp only: json_by_folder_def jobj_def sorted value_by_folder.simps)
qed

end
