(* ===== verification/Outbox_Codec.thy ===== *)
theory Outbox_Codec
  imports Queue Json_Value
begin

text \<open>
  The persisted form of queued operations (\<^verbatim>\<open>ops/offline.rs\<close>): \<open>mail_op_to_outbox\<close> and
  \<open>outbox_to_mail_op\<close> with the legacy payloads and the validation of everything read back.
\<close>

section \<open>Outbox entries\<close>

record OutboxEntry =
  entry_id :: int
  entry_account_id :: string
  entry_action_type :: string
  entry_payload_json :: string
  entry_retry_count :: int

section \<open>Encoding\<close>

fun is_imap_ref :: "BackendMessageRef \<Rightarrow> bool" where
  "is_imap_ref (Imap _ _) = True"
| "is_imap_ref _ = False"

text \<open>\<open>by_folder.entry(folder).or_default().push(uid)\<close>, the map as an association list.\<close>

fun push_uid :: "(string \<times> u32 list) list \<Rightarrow> string \<Rightarrow> u32 \<Rightarrow> (string \<times> u32 list) list" where
  "push_uid [] folder u = [(folder, [u])]"
| "push_uid ((k, us) # m) folder u =
     (if k = folder then (k, us @ [u]) # m else (k, us) # push_uid m folder u)"

fun add_to_folder :: "(string \<times> u32 list) list \<Rightarrow> BackendMessageRef \<Rightarrow> (string \<times> u32 list) list" where
  "add_to_folder m (Imap folder u) = push_uid m folder u"
| "add_to_folder m _ = m"

definition group_by_folder :: "BackendMessageRef list \<Rightarrow> (string \<times> u32 list) list" where
  "group_by_folder refs = foldl add_to_folder [] refs"

fun message_ref_to_json :: "BackendMessageRef \<Rightarrow> json" where
  "message_ref_to_json (Imap folder u) =
     jobj [(''kind'', JStr ''imap''), (''folder_path'', JStr folder), (''uid'', json_u32 u)]"
| "message_ref_to_json (Jmap mailbox email) =
     jobj [(''kind'', JStr ''jmap''), (''mailbox_id'', JStr mailbox), (''email_id'', JStr email)]"
| "message_ref_to_json (Graph item) =
     jobj [(''kind'', JStr ''graph''), (''item_id'', JStr item)]"

definition refs_to_json :: "BackendMessageRef list \<Rightarrow> json" where
  "refs_to_json refs = JArr (map message_ref_to_json refs)"

definition flag_mutation_to_json :: "FlagMutation \<Rightarrow> json" where
  "flag_mutation_to_json m =
     (case target m of
        Messages refs \<Rightarrow>
          if list_all is_imap_ref refs
          then jobj [(''by_folder'', json_by_folder (group_by_folder refs)),
                     (''flags'', json_strings (flags m)), (''add'', JBool (add m))]
          else jobj [(''message_refs'', refs_to_json refs),
                     (''flags'', json_strings (flags m)), (''add'', JBool (add m))]
      | AllMessagesInFolders folder_paths excluded_refs \<Rightarrow>
          jobj [(''target'',
                  jobj [(''kind'', JStr ''all_messages_in_folders''),
                        (''folder_paths'', json_strings folder_paths),
                        (''excluded_refs'', refs_to_json excluded_refs)]),
                (''flags'', json_strings (flags m)), (''add'', JBool (add m))])"

definition refs_payload :: "BackendMessageRef list \<Rightarrow> (string \<times> json) list" where
  "refs_payload refs =
     (if list_all is_imap_ref refs
      then [(''by_folder'', json_by_folder (group_by_folder refs))]
      else [(''message_refs'', refs_to_json refs)])"

fun mail_op_to_outbox :: "externals \<Rightarrow> MailOp \<Rightarrow> (string \<times> json) option" where
  "mail_op_to_outbox x (MoveMessages refs target_folder) =
     Some (''move'', jobj (refs_payload refs @ [(''target_folder'', JStr target_folder)]))"
| "mail_op_to_outbox x (DeleteMessages refs) = Some (''delete'', jobj (refs_payload refs))"
| "mail_op_to_outbox x (SetFlags mutations) =
     Some (''set_flags'',
       case mutations of
         [mutation] \<Rightarrow> flag_mutation_to_json mutation
       | _ \<Rightarrow> jobj [(''mutations'', JArr (map flag_mutation_to_json mutations))])"
| "mail_op_to_outbox x (CopyMessages refs target_folder) =
     Some (''copy'', jobj (refs_payload refs @ [(''target_folder'', JStr target_folder)]))"
| "mail_op_to_outbox x (SendRaw raw_message from to cc bcc subject) =
     Some (''send'', jobj [(''raw_message_b64'', JStr (b64_encode x raw_message)),
                           (''from'', JStr from), (''to'', json_strings to),
                           (''cc'', json_strings cc), (''bcc'', json_strings bcc),
                           (''subject'', JStr subject)])"
| "mail_op_to_outbox x _ = None"

section \<open>Decoding\<close>

definition valid_folder_path :: "string \<Rightarrow> bool" where
  "valid_folder_path path \<longleftrightarrow>
     char_of (0::nat) \<notin> set path \<and> char_of (10::nat) \<notin> set path \<and> char_of (13::nat) \<notin> set path"

definition validate_folder_paths :: "(string \<times> u32 list) list \<Rightarrow> bool" where
  "validate_folder_paths m \<longleftrightarrow> list_all (\<lambda>(path, _). valid_folder_path path) m"

definition message_ref_from_json :: "json \<Rightarrow> BackendMessageRef option" where
  "message_ref_from_json v =
     Option.bind (jget ''kind'' v) (\<lambda>k. Option.bind (as_str k) (\<lambda>kind.
       if kind = ''imap'' then
         Option.bind (jget ''folder_path'' v) (\<lambda>f. Option.bind (as_str f) (\<lambda>folder.
           Option.bind (jget ''uid'' v) (\<lambda>u. map_option (Imap folder) (value_u32 u))))
       else if kind = ''jmap'' then
         Option.bind (jget ''mailbox_id'' v) (\<lambda>m. Option.bind (as_str m) (\<lambda>mailbox.
           Option.bind (jget ''email_id'' v) (\<lambda>e. map_option (Jmap mailbox) (as_str e))))
       else if kind = ''graph'' then
         Option.bind (jget ''item_id'' v) (\<lambda>i. map_option Graph (as_str i))
       else None))"

definition refs_from_json :: "json \<Rightarrow> BackendMessageRef list option" where
  "refs_from_json v = Option.bind (as_array v) (\<lambda>xs. collect_options (map message_ref_from_json xs))"

fun valid_message_ref :: "BackendMessageRef \<Rightarrow> bool" where
  "valid_message_ref (Imap folder u) \<longleftrightarrow> valid_folder_path folder \<and> 0 < u"
| "valid_message_ref (Jmap mailbox email) \<longleftrightarrow> mailbox \<noteq> [] \<and> email \<noteq> []"
| "valid_message_ref (Graph item) \<longleftrightarrow> item \<noteq> []"

fun same_provider :: "BackendMessageRef \<Rightarrow> BackendMessageRef \<Rightarrow> bool" where
  "same_provider (Imap _ _) (Imap _ _) = True"
| "same_provider (Jmap _ _) (Jmap _ _) = True"
| "same_provider (Graph _) (Graph _) = True"
| "same_provider _ _ = False"

fun message_refs_have_one_provider :: "BackendMessageRef list \<Rightarrow> bool" where
  "message_refs_have_one_provider [] = False"
| "message_refs_have_one_provider (first # rest) \<longleftrightarrow> list_all (\<lambda>r. same_provider r first) (first # rest)"

text \<open>Iterating over the decoded hash map, folder by folder.\<close>

definition refs_of_map :: "externals \<Rightarrow> (string \<times> u32 list) list \<Rightarrow> BackendMessageRef list" where
  "refs_of_map x m = concat (map (\<lambda>(folder, us). map (Imap folder) us) (hash_iter x m))"

definition flag_mutation_from_json :: "externals \<Rightarrow> json \<Rightarrow> FlagMutation option" where
  "flag_mutation_from_json x v =
     Option.bind (jget ''flags'' v) (\<lambda>fl. Option.bind (value_strings fl) (\<lambda>fs.
     Option.bind (jget ''add'' v) (\<lambda>a. Option.bind (as_bool a) (\<lambda>ad.
     Option.bind
       (case jget ''target'' v of
          Some t \<Rightarrow>
            Option.bind (jget ''kind'' t) (\<lambda>k. Option.bind (as_str k) (\<lambda>kind.
              if kind \<noteq> ''all_messages_in_folders'' \<or> \<not> ad \<or> length fs \<noteq> 1
                 \<or> \<not> eq_ignore_ascii_case (fs ! 0) ''seen''
              then None
              else
                Option.bind (jget ''folder_paths'' t) (\<lambda>fp. Option.bind (value_strings fp) (\<lambda>folder_paths.
                if \<not> list_all valid_folder_path folder_paths then None
                else
                  Option.bind (jget ''excluded_refs'' t) (\<lambda>er.
                  Option.bind (refs_from_json er) (\<lambda>excluded_refs.
                  if \<not> list_all (\<lambda>r. ref_in_folders r folder_paths) excluded_refs then None
                  else Some (AllMessagesInFolders folder_paths excluded_refs)))))))
        | None \<Rightarrow>
            (case jget ''by_folder'' v of
               Some b \<Rightarrow>
                 Option.bind (value_by_folder b) (\<lambda>by_folder.
                   if \<not> validate_folder_paths by_folder then None
                   else Some (Messages (refs_of_map x by_folder)))
             | None \<Rightarrow>
                 Option.bind (jget ''message_refs'' v) (\<lambda>r. map_option Messages (refs_from_json r))))
       (\<lambda>t. Some \<lparr>target = t, flags = fs, add = ad\<rparr>)))))"

text \<open>
  Payloads of older versions. The move and the delete variants of the source have the same
  body; JMAP ids are ambiguous there and are rejected.
\<close>

definition legacy_move_refs :: "OutboxEntry \<Rightarrow> json \<Rightarrow> BackendMessageRef list option" where
  "legacy_move_refs entry payload =
     Option.bind (jget ''protocol'' payload) (\<lambda>p. Option.bind (as_str p) (\<lambda>protocol.
     Option.bind (jget ''message_ids'' payload) (\<lambda>i. Option.bind (as_array i) (\<lambda>ids.
       if protocol = ''graph''
       then collect_options (map (\<lambda>v. map_option (graph_from_db_id (entry_account_id entry)) (as_str v)) ids)
       else None))))"

definition legacy_delete_refs :: "OutboxEntry \<Rightarrow> json \<Rightarrow> BackendMessageRef list option" where
  "legacy_delete_refs entry payload =
     Option.bind (jget ''protocol'' payload) (\<lambda>p. Option.bind (as_str p) (\<lambda>protocol.
     Option.bind (jget ''message_ids'' payload) (\<lambda>i. Option.bind (as_array i) (\<lambda>ids.
       if protocol = ''graph''
       then collect_options (map (\<lambda>v. map_option (graph_from_db_id (entry_account_id entry)) (as_str v)) ids)
       else None))))"

definition decode_target_folder :: "json \<Rightarrow> string option" where
  "decode_target_folder payload =
     Option.bind (jget ''target_folder'' payload) (\<lambda>t. Option.bind (as_str t) (\<lambda>folder.
       if folder = [] \<or> \<not> valid_folder_path folder then None else Some folder))"

definition decode_move :: "externals \<Rightarrow> OutboxEntry \<Rightarrow> json \<Rightarrow> MailOp option" where
  "decode_move x entry payload =
     Option.bind
       (case jget ''by_folder'' payload of
          Some b \<Rightarrow>
            Option.bind (value_by_folder b) (\<lambda>by_folder.
              if \<not> validate_folder_paths by_folder then None else Some (refs_of_map x by_folder))
        | None \<Rightarrow>
            (case jget ''message_refs'' payload of
               Some r \<Rightarrow> refs_from_json r
             | None \<Rightarrow> legacy_move_refs entry payload))
       (\<lambda>refs. if refs = [] \<or> \<not> list_all valid_message_ref refs then None
               else map_option (MoveMessages refs) (decode_target_folder payload))"

definition decode_delete :: "externals \<Rightarrow> OutboxEntry \<Rightarrow> json \<Rightarrow> MailOp option" where
  "decode_delete x entry payload =
     Option.bind
       (case jget ''by_folder'' payload of
          Some b \<Rightarrow> map_option (refs_of_map x) (value_by_folder b)
        | None \<Rightarrow>
            (case jget ''message_refs'' payload of
               Some r \<Rightarrow> refs_from_json r
             | None \<Rightarrow> legacy_delete_refs entry payload))
       (\<lambda>refs. if refs = [] \<or> \<not> list_all valid_message_ref refs then None
               else Some (DeleteMessages refs))"

definition decode_set_flags :: "externals \<Rightarrow> json \<Rightarrow> MailOp option" where
  "decode_set_flags x payload =
     (case jget ''mutations'' payload of
        Some ms \<Rightarrow>
          Option.bind (as_array ms) (\<lambda>xs.
            map_option SetFlags (collect_options (map (flag_mutation_from_json x) xs)))
      | None \<Rightarrow> map_option (\<lambda>m. SetFlags [m]) (flag_mutation_from_json x payload))"

definition decode_copy :: "externals \<Rightarrow> json \<Rightarrow> MailOp option" where
  "decode_copy x payload =
     Option.bind
       (case jget ''by_folder'' payload of
          Some b \<Rightarrow>
            Option.bind (value_by_folder b) (\<lambda>by_folder.
              if \<not> validate_folder_paths by_folder then None else Some (refs_of_map x by_folder))
        | None \<Rightarrow> Option.bind (jget ''message_refs'' payload) refs_from_json)
       (\<lambda>refs. if \<not> message_refs_have_one_provider refs \<or> \<not> list_all valid_message_ref refs then None
               else map_option (CopyMessages refs) (decode_target_folder payload))"

text \<open>A missing or malformed recipient list reads as the empty list.\<close>

definition recipients :: "string \<Rightarrow> json \<Rightarrow> string list" where
  "recipients k payload =
     (case Option.bind (jget k payload) value_strings of None \<Rightarrow> [] | Some rs \<Rightarrow> rs)"

definition decode_send :: "externals \<Rightarrow> json \<Rightarrow> MailOp option" where
  "decode_send x payload =
     Option.bind (jget ''raw_message_b64'' payload) (\<lambda>r. Option.bind (as_str r) (\<lambda>raw_b64.
     Option.bind (b64_decode x raw_b64) (\<lambda>raw_message.
     Option.bind (jget ''from'' payload) (\<lambda>f. Option.bind (as_str f) (\<lambda>from.
       let to = recipients ''to'' payload; cc = recipients ''cc'' payload;
           bcc = recipients ''bcc'' payload;
           subject = (case Option.bind (jget ''subject'' payload) as_str of None \<Rightarrow> [] | Some s \<Rightarrow> s)
       in if to = [] \<and> cc = [] \<and> bcc = [] then None
          else Some (SendRaw raw_message from to cc bcc subject))))))"

definition outbox_to_mail_op :: "externals \<Rightarrow> OutboxEntry \<Rightarrow> MailOp option" where
  "outbox_to_mail_op x entry =
     Option.bind (json_parse x (entry_payload_json entry)) (\<lambda>payload.
       let action_type = entry_action_type entry
       in if action_type = ''move'' then decode_move x entry payload
          else if action_type = ''delete'' then decode_delete x entry payload
          else if action_type = ''set_flags'' then decode_set_flags x payload
          else if action_type = ''copy'' then decode_copy x payload
          else if action_type = ''send'' then decode_send x payload
          else None)"

section \<open>Specification\<close>

text \<open>
  Operations the outbox can replay: what the decoder accepts, read as a condition on the
  operation. Replay may list the IMAP messages of an operation in another order.
\<close>

definition storable_mutation :: "FlagMutation \<Rightarrow> bool" where
  "storable_mutation m \<longleftrightarrow>
     (case target m of
        Messages refs \<Rightarrow>
          list_all is_imap_ref refs \<longrightarrow> list_all (\<lambda>r. case r of Imap f _ \<Rightarrow> valid_folder_path f | _ \<Rightarrow> True) refs
      | AllMessagesInFolders folders excluded \<Rightarrow>
          add m \<and> length (flags m) = 1 \<and> eq_ignore_ascii_case (flags m ! 0) ''seen''
        \<and> list_all valid_folder_path folders \<and> list_all (\<lambda>r. ref_in_folders r folders) excluded)"

fun storable :: "MailOp \<Rightarrow> bool" where
  "storable (MoveMessages refs t) \<longleftrightarrow>
     refs \<noteq> [] \<and> list_all valid_message_ref refs \<and> t \<noteq> [] \<and> valid_folder_path t"
| "storable (DeleteMessages refs) \<longleftrightarrow> refs \<noteq> [] \<and> list_all valid_message_ref refs"
| "storable (SetFlags ms) \<longleftrightarrow> list_all storable_mutation ms"
| "storable (CopyMessages refs t) \<longleftrightarrow>
     message_refs_have_one_provider refs \<and> list_all valid_message_ref refs \<and> t \<noteq> [] \<and> valid_folder_path t"
| "storable (SendRaw _ _ to cc bcc _) \<longleftrightarrow> to \<noteq> [] \<or> cc \<noteq> [] \<or> bcc \<noteq> []"
| "storable _ \<longleftrightarrow> False"

fun same_refs :: "FlagTarget \<Rightarrow> FlagTarget \<Rightarrow> bool" where
  "same_refs (Messages a) (Messages b) \<longleftrightarrow> mset a = mset b"
| "same_refs a b \<longleftrightarrow> a = b"

definition same_mutation :: "FlagMutation \<Rightarrow> FlagMutation \<Rightarrow> bool" where
  "same_mutation a b \<longleftrightarrow> same_refs (target a) (target b) \<and> flags a = flags b \<and> add a = add b"

fun same_op :: "MailOp \<Rightarrow> MailOp \<Rightarrow> bool" where
  "same_op (MoveMessages a s) (MoveMessages b t) \<longleftrightarrow> mset a = mset b \<and> s = t"
| "same_op (DeleteMessages a) (DeleteMessages b) \<longleftrightarrow> mset a = mset b"
| "same_op (CopyMessages a s) (CopyMessages b t) \<longleftrightarrow> mset a = mset b \<and> s = t"
| "same_op (SetFlags a) (SetFlags b) \<longleftrightarrow> list_all2 same_mutation a b"
| "same_op a b \<longleftrightarrow> a = b"

definition op_bytes :: "MailOp \<Rightarrow> 8 word list" where
  "op_bytes m = (case m of SendRaw raw _ _ _ _ _ \<Rightarrow> raw | _ \<Rightarrow> [])"

section \<open>Lemmas\<close>

definition flat_refs :: "(string \<times> u32 list) list \<Rightarrow> BackendMessageRef list" where
  "flat_refs m = concat (map (\<lambda>(folder, us). map (Imap folder) us) m)"

lemma mset_flat_push_uid: "mset (flat_refs (push_uid m f u)) = add_mset (Imap f u) (mset (flat_refs m))"
  by (induction m f u rule: push_uid.induct) (auto simp: flat_refs_def)

lemma mset_flat_add_to_folder:
  "is_imap_ref r \<Longrightarrow> mset (flat_refs (add_to_folder m r)) = add_mset r (mset (flat_refs m))"
  by (cases r) (simp_all add: mset_flat_push_uid)

lemma mset_flat_fold:
  "list_all is_imap_ref refs \<Longrightarrow>
     mset (flat_refs (foldl add_to_folder m refs)) = mset (flat_refs m) + mset refs"
  by (induction refs arbitrary: m) (auto simp: mset_flat_add_to_folder)

lemma mset_flat_group: "list_all is_imap_ref refs \<Longrightarrow> mset (flat_refs (group_by_folder refs)) = mset refs"
  by (simp add: group_by_folder_def mset_flat_fold) (simp add: flat_refs_def)

lemma mset_flat_cong: "mset m = mset m' \<Longrightarrow> mset (flat_refs m) = mset (flat_refs m')"
proof -
  have "mset (flat_refs k) = (\<Sum>(folder, us) \<in># mset k. mset (map (Imap folder) us))" for k
    by (induction k) (auto simp: flat_refs_def)
  then show "mset m = mset m' \<Longrightarrow> ?thesis" by simp
qed

lemma refs_of_map_group:
  assumes "\<forall>m. mset (hash_iter x m) = mset m" and "list_all is_imap_ref refs"
  shows "mset (refs_of_map x (sort_key fst (group_by_folder refs))) = mset refs"
proof -
  have "mset (refs_of_map x (sort_key fst (group_by_folder refs)))
      = mset (flat_refs (hash_iter x (sort_key fst (group_by_folder refs))))"
    by (simp add: refs_of_map_def flat_refs_def)
  also have "\<dots> = mset (flat_refs (group_by_folder refs))"
    using assms(1) by (intro mset_flat_cong) simp
  finally show ?thesis using assms(2) by (simp add: mset_flat_group)
qed

fun folder_of :: "BackendMessageRef \<Rightarrow> string" where
  "folder_of (Imap f _) = f"
| "folder_of _ = []"

lemma folder_of_valid:
  "(case r of Imap f _ \<Rightarrow> valid_folder_path f | _ \<Rightarrow> True) \<Longrightarrow> valid_folder_path (folder_of r)"
  by (cases r) (auto simp: valid_folder_path_def)

lemma keys_push_uid: "fst ` set (push_uid m f u) = insert f (fst ` set m)"
  by (induction m f u rule: push_uid.induct) auto

lemma keys_fold:
  "list_all is_imap_ref refs \<Longrightarrow>
     fst ` set (foldl add_to_folder m refs) = fst ` set m \<union> folder_of ` set refs"
proof (induction refs arbitrary: m)
  case Nil
  then show ?case by simp
next
  case (Cons r refs)
  then show ?case by (cases r) (auto simp: keys_push_uid)
qed

lemma validate_sorted [simp]: "validate_folder_paths (sort_key fst m) \<longleftrightarrow> validate_folder_paths m"
  by (simp add: validate_folder_paths_def list_all_iff)

lemma validate_group:
  assumes "list_all is_imap_ref refs"
  shows "validate_folder_paths (group_by_folder refs) \<longleftrightarrow> list_all (\<lambda>r. valid_folder_path (folder_of r)) refs"
proof -
  have "validate_folder_paths (group_by_folder refs) \<longleftrightarrow>
      (\<forall>k \<in> fst ` set (group_by_folder refs). valid_folder_path k)"
    by (auto simp: validate_folder_paths_def list_all_iff)
  then show ?thesis
    using keys_fold [OF assms, of "[]"] by (simp add: group_by_folder_def list_all_iff)
qed

lemma message_ref_json_roundtrip [simp]: "message_ref_from_json (message_ref_to_json r) = Some r"
  by (cases r) (simp_all add: message_ref_from_json_def)

lemma refs_json_roundtrip [simp]: "refs_from_json (refs_to_json refs) = Some refs"
  using collect_options_inverse [of refs message_ref_from_json message_ref_to_json]
  by (simp add: refs_from_json_def refs_to_json_def)

lemma flag_mutation_json_roundtrip:
  assumes "\<forall>m. mset (hash_iter x m) = mset m" and "storable_mutation m"
  shows "\<exists>m'. flag_mutation_from_json x (flag_mutation_to_json m) = Some m' \<and> same_mutation m m'"
proof (cases "target m")
  case (Messages refs)
  show ?thesis
  proof (cases "list_all is_imap_ref refs")
    case True
    then have "list_all (\<lambda>r. valid_folder_path (folder_of r)) refs"
      using assms(2) Messages by (auto simp: storable_mutation_def list_all_iff dest!: bspec intro!: folder_of_valid)
    with True Messages refs_of_map_group [OF assms(1) True] show ?thesis
      by (simp add: flag_mutation_to_json_def flag_mutation_from_json_def validate_group same_mutation_def)
  next
    case False
    with Messages show ?thesis
      by (simp add: flag_mutation_to_json_def flag_mutation_from_json_def same_mutation_def)
  qed
next
  case (AllMessagesInFolders folders excluded)
  with assms(2) show ?thesis
    by (simp add: flag_mutation_to_json_def flag_mutation_from_json_def same_mutation_def storable_mutation_def)
qed

lemma flag_mutations_json_roundtrip:
  assumes "\<forall>m. mset (hash_iter x m) = mset m" and "list_all storable_mutation ms"
  shows "\<exists>ms'. collect_options (map (flag_mutation_from_json x) (map flag_mutation_to_json ms)) = Some ms'
           \<and> list_all2 same_mutation ms ms'"
  using assms(2)
proof (induction ms)
  case Nil
  then show ?case by simp
next
  case (Cons m ms)
  with flag_mutation_json_roundtrip [OF assms(1), of m] show ?case by fastforce
qed

lemma jget_mutations_flag [simp]: "jget ''mutations'' (flag_mutation_to_json m) = None"
  by (cases "target m") (simp_all add: flag_mutation_to_json_def)

lemma validate_valid_refs:
  assumes "list_all is_imap_ref refs" and "list_all valid_message_ref refs"
  shows "validate_folder_paths (group_by_folder refs)"
proof -
  have "is_imap_ref r \<Longrightarrow> valid_message_ref r \<Longrightarrow> valid_folder_path (folder_of r)" for r
    by (cases r) simp_all
  with assms show ?thesis by (simp add: validate_group list_all_iff)
qed

text \<open>What the decoders do with the references is independent of their order.\<close>

lemma list_all_mset: "mset a = mset b \<Longrightarrow> list_all P a = list_all P b"
  by (metis list_all_iff set_mset_mset)

lemma Nil_mset: "mset a = mset b \<Longrightarrow> a = [] \<longleftrightarrow> b = []"
  by (metis mset_zero_iff_right)

lemma same_provider_trans: "same_provider a b \<Longrightarrow> same_provider c b \<Longrightarrow> same_provider a c"
  by (cases a; cases b; cases c) auto

lemma same_provider_sym: "same_provider a b \<Longrightarrow> same_provider b a"
  by (cases a; cases b) auto

lemma same_provider_refl [simp]: "same_provider a a"
  by (cases a) auto

lemma one_provider_iff:
  "message_refs_have_one_provider refs \<longleftrightarrow> refs \<noteq> [] \<and> (\<forall>a \<in> set refs. \<forall>b \<in> set refs. same_provider a b)"
  by (cases refs) (auto simp: list_all_iff intro: same_provider_trans same_provider_sym)

lemma one_provider_mset:
  "mset a = mset b \<Longrightarrow> message_refs_have_one_provider a = message_refs_have_one_provider b"
  by (metis one_provider_iff Nil_mset set_mset_mset)

lemma mset_transfer:
  assumes "mset a = mset b"
  shows "list_all P a = list_all P b" "message_refs_have_one_provider a = message_refs_have_one_provider b"
    "a = [] \<longleftrightarrow> b = []"
  using list_all_mset [OF assms] one_provider_mset [OF assms] Nil_mset [OF assms] by auto

text \<open>One lemma for the reference part of the move, delete and copy payloads.\<close>

lemma refs_payload_cases [consumes 2, case_names by_folder message_refs]:
  assumes "\<forall>m. mset (hash_iter x m) = mset m" and "list_all valid_message_ref refs"
  obtains (by_folder) refs' where
      "refs_payload refs = [(''by_folder'', json_by_folder (group_by_folder refs))]"
      "validate_folder_paths (group_by_folder refs)"
      "refs' = refs_of_map x (sort_key fst (group_by_folder refs))"
      "mset refs = mset refs'"
    | (message_refs) "refs_payload refs = [(''message_refs'', refs_to_json refs)]"
proof (cases "list_all is_imap_ref refs")
  case True
  then show ?thesis
    using by_folder validate_valid_refs [OF True assms(2)] refs_of_map_group [OF assms(1) True]
    by (simp add: refs_payload_def)
next
  case False
  then show ?thesis using message_refs by (simp add: refs_payload_def)
qed

lemma decode_target_folder_payload:
  "map_of fs ''target_folder'' = Some (JStr t) \<Longrightarrow> t \<noteq> [] \<Longrightarrow> valid_folder_path t \<Longrightarrow>
     decode_target_folder (jobj fs) = Some t"
  by (simp add: decode_target_folder_def)

lemma set_flags_roundtrip:
  assumes "\<forall>m. mset (hash_iter x m) = mset m" and "list_all storable_mutation ms"
  shows "\<exists>op'. decode_set_flags x (snd (the (mail_op_to_outbox x (SetFlags ms)))) = Some op'
           \<and> same_op (SetFlags ms) op'"
proof -
  obtain ms' where ms': "collect_options (map (flag_mutation_from_json x) (map flag_mutation_to_json ms)) = Some ms'"
    and same: "list_all2 same_mutation ms ms'"
    using flag_mutations_json_roundtrip [OF assms] by blast
  show ?thesis
  proof (cases "\<exists>m. ms = [m]")
    case True
    then obtain m where "ms = [m]" by blast
    with ms' same show ?thesis
      by (cases "flag_mutation_from_json x (flag_mutation_to_json m)") (auto simp: decode_set_flags_def)
  next
    case False
    then have "snd (the (mail_op_to_outbox x (SetFlags ms)))
        = jobj [(''mutations'', JArr (map flag_mutation_to_json ms))]"
      by (auto split: list.split)
    with ms' same show ?thesis by (simp add: decode_set_flags_def)
  qed
qed

lemma move_roundtrip:
  assumes "\<forall>m. mset (hash_iter x m) = mset m" and "storable (MoveMessages refs t)"
  shows "\<exists>op'. decode_move x entry (snd (the (mail_op_to_outbox x (MoveMessages refs t)))) = Some op'
           \<and> same_op (MoveMessages refs t) op'"
proof -
  have ok: "list_all valid_message_ref refs" using assms(2) by simp
  from assms(1) ok show ?thesis
  proof (cases rule: refs_payload_cases)
    case (by_folder refs')
    with assms(2) mset_transfer [OF by_folder(4)] show ?thesis
      by (simp add: decode_move_def decode_target_folder_payload)
  next
    case message_refs
    with assms(2) show ?thesis by (simp add: decode_move_def decode_target_folder_payload)
  qed
qed

lemma delete_roundtrip:
  assumes "\<forall>m. mset (hash_iter x m) = mset m" and "storable (DeleteMessages refs)"
  shows "\<exists>op'. decode_delete x entry (snd (the (mail_op_to_outbox x (DeleteMessages refs)))) = Some op'
           \<and> same_op (DeleteMessages refs) op'"
proof -
  have ok: "list_all valid_message_ref refs" using assms(2) by simp
  from assms(1) ok show ?thesis
  proof (cases rule: refs_payload_cases)
    case (by_folder refs')
    with assms(2) mset_transfer [OF by_folder(4)] show ?thesis
      by (simp add: decode_delete_def)
  next
    case message_refs
    with assms(2) show ?thesis by (simp add: decode_delete_def)
  qed
qed

lemma copy_roundtrip:
  assumes "\<forall>m. mset (hash_iter x m) = mset m" and "storable (CopyMessages refs t)"
  shows "\<exists>op'. decode_copy x (snd (the (mail_op_to_outbox x (CopyMessages refs t)))) = Some op'
           \<and> same_op (CopyMessages refs t) op'"
proof -
  have ok: "list_all valid_message_ref refs" using assms(2) by simp
  from assms(1) ok show ?thesis
  proof (cases rule: refs_payload_cases)
    case (by_folder refs')
    with assms(2) mset_transfer [OF by_folder(4)] show ?thesis
      by (simp add: decode_copy_def decode_target_folder_payload)
  next
    case message_refs
    with assms(2) show ?thesis by (simp add: decode_copy_def decode_target_folder_payload)
  qed
qed

lemma send_roundtrip:
  assumes "b64_decode x (b64_encode x raw) = Some raw" and "to \<noteq> [] \<or> cc \<noteq> [] \<or> bcc \<noteq> []"
  shows "decode_send x (snd (the (mail_op_to_outbox x (SendRaw raw from to cc bcc subject))))
           = Some (SendRaw raw from to cc bcc subject)"
  using assms by (auto simp: decode_send_def recipients_def)

lemma decode_target_folder_Some:
  "decode_target_folder payload = Some t \<Longrightarrow> t \<noteq> [] \<and> valid_folder_path t"
  by (auto simp: decode_target_folder_def bind_eq_Some_conv split: if_splits)

lemma decoders_storable:
  "decode_move x entry payload = Some m \<Longrightarrow> storable m"
  "decode_delete x entry payload = Some m \<Longrightarrow> storable m"
  "decode_copy x payload = Some m \<Longrightarrow> storable m"
  "decode_send x payload = Some m \<Longrightarrow> storable m"
     apply (auto simp: decode_move_def bind_eq_Some_conv dest!: decode_target_folder_Some split: if_splits)[1]
    apply (auto simp: decode_delete_def bind_eq_Some_conv split: if_splits)[1]
   apply (auto simp: decode_copy_def bind_eq_Some_conv dest!: decode_target_folder_Some split: if_splits)[1]
  apply (auto simp: decode_send_def bind_eq_Some_conv Let_def split: if_splits)
  done

section \<open>Properties\<close>

text \<open>C11: An operation written to the outbox is read back as the same operation. For every
  operation the outbox can hold (\<open>storable\<close>), whatever order the hash maps are iterated in,
  decoding the stored row succeeds and gives the operation with the same messages, target,
  flags, recipients and bytes; only the order of IMAP messages may differ.\<close>

theorem outbox_roundtrip:
  assumes "mail_op_to_outbox x m = Some (kind, payload)"
    and "storable m"
    and "sound_externals x payload (op_bytes m)"
    and "entry_action_type entry = kind" and "entry_payload_json entry = json_text x payload"
  shows "\<exists>m'. outbox_to_mail_op x entry = Some m' \<and> same_op m m'"
proof -
  have hash: "\<forall>k. mset (hash_iter x k) = mset k"
    and parse: "json_parse x (entry_payload_json entry) = Some payload"
    and b64: "b64_decode x (b64_encode x (op_bytes m)) = Some (op_bytes m)"
    using assms(3,5) by (auto simp: sound_externals_def)
  show ?thesis
  proof (cases m)
    case (MoveMessages refs t)
    with assms(1,2,4) parse move_roundtrip [OF hash, of refs t entry] show ?thesis
      by (auto simp: outbox_to_mail_op_def)
  next
    case (DeleteMessages refs)
    with assms(1,2,4) parse delete_roundtrip [OF hash, of refs entry] show ?thesis
      by (auto simp: outbox_to_mail_op_def)
  next
    case (SetFlags ms)
    with assms(1,2,4) parse set_flags_roundtrip [OF hash, of ms] show ?thesis
      by (auto simp: outbox_to_mail_op_def)
  next
    case (CopyMessages refs t)
    with assms(1,2,4) parse copy_roundtrip [OF hash, of refs t] show ?thesis
      by (auto simp: outbox_to_mail_op_def)
  next
    case (SendRaw raw sender to cc bcc subject)
    with assms(1,2,4) parse b64 send_roundtrip [of x raw to cc bcc sender subject] show ?thesis
      by (auto simp: outbox_to_mail_op_def op_bytes_def)
  qed (use assms(2) in auto)
qed

text \<open>C14: Whatever text an outbox row holds, a move, delete, copy or send that is decoded from
  it satisfies every restriction the replay relies on: a non-empty set of well-formed
  references, no NUL, CR or LF in any IMAP path or target folder, one provider per copy, and at
  least one recipient.\<close>

theorem decoded_operations_storable:
  assumes "outbox_to_mail_op x entry = Some m" and "entry_action_type entry \<noteq> ''set_flags''"
  shows "storable m"
  using assms by (auto simp: outbox_to_mail_op_def bind_eq_Some_conv Let_def
      dest: decoders_storable split: if_splits)

text \<open>Flag changes escape that validation. A \<^verbatim>\<open>set_flags\<close> row with a \<^verbatim>\<open>message_refs\<close> list is
  decoded to an IMAP reference whose folder path contains a line break, although the same
  path is refused in a \<^verbatim>\<open>by_folder\<close> payload, in a move and in a delete.\<close>

theorem set_flags_refs_unvalidated:
  "\<exists>r. \<not> valid_message_ref r
     \<and> (\<forall>x. flag_mutation_from_json x
              (jobj [(''message_refs'', refs_to_json [r]), (''flags'', json_strings [''seen'']), (''add'', JBool True)])
            = Some \<lparr>target = Messages [r], flags = [''seen''], add = True\<rparr>)
     \<and> (\<forall>x. flag_mutation_from_json x
              (jobj [(''by_folder'', json_by_folder (group_by_folder [r])), (''flags'', json_strings [''seen'']),
                     (''add'', JBool True)]) = None)
     \<and> (\<forall>x entry. decode_delete x entry (jobj [(''message_refs'', refs_to_json [r])]) = None)"
proof -
  define r where "r = Imap [char_of (10::nat)] 1"
  have "\<not> valid_message_ref r" by (simp add: r_def valid_folder_path_def)
  moreover have "\<not> validate_folder_paths (group_by_folder [r])"
    by (simp add: r_def group_by_folder_def validate_folder_paths_def valid_folder_path_def)
  ultimately show ?thesis
    by (intro exI [of _ r]) (simp add: flag_mutation_from_json_def decode_delete_def)
qed

text \<open>A round trip with concrete external functions, the hash map iterated backwards.\<close>

definition sample_move :: MailOp where
  "sample_move = MoveMessages [Imap ''INBOX'' 7, Imap ''Work'' 3, Imap ''INBOX'' 9] ''Archive''"

definition sample_payload :: json where
  "sample_payload = jobj [(''by_folder'', json_by_folder [(''INBOX'', [7, 9]), (''Work'', [3])]),
                          (''target_folder'', JStr ''Archive'')]"

definition sample_externals :: externals where
  "sample_externals =
     \<lparr>json_text = (\<lambda>v. if v = sample_payload then ''move'' else []),
      json_parse = (\<lambda>s. if s = ''move'' then Some sample_payload else None),
      b64_encode = map (\<lambda>w. char_of (unat w)), b64_decode = (\<lambda>s. Some (map (\<lambda>c. word_of_nat (of_char c)) s)),
      hash_iter = rev\<rparr>"

definition sample_entry :: OutboxEntry where
  "sample_entry = \<lparr>entry_id = 1, entry_account_id = ''a'', entry_action_type = ''move'',
                   entry_payload_json = ''move'', entry_retry_count = 0\<rparr>"

theorem outbox_roundtrip_witness:
  "mail_op_to_outbox sample_externals sample_move = Some (''move'', sample_payload)
   \<and> storable sample_move
   \<and> (\<exists>m'. outbox_to_mail_op sample_externals sample_entry = Some m' \<and> same_op sample_move m')"
proof -
  have stored: "mail_op_to_outbox sample_externals sample_move = Some (''move'', sample_payload)"
    by (simp add: sample_move_def sample_payload_def refs_payload_def group_by_folder_def)
  have ok: "storable sample_move"
    by (simp add: sample_move_def valid_folder_path_def char_of_def)
  have sound: "sound_externals sample_externals sample_payload (op_bytes sample_move)"
    by (simp add: sound_externals_def sample_externals_def op_bytes_def sample_move_def)
  have "entry_action_type sample_entry = ''move''"
    and "entry_payload_json sample_entry = json_text sample_externals sample_payload"
    by (simp_all add: sample_entry_def sample_externals_def)
  with outbox_roundtrip [OF stored ok sound] stored ok show ?thesis by blast
qed

definition sample_delete_entry :: OutboxEntry where
  "sample_delete_entry = sample_entry\<lparr>entry_action_type := ''delete''\<rparr>"

definition delete_externals :: externals where
  "delete_externals = sample_externals
     \<lparr>json_parse := (\<lambda>_. Some (jobj [(''message_refs'', refs_to_json [Imap ''INBOX'' 7, Jmap ''m1'' ''e1''])]))\<rparr>"

theorem decoded_operations_storable_witness:
  "outbox_to_mail_op delete_externals sample_delete_entry = Some (DeleteMessages [Imap ''INBOX'' 7, Jmap ''m1'' ''e1''])
   \<and> storable (DeleteMessages [Imap ''INBOX'' 7, Jmap ''m1'' ''e1''])"
proof -
  have decoded: "outbox_to_mail_op delete_externals sample_delete_entry
      = Some (DeleteMessages [Imap ''INBOX'' 7, Jmap ''m1'' ''e1''])"
    by (simp add: outbox_to_mail_op_def delete_externals_def sample_delete_entry_def sample_entry_def
        decode_delete_def valid_folder_path_def char_of_def)
  have "entry_action_type sample_delete_entry \<noteq> ''set_flags''"
    by (simp add: sample_delete_entry_def)
  from decoded decoded_operations_storable [OF decoded this] show ?thesis by blast
qed

end
