(* ===== verification/Outbox.thy ===== *)
theory Outbox
  imports Outbox_Table Outbox_Codec "HOL-Library.Product_Lexorder"
begin

text \<open>
  The operations of \<^verbatim>\<open>ops/offline.rs\<close> on the outbox table and the commands of
  \<^verbatim>\<open>commands/outbox.rs\<close> that show, retry and discard queued sends, one definition per
  function; an \<^verbatim>\<open>execute\<close> that reports how many rows changed is the number of rows its WHERE
  clause selects.
\<close>

section \<open>Constants\<close>

definition INDETERMINATE_DELIVERY_ERROR_MESSAGE :: string where
  "INDETERMINATE_DELIVERY_ERROR_MESSAGE =
     ''Delivery outcome is unknown; automatic retry disabled to avoid duplicate delivery. Verify delivery before retrying manually.''"

definition STUCK_SENDING_ERROR_MESSAGE :: string where
  "STUCK_SENDING_ERROR_MESSAGE =
     ''Delivery outcome is unknown after app restart; automatic retry disabled to avoid duplicate delivery. Verify delivery before retrying manually.''"

definition MAX_SEND_ERROR_MESSAGE_BYTES :: nat where
  "MAX_SEND_ERROR_MESSAGE_BYTES = 256"

definition MAX_RETRIES :: int where
  "MAX_RETRIES = 5"

definition is_indeterminate_delivery_error_message :: "string \<Rightarrow> bool" where
  "is_indeterminate_delivery_error_message message \<longleftrightarrow>
     message = INDETERMINATE_DELIVERY_ERROR_MESSAGE \<or> message = STUCK_SENDING_ERROR_MESSAGE"

definition replay_order :: "string \<Rightarrow> int" where
  "replay_order action_type =
     (if action_type = ''set_flags'' then 0
      else if action_type = ''copy'' then 1
      else if action_type = ''move'' then 2
      else if action_type = ''delete'' then 3
      else if action_type = ''send'' then 4
      else 5)"

section \<open>Queueing\<close>

definition queue_offline_op_with_status ::
    "externals \<Rightarrow> string \<Rightarrow> string \<Rightarrow> json \<Rightarrow> string \<Rightarrow> int db" where
  "queue_offline_op_with_status x account_id action_type payload initial_status =
     sql_insert (\<lambda>i. \<lparr>row_id = i, row_account = account_id, row_action = action_type,
        row_payload = json_text x payload, row_status = initial_status, row_retry = 0, row_error = None\<rparr>)"

definition queue_offline_op :: "externals \<Rightarrow> string \<Rightarrow> string \<Rightarrow> json \<Rightarrow> int db" where
  "queue_offline_op x account_id action_type payload =
     queue_offline_op_with_status x account_id action_type payload ''pending''"

definition queue_dead_op :: "externals \<Rightarrow> string \<Rightarrow> string \<Rightarrow> json \<Rightarrow> string \<Rightarrow> int db" where
  "queue_dead_op x account_id action_type payload err =
     sql_insert (\<lambda>i. \<lparr>row_id = i, row_account = account_id, row_action = action_type,
        row_payload = json_text x payload, row_status = ''dead'', row_retry = 0, row_error = Some err\<rparr>)"

section \<open>The delivery claim\<close>

definition claim_pending_send :: "int \<Rightarrow> int \<Rightarrow> bool db" where
  "claim_pending_send outbox_id expected_retry_count =
     db_bind (sql_update
        (\<lambda>r. row_id r = outbox_id \<and> row_action r = ''send'' \<and> row_status r = ''pending''
             \<and> row_retry r = expected_retry_count)
        (\<lambda>r. r\<lparr>row_status := ''sending''\<rparr>))
       (\<lambda>changed. db_return (length changed = 1))"

definition complete_sending_send :: "int \<Rightarrow> bool db" where
  "complete_sending_send outbox_id =
     db_bind (sql_delete (\<lambda>r. row_id r = outbox_id \<and> row_action r = ''send'' \<and> row_status r = ''sending''))
       (\<lambda>changed. db_return (changed = 1))"

text \<open>
  The follow-up work of \<^verbatim>\<open>complete_send_before\<close> runs after the row is gone and its outcome is
  dropped; it is a function on the connection, run only when the claim was still held.
\<close>

definition complete_send_before :: "int \<Rightarrow> (conn \<Rightarrow> conn) \<Rightarrow> bool db" where
  "complete_send_before outbox_id after_completion =
     db_bind (complete_sending_send outbox_id)
       (\<lambda>completed c. (Inr completed, if completed then after_completion c else c))"

datatype SendRetryDisposition = Pending | Dead | MissingClaim

text \<open>Byte offsets that start a character, and the largest one that is not above \<open>n\<close>.\<close>

definition is_char_boundary :: "string \<Rightarrow> nat \<Rightarrow> bool" where
  "is_char_boundary s n \<longleftrightarrow> list_ex (\<lambda>k. str_len (take k s) = n) [0..<Suc (length s)]"

fun floor_char_boundary :: "string \<Rightarrow> nat \<Rightarrow> nat" where
  "floor_char_boundary s 0 = 0"
| "floor_char_boundary s (Suc n) =
     (if is_char_boundary s (Suc n) then Suc n else floor_char_boundary s n)"

fun byte_prefix :: "string \<Rightarrow> nat \<Rightarrow> string" where
  "byte_prefix [] n = []"
| "byte_prefix (c # s) n = (if utf8_len c \<le> n then c # byte_prefix s (n - utf8_len c) else [])"

definition bounded_send_error :: "string \<Rightarrow> string" where
  "bounded_send_error err =
     byte_prefix err (floor_char_boundary err (min (str_len err) MAX_SEND_ERROR_MESSAGE_BYTES))"

definition retry_sending_send :: "int \<Rightarrow> string \<Rightarrow> SendRetryDisposition db" where
  "retry_sending_send outbox_id err =
     db_bind (sql_update
        (\<lambda>r. row_id r = outbox_id \<and> row_action r = ''send'' \<and> row_status r = ''sending'')
        (\<lambda>r. r\<lparr>row_retry := row_retry r + 1,
               row_status := (if row_retry r + 1 \<ge> MAX_RETRIES then ''dead'' else ''pending''),
               row_error := Some (bounded_send_error err)\<rparr>))
       (\<lambda>returned. case returned of
          [] \<Rightarrow> db_return MissingClaim
        | r # _ \<Rightarrow>
            if row_status r = ''pending'' then db_return Pending
            else if row_status r = ''dead'' then db_return Dead
            else db_fail (Other (''Unexpected send retry disposition '' @ [CHR 0x27] @ row_status r @ [CHR 0x27])))"

definition quarantine_send_from_status :: "int \<Rightarrow> string \<Rightarrow> string \<Rightarrow> bool db" where
  "quarantine_send_from_status outbox_id expected_status err =
     db_bind (sql_update
        (\<lambda>r. row_id r = outbox_id \<and> row_action r = ''send'' \<and> row_status r = expected_status)
        (\<lambda>r. r\<lparr>row_status := ''dead'', row_error := Some (bounded_send_error err)\<rparr>))
       (\<lambda>changed. db_return (length changed = 1))"

definition quarantine_sending_send :: "int \<Rightarrow> string \<Rightarrow> bool db" where
  "quarantine_sending_send outbox_id err = quarantine_send_from_status outbox_id ''sending'' err"

definition quarantine_pending_send :: "int \<Rightarrow> string \<Rightarrow> bool db" where
  "quarantine_pending_send outbox_id err = quarantine_send_from_status outbox_id ''pending'' err"

definition exhaust_pending_send :: "int \<Rightarrow> string \<Rightarrow> bool db" where
  "exhaust_pending_send outbox_id fallback_error =
     db_bind (sql_update
        (\<lambda>r. row_id r = outbox_id \<and> row_action r = ''send'' \<and> row_status r = ''pending''
             \<and> row_retry r \<ge> MAX_RETRIES)
        (\<lambda>r. r\<lparr>row_status := ''dead'',
               row_error := (case row_error r of
                  None \<Rightarrow> Some (bounded_send_error fallback_error) | Some e \<Rightarrow> Some e)\<rparr>))
       (\<lambda>changed. db_return (length changed = 1))"

definition quarantine_stuck_sending :: "nat db" where
  "quarantine_stuck_sending =
     db_bind (sql_update
        (\<lambda>r. row_action r = ''send'' \<and> row_status r = ''sending'')
        (\<lambda>r. r\<lparr>row_status := ''dead'', row_error := Some STUCK_SENDING_ERROR_MESSAGE\<rparr>))
       (\<lambda>changed. db_return (length changed))"

section \<open>Replay\<close>

text \<open>A row whose retry count does not fit an \<^verbatim>\<open>i32\<close> fails to decode and is skipped.\<close>

definition row_entry :: "outbox_row \<Rightarrow> OutboxEntry option" where
  "row_entry r =
     (if - (2 ^ 31) \<le> row_retry r \<and> row_retry r < 2 ^ 31
      then Some \<lparr>entry_id = row_id r, entry_account_id = row_account r, entry_action_type = row_action r,
                 entry_payload_json = row_payload r, entry_retry_count = row_retry r\<rparr>
      else None)"

definition get_pending_ops :: "string \<Rightarrow> OutboxEntry list db" where
  "get_pending_ops account_id =
     db_bind (sql_select (\<lambda>r. row_account r = account_id \<and> row_status r = ''pending''))
       (\<lambda>rows. db_return (sort_key (\<lambda>e. (replay_order (entry_action_type e), entry_id e))
          (List.map_filter row_entry (sort_key row_id rows))))"

definition mark_completed :: "int \<Rightarrow> unit db" where
  "mark_completed outbox_id =
     db_bind (sql_delete (\<lambda>r. row_id r = outbox_id \<and> row_action r \<noteq> ''send'')) (\<lambda>_. db_return ())"

definition mark_failed :: "int \<Rightarrow> string \<Rightarrow> unit db" where
  "mark_failed outbox_id err =
     db_bind (sql_update (\<lambda>r. row_id r = outbox_id \<and> row_action r \<noteq> ''send'')
        (\<lambda>r. r\<lparr>row_retry := row_retry r + 1, row_error := Some err\<rparr>)) (\<lambda>_. db_return ())"

definition mark_dead :: "int \<Rightarrow> unit db" where
  "mark_dead outbox_id =
     db_bind (sql_update (\<lambda>r. row_id r = outbox_id \<and> row_action r \<noteq> ''send'')
        (\<lambda>r. r\<lparr>row_status := ''dead''\<rparr>)) (\<lambda>_. db_return ())"

definition mark_dead_with_error :: "int \<Rightarrow> string \<Rightarrow> unit db" where
  "mark_dead_with_error outbox_id err =
     db_bind (sql_update (\<lambda>r. row_id r = outbox_id \<and> row_action r \<noteq> ''send'')
        (\<lambda>r. r\<lparr>row_status := ''dead'', row_error := Some err\<rparr>)) (\<lambda>_. db_return ())"

definition is_dead :: "OutboxEntry \<Rightarrow> bool" where
  "is_dead entry \<longleftrightarrow> entry_retry_count entry \<ge> MAX_RETRIES"


section \<open>Superseding queued flag changes\<close>

text \<open>The rewriting of one queued row: what remains of it is stored in its place.\<close>

definition store_remaining :: "externals \<Rightarrow> OutboxEntry \<Rightarrow> FlagMutation list \<Rightarrow> unit db" where
  "store_remaining x entry remaining =
     (if remaining = []
      then db_bind (sql_delete (\<lambda>r. row_id r = entry_id entry)) (\<lambda>_. db_return ())
      else db_bind (sql_update (\<lambda>r. row_id r = entry_id entry)
             (\<lambda>r. r\<lparr>row_payload := json_text x (snd (the (mail_op_to_outbox x (SetFlags remaining))))\<rparr>))
           (\<lambda>_. db_return ()))"

definition supersede_mutations :: "FlagMutation list \<Rightarrow> FlagMutation list \<Rightarrow> FlagMutation list" where
  "supersede_mutations new_mutations mutations =
     foldl (\<lambda>current newer. concat (map (\<lambda>older. subtract_flag_mutation older newer) current))
       mutations new_mutations"

definition supersede_entry :: "externals \<Rightarrow> (FlagMutation list \<Rightarrow> FlagMutation list) \<Rightarrow> OutboxEntry \<Rightarrow> unit db" where
  "supersede_entry x rewrite entry =
     (case outbox_to_mail_op x entry of
        Some (SetFlags mutations) \<Rightarrow> store_remaining x entry (rewrite mutations)
      | _ \<Rightarrow> db_return ())"

definition supersede_pending_flag_ops :: "externals \<Rightarrow> string \<Rightarrow> FlagMutation list \<Rightarrow> unit db" where
  "supersede_pending_flag_ops x account_id new_mutations =
     db_bind (get_pending_ops account_id) (\<lambda>pending.
       transaction (db_each (supersede_entry x (supersede_mutations new_mutations))
         (filter (\<lambda>e. entry_action_type e = ''set_flags'') pending)))"

definition prune_deleted :: "BackendMessageRef list \<Rightarrow> FlagMutation list \<Rightarrow> FlagMutation list" where
  "prune_deleted deleted_refs mutations =
     List.map_filter (\<lambda>m. remove_deleted_refs m deleted_refs) mutations"

definition rewrite_pending_flags_for_delete :: "externals \<Rightarrow> string \<Rightarrow> BackendMessageRef list \<Rightarrow> unit db" where
  "rewrite_pending_flags_for_delete x account_id deleted_refs =
     db_bind (get_pending_ops account_id) (\<lambda>pending.
       db_each (supersede_entry x (prune_deleted deleted_refs))
         (filter (\<lambda>e. entry_action_type e = ''set_flags'') pending))"

definition supersede_pending_flags_for_delete :: "externals \<Rightarrow> string \<Rightarrow> BackendMessageRef list \<Rightarrow> unit db" where
  "supersede_pending_flags_for_delete x account_id deleted_refs =
     transaction (rewrite_pending_flags_for_delete x account_id deleted_refs)"

definition queue_failed_delete :: "externals \<Rightarrow> string \<Rightarrow> BackendMessageRef list \<Rightarrow> int db" where
  "queue_failed_delete x account_id message_refs =
     transaction
       (db_bind (queue_offline_op x account_id ''delete'' (snd (the (mail_op_to_outbox x (DeleteMessages message_refs)))))
          (\<lambda>outbox_id. db_bind (rewrite_pending_flags_for_delete x account_id message_refs)
             (\<lambda>_. db_return outbox_id)))"

definition queue_failed_move :: "externals \<Rightarrow> string \<Rightarrow> BackendMessageRef list \<Rightarrow> string \<Rightarrow> int db" where
  "queue_failed_move x account_id message_refs target_folder =
     queue_offline_op x account_id ''move''
       (snd (the (mail_op_to_outbox x (MoveMessages message_refs target_folder))))"

definition queue_failed_copy :: "externals \<Rightarrow> string \<Rightarrow> BackendMessageRef list \<Rightarrow> string \<Rightarrow> int db" where
  "queue_failed_copy x account_id message_refs target_folder =
     queue_offline_op x account_id ''copy''
       (snd (the (mail_op_to_outbox x (CopyMessages message_refs target_folder))))"

section \<open>Commands of the Outbox view\<close>

record OutboxRow =
  shown_id :: int
  shown_account_id :: string
  shown_action_type :: string
  shown_status :: string
  shown_retry_count :: int
  shown_error_message :: "string option"
  delivery_outcome_unknown :: bool
  shown_subject :: "string option"
  shown_to :: "string list"
  shown_cc :: "string list"
  shown_bcc :: "string list"

definition parse_string_array :: "json \<Rightarrow> string \<Rightarrow> string list" where
  "parse_string_array payload key =
     (case Option.bind (jget key payload) as_array of None \<Rightarrow> [] | Some arr \<Rightarrow> List.map_filter as_str arr)"

definition row_from_payload :: "externals \<Rightarrow> outbox_row \<Rightarrow> OutboxRow option" where
  "row_from_payload x r =
     (let payload = (case json_parse x (row_payload r) of None \<Rightarrow> JNull | Some v \<Rightarrow> v)
      in map_option (\<lambda>entry.
           \<lparr>shown_id = row_id r, shown_account_id = row_account r, shown_action_type = row_action r,
            shown_status = row_status r, shown_retry_count = entry_retry_count entry,
            shown_error_message = row_error r,
            delivery_outcome_unknown =
              (case row_error r of None \<Rightarrow> False | Some e \<Rightarrow> is_indeterminate_delivery_error_message e),
            shown_subject = Option.bind (jget ''subject'' payload) as_str,
            shown_to = parse_string_array payload ''to'',
            shown_cc = parse_string_array payload ''cc'',
            shown_bcc = parse_string_array payload ''bcc''\<rparr>) (row_entry r))"

definition list_outbox :: "externals \<Rightarrow> string \<Rightarrow> OutboxRow list db" where
  "list_outbox x account_id =
     db_bind (sql_select (\<lambda>r. row_account r = account_id \<and> row_action r = ''send''
        \<and> row_status r \<in> {''pending'', ''sending'', ''dead''}))
       (\<lambda>rows. db_return (List.map_filter (row_from_payload x) (rev (sort_key row_id rows))))"

definition retry_dead_row :: "string \<Rightarrow> int \<Rightarrow> unit db" where
  "retry_dead_row account_id outbox_id =
     db_bind (sql_update (\<lambda>r. row_id r = outbox_id \<and> row_account r = account_id
                              \<and> row_action r = ''send'' \<and> row_status r = ''dead'')
        (\<lambda>r. r\<lparr>row_status := ''pending'', row_retry := 0, row_error := None\<rparr>))
       (\<lambda>changed. if length changed \<noteq> 1
          then db_fail (Other (''Outbox row '' @ show_int outbox_id @ '' is not eligible for manual retry''))
          else db_return ())"

definition discard_inactive_row :: "string \<Rightarrow> int \<Rightarrow> unit db" where
  "discard_inactive_row account_id outbox_id =
     db_bind (sql_delete (\<lambda>r. row_id r = outbox_id \<and> row_account r = account_id
                              \<and> row_action r = ''send'' \<and> row_status r \<in> {''pending'', ''dead''}))
       (\<lambda>changed. if changed \<noteq> 1
          then db_fail (Other (''Outbox row '' @ show_int outbox_id @ '' is not eligible for discard''))
          else db_return ())"

definition retry_outbox_op :: "string \<Rightarrow> int \<Rightarrow> unit db" where
  "retry_outbox_op account_id outbox_id = retry_dead_row account_id outbox_id"

definition discard_outbox_op :: "string \<Rightarrow> int \<Rightarrow> unit db" where
  "discard_outbox_op account_id outbox_id = discard_inactive_row account_id outbox_id"


section \<open>Operations that leave claims alone\<close>

lemmas row_classes = claimed_def waiting_def

interpretation queue_op: quiet_operation "queue_offline_op x account_id action_type payload"
  by unfold_locales
     (auto simp: queue_offline_op_def queue_offline_op_with_status_def row_classes intro!: quiet_intros)

interpretation queue_dead: quiet_operation "queue_dead_op x account_id action_type payload err"
  by unfold_locales
     (auto simp: queue_dead_op_def row_classes intro!: quiet_intros)

interpretation pending_ops: quiet_operation "get_pending_ops account_id"
  by unfold_locales
     (auto simp: get_pending_ops_def row_classes intro!: quiet_intros)

interpretation completed_op: quiet_operation "mark_completed outbox_id"
  by unfold_locales
     (auto simp: mark_completed_def row_classes intro!: quiet_intros)

interpretation failed_op: quiet_operation "mark_failed outbox_id err"
  by unfold_locales
     (auto simp: mark_failed_def row_classes intro!: quiet_intros)

interpretation dead_op: quiet_operation "mark_dead outbox_id"
  by unfold_locales
     (auto simp: mark_dead_def row_classes intro!: quiet_intros)

interpretation dead_with_error: quiet_operation "mark_dead_with_error outbox_id err"
  by unfold_locales
     (auto simp: mark_dead_with_error_def row_classes intro!: quiet_intros)

interpretation quarantine_pending: quiet_operation "quarantine_pending_send outbox_id err"
  by unfold_locales
     (auto simp: quarantine_pending_send_def quarantine_send_from_status_def row_classes intro!: quiet_intros)

interpretation exhaust_pending: quiet_operation "exhaust_pending_send outbox_id err"
  by unfold_locales
     (auto simp: exhaust_pending_send_def row_classes intro!: quiet_intros)

interpretation list_view: quiet_operation "list_outbox x account_id"
  by unfold_locales
     (auto simp: list_outbox_def row_classes intro!: quiet_intros)

interpretation discard_view: quiet_operation "discard_outbox_op account_id outbox_id"
  by unfold_locales
     (auto simp: discard_outbox_op_def discard_inactive_row_def row_classes intro!: quiet_intros)

interpretation queue_move: quiet_operation "queue_failed_move x account_id refs target_folder"
  by unfold_locales
     (auto simp: queue_failed_move_def queue_offline_op_def queue_offline_op_with_status_def row_classes intro!: quiet_intros)

interpretation queue_copy: quiet_operation "queue_failed_copy x account_id refs target_folder"
  by unfold_locales
     (auto simp: queue_failed_copy_def queue_offline_op_def queue_offline_op_with_status_def row_classes intro!: quiet_intros)

interpretation retry_view: claim_neutral "retry_outbox_op account_id outbox_id"
  by unfold_locales
     (auto simp: retry_outbox_op_def retry_dead_row_def row_classes
       intro!: claims.obeys_bind claims_update claims.obeys_return claims.obeys_fail)


section \<open>Reading the queue\<close>

lemma sql_select_ok:
  assumes "sql_select p c = (Inr rows, c')"
  shows "rows = filter p (outbox c)" and "same_table c' c"
  using assms by (auto simp: sql_select_def same_table_def elim!: sql_cases)

lemma get_pending_ops_ok:
  assumes "get_pending_ops account_id c = (Inr es, c')"
  shows "es = sort_key (\<lambda>e. (replay_order (entry_action_type e), entry_id e))
                (List.map_filter row_entry (sort_key row_id
                   (filter (\<lambda>r. row_account r = account_id \<and> row_status r = ''pending'') (outbox c))))"
    and "same_table c' c"
proof -
  obtain rows where "sql_select (\<lambda>r. row_account r = account_id \<and> row_status r = ''pending'') c = (Inr rows, c')"
    and "es = sort_key (\<lambda>e. (replay_order (entry_action_type e), entry_id e))
                (List.map_filter row_entry (sort_key row_id rows))"
    using assms by (auto simp: get_pending_ops_def db_return_def elim!: db_bind_cases)
  with sql_select_ok show "es = sort_key (\<lambda>e. (replay_order (entry_action_type e), entry_id e))
                (List.map_filter row_entry (sort_key row_id
                   (filter (\<lambda>r. row_account r = account_id \<and> row_status r = ''pending'') (outbox c))))"
    and "same_table c' c" by fastforce+
qed

lemma get_pending_ops_members:
  assumes "get_pending_ops account_id c = (Inr es, c')"
  shows "e \<in> set es \<longleftrightarrow> (\<exists>r \<in> set (outbox c). row_account r = account_id \<and> row_status r = ''pending''
           \<and> row_entry r = Some e)"
  unfolding get_pending_ops_ok(1) [OF assms] by (auto simp: set_map_filter)

lemma row_entry_Some:
  "row_entry r = Some e \<Longrightarrow> entry_id e = row_id r \<and> entry_action_type e = row_action r
     \<and> entry_payload_json e = row_payload r \<and> entry_account_id e = row_account r \<and> entry_retry_count e = row_retry r"
  by (auto simp: row_entry_def split: if_splits)

section \<open>Superseding leaves deliveries alone\<close>

text \<open>The rows with this id, at most one, are not sends.\<close>

definition not_send_id :: "conn \<Rightarrow> int \<Rightarrow> bool" where
  "not_send_id c i \<longleftrightarrow> (\<forall>r \<in> set (outbox c). row_id r = i \<longrightarrow> row_action r \<noteq> ''send'')"

lemma sql_update_cong:
  assumes "\<And>r. r \<in> set (outbox c) \<Longrightarrow> p r = q r"
  shows "sql_update p u c = sql_update q u c"
proof -
  have "filter p (outbox c) = filter q (outbox c)"
    and "map (\<lambda>r. if p r then u r else r) (outbox c) = map (\<lambda>r. if q r then u r else r) (outbox c)"
    using assms by (auto intro: filter_cong)
  then show ?thesis by (auto simp: sql_update_def sql_def split: list.split bool.split)
qed

lemma sql_delete_cong:
  assumes "\<And>r. r \<in> set (outbox c) \<Longrightarrow> p r = q r"
  shows "sql_delete p c = sql_delete q c"
proof -
  have "filter p (outbox c) = filter q (outbox c)"
    and "filter (\<lambda>r. \<not> p r) (outbox c) = filter (\<lambda>r. \<not> q r) (outbox c)"
    using assms by (auto intro: filter_cong)
  then show ?thesis by (auto simp: sql_delete_def sql_def split: list.split bool.split)
qed

lemma set_flags_entry_not_send:
  assumes "ids_ok c" and "get_pending_ops account_id c = (Inr es, c')" and "e \<in> set es"
    and "entry_action_type e = ''set_flags''"
  shows "not_send_id c (entry_id e)"
proof -
  obtain r where r: "r \<in> set (outbox c)" "row_entry r = Some e"
    using assms(2,3) by (auto simp: get_pending_ops_members)
  then have "row_id r = entry_id e" "row_action r = ''set_flags''"
    using assms(4) by (auto dest: row_entry_Some)
  moreover have "inj_on row_id (set (outbox c))"
    using assms(1) by (simp add: ids_ok_def distinct_map)
  ultimately have "r' = r" if "r' \<in> set (outbox c)" "row_id r' = entry_id e" for r'
    using r(1) that by (metis inj_onD)
  with \<open>row_action r = ''set_flags''\<close> show ?thesis by (auto simp: not_send_id_def)
qed

definition guarded_store :: "externals \<Rightarrow> OutboxEntry \<Rightarrow> FlagMutation list \<Rightarrow> unit db" where
  "guarded_store x entry remaining =
     (if remaining = []
      then db_bind (sql_delete (\<lambda>r. row_id r = entry_id entry \<and> row_action r \<noteq> ''send'')) (\<lambda>_. db_return ())
      else db_bind (sql_update (\<lambda>r. row_id r = entry_id entry \<and> row_action r \<noteq> ''send'')
             (\<lambda>r. r\<lparr>row_payload := json_text x (snd (the (mail_op_to_outbox x (SetFlags remaining))))\<rparr>))
           (\<lambda>_. db_return ()))"

lemma store_remaining_guarded:
  assumes "not_send_id c (entry_id entry)"
  shows "store_remaining x entry remaining c = guarded_store x entry remaining c"
proof -
  let ?p = "\<lambda>r. row_id r = entry_id entry" and ?q = "\<lambda>r. row_id r = entry_id entry \<and> row_action r \<noteq> ''send''"
  have "?p r = ?q r" if "r \<in> set (outbox c)" for r
    using assms that by (auto simp: not_send_id_def)
  then have "sql_delete ?p c = sql_delete ?q c" and "sql_update ?p u c = sql_update ?q u c" for u
    by (auto intro: sql_delete_cong sql_update_cong)
  then show ?thesis by (auto simp: store_remaining_def guarded_store_def db_bind_def simp del: mail_op_to_outbox.simps)
qed

lemma obeys_guarded_store: "obeys quiet (guarded_store x entry remaining)"
  by (auto simp: guarded_store_def row_classes intro!: quiet_intros)

lemma guarded_store_not_send:
  "guarded_store x entry remaining c = (r, c') \<Longrightarrow> not_send_id c i \<Longrightarrow> not_send_id c' i"
  by (auto simp: guarded_store_def sql_delete_def sql_update_def not_send_id_def db_return_def same_table_def
      split: if_splits elim!: db_bind_cases sql_cases)


lemma supersede_entry_step:
  assumes "ids_ok c" and "not_send_id c (entry_id e)" and "supersede_entry x f e c = (r, c')"
  shows "quiet c c' \<and> (\<forall>i. not_send_id c i \<longrightarrow> not_send_id c' i)"
proof -
  have "db_return () c = (r, c') \<Longrightarrow> ?thesis"
    using assms(1) by (auto simp: db_return_def quiet.reflexive)
  moreover have "store_remaining x e ms c = (r, c') \<Longrightarrow> ?thesis" for ms
    using obeysD [OF obeys_guarded_store assms(1)] guarded_store_not_send
    unfolding store_remaining_guarded [OF assms(2)] by blast
  ultimately show ?thesis
    using assms(3) by (auto simp: supersede_entry_def split: option.splits MailOp.splits)
qed

lemma supersede_each_step:
  "ids_ok c \<Longrightarrow> (\<And>e. e \<in> set es \<Longrightarrow> not_send_id c (entry_id e)) \<Longrightarrow>
     db_each (supersede_entry x f) es c = (r, c') \<Longrightarrow> quiet c c'"
proof (induction es arbitrary: c)
  case Nil
  then show ?case by (auto simp: db_return_def quiet.reflexive)
next
  case (Cons e es)
  from Cons.prems(3) have "db_bind (supersede_entry x f e) (\<lambda>_. db_each (supersede_entry x f) es) c = (r, c')"
    by simp
  then show ?case
  proof (cases rule: db_bind_cases)
    case (failed err)
    with Cons.prems(1,2) supersede_entry_step [of c e x f "Inl err" c'] show ?thesis by simp
  next
    case (ok a d)
    have step: "quiet c d \<and> (\<forall>i. not_send_id c i \<longrightarrow> not_send_id d i)"
      using supersede_entry_step [OF Cons.prems(1) _ ok(1)] Cons.prems(2) by simp
    then have "quiet d c'"
      using Cons.IH [OF quiet.ids_stay _ ok(2), of c] Cons.prems(2) by simp
    with step show ?thesis using quiet.transitive by blast
  qed
qed

lemma not_send_id_table: "same_table c d \<Longrightarrow> not_send_id c i = not_send_id d i"
  by (simp add: same_table_def not_send_id_def)

lemma pending_flag_rows:
  assumes "ids_ok c" and "get_pending_ops account_id c = (Inr es, c')"
    and "e \<in> set (filter (\<lambda>e. entry_action_type e = ''set_flags'') es)"
  shows "not_send_id c' (entry_id e)"
  using set_flags_entry_not_send [OF assms(1,2)] assms(3) get_pending_ops_ok(2) [OF assms(2)]
  by (simp add: not_send_id_table [of c' c])

lemma obeys_rewrite: "obeys quiet (rewrite_pending_flags_for_delete x account_id deleted_refs)"
proof (rule obeysI)
  fix c r c' assume ids: "ids_ok c" and "rewrite_pending_flags_for_delete x account_id deleted_refs c = (r, c')"
  from this(2) [unfolded rewrite_pending_flags_for_delete_def] show "quiet c c'"
  proof (cases rule: db_bind_cases)
    case (failed e)
    with ids show ?thesis using obeysD [OF pending_ops.obeys_quiet] by blast
  next
    case (ok es d)
    have cd: "quiet c d" using obeysD [OF pending_ops.obeys_quiet ids ok(1)] .
    with supersede_each_step [OF quiet.ids_stay [OF cd] pending_flag_rows [OF ids ok(1)] ok(2)]
    show ?thesis using quiet.transitive by blast
  qed
qed

interpretation delete_flags: quiet_operation "supersede_pending_flags_for_delete x account_id deleted_refs"
proof (unfold_locales, rule obeysI)
  fix c r c' assume "ids_ok c" and "supersede_pending_flags_for_delete x account_id deleted_refs c = (r, c')"
  then show "quiet c c'"
    unfolding supersede_pending_flags_for_delete_def
    using obeysD [OF obeys_rewrite] quiet.transaction_related same_table_ids_ok by blast
qed

interpretation queue_delete: quiet_operation "queue_failed_delete x account_id refs"
proof (unfold_locales, rule obeysI)
  fix c r c' assume ids: "ids_ok c" and run: "queue_failed_delete x account_id refs c = (r, c')"
  have "obeys quiet (db_bind (queue_offline_op x account_id ''delete'' p)
          (\<lambda>i. db_bind (rewrite_pending_flags_for_delete x account_id refs) (\<lambda>_. db_return i)))" for p
    by (intro quiet.obeys_bind queue_op.obeys_quiet obeys_rewrite quiet.obeys_return)
  then show "quiet c c'"
    using ids run unfolding queue_failed_delete_def
    by (blast dest: obeysD intro: quiet.transaction_related same_table_ids_ok [THEN iffD2])
qed

interpretation supersede_flags: quiet_operation "supersede_pending_flag_ops x account_id new_mutations"
proof (unfold_locales, rule obeysI)
  fix c r c' assume ids: "ids_ok c" and "supersede_pending_flag_ops x account_id new_mutations c = (r, c')"
  from this(2) [unfolded supersede_pending_flag_ops_def] show "quiet c c'"
  proof (cases rule: db_bind_cases)
    case (failed e)
    with ids show ?thesis using obeysD [OF pending_ops.obeys_quiet] by blast
  next
    case (ok es d)
    let ?f = "supersede_entry x (supersede_mutations new_mutations)"
    have cd: "quiet c d" using obeysD [OF pending_ops.obeys_quiet ids ok(1)] .
    have "quiet c1 c2"
      if "same_table c1 d" "db_each ?f (filter (\<lambda>e. entry_action_type e = ''set_flags'') es) c1 = (Inr a, c2)" for c1 c2 a
    proof (rule supersede_each_step [OF _ _ that(2)])
      show "ids_ok c1" using that(1) quiet.ids_stay [OF cd] by (simp add: same_table_ids_ok)
      show "not_send_id c1 (entry_id e)" if "e \<in> set (filter (\<lambda>e. entry_action_type e = ''set_flags'') es)" for e
        using pending_flag_rows [OF ids ok(1) that] \<open>same_table c1 d\<close> by (simp add: not_send_id_table)
    qed
    then have "quiet d c'"
      using quiet.transaction_related [OF ok(2) quiet.ids_stay [OF cd]] by blast
    with cd show ?thesis using quiet.transitive by blast
  qed
qed


section \<open>Operations on one send as map updates\<close>

lemma claim_pending_send_spec:
  assumes "ids_ok c" and "claim_pending_send i n c = (res, c')"
  shows "ids_ok c' \<and> next_rowid c' = next_rowid c \<and>
     (if res = Inr True
      then \<exists>r. table_of c i = Some r \<and> waiting r \<and> row_retry r = n
             \<and> table_of c' = (table_of c)(i \<mapsto> r\<lparr>row_status := ''sending''\<rparr>)
      else table_of c' = table_of c)"
  using assms(2) [unfolded claim_pending_send_def]
proof (cases rule: db_bind_cases)
  case (failed e)
  then show ?thesis using update_one [OF assms(1) failed(1), of i] by auto
next
  case (ok rs d)
  then show ?thesis
    using update_one [OF assms(1) ok(1), of i]
    by (cases "table_of c i") (auto simp: db_return_def waiting_def split: if_splits)
qed

lemma complete_sending_send_spec:
  assumes "ids_ok c" and "complete_sending_send i c = (res, c')"
  shows "ids_ok c' \<and> next_rowid c' = next_rowid c \<and>
     (case res of
        Inl e \<Rightarrow> table_of c' = table_of c
      | Inr b \<Rightarrow> b = (\<exists>r. table_of c i = Some r \<and> claimed r)
               \<and> table_of c' = (if b then (table_of c)(i := None) else table_of c))"
  using assms(2) [unfolded complete_sending_send_def]
proof (cases rule: db_bind_cases)
  case (failed e)
  then show ?thesis using delete_one [OF assms(1) failed(1), of i] by auto
next
  case (ok rs d)
  then show ?thesis
    using delete_one [OF assms(1) ok(1), of i] rows_row_id [OF assms(1), of i]
    by (cases "table_of c i") (auto simp: db_return_def claimed_def split: if_splits)
qed

definition failed_row :: "string \<Rightarrow> outbox_row \<Rightarrow> outbox_row" where
  "failed_row err r = r\<lparr>row_retry := row_retry r + 1,
     row_status := (if row_retry r + 1 \<ge> MAX_RETRIES then ''dead'' else ''pending''),
     row_error := Some (bounded_send_error err)\<rparr>"

lemma retry_sending_send_spec:
  assumes "ids_ok c" and "retry_sending_send i err c = (res, c')"
  shows "ids_ok c' \<and> next_rowid c' = next_rowid c \<and>
     (case res of
        Inl e \<Rightarrow> table_of c' = table_of c
      | Inr disposition \<Rightarrow>
          (case table_of c i of
             Some r \<Rightarrow> if claimed r
               then disposition = (if row_retry r + 1 \<ge> MAX_RETRIES then Dead else Pending)
                  \<and> table_of c' = (table_of c)(i \<mapsto> failed_row err r)
               else disposition = MissingClaim \<and> table_of c' = table_of c
           | None \<Rightarrow> disposition = MissingClaim \<and> table_of c' = table_of c))"
  using assms(2) [unfolded retry_sending_send_def]
proof (cases rule: db_bind_cases)
  case (failed e)
  then show ?thesis using update_one [OF assms(1) failed(1), of i] by auto
next
  case (ok rs d)
  then show ?thesis
    using update_one [OF assms(1) ok(1), of i] rows_row_id [OF assms(1), of i]
    by (cases "table_of c i")
       (auto simp: db_return_def db_fail_def claimed_def failed_row_def split: if_splits)
qed

lemma quarantine_send_spec:
  assumes "ids_ok c" and "quarantine_send_from_status i st err c = (res, c')"
  shows "ids_ok c' \<and> next_rowid c' = next_rowid c \<and>
     (case res of
        Inl e \<Rightarrow> table_of c' = table_of c
      | Inr b \<Rightarrow>
          (case table_of c i of
             Some r \<Rightarrow> if row_action r = ''send'' \<and> row_status r = st
               then b \<and> table_of c' = (table_of c)(i \<mapsto>
                      r\<lparr>row_status := ''dead'', row_error := Some (bounded_send_error err)\<rparr>)
               else \<not> b \<and> table_of c' = table_of c
           | None \<Rightarrow> \<not> b \<and> table_of c' = table_of c))"
  using assms(2) [unfolded quarantine_send_from_status_def]
proof (cases rule: db_bind_cases)
  case (failed e)
  then show ?thesis using update_one [OF assms(1) failed(1), of i] by auto
next
  case (ok rs d)
  then show ?thesis
    using update_one [OF assms(1) ok(1), of i] rows_row_id [OF assms(1), of i]
    by (cases "table_of c i") (auto simp: db_return_def split: if_splits)
qed

lemma retry_dead_row_spec:
  assumes "ids_ok c" and "retry_dead_row a i c = (res, c')"
  shows "ids_ok c' \<and> next_rowid c' = next_rowid c \<and>
     (case res of
        Inl e \<Rightarrow> table_of c' = table_of c
      | Inr _ \<Rightarrow> (\<exists>r. table_of c i = Some r \<and> row_account r = a \<and> row_action r = ''send'' \<and> row_status r = ''dead''
          \<and> table_of c' = (table_of c)(i \<mapsto> r\<lparr>row_status := ''pending'', row_retry := 0, row_error := None\<rparr>)))"
  using assms(2) [unfolded retry_dead_row_def]
proof (cases rule: db_bind_cases)
  case (failed e)
  then show ?thesis using update_one [OF assms(1) failed(1), of i] by auto
next
  case (ok rs d)
  then show ?thesis
    using update_one [OF assms(1) ok(1), of i]
    by (cases "table_of c i") (auto simp: db_return_def db_fail_def split: if_splits)
qed

lemma discard_inactive_row_spec:
  assumes "ids_ok c" and "discard_inactive_row a i c = (res, c')"
  shows "ids_ok c' \<and> next_rowid c' = next_rowid c \<and>
     (case res of
        Inl e \<Rightarrow> table_of c' = table_of c
      | Inr _ \<Rightarrow> (\<exists>r. table_of c i = Some r \<and> row_account r = a \<and> row_action r = ''send''
          \<and> \<not> claimed r \<and> table_of c' = (table_of c)(i := None)))"
  using assms(2) [unfolded discard_inactive_row_def]
proof (cases rule: db_bind_cases)
  case (failed e)
  then show ?thesis using delete_one [OF assms(1) failed(1), of i] by auto
next
  case (ok rs d)
  then show ?thesis
    using delete_one [OF assms(1) ok(1), of i]
    by (cases "table_of c i") (auto simp: db_return_def db_fail_def claimed_def split: if_splits)
qed

lemma quarantine_stuck_sending_spec:
  assumes "ids_ok c" and "quarantine_stuck_sending c = (res, c')"
  shows "ids_ok c' \<and> next_rowid c' = next_rowid c \<and>
     (case res of
        Inl e \<Rightarrow> table_of c' = table_of c
      | Inr n \<Rightarrow> n = length (filter claimed (outbox c))
          \<and> (\<forall>k. table_of c' k = map_option (\<lambda>r. if claimed r
               then r\<lparr>row_status := ''dead'', row_error := Some STUCK_SENDING_ERROR_MESSAGE\<rparr> else r) (table_of c k)))"
proof -
  let ?u = "\<lambda>r. r\<lparr>row_status := ''dead'', row_error := Some STUCK_SENDING_ERROR_MESSAGE\<rparr>"
  have claimed: "(\<lambda>r. row_action r = ''send'' \<and> row_status r = ''sending'') = claimed"
    by (auto simp: claimed_def)
  obtain r1 where run: "sql_update claimed ?u c = (r1, c')" and res: "res = map_sum id length r1"
    using assms(2) unfolding quarantine_stuck_sending_def claimed
    by (auto simp: db_return_def elim!: db_bind_cases)
  from run [unfolded sql_update_def] show ?thesis
  proof (cases rule: sql_cases)
    case (failed e)
    with assms(1) res show ?thesis by (auto simp: rows_table same_table_ids_ok) (simp add: same_table_def)
  next
    case (ok a fs d)
    then have "outbox c' = map (\<lambda>r. if claimed r then ?u r else r) (outbox c)" "next_rowid c' = next_rowid c"
      "res = Inr (length (filter claimed (outbox c)))" using res by auto
    then show ?thesis
      using ids_ok_update [OF assms(1), of claimed ?u] map_of_update_rows [of ?u claimed "outbox c"]
      by (simp add: ids_ok_def table_of_def)
  qed
qed


section \<open>Bounded error texts\<close>

lemma utf8_len_pos: "0 < utf8_len c" "utf8_len c \<noteq> 0"
  by (simp_all add: utf8_len_def)

lemma byte_prefix_split:
  "\<exists>rest. s = byte_prefix s n @ rest \<and> str_len (byte_prefix s n) \<le> n
     \<and> (rest = [] \<or> n < str_len (byte_prefix s n) + utf8_len (hd rest))"
proof (induction s n rule: byte_prefix.induct)
  case (2 c s n)
  show ?case
  proof (cases "utf8_len c \<le> n")
    case True
    with 2 obtain rest where "s = byte_prefix s (n - utf8_len c) @ rest"
      "str_len (byte_prefix s (n - utf8_len c)) \<le> n - utf8_len c"
      "rest = [] \<or> n - utf8_len c < str_len (byte_prefix s (n - utf8_len c)) + utf8_len (hd rest)" by blast
    with True show ?thesis by (intro exI [of _ rest]) auto
  qed simp
qed simp

lemma byte_prefix_exact: "byte_prefix (p @ rest) (str_len p) = p"
proof (induction p)
  case Nil
  then show ?case by (cases rest) (simp_all add: utf8_len_pos)
qed simp

lemma is_char_boundary_iff: "is_char_boundary s n \<longleftrightarrow> (\<exists>p rest. s = p @ rest \<and> str_len p = n)"
proof
  assume "is_char_boundary s n"
  then obtain k where "str_len (take k s) = n" unfolding is_char_boundary_def list_ex_iff by blast
  then show "\<exists>p rest. s = p @ rest \<and> str_len p = n" by (metis append_take_drop_id)
next
  assume "\<exists>p rest. s = p @ rest \<and> str_len p = n"
  then obtain p rest where "s = p @ rest" "str_len p = n" by blast
  then have "str_len (take (length p) s) = n" "length p \<in> set [0..<Suc (length s)]" by auto
  then show "is_char_boundary s n" unfolding is_char_boundary_def list_ex_iff by blast
qed

text \<open>The loop stops at a boundary, and no boundary lies between it and where it began.\<close>

lemma floor_char_boundary_props:
  "is_char_boundary s (floor_char_boundary s n) \<and> floor_char_boundary s n \<le> n
     \<and> (\<forall>m. floor_char_boundary s n < m \<longrightarrow> m \<le> n \<longrightarrow> \<not> is_char_boundary s m)"
proof (induction s n rule: floor_char_boundary.induct)
  case (1 s)
  have "is_char_boundary s 0" unfolding is_char_boundary_iff by (intro exI [of _ "[]"] exI [of _ s]) simp
  then show ?case by simp
next
  case (2 s n)
  then show ?case by (auto simp: le_Suc_eq)
qed

lemma floor_is_prefix_len: "floor_char_boundary s n = str_len (byte_prefix s n)"
proof -
  obtain rest where split: "s = byte_prefix s n @ rest" "str_len (byte_prefix s n) \<le> n"
    "rest = [] \<or> n < str_len (byte_prefix s n) + utf8_len (hd rest)" using byte_prefix_split [of s n] by blast
  let ?f = "floor_char_boundary s n"
  have f: "is_char_boundary s ?f" "?f \<le> n" "\<And>m. ?f < m \<Longrightarrow> m \<le> n \<Longrightarrow> \<not> is_char_boundary s m"
    using floor_char_boundary_props [of s n] by auto
  have "is_char_boundary s (str_len (byte_prefix s n))"
    unfolding is_char_boundary_iff using split(1) by blast
  then have "str_len (byte_prefix s n) \<le> ?f" using f(3) split(2) by (meson not_le_imp_less)
  moreover obtain p r where p: "s = p @ r" "str_len p = ?f" using f(1) by (auto simp: is_char_boundary_iff)
  have "?f \<le> str_len (byte_prefix s n)"
  proof (rule ccontr)
    assume "\<not> ?thesis"
    define b where "b = byte_prefix s n"
    have "p @ r = b @ rest" and longer: "str_len b < str_len p"
      using \<open>\<not> ?f \<le> str_len (byte_prefix s n)\<close> p split(1) by (simp_all add: b_def)
    then obtain us where "p = b @ us \<and> us @ r = rest \<or> b = p @ us" unfolding append_eq_append_conv2 by blast
    with longer have us: "us \<noteq> []" "p = byte_prefix s n @ us" "rest = us @ r"
      by (auto simp: b_def)
    then have "str_len (byte_prefix s n) + utf8_len (hd rest) \<le> ?f"
      using p(2) by (cases us) auto
    with f(2) split(3) us show False by auto
  qed
  ultimately show ?thesis by simp
qed

lemma bounded_send_error_eq:
  "bounded_send_error err = byte_prefix err (min (str_len err) MAX_SEND_ERROR_MESSAGE_BYTES)"
proof -
  let ?n = "min (str_len err) MAX_SEND_ERROR_MESSAGE_BYTES"
  obtain rest where "err = byte_prefix err ?n @ rest" using byte_prefix_split by blast
  then have "byte_prefix err (str_len (byte_prefix err ?n)) = byte_prefix err ?n"
    by (metis byte_prefix_exact)
  then show ?thesis by (simp add: bounded_send_error_def floor_is_prefix_len)
qed


section \<open>Properties\<close>

text \<open>The error text stored with a send is a prefix of the original that is cut at a
  character boundary, takes at most 256 bytes, and is the longest such prefix.\<close>

theorem bounded_send_error_longest:
  "\<exists>rest. err = bounded_send_error err @ rest \<and> str_len (bounded_send_error err) \<le> 256
     \<and> (rest = [] \<or> 256 < str_len (bounded_send_error err) + utf8_len (hd rest))"
proof (cases "str_len err \<le> 256")
  case True
  then have "bounded_send_error err = err"
    using byte_prefix_exact [of err "[]"] by (simp add: bounded_send_error_eq MAX_SEND_ERROR_MESSAGE_BYTES_def)
  with True show ?thesis by simp
next
  case False
  then have "bounded_send_error err = byte_prefix err 256"
    by (simp add: bounded_send_error_eq MAX_SEND_ERROR_MESSAGE_BYTES_def)
  with byte_prefix_split [of err 256] show ?thesis by simp
qed


subsection \<open>Reading the queue\<close>

definition replays_before :: "OutboxEntry \<Rightarrow> OutboxEntry \<Rightarrow> bool" where
  "replays_before e f \<longleftrightarrow>
     (replay_order (entry_action_type e), entry_id e) < (replay_order (entry_action_type f), entry_id f)"

lemma map_filter_entry_ids:
  "map entry_id (List.map_filter row_entry rs) = map row_id (filter (\<lambda>r. row_entry r \<noteq> None) rs)"
  by (induction rs) (auto simp: List.map_filter_def dest: row_entry_Some)

lemma sorted_strict:
  assumes "sorted (map f xs)" and "distinct (map g xs)" and "\<And>x y. f x = f y \<Longrightarrow> g x = g y"
  shows "sorted_wrt (\<lambda>x y. f x < f y) xs"
  using assms(1,2)
proof (induction xs)
  case (Cons x xs)
  have "f x < f y" if "y \<in> set xs" for y
  proof -
    have "f x \<le> f y" using Cons.prems(1) that by simp
    moreover have "g x \<noteq> g y" using Cons.prems(2) that by auto
    then have "f x \<noteq> f y" using assms(3) [of x y] by blast
    ultimately show ?thesis by simp
  qed
  with Cons show ?case by simp
qed simp

lemma get_pending_ops_distinct:
  assumes "ids_ok c" and "get_pending_ops account_id c = (Inr es, c')"
  shows "distinct (map entry_id es)"
proof -
  let ?rs = "filter (\<lambda>r. row_account r = account_id \<and> row_status r = ''pending'') (outbox c)"
  have "distinct (map row_id (sort_key row_id ?rs))"
    using assms(1) by (auto simp: ids_ok_def distinct_map intro: inj_on_subset)
  then have "distinct (map entry_id (List.map_filter row_entry (sort_key row_id ?rs)))"
    unfolding map_filter_entry_ids by (rule distinct_map_filter)
  then show ?thesis
    unfolding get_pending_ops_ok(1) [OF assms(2)] by (simp add: distinct_map)
qed

lemma get_pending_ops_error: "get_pending_ops account_id c = (Inl e, c') \<Longrightarrow> same_table c' c"
  by (auto simp: get_pending_ops_def sql_select_def db_return_def elim!: db_bind_cases sql_cases)

text \<open>The replay queue of an account is exactly its pending rows, each once, in the order
  replay depends on (flags, copies, moves, deletes, sends), oldest first within a kind; and
  reading it changes nothing.\<close>

theorem get_pending_ops_exact:
  assumes "ids_ok c" and "get_pending_ops account_id c = (Inr es, c')"
  shows "same_table c' c
    \<and> set es = {e. \<exists>r \<in> set (outbox c). row_account r = account_id \<and> row_status r = ''pending'' \<and> row_entry r = Some e}
    \<and> distinct (map entry_id es)
    \<and> sorted_wrt replays_before es"
proof -
  let ?key = "\<lambda>e. (replay_order (entry_action_type e), entry_id e)"
  have d: "distinct (map entry_id es)" by (rule get_pending_ops_distinct [OF assms])
  have "sorted_wrt (\<lambda>x y. ?key x < ?key y) es"
  proof (rule sorted_strict [OF _ d])
    show "sorted (map ?key es)" unfolding get_pending_ops_ok(1) [OF assms(2)] by (rule sorted_sort_key)
  qed simp
  then have "sorted_wrt replays_before es"
    by (simp add: replays_before_def [abs_def])
  with d get_pending_ops_ok(2) [OF assms(2)] get_pending_ops_members [OF assms(2)] show ?thesis by blast
qed

subsection \<open>Superseding\<close>

text \<open>The condition of \<open>no_spill\<close> along the newer mutations.\<close>

fun no_spills :: "FlagMutation list \<Rightarrow> FlagMutation list \<Rightarrow> bool" where
  "no_spills [] ms = True"
| "no_spills (newer # rest) ms \<longleftrightarrow>
     list_all (\<lambda>older. no_spill older newer) ms
   \<and> no_spills rest (concat (map (\<lambda>older. subtract_flag_mutation older newer) ms))"

lemma subtract_all_untouched:
  "fresh_target (target newer) \<Longrightarrow> intent newer r f = None \<Longrightarrow> list_all (\<lambda>older. no_spill older newer) ms \<Longrightarrow>
     replay_intent (concat (map (\<lambda>older. subtract_flag_mutation older newer) ms)) r f = replay_intent ms r f"
  by (induction ms) (auto simp: replay_intent_append subtract_flag_mutation_untouched split: option.split)

lemma supersede_untouched:
  "list_all (\<lambda>n. fresh_target (target n)) new_mutations \<Longrightarrow> no_spills new_mutations ms \<Longrightarrow>
     replay_intent new_mutations r f = None \<Longrightarrow>
     replay_intent (supersede_mutations new_mutations ms) r f = replay_intent ms r f"
proof (induction new_mutations arbitrary: ms)
  case Nil
  then show ?case by (simp add: supersede_mutations_def)
next
  case (Cons n ns)
  then have "intent n r f = None" "replay_intent ns r f = None" by (auto split: option.splits)
  with Cons show ?case by (simp add: supersede_mutations_def subtract_all_untouched)
qed

lemma subtract_all_yields:
  "fresh_target (target newer) \<Longrightarrow> intent newer r f = Some b \<Longrightarrow>
     replay_intent (concat (map (\<lambda>older. subtract_flag_mutation older newer) ms)) r f \<in> {None, Some b}"
proof (induction ms)
  case (Cons m ms)
  then show ?case
    using subtract_flag_mutation_yields [of newer r f b m] by (auto simp: replay_intent_append)
qed simp

lemma supersede_yields:
  "list_all (\<lambda>n. fresh_target (target n)) new_mutations \<Longrightarrow> no_spills new_mutations ms \<Longrightarrow>
     replay_intent new_mutations r f = Some b \<Longrightarrow>
     replay_intent (supersede_mutations new_mutations ms) r f \<in> {None, Some b}"
proof (induction new_mutations arbitrary: ms)
  case (Cons n ns)
  let ?ms = "concat (map (\<lambda>older. subtract_flag_mutation older n) ms)"
  have step: "supersede_mutations (n # ns) ms = supersede_mutations ns ?ms"
    by (simp add: supersede_mutations_def)
  show ?case
  proof (cases "replay_intent ns r f")
    case None
    with Cons.prems have "intent n r f = Some b" by simp
    with None Cons.prems subtract_all_yields [of n r f b ms] supersede_untouched [of ns ?ms r f]
    show ?thesis unfolding step by simp
  next
    case (Some b')
    with Cons.prems Cons.IH [of ?ms] show ?thesis unfolding step by simp
  qed
qed simp



text \<open>What a rewriting of queued flag operations leaves of a row.\<close>

definition rewritten_row :: "externals \<Rightarrow> string \<Rightarrow> (FlagMutation list \<Rightarrow> FlagMutation list) \<Rightarrow> outbox_row \<Rightarrow> outbox_row option" where
  "rewritten_row x account_id rewrite r =
     (if row_account r = account_id \<and> row_status r = ''pending'' \<and> row_action r = ''set_flags''
      then (case Option.bind (row_entry r) (outbox_to_mail_op x) of
              Some (SetFlags ms) \<Rightarrow>
                if rewrite ms = [] then None
                else Some (r\<lparr>row_payload := json_text x (snd (the (mail_op_to_outbox x (SetFlags (rewrite ms)))))\<rparr>)
            | _ \<Rightarrow> Some r)
      else Some r)"

definition rewritten_by :: "externals \<Rightarrow> (FlagMutation list \<Rightarrow> FlagMutation list) \<Rightarrow> OutboxEntry \<Rightarrow> outbox_row \<Rightarrow> outbox_row option" where
  "rewritten_by x rewrite e r =
     (case outbox_to_mail_op x e of
        Some (SetFlags ms) \<Rightarrow>
          if rewrite ms = [] then None
          else Some (r\<lparr>row_payload := json_text x (snd (the (mail_op_to_outbox x (SetFlags (rewrite ms)))))\<rparr>)
      | _ \<Rightarrow> Some r)"

lemma store_remaining_spec:
  assumes "ids_ok c" and "store_remaining x e ms c = (Inr (), c')"
  shows "ids_ok c' \<and> table_of c' = (table_of c)(entry_id e := Option.bind (table_of c (entry_id e))
     (\<lambda>r. if ms = [] then None else Some (r\<lparr>row_payload := json_text x (snd (the (mail_op_to_outbox x (SetFlags ms))))\<rparr>)))"
proof (cases "ms = []")
  case True
  then obtain n where "sql_delete (\<lambda>r. row_id r = entry_id e) c = (Inr n, c')"
    using assms(2) by (auto simp: store_remaining_def db_return_def elim!: db_bind_cases)
  from delete_one [OF assms(1) this, of "entry_id e"] True rows_row_id [OF assms(1), of "entry_id e"] show ?thesis
    by (cases "table_of c (entry_id e)") (auto simp: fun_upd_idem)
next
  case False
  let ?u = "\<lambda>r. r\<lparr>row_payload := json_text x (snd (the (mail_op_to_outbox x (SetFlags ms))))\<rparr>"
  obtain rs where "sql_update (\<lambda>r. row_id r = entry_id e) ?u c = (Inr rs, c')"
    using assms(2) False by (auto simp: store_remaining_def db_return_def elim!: db_bind_cases simp del: mail_op_to_outbox.simps)
  from update_one [OF assms(1) this, of "entry_id e"] False rows_row_id [OF assms(1), of "entry_id e"] show ?thesis
    by (cases "table_of c (entry_id e)") (auto simp: fun_upd_idem simp del: mail_op_to_outbox.simps)
qed

lemma supersede_entry_spec:
  assumes "ids_ok c" and "supersede_entry x f e c = (Inr (), c')"
  shows "ids_ok c' \<and> table_of c' = (table_of c)(entry_id e := Option.bind (table_of c (entry_id e)) (rewritten_by x f e))"
proof -
  have same: "Option.bind (table_of c (entry_id e)) Some = table_of c (entry_id e)" by (cases "table_of c (entry_id e)") auto
  show ?thesis
  proof (cases "\<exists>ms. outbox_to_mail_op x e = Some (SetFlags ms)")
    case True
    then obtain ms where ms: "outbox_to_mail_op x e = Some (SetFlags ms)" by blast
    then have "store_remaining x e (f ms) c = (Inr (), c')"
      using assms(2) by (simp add: supersede_entry_def)
    from store_remaining_spec [OF assms(1) this] ms show ?thesis
      by (simp add: rewritten_by_def [abs_def] del: mail_op_to_outbox.simps)
  next
    case False
    then have "c' = c" and "rewritten_by x f e = Some"
      using assms(2) by (auto simp: supersede_entry_def rewritten_by_def fun_eq_iff db_return_def
          split: option.splits MailOp.splits)
    with assms(1) same show ?thesis by simp
  qed
qed

lemma supersede_each_spec:
  "ids_ok c \<Longrightarrow> distinct (map entry_id es) \<Longrightarrow> db_each (supersede_entry x f) es c = (Inr (), c') \<Longrightarrow>
     ids_ok c' \<and> (\<forall>i. table_of c' i =
       (case find (\<lambda>e. entry_id e = i) es of
          None \<Rightarrow> table_of c i | Some e \<Rightarrow> Option.bind (table_of c i) (rewritten_by x f e)))"
proof (induction es arbitrary: c)
  case Nil
  then show ?case by (simp add: db_return_def)
next
  case (Cons e es)
  obtain d where d: "supersede_entry x f e c = (Inr (), d)" "db_each (supersede_entry x f) es d = (Inr (), c')"
    using Cons.prems(3) by (auto elim!: db_bind_cases)
  note step = supersede_entry_spec [OF Cons.prems(1) d(1)]
  have rest: "ids_ok c'" "table_of c' i = (case find (\<lambda>e. entry_id e = i) es of
          None \<Rightarrow> table_of d i | Some e \<Rightarrow> Option.bind (table_of d i) (rewritten_by x f e))" for i
    using Cons.IH [OF _ _ d(2)] step Cons.prems(2) by auto
  have "find (\<lambda>e'. entry_id e' = entry_id e) es = None"
    using Cons.prems(2) by (auto simp: find_None_iff image_iff)
  with rest step show ?case by (auto split: option.split)
qed


lemma find_Some_member: "find P xs = Some y \<Longrightarrow> y \<in> set xs \<and> P y"
  by (induction xs) (auto split: if_splits)

lemma find_pending:
  assumes "ids_ok c" and "get_pending_ops account_id c = (Inr es, d)" and "table_of c i = Some r"
  shows "(case find (\<lambda>e. entry_id e = i) (filter (\<lambda>e. entry_action_type e = ''set_flags'') es) of
            None \<Rightarrow> Some r | Some e \<Rightarrow> rewritten_by x f e r) = rewritten_row x account_id f r"
proof (cases "find (\<lambda>e. entry_id e = i) (filter (\<lambda>e. entry_action_type e = ''set_flags'') es)")
  case None
  have "\<not> (row_account r = account_id \<and> row_status r = ''pending'' \<and> row_action r = ''set_flags'' \<and> row_entry r = Some e)" for e
  proof
    assume "row_account r = account_id \<and> row_status r = ''pending'' \<and> row_action r = ''set_flags'' \<and> row_entry r = Some e"
    then have "e \<in> set es" "entry_action_type e = ''set_flags''" "entry_id e = i"
      using assms(1,3) get_pending_ops_members [OF assms(2), of e] row_entry_Some [of r e] by (auto simp: rows_Some)
    with None show False by (auto simp: find_None_iff)
  qed
  with None show ?thesis by (cases "row_entry r") (auto simp: rewritten_row_def)
next
  case (Some e)
  then have e: "e \<in> set es" "entry_action_type e = ''set_flags''" "entry_id e = i"
    using find_Some_member [OF Some] by auto
  then obtain r' where r': "r' \<in> set (outbox c)" "row_account r' = account_id" "row_status r' = ''pending''" "row_entry r' = Some e"
    using get_pending_ops_members [OF assms(2)] by auto
  then have "table_of c i = Some r'" using e(3) assms(1) by (auto simp: rows_Some dest: row_entry_Some)
  with assms(3) r' e row_entry_Some [OF r'(4)] have "row_account r = account_id \<and> row_status r = ''pending''
      \<and> row_action r = ''set_flags'' \<and> row_entry r = Some e" by auto
  with Some show ?thesis by (simp add: rewritten_row_def rewritten_by_def)
qed

lemma find_pending_bind:
  assumes "ids_ok c" and "get_pending_ops account_id c = (Inr es, d)"
  shows "(case find (\<lambda>e. entry_id e = i) (filter (\<lambda>e. entry_action_type e = ''set_flags'') es) of
            None \<Rightarrow> table_of c i | Some e \<Rightarrow> Option.bind (table_of c i) (rewritten_by x f e))
       = Option.bind (table_of c i) (rewritten_row x account_id f)"
proof (cases "table_of c i")
  case (Some r)
  with find_pending [OF assms Some, of x f] show ?thesis by (simp split: option.splits)
qed (simp split: option.split)

lemma pending_distinct:
  "ids_ok c \<Longrightarrow> get_pending_ops account_id c = (Inr es, d) \<Longrightarrow> distinct (map entry_id (filter P es))"
  by (rule distinct_map_filter) (use get_pending_ops_distinct in blast)

lemma supersede_pending_spec:
  assumes "ids_ok c" and "supersede_pending_flag_ops x account_id new_mutations c = (Inr (), c')"
  shows "table_of c' i = Option.bind (table_of c i) (rewritten_row x account_id (supersede_mutations new_mutations))"
proof -
  obtain es d where es: "get_pending_ops account_id c = (Inr es, d)"
    and tr: "transaction (db_each (supersede_entry x (supersede_mutations new_mutations))
               (filter (\<lambda>e. entry_action_type e = ''set_flags'') es)) d = (Inr (), c')"
    using assms(2) by (auto simp: supersede_pending_flag_ops_def elim!: db_bind_cases)
  obtain c1 c2 where c1: "same_table c1 d" and run: "db_each (supersede_entry x (supersede_mutations new_mutations))
       (filter (\<lambda>e. entry_action_type e = ''set_flags'') es) c1 = (Inr (), c2)" and c2: "same_table c' c2"
    using transaction_ok [OF tr] by blast
  have tab: "table_of c1 = table_of c" "ids_ok c1"
    using c1 get_pending_ops_ok(2) [OF es] assms(1) by (auto simp: rows_table same_table_ids_ok)
  have "table_of c2 i = Option.bind (table_of c i) (rewritten_row x account_id (supersede_mutations new_mutations))"
    using supersede_each_spec [OF tab(2) pending_distinct [OF assms(1) es] run]
      find_pending_bind [OF assms(1) es, of i x "supersede_mutations new_mutations"]
    unfolding tab(1) by simp
  with c2 show ?thesis by (simp add: rows_table)
qed

text \<open>Superseding rewrites the queue all or nothing. When it succeeds, every pending flag row
  of the account that decodes is replaced by what remains of it, or removed when nothing remains,
  and every other row is as it was; when any statement fails, the table is unchanged.\<close>

theorem supersede_pending_flag_ops_rows:
  assumes "ids_ok c"
  shows "case supersede_pending_flag_ops x account_id new_mutations c of
      (Inr _, c') \<Rightarrow> (\<forall>i. table_of c' i =
         Option.bind (table_of c i) (rewritten_row x account_id (supersede_mutations new_mutations)))
    | (Inl e, c') \<Rightarrow> same_table c' c"
proof (cases "supersede_pending_flag_ops x account_id new_mutations c")
  case (Pair r c')
  show ?thesis
  proof (cases r)
    case (Inr u)
    with Pair supersede_pending_spec [OF assms, of x account_id new_mutations c'] show ?thesis by simp
  next
    case (Inl e)
    with Pair have "supersede_pending_flag_ops x account_id new_mutations c = (Inl e, c')" by simp
    then have "same_table c' c"
      unfolding supersede_pending_flag_ops_def
    proof (cases rule: db_bind_cases)
      case (failed e')
      then show ?thesis by (simp add: get_pending_ops_error)
    next
      case (ok es d)
      with get_pending_ops_ok(2) [OF ok(1)] transaction_error [OF ok(2)] show ?thesis
        by (blast intro: same_table_trans)
    qed
    with Pair Inl show ?thesis by simp
  qed
qed


lemma rewrite_pending_spec:
  assumes "ids_ok c" and "rewrite_pending_flags_for_delete x account_id refs c = (Inr (), c')"
  shows "table_of c' i = Option.bind (table_of c i) (rewritten_row x account_id (prune_deleted refs))"
proof -
  obtain es d where es: "get_pending_ops account_id c = (Inr es, d)"
    and run: "db_each (supersede_entry x (prune_deleted refs))
               (filter (\<lambda>e. entry_action_type e = ''set_flags'') es) d = (Inr (), c')"
    using assms(2) by (auto simp: rewrite_pending_flags_for_delete_def elim!: db_bind_cases)
  have tab: "table_of d = table_of c" "ids_ok d"
    using get_pending_ops_ok(2) [OF es] assms(1) by (auto simp: rows_table same_table_ids_ok)
  show ?thesis
    using supersede_each_spec [OF tab(2) pending_distinct [OF assms(1) es] run]
      find_pending_bind [OF assms(1) es, of i x "prune_deleted refs"]
    unfolding tab(1) by simp
qed

definition delete_row :: "externals \<Rightarrow> string \<Rightarrow> BackendMessageRef list \<Rightarrow> int \<Rightarrow> outbox_row" where
  "delete_row x account_id refs i =
     \<lparr>row_id = i, row_account = account_id, row_action = ''delete'',
      row_payload = json_text x (jobj (refs_payload refs)), row_status = ''pending'', row_retry = 0, row_error = None\<rparr>"

lemma queue_delete_insert:
  assumes "ids_ok c" and "queue_offline_op x account_id ''delete'' (snd (the (mail_op_to_outbox x (DeleteMessages refs)))) c = (Inr i, d)"
  shows "ids_ok d \<and> table_of c i = None \<and> table_of d = (table_of c)(i \<mapsto> delete_row x account_id refs i)"
  using insert_one [OF assms(1) assms(2) [unfolded queue_offline_op_def queue_offline_op_with_status_def]]
  by (auto simp: delete_row_def)


subsection \<open>Witnesses\<close>

definition sample_conn :: conn where
  "sample_conn =
     \<lparr>faults = [], outbox = [\<lparr>row_id = 1, row_account = ''a'', row_action = ''delete'', row_payload = ''x'', row_status = ''pending'',
                 row_retry = 0, row_error = None\<rparr>,
                \<lparr>row_id = 2, row_account = ''a'', row_action = ''copy'', row_payload = ''y'', row_status = ''pending'',
                 row_retry = 1, row_error = Some ''offline''\<rparr>,
                \<lparr>row_id = 3, row_account = ''b'', row_action = ''move'', row_payload = ''z'', row_status = ''pending'',
                 row_retry = 0, row_error = None\<rparr>], next_rowid = 4\<rparr>"

lemma sample_conn_ids: "ids_ok sample_conn"
  by (simp add: sample_conn_def ids_ok_def)

theorem get_pending_ops_exact_witness:
  "\<exists>es c'. get_pending_ops ''a'' sample_conn = (Inr es, c') \<and> map entry_id es = [2, 1] \<and> sorted_wrt replays_before es"
proof -
  define es where "es = [\<lparr>entry_id = 2, entry_account_id = ''a'', entry_action_type = ''copy'', entry_payload_json = ''y'', entry_retry_count = 1\<rparr>,
     \<lparr>entry_id = 1, entry_account_id = ''a'', entry_action_type = ''delete'', entry_payload_json = ''x'', entry_retry_count = 0\<rparr>]"
  have run: "get_pending_ops ''a'' sample_conn = (Inr es, sample_conn)"
    by (simp add: get_pending_ops_def sql_select_def sql_def db_bind_def db_return_def sample_conn_def es_def
        row_entry_def List.map_filter_def replay_order_def)
  with get_pending_ops_exact [OF sample_conn_ids run] show ?thesis by (auto simp: es_def)
qed

theorem supersede_pending_flag_ops_rows_witness:
  "\<exists>c'. supersede_pending_flag_ops sample_externals ''a'' [] sample_conn = (Inr (), c')
     \<and> table_of c' 2 = Option.bind (table_of sample_conn 2) (rewritten_row sample_externals ''a'' (supersede_mutations []))"
proof -
  have run: "supersede_pending_flag_ops sample_externals ''a'' [] sample_conn = (Inr (), sample_conn)"
    by (simp add: supersede_pending_flag_ops_def get_pending_ops_def sql_select_def sql_def db_bind_def db_return_def
        sample_conn_def row_entry_def List.map_filter_def replay_order_def transaction_def)
  with supersede_pending_flag_ops_rows [OF sample_conn_ids, of sample_externals "''a''" "[]"] show ?thesis by auto
qed



end
