(* ===== verification/Send_Protocol.thy ===== *)
theory Send_Protocol
  imports Outbox
begin

text \<open>
  The delivery protocol of queued sends. Tasks of the program (the send command, the account
  workers, the Outbox view, start-up) act on the outbox one statement at a time; the step
  relation interleaves them in any order, with failing statements. A task that starts a
  delivery holds the row until the outcome is recorded. The history is a ghost variable with
  the newest event first.
\<close>

section \<open>Actors and events\<close>

datatype delivery_event =
    Started int
  | Delivered int
  | Unknown int
  | Failed int
  | UserRetry int

fun event_id :: "delivery_event \<Rightarrow> int" where
  "event_id (Started i) = i"
| "event_id (Delivered i) = i"
| "event_id (Unknown i) = i"
| "event_id (Failed i) = i"
| "event_id (UserRetry i) = i"

record delivery =
  store :: conn
  in_flight :: "int list"
  history :: "delivery_event list"

text \<open>The other writers of the outbox table.\<close>

datatype housekeeping =
    QueueOp string string json
  | QueueDead string string json string
  | QueueDelete string "BackendMessageRef list"
  | QueueMove string "BackendMessageRef list" string
  | QueueCopy string "BackendMessageRef list" string
  | SupersedeFlags string "FlagMutation list"
  | SupersedeForDelete string "BackendMessageRef list"
  | ExhaustPending int string
  | QuarantinePending int string
  | MarkCompleted int
  | MarkFailed int string
  | MarkDead int
  | MarkDeadError int string
  | Discard string int

fun run_housekeeping :: "externals \<Rightarrow> housekeeping \<Rightarrow> conn \<Rightarrow> conn" where
  "run_housekeeping x (QueueOp a act p) c = snd (queue_offline_op x a act p c)"
| "run_housekeeping x (QueueDead a act p e) c = snd (queue_dead_op x a act p e c)"
| "run_housekeeping x (QueueDelete a refs) c = snd (queue_failed_delete x a refs c)"
| "run_housekeeping x (QueueMove a refs t) c = snd (queue_failed_move x a refs t c)"
| "run_housekeeping x (QueueCopy a refs t) c = snd (queue_failed_copy x a refs t c)"
| "run_housekeeping x (SupersedeFlags a ms) c = snd (supersede_pending_flag_ops x a ms c)"
| "run_housekeeping x (SupersedeForDelete a refs) c = snd (supersede_pending_flags_for_delete x a refs c)"
| "run_housekeeping x (ExhaustPending i e) c = snd (exhaust_pending_send i e c)"
| "run_housekeeping x (QuarantinePending i e) c = snd (quarantine_pending_send i e c)"
| "run_housekeeping x (MarkCompleted i) c = snd (mark_completed i c)"
| "run_housekeeping x (MarkFailed i e) c = snd (mark_failed i e c)"
| "run_housekeeping x (MarkDead i) c = snd (mark_dead i c)"
| "run_housekeeping x (MarkDeadError i e) c = snd (mark_dead_with_error i e c)"
| "run_housekeeping x (Discard a i) c = snd (discard_outbox_op a i c)"

inductive delivery_step :: "externals \<Rightarrow> delivery \<Rightarrow> delivery \<Rightarrow> bool" for x where
  submit:
    "queue_offline_op_with_status x a ''send'' p ''sending'' (store s) = (Inr i, c) \<Longrightarrow>
     delivery_step x s (s\<lparr>store := c, in_flight := i # in_flight s, history := Started i # history s\<rparr>)"
| submit_fails:
    "queue_offline_op_with_status x a ''send'' p ''sending'' (store s) = (Inl e, c) \<Longrightarrow>
     delivery_step x s (s\<lparr>store := c\<rparr>)"
| claim:
    "claim_pending_send i n (store s) = (Inr True, c) \<Longrightarrow>
     delivery_step x s (s\<lparr>store := c, in_flight := i # in_flight s, history := Started i # history s\<rparr>)"
| claim_lost:
    "claim_pending_send i n (store s) = (r, c) \<Longrightarrow> r \<noteq> Inr True \<Longrightarrow> delivery_step x s (s\<lparr>store := c\<rparr>)"
| delivered:
    "i \<in> set (in_flight s) \<Longrightarrow> complete_sending_send i (store s) = (r, c) \<Longrightarrow>
     delivery_step x s
       (s\<lparr>store := c, in_flight := remove1 i (in_flight s), history := Delivered i # history s\<rparr>)"
| failed:
    "i \<in> set (in_flight s) \<Longrightarrow> retry_sending_send i e (store s) = (r, c) \<Longrightarrow>
     delivery_step x s
       (s\<lparr>store := c, in_flight := remove1 i (in_flight s), history := Failed i # history s\<rparr>)"
| unknown:
    "i \<in> set (in_flight s) \<Longrightarrow> quarantine_sending_send i e (store s) = (r, c) \<Longrightarrow>
     delivery_step x s
       (s\<lparr>store := c, in_flight := remove1 i (in_flight s), history := Unknown i # history s\<rparr>)"
| user_retry:
    "retry_outbox_op a i (store s) = (Inr (), c) \<Longrightarrow>
     delivery_step x s (s\<lparr>store := c, history := UserRetry i # history s\<rparr>)"
| user_retry_refused:
    "retry_outbox_op a i (store s) = (Inl e, c) \<Longrightarrow> delivery_step x s (s\<lparr>store := c\<rparr>)"
| housekeeping:
    "delivery_step x s (s\<lparr>store := run_housekeeping x h (store s)\<rparr>)"
| restart:
    "quarantine_stuck_sending (store s) = (r, c) \<Longrightarrow>
     delivery_step x s (s\<lparr>store := c, in_flight := []\<rparr>)"

text \<open>Faults are scheduled by the environment and can be anything at every step.\<close>

inductive delivery_reachable :: "externals \<Rightarrow> delivery \<Rightarrow> bool" for x where
  initial: "delivery_reachable x \<lparr>store = \<lparr>faults = fs, outbox = [], next_rowid = 1\<rparr>, in_flight = [], history = []\<rparr>"
| step: "delivery_reachable x s \<Longrightarrow> delivery_step x s t \<Longrightarrow> delivery_reachable x t"
| fault: "delivery_reachable x s \<Longrightarrow> delivery_reachable x (s\<lparr>store := (store s)\<lparr>faults := fs\<rparr>\<rparr>)"

declare delivery_step.intros [step_intros]
declare delivery_reachable.intros [step_intros]

section \<open>The invariant\<close>

text \<open>
  The last event of a row is \<open>risky\<close> when the message may have reached a recipient: a delivery
  started, succeeded or ended without a known outcome.
\<close>

definition last_event :: "delivery_event list \<Rightarrow> int \<Rightarrow> delivery_event option" where
  "last_event h i = find (\<lambda>e. event_id e = i) h"

fun risky_event :: "delivery_event option \<Rightarrow> bool" where
  "risky_event (Some (Started _)) = True"
| "risky_event (Some (Delivered _)) = True"
| "risky_event (Some (Unknown _)) = True"
| "risky_event _ = False"

definition risky :: "delivery_event list \<Rightarrow> int \<Rightarrow> bool" where
  "risky h i \<longleftrightarrow> risky_event (last_event h i)"

text \<open>Every delivery of a history started when no earlier one might have succeeded.\<close>

fun attempts_ok :: "delivery_event list \<Rightarrow> bool" where
  "attempts_ok [] = True"
| "attempts_ok (Started i # h) \<longleftrightarrow> \<not> risky h i \<and> attempts_ok h"
| "attempts_ok (e # h) \<longleftrightarrow> attempts_ok h"

text \<open>Deliveries of a row since the user last asked for it.\<close>

definition starts :: "delivery_event list \<Rightarrow> int \<Rightarrow> nat" where
  "starts h i = length (filter (\<lambda>e. e = Started i) (takeWhile (\<lambda>e. e \<noteq> UserRetry i) h))"

definition row_ok :: "int list \<Rightarrow> delivery_event list \<Rightarrow> int \<Rightarrow> outbox_row \<Rightarrow> bool" where
  "row_ok fl h i r \<longleftrightarrow>
     (claimed r \<or> waiting r \<longrightarrow> 0 \<le> row_retry r \<and> row_retry r < MAX_RETRIES)
   \<and> (waiting r \<longrightarrow> \<not> risky h i \<and> int (starts h i) = row_retry r)
   \<and> (i \<in> set fl \<longrightarrow> claimed r \<and> int (starts h i) = row_retry r + 1)"

definition delivery_ok :: "delivery \<Rightarrow> bool" where
  "delivery_ok s \<longleftrightarrow>
     ids_ok (store s)
   \<and> distinct (in_flight s)
   \<and> (\<forall>i \<in> set (in_flight s). table_of (store s) i \<noteq> None)
   \<and> (\<forall>i r. table_of (store s) i = Some r \<longrightarrow> row_ok (in_flight s) (history s) i r)
   \<and> (\<forall>e \<in> set (history s). event_id e < next_rowid (store s))
   \<and> attempts_ok (history s)
   \<and> (\<forall>i. int (starts (history s) i) \<le> MAX_RETRIES)"

section \<open>Preservation\<close>

lemma risky_Nil [simp]: "\<not> risky [] i"
  by (simp add: risky_def last_event_def)

lemma risky_Cons [simp]: "risky (e # h) i \<longleftrightarrow> (if event_id e = i then risky_event (Some e) else risky h i)"
  by (simp add: risky_def last_event_def)

lemma starts_Cons [simp]:
  "starts [] i = 0"
  "starts (Started k # h) i = (if k = i then Suc (starts h i) else starts h i)"
  "starts (UserRetry k # h) i = (if k = i then 0 else starts h i)"
  "starts (Delivered k # h) i = starts h i"
  "starts (Unknown k # h) i = starts h i"
  "starts (Failed k # h) i = starts h i"
  by (simp_all add: starts_def)

lemma starts_other: "event_id e \<noteq> i \<Longrightarrow> starts (e # h) i = starts h i"
  by (cases e) simp_all

lemma no_events: "(\<And>e. e \<in> set h \<Longrightarrow> event_id e \<noteq> i) \<Longrightarrow> \<not> risky h i \<and> starts h i = 0"
proof (induction h)
  case (Cons e h)
  then have "event_id e \<noteq> i" by simp
  with Cons show ?case by (simp add: starts_other)
qed simp

lemma row_ok_other:
  "event_id e \<noteq> k \<Longrightarrow> k \<in> set fl' \<longleftrightarrow> k \<in> set fl \<Longrightarrow> row_ok fl' (e # h) k r \<longleftrightarrow> row_ok fl h k r"
  by (simp add: row_ok_def starts_other)

lemma quiet_claimed:
  assumes "ids_ok c" and "quiet c c'" and "claimed r"
  shows "table_of c' i = Some r \<longleftrightarrow> table_of c i = Some r"
proof -
  have eq: "filter claimed (outbox c') = filter claimed (outbox c)" and "ids_ok c'"
    using assms(2) by (auto simp: quiet_def claims_kept_def)
  with assms(1,3) show ?thesis
    by (auto simp: rows_Some intro: filter_eq_member [OF eq] filter_eq_member [OF eq [symmetric]])
qed

lemma quiet_waiting:
  assumes "ids_ok c" and "quiet c c'" and "table_of c' i = Some r'" and "waiting r'"
  obtains r where "table_of c i = Some r" "waiting r" "row_retry r = row_retry r'"
    | "next_rowid c \<le> i" "row_retry r' = 0"
proof -
  have "ids_ok c'" and nr: "no_requeue c c'" using assms(2) by (auto simp: quiet_def claims_kept_def)
  then have r': "r' \<in> set (outbox c')" "row_id r' = i" using assms(3) by (auto simp: rows_Some)
  with nr assms(4) consider r where "r \<in> set (outbox c)" "waiting r" "row_id r = i" "row_retry r = row_retry r'"
    | "next_rowid c \<le> i" "row_retry r' = 0" unfolding no_requeue_def by blast
  then show ?thesis using that assms(1) by cases (auto simp: rows_Some)
qed

lemma delivery_ok_ids: "delivery_ok s \<Longrightarrow> ids_ok (store s)"
  by (simp add: delivery_ok_def)

lemma delivery_ok_row_ok:
  "delivery_ok s \<Longrightarrow> table_of (store s) i = Some r \<Longrightarrow> row_ok (in_flight s) (history s) i r"
  by (simp add: delivery_ok_def)

lemma delivery_ok_held:
  "delivery_ok s \<Longrightarrow> i \<in> set (in_flight s) \<Longrightarrow>
     \<exists>r. table_of (store s) i = Some r \<and> claimed r \<and> int (starts (history s) i) = row_retry r + 1"
  by (auto simp: delivery_ok_def row_ok_def)

lemma claimed_not_waiting: "claimed r \<Longrightarrow> \<not> waiting r"
  by (simp add: row_classes)

lemma delivery_ok_quiet:
  assumes ok: "delivery_ok s" and q: "quiet (store s) c"
  shows "delivery_ok (s\<lparr>store := c\<rparr>)"
proof -
  note ids = delivery_ok_ids [OF ok]
  have next_le: "next_rowid (store s) \<le> next_rowid c"
    using q by (auto simp: quiet_def claims_kept_def)
  have held: "\<exists>r. table_of c i = Some r \<and> claimed r \<and> table_of (store s) i = Some r"
    if "i \<in> set (in_flight s)" for i
    using delivery_ok_held [OF ok that] quiet_claimed [OF ids q] by blast
  have "row_ok (in_flight s) (history s) i r" if r: "table_of c i = Some r" for i r
  proof (cases "waiting r")
    case True
    have out: "i \<notin> set (in_flight s)" using held [of i] r True claimed_not_waiting by auto
    from ids q r True show ?thesis
    proof (cases rule: quiet_waiting)
      case (1 r0)
      with delivery_ok_row_ok [OF ok 1(1)] True out claimed_not_waiting [of r] show ?thesis by (auto simp: row_ok_def)
    next
      case 2
      have "\<not> risky (history s) i \<and> starts (history s) i = 0"
        using ok 2(1) by (intro no_events) (auto simp: delivery_ok_def)
      with 2(2) out show ?thesis by (simp add: row_ok_def MAX_RETRIES_def)
    qed
  next
    case False
    show ?thesis
    proof (cases "claimed r")
      case True
      with r delivery_ok_row_ok [OF ok, of i r] quiet_claimed [OF ids q True, of i] show ?thesis by simp
    next
      case unclaimed: False
      then have "i \<notin> set (in_flight s)" using held [of i] r by auto
      with False unclaimed show ?thesis by (simp add: row_ok_def)
    qed
  qed
  then show ?thesis
    using ok next_le quiet.ids_stay [OF q] held by (fastforce simp: delivery_ok_def)
qed

lemma delivery_ok_same:
  assumes "delivery_ok s" and "ids_ok c" and "next_rowid c = next_rowid (store s)"
    and "table_of c = table_of (store s)"
  shows "delivery_ok (s\<lparr>store := c\<rparr>)"
  using assms by (simp add: delivery_ok_def)

text \<open>A step that concerns one row and records one event.\<close>

lemma delivery_ok_row:
  assumes ok: "delivery_ok s" and "ids_ok c" and "next_rowid (store s) \<le> next_rowid c"
    and tab: "table_of c = (table_of (store s))(i := ro)"
    and e: "event_id e = i" "i < next_rowid c"
    and fl: "distinct fl" "\<And>k. k \<noteq> i \<Longrightarrow> k \<in> set fl \<longleftrightarrow> k \<in> set (in_flight s)" "i \<in> set fl \<Longrightarrow> ro \<noteq> None"
    and row: "\<And>r. ro = Some r \<Longrightarrow> row_ok fl (e # history s) i r"
    and att: "attempts_ok (e # history s)" "int (starts (e # history s) i) \<le> MAX_RETRIES"
  shows "delivery_ok (s\<lparr>store := c, in_flight := fl, history := e # history s\<rparr>)"
proof -
  have "table_of c k \<noteq> None" if "k \<in> set fl" for k
    using that ok fl tab by (cases "k = i") (auto simp: delivery_ok_def)
  moreover have "row_ok fl (e # history s) k r" if "table_of c k = Some r" for k r
    using that ok row tab e(1) fl(2) [of k] by (cases "k = i") (auto simp: delivery_ok_def row_ok_other)
  moreover have "int (starts (e # history s) k) \<le> MAX_RETRIES" for k
    using ok att(2) e(1) by (cases "k = i") (auto simp: delivery_ok_def starts_other)
  moreover have "\<forall>d \<in> set (e # history s). event_id d < next_rowid c"
    using ok e assms(3) by (auto simp: delivery_ok_def)
  ultimately show ?thesis using assms(2) fl(1) att(1) by (simp add: delivery_ok_def)
qed

lemma housekeeping_quiet: "ids_ok c \<Longrightarrow> quiet c (run_housekeeping x h c)"
  by (cases h; simp; rule obeysD; (assumption | rule prod.collapse [symmetric] |
      rule queue_op.obeys_quiet queue_dead.obeys_quiet queue_delete.obeys_quiet queue_move.obeys_quiet
        queue_copy.obeys_quiet supersede_flags.obeys_quiet delete_flags.obeys_quiet exhaust_pending.obeys_quiet
        quarantine_pending.obeys_quiet completed_op.obeys_quiet failed_op.obeys_quiet dead_op.obeys_quiet
        dead_with_error.obeys_quiet discard_view.obeys_quiet))


lemma submit_ok:
  assumes ok: "delivery_ok s"
    and run: "queue_offline_op_with_status x a ''send'' p ''sending'' (store s) = (Inr i, c)"
  shows "delivery_ok (s\<lparr>store := c, in_flight := i # in_flight s, history := Started i # history s\<rparr>)"
proof -
  note ins = insert_one [OF delivery_ok_ids [OF ok] run [unfolded queue_offline_op_with_status_def], simplified]
  have "i \<notin> set (in_flight s)" using ins delivery_ok_held [OF ok, of i] by auto
  moreover have "\<not> risky (history s) i \<and> starts (history s) i = 0"
    using ok ins by (intro no_events) (auto simp: delivery_ok_def)
  moreover have "distinct (in_flight s)" "attempts_ok (history s)" using ok by (auto simp: delivery_ok_def)
  ultimately show ?thesis
    using ins by (intro delivery_ok_row [OF ok]) (auto simp: row_ok_def row_classes MAX_RETRIES_def)
qed

lemma submit_fails_ok:
  assumes ok: "delivery_ok s"
    and run: "queue_offline_op_with_status x a ''send'' p ''sending'' (store s) = (Inl e, c)"
  shows "delivery_ok (s\<lparr>store := c\<rparr>)"
  using run [unfolded queue_offline_op_with_status_def sql_insert_def] delivery_ok_ids [OF ok]
  by (cases rule: sql_cases)
     (auto intro!: delivery_ok_same [OF ok] simp: same_table_def ids_ok_def table_of_def)

lemma claim_ok:
  assumes ok: "delivery_ok s" and run: "claim_pending_send i n (store s) = (Inr True, c)"
  shows "delivery_ok (s\<lparr>store := c, in_flight := i # in_flight s, history := Started i # history s\<rparr>)"
proof -
  obtain r where r: "table_of (store s) i = Some r" "waiting r"
    and c: "table_of c = (table_of (store s))(i \<mapsto> r\<lparr>row_status := ''sending''\<rparr>)" "ids_ok c"
      "next_rowid c = next_rowid (store s)"
    using claim_pending_send_spec [OF delivery_ok_ids [OF ok] run] by auto
  have "i \<notin> set (in_flight s)"
    using delivery_ok_held [OF ok, of i] r claimed_not_waiting by auto
  moreover have "i < next_rowid (store s)" using rows_below_next [OF delivery_ok_ids [OF ok] r(1)] .
  moreover have "distinct (in_flight s)" "attempts_ok (history s)" using ok by (auto simp: delivery_ok_def)
  ultimately show ?thesis
    using c r(2) delivery_ok_row_ok [OF ok r(1)]
    by (intro delivery_ok_row [OF ok]) (auto simp: row_ok_def row_classes)
qed

text \<open>Recording an outcome: the claimed row becomes \<open>ro\<close> or the statement fails.\<close>

lemma outcome_ok:
  assumes ok: "delivery_ok s" and held: "i \<in> set (in_flight s)"
    and e: "e \<in> {Delivered i, Failed i, Unknown i}"
    and c: "ids_ok c" "next_rowid c = next_rowid (store s)"
      "table_of c = table_of (store s) \<or> table_of c = (table_of (store s))(i := ro)"
    and row: "\<And>r. ro = Some r \<Longrightarrow> row_ok [] (e # history s) i r"
  shows "delivery_ok (s\<lparr>store := c, in_flight := remove1 i (in_flight s), history := e # history s\<rparr>)"
proof -
  obtain r where r: "table_of (store s) i = Some r" "claimed r"
    using delivery_ok_held [OF ok held] by blast
  have below: "i < next_rowid c" using rows_below_next [OF delivery_ok_ids [OF ok] r(1)] c(2) by simp
  have fl: "distinct (remove1 i (in_flight s))" "i \<notin> set (remove1 i (in_flight s))"
    "k \<noteq> i \<Longrightarrow> k \<in> set (remove1 i (in_flight s)) \<longleftrightarrow> k \<in> set (in_flight s)" for k
    using ok by (auto simp: delivery_ok_def)
  have h: "event_id e = i" "attempts_ok (e # history s)" "int (starts (e # history s) i) \<le> MAX_RETRIES"
    using e ok by (auto simp: delivery_ok_def)
  have upd: "delivery_ok (s\<lparr>store := c, in_flight := remove1 i (in_flight s), history := e # history s\<rparr>)"
    if "table_of c = (table_of (store s))(i := ro')" "\<And>r. ro' = Some r \<Longrightarrow> row_ok [] (e # history s) i r" for ro'
  proof (rule delivery_ok_row [OF ok c(1) _ that(1) h(1) below fl(1,3) _ _ h(2,3)])
    show "row_ok (remove1 i (in_flight s)) (e # history s) i r" if "ro' = Some r" for r
      using \<open>\<And>r. ro' = Some r \<Longrightarrow> row_ok [] (e # history s) i r\<close> [OF that] fl(2) by (simp add: row_ok_def)
  qed (use c(2) fl(2) in auto)
  from c(3) show ?thesis
  proof
    assume "table_of c = table_of (store s)"
    then have "table_of c = (table_of (store s))(i := Some r)" using r(1) by (simp add: fun_upd_idem)
    then show ?thesis
      by (rule upd) (use delivery_ok_row_ok [OF ok r(1)] r(2) claimed_not_waiting [OF r(2)] in \<open>auto simp: row_ok_def\<close>)
  next
    assume "table_of c = (table_of (store s))(i := ro)"
    then show ?thesis using row by (rule upd)
  qed
qed

lemma delivered_ok:
  assumes ok: "delivery_ok s" and held: "i \<in> set (in_flight s)" and run: "complete_sending_send i (store s) = (r, c)"
  shows "delivery_ok (s\<lparr>store := c, in_flight := remove1 i (in_flight s), history := Delivered i # history s\<rparr>)"
  using complete_sending_send_spec [OF delivery_ok_ids [OF ok] run]
  by (intro outcome_ok [OF ok held, where ro = None]) (auto split: sum.splits if_splits)

lemma unknown_ok:
  assumes ok: "delivery_ok s" and held: "i \<in> set (in_flight s)" and run: "quarantine_sending_send i err (store s) = (r, c)"
  shows "delivery_ok (s\<lparr>store := c, in_flight := remove1 i (in_flight s), history := Unknown i # history s\<rparr>)"
proof -
  obtain r0 where r0: "table_of (store s) i = Some r0" "claimed r0" using delivery_ok_held [OF ok held] by blast
  let ?dead = "r0\<lparr>row_status := ''dead'', row_error := Some (bounded_send_error err)\<rparr>"
  show ?thesis
    using quarantine_send_spec [OF delivery_ok_ids [OF ok] run [unfolded quarantine_sending_send_def]] r0
    by (intro outcome_ok [OF ok held, where ro = "Some ?dead"])
       (auto simp: row_ok_def row_classes split: sum.splits if_splits)
qed

lemma failed_ok:
  assumes ok: "delivery_ok s" and held: "i \<in> set (in_flight s)" and run: "retry_sending_send i err (store s) = (r, c)"
  shows "delivery_ok (s\<lparr>store := c, in_flight := remove1 i (in_flight s), history := Failed i # history s\<rparr>)"
proof -
  obtain r0 where r0: "table_of (store s) i = Some r0" "claimed r0"
    "int (starts (history s) i) = row_retry r0 + 1" using delivery_ok_held [OF ok held] by blast
  have "0 \<le> row_retry r0" using delivery_ok_row_ok [OF ok r0(1)] r0(2) by (simp add: row_ok_def)
  then have "row_ok [] (Failed i # history s) i (failed_row err r0)"
    using r0(3) by (auto simp: row_ok_def row_classes failed_row_def)
  with retry_sending_send_spec [OF delivery_ok_ids [OF ok] run] r0 show ?thesis
    by (intro outcome_ok [OF ok held, where ro = "Some (failed_row err r0)"]) (auto split: sum.splits if_splits)
qed


lemma claim_lost_ok:
  assumes ok: "delivery_ok s" and run: "claim_pending_send i n (store s) = (r, c)" and "r \<noteq> Inr True"
  shows "delivery_ok (s\<lparr>store := c\<rparr>)"
  using claim_pending_send_spec [OF delivery_ok_ids [OF ok] run] assms(3)
  by (intro delivery_ok_same [OF ok]) auto

lemma user_retry_ok:
  assumes ok: "delivery_ok s" and run: "retry_outbox_op a i (store s) = (Inr (), c)"
  shows "delivery_ok (s\<lparr>store := c, history := UserRetry i # history s\<rparr>)"
proof -
  obtain r where r: "table_of (store s) i = Some r" "row_action r = ''send''" "row_status r = ''dead''"
    and c: "table_of c = (table_of (store s))(i \<mapsto> r\<lparr>row_status := ''pending'', row_retry := 0, row_error := None\<rparr>)"
      "ids_ok c" "next_rowid c = next_rowid (store s)"
    using retry_dead_row_spec [OF delivery_ok_ids [OF ok] run [unfolded retry_outbox_op_def]] by auto
  have "i \<notin> set (in_flight s)" using delivery_ok_held [OF ok, of i] r by (auto simp: row_classes)
  moreover have "i < next_rowid c" using rows_below_next [OF delivery_ok_ids [OF ok] r(1)] c(3) by simp
  moreover have "distinct (in_flight s)" "attempts_ok (history s)" using ok by (auto simp: delivery_ok_def)
  ultimately have "delivery_ok (s\<lparr>store := c, in_flight := in_flight s, history := UserRetry i # history s\<rparr>)"
    using c r by (intro delivery_ok_row [OF ok]) (auto simp: row_ok_def row_classes MAX_RETRIES_def)
  then show ?thesis by simp
qed

lemma user_retry_refused_ok:
  assumes ok: "delivery_ok s" and run: "retry_outbox_op a i (store s) = (Inl e, c)"
  shows "delivery_ok (s\<lparr>store := c\<rparr>)"
  using retry_dead_row_spec [OF delivery_ok_ids [OF ok] run [unfolded retry_outbox_op_def]]
  by (intro delivery_ok_same [OF ok]) auto

lemma restart_ok:
  assumes ok: "delivery_ok s" and run: "quarantine_stuck_sending (store s) = (r, c)"
  shows "delivery_ok (s\<lparr>store := c, in_flight := []\<rparr>)"
proof -
  note spec = quarantine_stuck_sending_spec [OF delivery_ok_ids [OF ok] run]
  have "row_ok [] (history s) i r'" if "table_of c i = Some r'" for i r'
  proof (cases "table_of (store s) i")
    case None
    with spec that show ?thesis by (auto split: sum.splits)
  next
    case (Some r0)
    have "row_ok [] (history s) i r0" using delivery_ok_row_ok [OF ok Some] by (simp add: row_ok_def)
    with Some spec that show ?thesis by (auto simp: row_ok_def row_classes split: sum.splits if_splits)
  qed
  with ok spec show ?thesis by (simp add: delivery_ok_def)
qed

lemma delivery_step_ok: "delivery_step x s t \<Longrightarrow> delivery_ok s \<Longrightarrow> delivery_ok t"
  by (induction rule: delivery_step.induct)
     (blast intro: submit_ok submit_fails_ok claim_ok claim_lost_ok delivered_ok failed_ok unknown_ok
        user_retry_ok user_retry_refused_ok restart_ok delivery_ok_quiet housekeeping_quiet delivery_ok_ids)+

lemma delivery_reachable_ok: "delivery_reachable x s \<Longrightarrow> delivery_ok s"
proof (induction rule: delivery_reachable.induct)
  case (initial fs)
  show ?case by (simp add: delivery_ok_def ids_ok_def table_of_def MAX_RETRIES_def)
next
  case (step s t)
  then show ?case using delivery_step_ok by blast
next
  case (fault s fs)
  then show ?case by (simp add: delivery_ok_def ids_ok_def table_of_def)
qed

section \<open>Properties\<close>

text \<open>C1: No automatic duplicate delivery. In every reachable state, however the tasks
  interleave and whichever statements fail, each delivery of a row started when no other
  delivery of it was in flight and when the last one, if any, is known to have failed or the
  user asked for another; and a row is never delivered more than five times
  (\<^verbatim>\<open>MAX_RETRIES\<close>) without the user asking again.\<close>

theorem no_duplicate_automatic_delivery:
  assumes "delivery_reachable x s"
  shows "attempts_ok (history s) \<and> distinct (in_flight s) \<and> (\<forall>i. int (starts (history s) i) \<le> MAX_RETRIES)"
  using delivery_reachable_ok [OF assms] by (simp add: delivery_ok_def)

text \<open>C17: A delivery in flight cannot be disturbed: in every reachable state the row of a
  delivery in flight is stored as a claimed send, another claim of it is refused, and the
  Outbox view can neither retry nor discard it.\<close>

theorem claim_exclusive:
  assumes "delivery_reachable x s" and "i \<in> set (in_flight s)"
  shows "(\<exists>r. table_of (store s) i = Some r \<and> claimed r)
    \<and> fst (claim_pending_send i n (store s)) \<noteq> Inr True
    \<and> fst (retry_outbox_op a i (store s)) \<noteq> Inr ()
    \<and> fst (discard_outbox_op a i (store s)) \<noteq> Inr ()"
proof -
  have ids: "ids_ok (store s)" using delivery_reachable_ok [OF assms(1)] by (rule delivery_ok_ids)
  obtain r where r: "table_of (store s) i = Some r" "claimed r"
    using delivery_ok_held [OF delivery_reachable_ok [OF assms(1)] assms(2)] by blast
  then have nd: "\<not> waiting r" "row_status r \<noteq> ''dead''" by (auto simp: row_classes)
  have "fst (claim_pending_send i n (store s)) \<noteq> Inr True"
    using claim_pending_send_spec [OF ids, of i n] r nd by (cases "claim_pending_send i n (store s)") auto
  moreover have "fst (retry_outbox_op a i (store s)) \<noteq> Inr ()"
    using retry_dead_row_spec [OF ids, of a i] r nd
    by (cases "retry_dead_row a i (store s)") (auto simp: retry_outbox_op_def)
  moreover have "fst (discard_outbox_op a i (store s)) \<noteq> Inr ()"
    using discard_inactive_row_spec [OF ids, of a i] r
    by (cases "discard_inactive_row a i (store s)") (auto simp: discard_outbox_op_def)
  ultimately show ?thesis using r by blast
qed

text \<open>Start-up leaves no send in an ambiguous state: when the quarantine statement
  succeeds, every row found as sending is dead with the explanation the Outbox view reports as
  an unknown outcome, every other row is as it was, and no row waits that did not wait before.\<close>

theorem restart_quarantines:
  assumes "ids_ok c" and "quarantine_stuck_sending c = (Inr n, c')"
  shows "\<not> (\<exists>r \<in> set (outbox c'). claimed r)
    \<and> n = length (filter claimed (outbox c))
    \<and> (\<forall>i r. table_of c i = Some r \<longrightarrow> \<not> claimed r \<longrightarrow> table_of c' i = Some r)
    \<and> (\<forall>i r. table_of c i = Some r \<longrightarrow> claimed r \<longrightarrow>
         (\<exists>r'. table_of c' i = Some r' \<and> row_status r' = ''dead''
            \<and> (\<exists>e. row_error r' = Some e \<and> is_indeterminate_delivery_error_message e)))"
proof -
  have ids: "ids_ok c'" and n: "n = length (filter claimed (outbox c))"
    and tab: "table_of c' k = map_option (\<lambda>r. if claimed r
         then r\<lparr>row_status := ''dead'', row_error := Some STUCK_SENDING_ERROR_MESSAGE\<rparr> else r) (table_of c k)" for k
    using quarantine_stuck_sending_spec [OF assms] by auto
  have "\<not> claimed r" if "r \<in> set (outbox c')" for r
  proof -
    have "table_of c' (row_id r) = Some r" using that ids by (simp add: rows_Some)
    with tab [of "row_id r"] show ?thesis
      by (cases "table_of c (row_id r)") (auto simp: claimed_def split: if_splits)
  qed
  with n tab show ?thesis by (auto simp: is_indeterminate_delivery_error_message_def)
qed


section \<open>Witnesses\<close>

text \<open>A submitted send fails once and is claimed again by a worker.\<close>

definition sample_row :: "string \<Rightarrow> int \<Rightarrow> string option \<Rightarrow> outbox_row" where
  "sample_row st n e = \<lparr>row_id = 1, row_account = ''a'', row_action = ''send'', row_payload = [],
     row_status = st, row_retry = n, row_error = e\<rparr>"

definition sample_delivery :: delivery where
  "sample_delivery =
     \<lparr>store = \<lparr>faults = [], outbox = [sample_row ''sending'' 1 (Some ''timeout'')], next_rowid = 2\<rparr>,
      in_flight = [1], history = [Started 1, Failed 1, Started 1]\<rparr>"

lemma bounded_timeout: "bounded_send_error ''timeout'' = ''timeout''"
  by code_simp

lemmas run_defs = queue_offline_op_with_status_def sql_insert_def sql_update_def sql_def db_bind_def db_return_def

lemma sample_delivery_reachable: "delivery_reachable sample_externals sample_delivery"
proof -
  let ?x = sample_externals
  let ?s0 = "\<lparr>store = \<lparr>faults = [], outbox = [], next_rowid = 1\<rparr>, in_flight = [], history = []\<rparr>"
  let ?s1 = "\<lparr>store = \<lparr>faults = [], outbox = [sample_row ''sending'' 0 None], next_rowid = 2\<rparr>,
               in_flight = [1], history = [Started 1]\<rparr>"
  let ?s2 = "\<lparr>store = \<lparr>faults = [], outbox = [sample_row ''pending'' 1 (Some ''timeout'')], next_rowid = 2\<rparr>,
               in_flight = [], history = [Failed 1, Started 1]\<rparr>"
  have "delivery_step ?x ?s0 ?s1"
    using delivery_step.submit [of ?x "''a''" JNull ?s0 1 "store ?s1"]
    by (simp add: run_defs sample_row_def sample_externals_def sample_payload_def jobj_def)
  moreover have "delivery_step ?x ?s1 ?s2"
    using delivery_step.failed [of 1 ?s1 "''timeout''" "Inr Pending" "store ?s2" ?x]
    by (simp add: run_defs retry_sending_send_def sample_row_def MAX_RETRIES_def bounded_timeout)
  moreover have "delivery_step ?x ?s2 sample_delivery"
    using delivery_step.claim [of 1 1 ?s2 "store sample_delivery" ?x]
    by (simp add: run_defs claim_pending_send_def sample_row_def sample_delivery_def)
  ultimately show ?thesis by (meson delivery_reachable.intros)
qed

theorem no_duplicate_automatic_delivery_witness:
  "attempts_ok (history sample_delivery) \<and> int (starts (history sample_delivery) 1) \<le> MAX_RETRIES"
  using no_duplicate_automatic_delivery [OF sample_delivery_reachable] by blast

theorem claim_exclusive_witness: "fst (claim_pending_send 1 1 (store sample_delivery)) \<noteq> Inr True"
proof -
  have "1 \<in> set (in_flight sample_delivery)" by (simp add: sample_delivery_def)
  from claim_exclusive [OF sample_delivery_reachable this, of 1 "''a''"] show ?thesis by blast
qed

theorem restart_quarantines_witness:
  "\<exists>c'. quarantine_stuck_sending (store sample_delivery) = (Inr 1, c') \<and> \<not> (\<exists>r \<in> set (outbox c'). claimed r)"
proof -
  define c' where "c' = snd (quarantine_stuck_sending (store sample_delivery))"
  have run: "quarantine_stuck_sending (store sample_delivery) = (Inr 1, c')"
    by (simp add: c'_def quarantine_stuck_sending_def run_defs sample_delivery_def sample_row_def)
  have "ids_ok (store sample_delivery)" by (simp add: ids_ok_def sample_delivery_def sample_row_def)
  from restart_quarantines [OF this run] run show ?thesis by blast
qed

end
