(* ===== verification/Worker.thy ===== *)
theory Worker
  imports Send_Protocol
begin

text \<open>
  The per-account worker of \<^verbatim>\<open>ops/worker.rs\<close>: the batch loop, the execution of user operations
  with their fallback to the outbox, and the replay of the outbox. The mail transports, the
  folder synchronisation and the other tasks of the program are the parameter \<open>world\<close>:
  \<open>transport\<close> and \<open>transport_send\<close> answer the n-th operation handed to the executor, \<open>sync\<close>
  answers a folder synchronisation, and \<open>meanwhile\<close> is what other tasks do to the outbox while
  this one waits (before it takes the next entry, and during a delivery). Log lines are left
  out; emitted events and executed operations are recorded, newest first.
\<close>

section \<open>State\<close>

datatype worker_event =
    OfflineQueueChanged int string
  | SendStarted string int
  | SendComplete string int
  | SendUnknown string int string
  | SendFailed string int string
  | OpFailed string string

datatype WorkerExit = ChannelClosed | ShutdownRequested | InitializationFailed

record world =
  transport :: "nat \<Rightarrow> MailOp \<Rightarrow> unit result"
  transport_send :: "nat \<Rightarrow> MailOp \<Rightarrow> unit result"
  sync :: "nat \<Rightarrow> string \<Rightarrow> unit result"
  meanwhile :: "nat \<Rightarrow> conn \<Rightarrow> conn"

record worker =
  worker_account :: string
  has_executor :: bool
  worker_db :: conn
  executed :: "MailOp list"
  emitted :: "worker_event list"
  ticks :: nat

text \<open>Whether the loop over the snapshot goes on.\<close>

datatype flow = Continue | Break

section \<open>Helpers\<close>

definition AMBIGUOUS_OPERATION_ERROR_MESSAGE :: string where
  "AMBIGUOUS_OPERATION_ERROR_MESSAGE =
     ''Operation outcome may be ambiguous; automatic retry disabled to avoid duplicate effects. Verify remote state before retrying manually.''"

definition SEND_RETRY_LIMIT_ERROR_MESSAGE :: string where
  "SEND_RETRY_LIMIT_ERROR_MESSAGE =
     ''Automatic send retry limit reached; retry manually after reviewing the last failure.''"

definition automatic_retry_allowed :: "bool \<Rightarrow> error \<Rightarrow> bool" where
  "automatic_retry_allowed statically_retry_safe e \<longleftrightarrow> statically_retry_safe \<and> \<not> is_indeterminate_delivery e"

definition automatic_retry_disabled_message :: "error \<Rightarrow> string" where
  "automatic_retry_disabled_message e =
     (if is_indeterminate_delivery e then INDETERMINATE_DELIVERY_ERROR_MESSAGE
      else AMBIGUOUS_OPERATION_ERROR_MESSAGE)"

definition outbox_subject :: "externals \<Rightarrow> string \<Rightarrow> string" where
  "outbox_subject x payload_json =
     (case Option.bind (json_parse x payload_json) (\<lambda>v. Option.bind (jget ''subject'' v) as_str) of
        None \<Rightarrow> [] | Some s \<Rightarrow> s)"

definition missing_executor_error :: "string \<Rightarrow> error" where
  "missing_executor_error account_id = Other (''Account '' @ account_id @ '' has no enabled mail binding'')"

definition send_unknown_events_allowed :: "bool result \<Rightarrow> bool" where
  "send_unknown_events_allowed transition \<longleftrightarrow> transition = Inr True"

definition emit :: "worker_event \<Rightarrow> worker \<Rightarrow> worker" where
  "emit e w = w\<lparr>emitted := e # emitted w\<rparr>"

definition on_db :: "'a db \<Rightarrow> worker \<Rightarrow> 'a result \<times> worker" where
  "on_db m w = (case m (worker_db w) of (r, c) \<Rightarrow> (r, w\<lparr>worker_db := c\<rparr>))"

definition wait :: "world \<Rightarrow> worker \<Rightarrow> worker" where
  "wait env w = w\<lparr>worker_db := meanwhile env (ticks w) (worker_db w), ticks := Suc (ticks w)\<rparr>"

definition execute_op :: "world \<Rightarrow> MailOp \<Rightarrow> worker \<Rightarrow> unit result \<times> worker" where
  "execute_op env m w =
     (if has_executor w
      then (transport env (length (executed w)) m, w\<lparr>executed := m # executed w\<rparr>)
      else (Inl (missing_executor_error (worker_account w)), w))"

definition execute_replayed_send :: "world \<Rightarrow> MailOp \<Rightarrow> worker \<Rightarrow> unit result \<times> worker" where
  "execute_replayed_send env m w =
     (if has_executor w
      then (transport_send env (length (executed w)) m, w\<lparr>executed := m # executed w\<rparr>)
      else (Inl (missing_executor_error (worker_account w)), w))"

section \<open>Replay of one entry\<close>

definition queue_changed :: "OutboxEntry \<Rightarrow> worker \<Rightarrow> worker" where
  "queue_changed entry = emit (OfflineQueueChanged (entry_id entry) (entry_action_type entry))"

text \<open>An entry that has used up its retries.\<close>

definition replay_exhausted :: "OutboxEntry \<Rightarrow> worker \<Rightarrow> flow \<times> worker" where
  "replay_exhausted entry w =
     (if entry_action_type entry = ''send''
      then (case on_db (exhaust_pending_send (entry_id entry) SEND_RETRY_LIMIT_ERROR_MESSAGE) w of
              (Inr True, w) \<Rightarrow> (Continue, queue_changed entry w)
            | (Inr False, w) \<Rightarrow> (Continue, w)
            | (Inl e, w) \<Rightarrow> (Break, w))
      else (case on_db (mark_dead (entry_id entry)) w of
              (_, w) \<Rightarrow> (Continue, queue_changed entry w)))"

text \<open>An entry whose payload does not decode.\<close>

definition replay_invalid :: "OutboxEntry \<Rightarrow> worker \<Rightarrow> flow \<times> worker" where
  "replay_invalid entry w =
     (let err = ''Invalid or unsupported offline '' @ entry_action_type entry @ '' payload''
      in if entry_action_type entry = ''send''
         then (case on_db (quarantine_pending_send (entry_id entry) err) w of
                 (Inr True, w) \<Rightarrow> (Continue, queue_changed entry w)
               | (Inr False, w) \<Rightarrow> (Continue, w)
               | (Inl e, w) \<Rightarrow> (Break, w))
         else (case on_db (mark_dead_with_error (entry_id entry) err) w of
                 (Inl e, w) \<Rightarrow> (Break, w)
               | (Inr _, w) \<Rightarrow> (Continue, queue_changed entry w)))"

text \<open>What is recorded of a delivery attempt.\<close>

definition finish_send :: "externals \<Rightarrow> OutboxEntry \<Rightarrow> bool \<Rightarrow> unit result \<Rightarrow> worker \<Rightarrow> flow \<times> worker" where
  "finish_send x entry statically_retry_safe outcome w =
     (let subject = outbox_subject x (entry_payload_json entry) in
      case outcome of
        Inr _ \<Rightarrow>
          (case on_db (complete_sending_send (entry_id entry)) w of
             (Inr True, w) \<Rightarrow> (Continue, emit (SendComplete subject (entry_id entry)) w)
           | (Inr False, w) \<Rightarrow> (Break, w)
           | (Inl e, w) \<Rightarrow> (Break, w))
      | Inl e \<Rightarrow>
          if \<not> automatic_retry_allowed statically_retry_safe e
          then (let err = automatic_retry_disabled_message e in
                case on_db (quarantine_sending_send (entry_id entry) err) w of
                  (quarantine, w) \<Rightarrow>
                    if send_unknown_events_allowed quarantine
                    then (Continue, queue_changed entry (emit (SendUnknown subject (entry_id entry) err) w))
                    else (Break, w))
          else (case on_db (retry_sending_send (entry_id entry) (error_to_string e)) w of
                  (Inr Pending, w) \<Rightarrow> (Continue, emit (SendFailed subject (entry_id entry) (error_to_string e)) w)
                | (Inr Dead, w) \<Rightarrow>
                    (Continue, queue_changed entry (emit (SendFailed subject (entry_id entry) (error_to_string e)) w))
                | (Inr MissingClaim, w) \<Rightarrow> (Break, w)
                | (Inl _, w) \<Rightarrow> (Break, w)))"

definition replay_send :: "externals \<Rightarrow> world \<Rightarrow> OutboxEntry \<Rightarrow> MailOp \<Rightarrow> worker \<Rightarrow> flow \<times> worker" where
  "replay_send x env entry m w =
     (case on_db (claim_pending_send (entry_id entry) (entry_retry_count entry)) w of
        (Inr True, w) \<Rightarrow>
          (case execute_replayed_send env m
                  (emit (SendStarted (outbox_subject x (entry_payload_json entry)) (entry_id entry)) w) of
             (outcome, w) \<Rightarrow> finish_send x entry (can_retry_after_execution_failure m) outcome (wait env w))
      | (Inr False, w) \<Rightarrow> (Continue, w)
      | (Inl e, w) \<Rightarrow> (Break, w))"

definition replay_other :: "world \<Rightarrow> OutboxEntry \<Rightarrow> MailOp \<Rightarrow> worker \<Rightarrow> flow \<times> worker" where
  "replay_other env entry m w =
     (case execute_op env m w of
        (Inr _, w) \<Rightarrow> (Continue, snd (on_db (mark_completed (entry_id entry)) (wait env w)))
      | (Inl e, w) \<Rightarrow>
          if \<not> automatic_retry_allowed (can_retry_after_execution_failure m) e
          then (case on_db (mark_dead_with_error (entry_id entry) (automatic_retry_disabled_message e)) (wait env w) of
                  (Inl _, w) \<Rightarrow> (Break, w)
                | (Inr _, w) \<Rightarrow> (Continue, queue_changed entry w))
          else (Break, snd (on_db (mark_failed (entry_id entry) (error_to_string e)) (wait env w))))"

definition replay_entry :: "externals \<Rightarrow> world \<Rightarrow> OutboxEntry \<Rightarrow> worker \<Rightarrow> flow \<times> worker" where
  "replay_entry x env entry w =
     (if is_dead entry then replay_exhausted entry w
      else (case outbox_to_mail_op x entry of
              None \<Rightarrow> replay_invalid entry w
            | Some m \<Rightarrow>
                if entry_action_type entry = ''send'' then replay_send x env entry m w
                else replay_other env entry m w))"

fun replay_loop :: "externals \<Rightarrow> world \<Rightarrow> OutboxEntry list \<Rightarrow> worker \<Rightarrow> worker" where
  "replay_loop x env [] w = w"
| "replay_loop x env (entry # rest) w =
     (case replay_entry x env entry (wait env w) of
        (Continue, w) \<Rightarrow> replay_loop x env rest w
      | (Break, w) \<Rightarrow> w)"

definition replay_offline_ops :: "externals \<Rightarrow> world \<Rightarrow> worker \<Rightarrow> worker" where
  "replay_offline_ops x env w =
     (case on_db (get_pending_ops (worker_account w)) w of
        (Inl e, w) \<Rightarrow> w
      | (Inr pending, w) \<Rightarrow> replay_loop x env pending w)"

section \<open>User operations\<close>

definition preflight :: "externals \<Rightarrow> MailOp \<Rightarrow> worker \<Rightarrow> unit result \<times> worker" where
  "preflight x m w =
     (case m of
        SetFlags mutations \<Rightarrow> on_db (supersede_pending_flag_ops x (worker_account w) mutations) w
      | DeleteMessages refs \<Rightarrow> on_db (supersede_pending_flags_for_delete x (worker_account w) refs) w
      | _ \<Rightarrow> (Inr (), w))"

definition emit_op_failed :: "string \<Rightarrow> string \<Rightarrow> worker \<Rightarrow> worker" where
  "emit_op_failed op_type err = emit (OpFailed op_type err)"

text \<open>The fallback of a failed operation: a pending row, or a dead one when a retry could
  repeat its effect.\<close>

definition queue_failed_op :: "externals \<Rightarrow> bool \<Rightarrow> string \<Rightarrow> json \<Rightarrow> error \<Rightarrow> worker \<Rightarrow> worker" where
  "queue_failed_op x statically_retry_safe action_type payload e w =
     (let retry_safe = automatic_retry_allowed statically_retry_safe e;
          err = (if retry_safe then error_to_string e @ '' (will retry)'' else automatic_retry_disabled_message e);
          queue = (if retry_safe then queue_offline_op x (worker_account w) action_type payload
                   else queue_dead_op x (worker_account w) action_type payload err)
      in case on_db queue w of
           (Inr i, w) \<Rightarrow>
             emit_op_failed action_type err
               (if retry_safe then w else emit (OfflineQueueChanged i action_type) w)
         | (Inl _, w) \<Rightarrow> emit_op_failed action_type (error_to_string e) w)"

definition execute_user_op :: "externals \<Rightarrow> world \<Rightarrow> MailOp \<Rightarrow> worker \<Rightarrow> unit result \<times> worker" where
  "execute_user_op x env m w =
     (case (case preflight x m w of
              (Inr _, w) \<Rightarrow> (case execute_op env m w of (r, w) \<Rightarrow> (r, wait env w))
            | (Inl e, w) \<Rightarrow> (Inl e, w)) of
        (Inr _, w) \<Rightarrow> (Inr (), w)
      | (Inl e, w) \<Rightarrow>
          (Inl e,
           case mail_op_to_outbox x m of
             None \<Rightarrow> w
           | Some (action_type, payload) \<Rightarrow>
               queue_failed_op x (can_retry_after_execution_failure m) action_type payload e w))"

text \<open>Folder synchronisation belongs to the backends; its answer is a parameter.\<close>

fun execute :: "externals \<Rightarrow> world \<Rightarrow> MailOp \<Rightarrow> worker \<Rightarrow> unit result \<times> worker" where
  "execute x env (SyncFolder folder_path) w = (sync env (ticks w) folder_path, wait env w)"
| "execute x env ReplayOffline w = (Inr (), w)"
| "execute x env m w = execute_user_op x env m w"

section \<open>The loop\<close>

text \<open>One batch: the operations in order, then a replay when a synchronisation succeeded or one
  was asked for.\<close>

fun run_ops :: "externals \<Rightarrow> world \<Rightarrow> OpEntry list \<Rightarrow> bool \<times> bool \<times> worker \<Rightarrow> bool \<times> bool \<times> worker" where
  "run_ops x env [] st = st"
| "run_ops x env (entry # rest) (sync_succeeded, replay_requested, w) =
     (if is_replay (op entry) then run_ops x env rest (sync_succeeded, True, w)
      else (case execute x env (op entry) w of
              (Inr _, w) \<Rightarrow> run_ops x env rest (sync_succeeded \<or> is_sync (op entry), replay_requested, w)
            | (Inl e, w) \<Rightarrow> run_ops x env rest (sync_succeeded, replay_requested, w)))"

definition run_batch :: "externals \<Rightarrow> world \<Rightarrow> OpEntry list \<Rightarrow> worker \<Rightarrow> worker" where
  "run_batch x env batch w =
     (case run_ops x env (coalesce batch) (False, False, w) of
        (sync_succeeded, replay_requested, w) \<Rightarrow>
          if sync_succeeded \<or> replay_requested then replay_offline_ops x env w else w)"

text \<open>
  The channel as the sequence of batches the loop drains from it until it is closed and empty.
  Cancellation closes the channel and lets the loop drain what is queued, so it decides the
  exit reason only; before initialisation it ends the run.
\<close>

definition run :: "externals \<Rightarrow> world \<Rightarrow> bool \<Rightarrow> unit result option \<Rightarrow> bool \<Rightarrow> OpEntry list list \<Rightarrow> worker
    \<Rightarrow> WorkerExit \<times> (string + unit) \<times> worker" where
  "run x env cancelled init_result shutdown_requested batches w =
     (if cancelled then (ShutdownRequested, Inl ''worker shutdown was requested'', w)
      else (case init_result of
              None \<Rightarrow> (ShutdownRequested, Inl ''worker shutdown was requested'', w)
            | Some (Inl e) \<Rightarrow>
                (InitializationFailed, Inl (error_to_string e),
                 emit_op_failed ''worker_init'' (''Worker failed to initialize: '' @ error_to_string e) w)
            | Some (Inr _) \<Rightarrow>
                (if shutdown_requested then ShutdownRequested else ChannelClosed, Inr (),
                 fold (run_batch x env) batches w)))"


section \<open>The replay follows the delivery protocol\<close>

text \<open>
  Other tasks are \<open>calm\<close> when what they do is a run of the protocol that keeps the deliveries
  in flight.
\<close>

definition calm :: "externals \<Rightarrow> world \<Rightarrow> bool" where
  "calm x env \<longleftrightarrow>
     (\<forall>k s. delivery_reachable x s \<longrightarrow>
        (\<exists>t. delivery_reachable x t \<and> store t = meanwhile env k (store s)
           \<and> set (in_flight s) \<subseteq> set (in_flight t)
           \<and> (\<forall>i. count_list (history s) (Started i) \<le> count_list (history t) (Started i))))"

text \<open>Deliveries of a row this worker has announced.\<close>

fun announces :: "int \<Rightarrow> worker_event \<Rightarrow> bool" where
  "announces i (SendStarted _ j) \<longleftrightarrow> j = i"
| "announces i _ \<longleftrightarrow> False"

definition announced :: "worker \<Rightarrow> int \<Rightarrow> nat" where
  "announced w i = length (filter (announces i) (emitted w))"

definition tracks :: "externals \<Rightarrow> delivery \<Rightarrow> worker \<Rightarrow> bool" where
  "tracks x s w \<longleftrightarrow> delivery_reachable x s \<and> store s = worker_db w"

text \<open>Every delivery announced on the way from \<open>w\<close> to \<open>w'\<close> is a start of the protocol.\<close>

definition accounted :: "delivery \<Rightarrow> worker \<Rightarrow> delivery \<Rightarrow> worker \<Rightarrow> bool" where
  "accounted s w t w' \<longleftrightarrow>
     (\<forall>i. announced w' i + count_list (history s) (Started i) \<le> announced w i + count_list (history t) (Started i))"

lemma accounted_refl [simp]: "accounted s w s w"
  by (simp add: accounted_def)

lemma accounted_trans:
  assumes "accounted s w t w'" and "accounted t w' u w''"
  shows "accounted s w u w''"
  unfolding accounted_def
proof
  fix i
  show "announced w'' i + count_list (history s) (Started i) \<le> announced w i + count_list (history u) (Started i)"
    using assms [unfolded accounted_def, THEN spec, of i] by linarith
qed

lemma emit_simps [simp]:
  "worker_db (emit e w) = worker_db w" "worker_account (emit e w) = worker_account w"
  "worker_db (queue_changed entry w) = worker_db w" "worker_account (queue_changed entry w) = worker_account w"
  "announced (emit e w) i = (if announces i e then Suc (announced w i) else announced w i)"
  "announced (queue_changed entry w) i = announced w i"
  by (simp_all add: emit_def queue_changed_def announced_def)

lemma announced_db [simp]: "announced (w\<lparr>worker_db := c\<rparr>) i = announced w i"
  by (simp add: announced_def)

lemma tracks_emit [simp]: "tracks x s (emit e w) = tracks x s w" "tracks x s (queue_changed entry w) = tracks x s w"
  by (simp_all add: tracks_def)

lemma tracks_housekeeping:
  assumes "tracks x s w" and "on_db m w = (r, w')" and "\<And>c. snd (m c) = run_housekeeping x h c"
  obtains t where "tracks x t w'" "accounted s w t w'"
proof
  let ?t = "s\<lparr>store := run_housekeeping x h (store s)\<rparr>"
  have w': "w' = w\<lparr>worker_db := snd (m (worker_db w))\<rparr>"
    using assms(2) by (auto simp: on_db_def split: prod.splits)
  show "tracks x ?t w'"
    using assms(1) w' assms(3) delivery_reachable.step [OF _ delivery_step.housekeeping, of x s h] by (simp add: tracks_def)
  show "accounted s w ?t w'" using w' by (simp add: accounted_def)
qed

lemma tracks_wait:
  assumes "calm x env" and "tracks x s w"
  obtains t where "tracks x t (wait env w)" "accounted s w t (wait env w)"
    "set (in_flight s) \<subseteq> set (in_flight t)"
proof -
  obtain t where t: "delivery_reachable x t" "store t = meanwhile env (ticks w) (store s)"
    "set (in_flight s) \<subseteq> set (in_flight t)"
    "\<forall>i. count_list (history s) (Started i) \<le> count_list (history t) (Started i)"
    using assms unfolding calm_def tracks_def by blast
  show ?thesis
  proof (rule that [of t])
    show "tracks x t (wait env w)" using t assms(2) by (simp add: tracks_def wait_def)
    show "accounted s w t (wait env w)" using t(4) by (simp add: accounted_def wait_def announced_def)
  qed (fact t(3))
qed

lemma replay_exhausted_tracks:
  assumes "tracks x s w" and "replay_exhausted entry w = (fl, w')"
  shows "\<exists>t. tracks x t w' \<and> accounted s w t w'"
proof (cases "entry_action_type entry = ''send''")
  case True
  obtain r v where rv: "on_db (exhaust_pending_send (entry_id entry) SEND_RETRY_LIMIT_ERROR_MESSAGE) w = (r, v)" by fastforce
  then obtain t where t: "tracks x t v" "accounted s w t v"
    by (rule tracks_housekeeping [OF assms(1), where h = "ExhaustPending (entry_id entry) SEND_RETRY_LIMIT_ERROR_MESSAGE"]) simp_all
  have "w' = v \<or> w' = queue_changed entry v"
    using assms(2) True rv by (auto simp: replay_exhausted_def split: sum.splits bool.splits)
  with t show ?thesis by (auto simp: accounted_def)
next
  case False
  obtain r v where rv: "on_db (mark_dead (entry_id entry)) w = (r, v)" by fastforce
  then obtain t where t: "tracks x t v" "accounted s w t v"
    by (rule tracks_housekeeping [OF assms(1), where h = "MarkDead (entry_id entry)"]) simp_all
  have "w' = queue_changed entry v"
    using assms(2) False rv by (auto simp: replay_exhausted_def)
  with t show ?thesis by (auto simp: accounted_def)
qed

lemma replay_invalid_tracks:
  assumes "tracks x s w" and "replay_invalid entry w = (fl, w')"
  shows "\<exists>t. tracks x t w' \<and> accounted s w t w'"
proof -
  let ?err = "''Invalid or unsupported offline '' @ entry_action_type entry @ '' payload''"
  show ?thesis
  proof (cases "entry_action_type entry = ''send''")
    case True
    obtain r v where rv: "on_db (quarantine_pending_send (entry_id entry) ?err) w = (r, v)" by fastforce
    then obtain t where t: "tracks x t v" "accounted s w t v"
      by (rule tracks_housekeeping [OF assms(1), where h = "QuarantinePending (entry_id entry) ?err"]) simp_all
    have "w' = v \<or> w' = queue_changed entry v"
      using assms(2) True rv by (auto simp: replay_invalid_def split: sum.splits bool.splits)
    with t show ?thesis by (auto simp: accounted_def)
  next
    case False
    obtain r v where rv: "on_db (mark_dead_with_error (entry_id entry) ?err) w = (r, v)" by fastforce
    then obtain t where t: "tracks x t v" "accounted s w t v"
      by (rule tracks_housekeeping [OF assms(1), where h = "MarkDeadError (entry_id entry) ?err"]) simp_all
    have "w' = v \<or> w' = queue_changed entry v"
      using assms(2) False rv by (auto simp: replay_invalid_def split: sum.splits)
    with t show ?thesis by (auto simp: accounted_def)
  qed
qed


text \<open>The claim is the start of a delivery; its loss changes nothing the protocol counts.\<close>

lemma claim_tracks:
  assumes "tracks x s w" and "on_db (claim_pending_send i n) w = (r, w')"
  shows "if r = Inr True
     then \<exists>t. tracks x t (emit (SendStarted sub i) w') \<and> accounted s w t (emit (SendStarted sub i) w')
            \<and> i \<in> set (in_flight t)
     else \<exists>t. tracks x t w' \<and> accounted s w t w'"
proof -
  obtain c where c: "claim_pending_send i n (store s) = (r, c)" and w': "w' = w\<lparr>worker_db := c\<rparr>"
    using assms by (auto simp: on_db_def tracks_def split: prod.splits)
  have reach: "delivery_reachable x s" using assms(1) by (simp add: tracks_def)
  show ?thesis
  proof (cases "r = Inr True")
    case True
    let ?t = "s\<lparr>store := c, in_flight := i # in_flight s, history := Started i # history s\<rparr>"
    have "delivery_reachable x ?t"
      using delivery_reachable.step [OF reach delivery_step.claim] c True by blast
    then have "tracks x ?t (emit (SendStarted sub i) w') \<and> accounted s w ?t (emit (SendStarted sub i) w')
        \<and> i \<in> set (in_flight ?t)"
      using w' by (simp add: tracks_def accounted_def)
    then show ?thesis unfolding if_P [OF True] by blast
  next
    case False
    have "delivery_reachable x (s\<lparr>store := c\<rparr>)"
      using delivery_reachable.step [OF reach delivery_step.claim_lost] c False by blast
    then have "tracks x (s\<lparr>store := c\<rparr>) w' \<and> accounted s w (s\<lparr>store := c\<rparr>) w'"
      using w' by (simp add: tracks_def accounted_def)
    then show ?thesis unfolding if_not_P [OF False] by blast
  qed
qed

lemma execute_replayed_send_simps:
  assumes "execute_replayed_send env m w = (r, w')"
  shows "tracks x s w' = tracks x s w" "announced w' i = announced w i" "ticks w' = ticks w" "worker_account w' = worker_account w"
  using assms by (auto simp: execute_replayed_send_def tracks_def announced_def split: if_splits)

lemma execute_op_simps:
  assumes "execute_op env m w = (r, w')"
  shows "tracks x s w' = tracks x s w" "announced w' i = announced w i" "ticks w' = ticks w" "worker_account w' = worker_account w"
  using assms by (auto simp: execute_op_def tracks_def announced_def split: if_splits)

text \<open>Recording an outcome releases the claim.\<close>

lemma outcome_tracks:
  assumes "tracks x s w" and "on_db m w = (r, w')" and "ev \<in> {Delivered i, Unknown i, Failed i}"
    and "\<And>c. m (store s) = (r, c) \<Longrightarrow>
           delivery_step x s (s\<lparr>store := c, in_flight := remove1 i (in_flight s), history := ev # history s\<rparr>)"
  shows "\<exists>t. tracks x t w' \<and> accounted s w t w'"
proof -
  obtain c where c: "m (store s) = (r, c)" and w': "w' = w\<lparr>worker_db := c\<rparr>"
    using assms(1,2) by (auto simp: on_db_def tracks_def split: prod.splits)
  let ?t = "s\<lparr>store := c, in_flight := remove1 i (in_flight s), history := ev # history s\<rparr>"
  have "delivery_reachable x ?t"
    using assms(1) delivery_reachable.step [OF _ assms(4) [OF c]] by (simp add: tracks_def)
  then have "tracks x ?t w' \<and> accounted s w ?t w'"
    using w' assms(3) by (auto simp: tracks_def accounted_def)
  then show ?thesis by blast
qed

lemma accounted_events [simp]:
  "accounted s w t (queue_changed entry w') = accounted s w t w'"
  "\<not> (\<exists>sub i. ev = SendStarted sub i) \<Longrightarrow> accounted s w t (emit ev w') = accounted s w t w'"
  by (simp add: accounted_def) (cases ev; simp add: accounted_def)

lemma finish_send_tracks:
  assumes "tracks x s w" and "entry_id entry \<in> set (in_flight s)"
    and "finish_send x entry safe outcome w = (fl, w')"
  shows "\<exists>t. tracks x t w' \<and> accounted s w t w'"
proof -
  let ?i = "entry_id entry"
  have complete: "\<exists>t. tracks x t v \<and> accounted s w t v" if "on_db (complete_sending_send ?i) w = (r, v)" for r v
    using assms(2) by (intro outcome_tracks [OF assms(1) that, where ev = "Delivered ?i"]) (auto intro: delivery_step.delivered)
  have quarantine: "\<exists>t. tracks x t v \<and> accounted s w t v" if "on_db (quarantine_sending_send ?i err) w = (r, v)" for r v err
    using assms(2) by (intro outcome_tracks [OF assms(1) that, where ev = "Unknown ?i"]) (auto intro: delivery_step.unknown)
  have retry: "\<exists>t. tracks x t v \<and> accounted s w t v" if "on_db (retry_sending_send ?i err) w = (r, v)" for r v err
    using assms(2) by (intro outcome_tracks [OF assms(1) that, where ev = "Failed ?i"]) (auto intro: delivery_step.failed)
  show ?thesis
  proof (cases outcome)
    case (Inr u)
    with assms(3) complete show ?thesis
      by (auto simp: finish_send_def Let_def split: prod.splits sum.splits bool.splits)
  next
    case (Inl e)
    with assms(3) quarantine retry show ?thesis
      by (auto simp: finish_send_def Let_def split: prod.splits sum.splits bool.splits if_splits SendRetryDisposition.splits)
  qed
qed


lemma replay_send_tracks:
  assumes "calm x env" and "tracks x s w" and "replay_send x env entry m w = (fl, w')"
  shows "\<exists>t. tracks x t w' \<and> accounted s w t w'"
proof -
  obtain r v where rv: "on_db (claim_pending_send (entry_id entry) (entry_retry_count entry)) w = (r, v)" by fastforce
  let ?sub = "outbox_subject x (entry_payload_json entry)"
  note claim = claim_tracks [OF assms(2) rv, of ?sub]
  show ?thesis
  proof (cases "r = Inr True")
    case False
    then have "w' = v"
      using assms(3) rv by (auto simp: replay_send_def split: sum.splits bool.splits)
    with claim False show ?thesis by simp
  next
    case True
    let ?v = "emit (SendStarted ?sub (entry_id entry)) v"
    obtain t where t: "tracks x t ?v" "accounted s w t ?v" "entry_id entry \<in> set (in_flight t)"
      using claim unfolding if_P [OF True] by blast
    obtain outcome u where ou: "execute_replayed_send env m ?v = (outcome, u)" by fastforce
    have "tracks x t u" using t(1) execute_replayed_send_simps(1) [OF ou] by simp
    then obtain t2 where t2: "tracks x t2 (wait env u)" "accounted t u t2 (wait env u)"
      "set (in_flight t) \<subseteq> set (in_flight t2)" using tracks_wait [OF assms(1)] by blast
    have fin: "finish_send x entry (can_retry_after_execution_failure m) outcome (wait env u) = (fl, w')"
      using assms(3) rv True ou by (simp add: replay_send_def)
    from t(3) t2(3) have "entry_id entry \<in> set (in_flight t2)" by blast
    from finish_send_tracks [OF t2(1) this fin] obtain t3 where t3: "tracks x t3 w'" "accounted t2 (wait env u) t3 w'"
      by blast
    have "accounted s w t u" using t(2) execute_replayed_send_simps(2) [OF ou] by (simp add: accounted_def)
    with t2(2) t3 show ?thesis using accounted_trans by blast
  qed
qed

lemma replay_other_tracks:
  assumes "calm x env" and "tracks x s w" and "replay_other env entry m w = (fl, w')"
  shows "\<exists>t. tracks x t w' \<and> accounted s w t w'"
proof -
  let ?i = "entry_id entry"
  obtain r u where ru: "execute_op env m w = (r, u)" by fastforce
  have su: "tracks x s u" "accounted s w s u"
    using assms(2) execute_op_simps [OF ru] by (simp_all add: accounted_def)
  obtain t where t0: "tracks x t (wait env u)" "accounted s u t (wait env u)"
    by (rule tracks_wait [OF assms(1) su(1)])
  note t = t0(1) accounted_trans [OF su(2) t0(2)]
  have settle: "\<exists>t. tracks x t v \<and> accounted s w t v"
    if run: "on_db q (wait env u) = (res, v)" and hk: "\<And>c. snd (q c) = run_housekeeping x h c"
    for q :: "unit db" and res v h
  proof -
    obtain t' where t': "tracks x t' v" "accounted t (wait env u) t' v"
      by (rule tracks_housekeeping [OF t(1) run hk])
    with accounted_trans [OF t(2) t'(2)] show ?thesis by blast
  qed
  have completed: "\<exists>t. tracks x t v \<and> accounted s w t v" if "on_db (mark_completed ?i) (wait env u) = (res, v)" for res v
    by (rule settle [OF that, of "MarkCompleted ?i"]) simp
  have failed: "\<exists>t. tracks x t v \<and> accounted s w t v" if "on_db (mark_failed ?i err) (wait env u) = (res, v)" for res v err
    by (rule settle [OF that, of "MarkFailed ?i err"]) simp
  have dead: "\<exists>t. tracks x t v \<and> accounted s w t v" if "on_db (mark_dead_with_error ?i err) (wait env u) = (res, v)" for res v err
    by (rule settle [OF that, of "MarkDeadError ?i err"]) simp
  show ?thesis
  proof (cases r)
    case (Inr k)
    obtain res v where rv: "on_db (mark_completed ?i) (wait env u) = (res, v)" by fastforce
    with assms(3) ru Inr have "w' = v" by (auto simp: replay_other_def)
    with completed [OF rv] show ?thesis by simp
  next
    case (Inl e)
    show ?thesis
    proof (cases "automatic_retry_allowed (can_retry_after_execution_failure m) e")
      case True
      obtain res v where rv: "on_db (mark_failed ?i (error_to_string e)) (wait env u) = (res, v)" by fastforce
      with assms(3) ru Inl True have "w' = v" by (auto simp: replay_other_def)
      with failed [OF rv] show ?thesis by simp
    next
      case False
      obtain res v where rv: "on_db (mark_dead_with_error ?i (automatic_retry_disabled_message e)) (wait env u) = (res, v)" by fastforce
      with assms(3) ru Inl False have "w' = v \<or> w' = queue_changed entry v"
        by (auto simp: replay_other_def split: sum.splits)
      with dead [OF rv] show ?thesis by auto
    qed
  qed
qed

lemma replay_loop_tracks:
  "calm x env \<Longrightarrow> tracks x s w \<Longrightarrow> \<exists>t. tracks x t (replay_loop x env es w) \<and> accounted s w t (replay_loop x env es w)"
proof (induction es arbitrary: s w)
  case Nil
  then show ?case by (auto intro: exI [of _ s])
next
  case (Cons e es)
  obtain t where t: "tracks x t (wait env w)" "accounted s w t (wait env w)"
    using tracks_wait [OF Cons.prems] by blast
  obtain fl v where fv: "replay_entry x env e (wait env w) = (fl, v)" by fastforce
  have "\<exists>u. tracks x u v \<and> accounted t (wait env w) u v"
    using fv replay_exhausted_tracks [OF t(1)] replay_invalid_tracks [OF t(1)]
      replay_send_tracks [OF Cons.prems(1) t(1)] replay_other_tracks [OF Cons.prems(1) t(1)]
    by (auto simp: replay_entry_def split: if_splits option.splits)
  then obtain u where u: "tracks x u v" "accounted s w u v" using t(2) accounted_trans by blast
  with fv Cons.IH [OF Cons.prems(1) u(1)] show ?case
    by (cases fl) (auto intro: accounted_trans)
qed


lemma get_pending_ops_tracks:
  assumes "tracks x s w" and "on_db (get_pending_ops a) w = (r, w')"
  shows "\<exists>t. tracks x t w' \<and> accounted s w t w'"
proof -
  obtain c where c: "get_pending_ops a (worker_db w) = (r, c)" and w': "w' = w\<lparr>worker_db := c\<rparr>"
    using assms(2) by (auto simp: on_db_def split: prod.splits)
  have "same_table c (worker_db w)"
    using c get_pending_ops_ok(2) get_pending_ops_error by (cases r) auto
  then have eq: "c = (worker_db w)\<lparr>faults := faults c\<rparr>" by (simp add: same_table_def)
  let ?t = "s\<lparr>store := (store s)\<lparr>faults := faults c\<rparr>\<rparr>"
  have "delivery_reachable x ?t"
    by (rule delivery_reachable.fault) (use assms(1) in \<open>simp add: tracks_def\<close>)
  moreover have "store ?t = c" using eq assms(1) by (simp add: tracks_def)
  ultimately have "tracks x ?t w' \<and> accounted s w ?t w'" using w' by (simp add: tracks_def accounted_def)
  then show ?thesis by blast
qed

section \<open>Properties\<close>



subsection \<open>Failed operations\<close>

lemma on_db_worker: "on_db m w = (r, w') \<Longrightarrow> worker_account w' = worker_account w \<and> emitted w' = emitted w"
  by (auto simp: on_db_def split: prod.splits)

lemma preflight_account: "preflight x m w = (r, w') \<Longrightarrow> worker_account w' = worker_account w"
  by (cases m) (auto simp: preflight_def dest: on_db_worker)

lemma inserted_row: "sql_insert mk c = (Inr i, c') \<Longrightarrow> mk i \<in> set (outbox c')"
  by (auto simp: sql_insert_def elim!: sql_cases)

definition queued_as :: "externals \<Rightarrow> string \<Rightarrow> string \<Rightarrow> json \<Rightarrow> string \<Rightarrow> outbox_row \<Rightarrow> bool" where
  "queued_as x account_id kind payload st r \<longleftrightarrow>
     row_account r = account_id \<and> row_action r = kind \<and> row_payload r = json_text x payload
   \<and> row_status r = st \<and> row_retry r = 0"

lemma queue_inserts:
  "queue_offline_op x a kind payload c = (Inr i, c') \<Longrightarrow> \<exists>r \<in> set (outbox c'). queued_as x a kind payload ''pending'' r"
  "queue_dead_op x a kind payload err c = (Inr i, c') \<Longrightarrow> \<exists>r \<in> set (outbox c'). queued_as x a kind payload ''dead'' r"
  by (force simp: queue_offline_op_def queue_offline_op_with_status_def queue_dead_op_def queued_as_def dest!: inserted_row)+

lemma queue_failed_op_keeps:
  assumes w'_def: "w' = queue_failed_op x safe kind payload e w"
  shows "(\<exists>r \<in> set (outbox (worker_db w')). queued_as x (worker_account w) kind payload
            (if automatic_retry_allowed safe e then ''pending'' else ''dead'') r)
           \<and> (\<exists>txt. hd (emitted w') = OpFailed kind txt)
       \<or> hd (emitted w') = OpFailed kind (error_to_string e)"
proof -
  define q where "q = (if automatic_retry_allowed safe e then queue_offline_op x (worker_account w) kind payload
      else queue_dead_op x (worker_account w) kind payload (automatic_retry_disabled_message e))"
  obtain r c where run: "q (worker_db w) = (r, c)" by fastforce
  then have db: "on_db q w = (r, w\<lparr>worker_db := c\<rparr>)" by (simp add: on_db_def)
  show ?thesis
  proof (cases r)
    case (Inl err)
    with db have "w' = emit_op_failed kind (error_to_string e) (w\<lparr>worker_db := c\<rparr>)"
      unfolding w'_def q_def by (cases "automatic_retry_allowed safe e") (simp_all add: queue_failed_op_def Let_def)
    then show ?thesis by (simp add: emit_op_failed_def emit_def)
  next
    case (Inr i)
    have row: "\<exists>row \<in> set (outbox c). queued_as x (worker_account w) kind payload
            (if automatic_retry_allowed safe e then ''pending'' else ''dead'') row"
      using run Inr queue_inserts unfolding q_def by (auto split: if_splits)
    from db Inr have "\<exists>txt v. w' = emit_op_failed kind txt v \<and> worker_db v = c"
      unfolding w'_def q_def
      by (cases "automatic_retry_allowed safe e") (fastforce simp: queue_failed_op_def Let_def emit_def)+
    with row show ?thesis by (auto simp: emit_op_failed_def emit_def)
  qed
qed


text \<open>An operation whose repetition could repeat its effect is not replayed again after a
  failure: once the failure is recorded, its row is dead.\<close>

theorem ambiguous_op_not_retried:
  assumes "execute_op env m w = (Inl e, u)"
    and "\<not> automatic_retry_allowed (can_retry_after_execution_failure m) e"
    and "replay_other env entry m w = (Continue, w')"
    and "ids_ok (worker_db (wait env u))"
    and "table_of (worker_db w') (entry_id entry) = Some r" and "row_action r \<noteq> ''send''"
  shows "row_status r = ''dead'' \<and> row_error r = Some (automatic_retry_disabled_message e)"
proof -
  let ?i = "entry_id entry" and ?err = "automatic_retry_disabled_message e"
  obtain res v where rv: "on_db (mark_dead_with_error ?i ?err) (wait env u) = (res, v)" by fastforce
  then have res: "res = Inr ()" and w': "worker_db w' = worker_db v"
    using assms(1,2,3) by (auto simp: replay_other_def split: sum.splits)
  obtain rs where upd: "sql_update (\<lambda>r. row_id r = ?i \<and> row_action r \<noteq> ''send'')
        (\<lambda>r. r\<lparr>row_status := ''dead'', row_error := Some ?err\<rparr>) (worker_db (wait env u)) = (Inr rs, worker_db v)"
    using rv res by (auto simp: on_db_def mark_dead_with_error_def db_return_def split: prod.splits elim!: db_bind_cases)
  from update_one [OF assms(4) upd, of ?i] assms(5,6) w' rows_row_id [OF assms(4), of ?i] show ?thesis
    by (cases "table_of (worker_db (wait env u)) ?i") (auto split: if_splits)
qed


subsection \<open>Witnesses\<close>

definition still_world :: world where
  "still_world = \<lparr>transport = (\<lambda>_ _. Inl (Imap_error ''connection lost'')),
     transport_send = (\<lambda>_ _. Inl IndeterminateDelivery), sync = (\<lambda>_ _. Inr ()), meanwhile = (\<lambda>_ c. c)\<rparr>"

definition sample_worker :: "conn \<Rightarrow> worker" where
  "sample_worker c = \<lparr>worker_account = ''a'', has_executor = True, worker_db = c, executed = [], emitted = [], ticks = 0\<rparr>"

lemma still_world_calm: "calm x still_world"
  by (auto simp: calm_def still_world_def)


definition empty_conn :: conn where
  "empty_conn = \<lparr>faults = [], outbox = [], next_rowid = 1\<rparr>"


definition copy_row :: outbox_row where
  "copy_row = \<lparr>row_id = 1, row_account = ''a'', row_action = ''copy'', row_payload = ''p'', row_status = ''pending'',
     row_retry = 0, row_error = None\<rparr>"

definition copy_entry :: OutboxEntry where
  "copy_entry = \<lparr>entry_id = 1, entry_account_id = ''a'', entry_action_type = ''copy'', entry_payload_json = ''p'',
     entry_retry_count = 0\<rparr>"

definition copy_worker :: worker where
  "copy_worker = sample_worker \<lparr>faults = [], outbox = [copy_row], next_rowid = 2\<rparr>"

theorem ambiguous_op_not_retried_witness:
  "\<exists>w' r. replay_other still_world copy_entry (CopyMessages [Graph ''g''] ''Archive'') copy_worker = (Continue, w')
     \<and> table_of (worker_db w') 1 = Some r \<and> row_status r = ''dead''"
proof -
  let ?m = "CopyMessages [Graph ''g''] ''Archive''" and ?e = "Imap_error ''connection lost''"
  define u where "u = copy_worker\<lparr>executed := [?m]\<rparr>"
  define w' where "w' = snd (replay_other still_world copy_entry ?m copy_worker)"
  define r where "r = copy_row\<lparr>row_status := ''dead'', row_error := Some AMBIGUOUS_OPERATION_ERROR_MESSAGE\<rparr>"
  note defs = copy_worker_def sample_worker_def still_world_def copy_entry_def copy_row_def
  have ex: "execute_op still_world ?m copy_worker = (Inl ?e, u)"
    by (simp add: execute_op_def u_def defs)
  have not_allowed: "\<not> automatic_retry_allowed (can_retry_after_execution_failure ?m) ?e"
    by (simp add: automatic_retry_allowed_def)
  have run: "replay_other still_world copy_entry ?m copy_worker = (Continue, w')"
    and row: "table_of (worker_db w') 1 = Some r"
    by (simp_all add: w'_def replay_other_def execute_op_def automatic_retry_allowed_def r_def on_db_def wait_def
        mark_dead_with_error_def run_defs defs queue_changed_def emit_def table_of_def automatic_retry_disabled_message_def)
  have ids: "ids_ok (worker_db (wait still_world u))"
    by (simp add: wait_def u_def defs ids_ok_def)
  have "row_status r = ''dead'' \<and> row_error r = Some (automatic_retry_disabled_message ?e)"
    by (rule ambiguous_op_not_retried [OF ex not_allowed run ids]) (use row in \<open>simp_all add: r_def defs\<close>)
  with run row show ?thesis by blast
qed

end
