(* ===== verification/Lifecycle.thy ===== *)
theory Lifecycle
  imports Rust_Prelude
begin

text \<open>
  The registry of account workers (\<^verbatim>\<open>ops/lifecycle.rs\<close>). The registry's own state is the
  record \<open>registry\<close>; around it the machine keeps what the runtime knows: which worker tasks are
  alive, whose receiver is closed, which outcome a finished task left in its completion channel,
  and how far each lifecycle operation has got. An operation holds its account's lock from its
  first to its last step, so there is at most one in progress per account; every \<^verbatim>\<open>.await\<close> of
  the source is a point where the machine may take any other step.
\<close>

section \<open>State\<close>

datatype WorkerPhase = Running | Stopping | Joining

datatype WorkerTaskExit = Completed | Panicked | Cancelled | SupervisorPanicked | SupervisorCancelled

record WorkerHandle =
  generation :: u64
  phase :: WorkerPhase
  sender :: bool
  cancellation :: bool

record registry =
  handles :: "string \<Rightarrow> WorkerHandle option"
  next_generation :: u64
  shutting_down :: bool
  shutdown :: bool

text \<open>What follows a join: spawning a replacement, the caller's action, or the error.\<close>

datatype after_join = ThenSpawn | ThenAction | ThenError string

datatype pc =
    Idle
  | Joins u64 after_join
  | AwaitsReady u64
  | Acting

record machine =
  registry :: registry
  live :: "(string \<times> u64) set"
  rx_closed :: "(string \<times> u64) set"
  completion :: "string \<times> u64 \<Rightarrow> WorkerTaskExit option"
  pcs :: "string \<Rightarrow> pc"
  draining :: "string set option"
  outcomes :: "(string \<times> WorkerTaskExit) list"

section \<open>Operations of the registry\<close>

definition new_registry :: registry where
  "new_registry = \<lparr>handles = Map.empty, next_generation = 1, shutting_down = False, shutdown = False\<rparr>"

definition current_is_healthy :: "string \<Rightarrow> machine \<Rightarrow> bool" where
  "current_is_healthy account_id m \<longleftrightarrow>
     (case handles (registry m) account_id of
        None \<Rightarrow> False
      | Some h \<Rightarrow> phase h = Running \<and> sender h \<and> (account_id, generation h) \<notin> rx_closed m
               \<and> completion m (account_id, generation h) = None)"

definition begin_stop :: "string \<Rightarrow> registry \<Rightarrow> u64 option \<times> registry" where
  "begin_stop account_id reg =
     (case handles reg account_id of
        None \<Rightarrow> (None, reg)
      | Some h \<Rightarrow>
          (Some (generation h),
           reg\<lparr>handles := (handles reg)(account_id \<mapsto>
                 h\<lparr>phase := Joining, sender := False, cancellation := True\<rparr>)\<rparr>))"

definition finish_stop :: "string \<Rightarrow> u64 \<Rightarrow> registry \<Rightarrow> registry" where
  "finish_stop account_id g reg =
     (case handles reg account_id of
        None \<Rightarrow> reg
      | Some h \<Rightarrow>
          if generation h = g then reg\<lparr>handles := (handles reg)(account_id := None)\<rparr> else reg)"

text \<open>The handle is installed and the task is started in one step: nothing in between can
  suspend. The new task's channels are fresh.\<close>

definition spawn_worker :: "string \<Rightarrow> machine \<Rightarrow> machine" where
  "spawn_worker account_id m =
     (let reg = registry m; g = next_generation reg in
      m\<lparr>registry := reg\<lparr>next_generation := g + 1,
           handles := (handles reg)(account_id \<mapsto>
             \<lparr>generation = g, phase = Running, sender = True, cancellation = shutdown reg\<rparr>)\<rparr>,
        live := insert (account_id, g) (live m),
        rx_closed := rx_closed m - {(account_id, g)},
        completion := (completion m)((account_id, g) := None),
        pcs := (pcs m)(account_id := AwaitsReady g)\<rparr>)"

definition set_pc :: "string \<Rightarrow> pc \<Rightarrow> machine \<Rightarrow> machine" where
  "set_pc account_id p m = m\<lparr>pcs := (pcs m)(account_id := p)\<rparr>"

text \<open>The start of a stop that \<open>k\<close> follows; without a handle the operation goes on at once.\<close>

definition continue_with :: "string \<Rightarrow> after_join \<Rightarrow> machine \<Rightarrow> machine" where
  "continue_with account_id k m =
     (case k of
        ThenSpawn \<Rightarrow> spawn_worker account_id m
      | ThenAction \<Rightarrow> set_pc account_id Acting m
      | ThenError _ \<Rightarrow> set_pc account_id Idle m)"

definition stop_then :: "string \<Rightarrow> after_join \<Rightarrow> machine \<Rightarrow> machine" where
  "stop_then account_id k m =
     (case begin_stop account_id (registry m) of
        (None, reg) \<Rightarrow> continue_with account_id k (m\<lparr>registry := reg\<rparr>)
      | (Some g, reg) \<Rightarrow> set_pc account_id (Joins g k) (m\<lparr>registry := reg\<rparr>))"

definition gate_open :: "machine \<Rightarrow> bool" where
  "gate_open m \<longleftrightarrow> (case draining m of None \<Rightarrow> True | Some as \<Rightarrow> as = {})"

text \<open>\<^verbatim>\<open>stop_all\<close> under the write lock: every handle is stopped at once.\<close>

definition begin_stop_all :: "registry \<Rightarrow> registry" where
  "begin_stop_all reg = reg\<lparr>handles := (\<lambda>a. map_option
     (\<lambda>h. h\<lparr>phase := Joining, sender := False, cancellation := True\<rparr>) (handles reg a))\<rparr>"

section \<open>Steps\<close>

inductive lifecycle_step :: "machine \<Rightarrow> machine \<Rightarrow> bool" where
  get_healthy:
    "gate_open m \<Longrightarrow> pcs m a = Idle \<Longrightarrow> \<not> shutting_down (registry m) \<Longrightarrow> current_is_healthy a m \<Longrightarrow>
     lifecycle_step m m"
| get_refused: "gate_open m \<Longrightarrow> shutting_down (registry m) \<Longrightarrow> lifecycle_step m m"
| get_or_spawn:
    "gate_open m \<Longrightarrow> pcs m a = Idle \<Longrightarrow> \<not> shutting_down (registry m) \<Longrightarrow> \<not> current_is_healthy a m \<Longrightarrow>
     lifecycle_step m (stop_then a ThenSpawn m)"
| with_account_stopped:
    "gate_open m \<Longrightarrow> pcs m a = Idle \<Longrightarrow> lifecycle_step m (stop_then a ThenAction m)"
| join:
    "pcs m a = Joins g k \<Longrightarrow> completion m (a, g) \<noteq> None \<Longrightarrow>
     lifecycle_step m (continue_with a k (m\<lparr>registry := finish_stop a g (registry m)\<rparr>))"
| ready_ok: "pcs m a = AwaitsReady g \<Longrightarrow> lifecycle_step m (set_pc a Idle m)"
| ready_err: "pcs m a = AwaitsReady g \<Longrightarrow> lifecycle_step m (stop_then a (ThenError msg) m)"
| action_done: "pcs m a = Acting \<Longrightarrow> lifecycle_step m (set_pc a Idle m)"
| close_rx: "lifecycle_step m (m\<lparr>rx_closed := insert (a, g) (rx_closed m)\<rparr>)"
| task_exit:
    "(a, g) \<in> live m \<Longrightarrow>
     lifecycle_step m (m\<lparr>live := live m - {(a, g)}, rx_closed := insert (a, g) (rx_closed m),
                         completion := (completion m)((a, g) \<mapsto> e)\<rparr>)"
| stop_request:
    "lifecycle_step m (m\<lparr>registry := (registry m)\<lparr>shutting_down := True, shutdown := True\<rparr>\<rparr>)"
| stop_all:
    "shutting_down (registry m) \<Longrightarrow> gate_open m \<Longrightarrow> \<forall>a. pcs m a = Idle \<Longrightarrow>
     lifecycle_step m (m\<lparr>registry := begin_stop_all (registry m), draining := Some (dom (handles (registry m)))\<rparr>)"
| stop_join:
    "draining m = Some as \<Longrightarrow> a \<in> as \<Longrightarrow> handles (registry m) a = Some h \<Longrightarrow>
     completion m (a, generation h) = Some e \<Longrightarrow>
     lifecycle_step m (m\<lparr>registry := finish_stop a (generation h) (registry m), draining := Some (as - {a}),
                         outcomes := outcomes m @ [(a, e)]\<rparr>)"

inductive lifecycle_reachable :: "machine \<Rightarrow> bool" where
  start: "lifecycle_reachable \<lparr>registry = new_registry, live = {}, rx_closed = {}, completion = (\<lambda>_. None),
            pcs = (\<lambda>_. Idle), draining = None, outcomes = []\<rparr>"
| step: "lifecycle_reachable m \<Longrightarrow> lifecycle_step m m' \<Longrightarrow> lifecycle_reachable m'"

declare lifecycle_step.intros [step_intros]
declare lifecycle_reachable.intros [step_intros]

section \<open>Invariant\<close>

text \<open>The generation an operation in progress is waiting for.\<close>

fun awaited :: "pc \<Rightarrow> u64 option" where
  "awaited (Joins g _) = Some g"
| "awaited (AwaitsReady g) = Some g"
| "awaited _ = None"

text \<open>A worker is alive exactly while its account's handle has its generation and its
  completion channel is empty; an operation waits for the installed generation; the caller's
  action runs without a handle; and the shutdown joins exactly the handles that are left.\<close>

definition lifecycle_ok :: "machine \<Rightarrow> bool" where
  "lifecycle_ok m \<longleftrightarrow>
     (\<forall>a g. (a, g) \<in> live m \<longleftrightarrow>
        (\<exists>h. handles (registry m) a = Some h \<and> generation h = g \<and> completion m (a, g) = None))
   \<and> (\<forall>a g. awaited (pcs m a) = Some g \<longrightarrow> (\<exists>h. handles (registry m) a = Some h \<and> generation h = g))
   \<and> (\<forall>a. pcs m a = Acting \<longrightarrow> handles (registry m) a = None)
   \<and> (\<forall>as. draining m = Some as \<longrightarrow> shutting_down (registry m)
        \<and> dom (handles (registry m)) = as \<and> (\<forall>a. awaited (pcs m a) = None))"


section \<open>Preservation\<close>

lemma ok_live:
  "lifecycle_ok m \<Longrightarrow> (a, g) \<in> live m \<longleftrightarrow>
     (\<exists>h. handles (registry m) a = Some h \<and> generation h = g \<and> completion m (a, g) = None)"
  by (simp add: lifecycle_ok_def)

lemma ok_awaited:
  "lifecycle_ok m \<Longrightarrow> awaited (pcs m a) = Some g \<Longrightarrow> \<exists>h. handles (registry m) a = Some h \<and> generation h = g"
  by (simp add: lifecycle_ok_def)

lemma ok_acting: "lifecycle_ok m \<Longrightarrow> pcs m a = Acting \<Longrightarrow> handles (registry m) a = None"
  by (simp add: lifecycle_ok_def)

lemma ok_awaited_draining: "lifecycle_ok m \<Longrightarrow> awaited (pcs m a) = Some g \<Longrightarrow> draining m = None"
  unfolding lifecycle_ok_def by (cases "draining m") auto

lemma lifecycle_okI:
  assumes "\<And>a g. (a, g) \<in> live m \<longleftrightarrow>
      (\<exists>h. handles (registry m) a = Some h \<and> generation h = g \<and> completion m (a, g) = None)"
    and "\<And>a g. awaited (pcs m a) = Some g \<Longrightarrow> \<exists>h. handles (registry m) a = Some h \<and> generation h = g"
    and "\<And>a. pcs m a = Acting \<Longrightarrow> handles (registry m) a = None"
    and "\<And>as. draining m = Some as \<Longrightarrow> shutting_down (registry m)
        \<and> dom (handles (registry m)) = as \<and> (\<forall>a. awaited (pcs m a) = None)"
  shows "lifecycle_ok m"
  using assms by (simp add: lifecycle_ok_def)

lemma spawn_ok:
  assumes "lifecycle_ok m" and "handles (registry m) a = None" and "draining m = None" and "awaited (pcs m a) = None"
  shows "lifecycle_ok (spawn_worker a m)"
  using assms unfolding lifecycle_ok_def spawn_worker_def Let_def by auto

lemma set_pc_ok:
  assumes "lifecycle_ok m" and "awaited p = None" and "p = Acting \<Longrightarrow> handles (registry m) a = None"
  shows "lifecycle_ok (set_pc a p m)"
  using assms unfolding lifecycle_ok_def set_pc_def by auto

lemma continue_ok:
  assumes "lifecycle_ok m" and "handles (registry m) a = None" and "awaited (pcs m a) = None"
    and "k = ThenSpawn \<Longrightarrow> draining m = None"
  shows "lifecycle_ok (continue_with a k m)"
  using assms by (cases k) (auto simp: continue_with_def intro: spawn_ok set_pc_ok)

lemma stop_then_ok:
  assumes "lifecycle_ok m" and "draining m = None \<or> handles (registry m) a = None"
    and "k = ThenSpawn \<Longrightarrow> draining m = None"
    and "awaited (pcs m a) = None \<or> handles (registry m) a \<noteq> None"
  shows "lifecycle_ok (stop_then a k m)"
proof (cases "handles (registry m) a")
  case None
  then have "stop_then a k m = continue_with a k m" by (simp add: stop_then_def begin_stop_def)
  with assms None show ?thesis by (auto intro: continue_ok)
next
  case (Some h)
  then show ?thesis
    using assms unfolding lifecycle_ok_def stop_then_def begin_stop_def set_pc_def by auto
qed

lemma join_ok:
  assumes ok: "lifecycle_ok m" and pc: "pcs m a = Joins g k" and fin: "completion m (a, g) \<noteq> None"
  shows "lifecycle_ok (continue_with a k (m\<lparr>registry := finish_stop a g (registry m)\<rparr>))"
proof -
  obtain h where h: "handles (registry m) a = Some h" "generation h = g"
    using ok_awaited [OF ok, of a g] pc by auto
  have dr: "draining m = None" using ok_awaited_draining [OF ok, of a g] pc by simp
  let ?m = "set_pc a Idle (m\<lparr>registry := finish_stop a g (registry m)\<rparr>)"
  have "lifecycle_ok ?m"
  proof (rule lifecycle_okI)
    show "(b, k) \<in> live ?m \<longleftrightarrow>
        (\<exists>h. handles (registry ?m) b = Some h \<and> generation h = k \<and> completion ?m (b, k) = None)" for b k
      using ok_live [OF ok, of b k] h fin by (auto simp: set_pc_def finish_stop_def)
    show "\<exists>h. handles (registry ?m) b = Some h \<and> generation h = k" if "awaited (pcs ?m b) = Some k" for b k
      using that ok_awaited [OF ok, of b k] h by (auto simp: set_pc_def finish_stop_def split: if_splits)
    show "handles (registry ?m) b = None" if "pcs ?m b = Acting" for b
      using that ok_acting [OF ok, of b] h by (auto simp: set_pc_def finish_stop_def split: if_splits)
  qed (use dr in \<open>simp add: set_pc_def\<close>)
  moreover have "handles (registry ?m) a = None" using h by (simp add: set_pc_def finish_stop_def)
  ultimately have "lifecycle_ok (continue_with a k ?m)"
    using dr by (intro continue_ok) (auto simp: set_pc_def)
  moreover have "continue_with a k ?m = continue_with a k (m\<lparr>registry := finish_stop a g (registry m)\<rparr>)"
    by (cases k) (simp_all add: continue_with_def set_pc_def spawn_worker_def Let_def)
  ultimately show ?thesis by simp
qed

lemma task_exit_ok:
  assumes "lifecycle_ok m" and "(a, g) \<in> live m"
  shows "lifecycle_ok (m\<lparr>live := live m - {(a, g)}, rx_closed := insert (a, g) (rx_closed m),
           completion := (completion m)((a, g) \<mapsto> e)\<rparr>)"
  using assms unfolding lifecycle_ok_def by auto

lemma stop_all_ok:
  assumes "lifecycle_ok m" and "shutting_down (registry m)" and "\<forall>a. pcs m a = Idle"
  shows "lifecycle_ok (m\<lparr>registry := begin_stop_all (registry m), draining := Some (dom (handles (registry m)))\<rparr>)"
  using assms unfolding lifecycle_ok_def begin_stop_all_def by (auto simp: dom_def)

lemma stop_join_ok:
  assumes "lifecycle_ok m" and "draining m = Some as" and "a \<in> as" and "handles (registry m) a = Some h"
    and "completion m (a, generation h) = Some e"
  shows "lifecycle_ok (m\<lparr>registry := finish_stop a (generation h) (registry m), draining := Some (as - {a}), outcomes := os\<rparr>)"
  using assms unfolding lifecycle_ok_def finish_stop_def by (auto simp: dom_def split: if_splits)

lemma gate_open_handles: "lifecycle_ok m \<Longrightarrow> gate_open m \<Longrightarrow> draining m = None \<or> handles (registry m) a = None"
  by (auto simp: lifecycle_ok_def gate_open_def dom_def split: option.splits)

lemma lifecycle_step_ok: "lifecycle_step m m' \<Longrightarrow> lifecycle_ok m \<Longrightarrow> lifecycle_ok m'"
proof (induction rule: lifecycle_step.induct)
  case (get_or_spawn m a)
  then have "draining m = None"
    by (auto simp: lifecycle_ok_def gate_open_def split: option.splits)
  with get_or_spawn show ?case by (intro stop_then_ok) auto
next
  case (with_account_stopped m a)
  then show ?case using gate_open_handles by (intro stop_then_ok) auto
next
  case (ready_ok m a g)
  then show ?case by (intro set_pc_ok) auto
next
  case (ready_err m a g msg)
  then have "draining m = None" "handles (registry m) a \<noteq> None"
    using ok_awaited_draining [of m a g] ok_awaited [of m a g] by auto
  with ready_err show ?case by (intro stop_then_ok) auto
next
  case (action_done m a)
  then show ?case by (intro set_pc_ok) auto
next
  case (close_rx m a g)
  then show ?case by (simp add: lifecycle_ok_def)
next
  case (stop_request m)
  then show ?case by (simp add: lifecycle_ok_def)
qed (auto intro: join_ok task_exit_ok stop_all_ok stop_join_ok)

lemma lifecycle_reachable_ok: "lifecycle_reachable m \<Longrightarrow> lifecycle_ok m"
proof (induction rule: lifecycle_reachable.induct)
  case start
  show ?case by (simp add: lifecycle_ok_def new_registry_def)
next
  case (step m m')
  then show ?case using lifecycle_step_ok by blast
qed

section \<open>Properties\<close>


text \<open>Shutdown is final: once \<^verbatim>\<open>stop_all\<close> has joined every worker, no later step of any
  task starts another.\<close>

theorem shutdown_is_final:
  assumes "lifecycle_reachable m" and "draining m = Some {}" and "lifecycle_step m m'"
  shows "draining m' = Some {} \<and> live m' = {} \<and> handles (registry m') = Map.empty"
proof -
  have ok: "lifecycle_ok m" using assms(1) by (rule lifecycle_reachable_ok)
  have empty: "live m = {}" "handles (registry m) = Map.empty" "shutting_down (registry m)"
    "awaited (pcs m b) = None" for b
    using ok assms(2) by (auto simp: lifecycle_ok_def dom_def fun_eq_iff)
  from assms(3) show ?thesis
  proof cases
    case (join a g k)
    with empty(4) [of a] show ?thesis by simp
  next
    case (ready_err a g msg)
    with empty(4) [of a] show ?thesis by simp
  qed (use assms(2) empty in \<open>auto simp: stop_then_def begin_stop_def continue_with_def set_pc_def begin_stop_all_def\<close>)
qed

section \<open>Witnesses\<close>

definition started_machine :: machine where
  "started_machine = \<lparr>registry = new_registry, live = {}, rx_closed = {}, completion = (\<lambda>_. None),
     pcs = (\<lambda>_. Idle), draining = None, outcomes = []\<rparr>"

lemma started_reachable: "lifecycle_reachable started_machine"
  unfolding started_machine_def by (rule lifecycle_reachable.start)


theorem shutdown_is_final_witness:
  "\<exists>m m'. draining m = Some {} \<and> lifecycle_step m m' \<and> live m' = {}"
proof -
  define m1 where "m1 = started_machine\<lparr>registry := new_registry\<lparr>shutting_down := True, shutdown := True\<rparr>\<rparr>"
  define m2 where "m2 = m1\<lparr>registry := begin_stop_all (registry m1), draining := Some (dom (handles (registry m1)))\<rparr>"
  have "lifecycle_step started_machine m1"
    using lifecycle_step.stop_request [of started_machine] by (simp add: m1_def started_machine_def)
  then have "lifecycle_reachable m1" using started_reachable by (blast intro: lifecycle_reachable.step)
  moreover have "lifecycle_step m1 m2"
    unfolding m2_def by (rule lifecycle_step.stop_all) (simp_all add: m1_def started_machine_def gate_open_def)
  ultimately have reach: "lifecycle_reachable m2" by (blast intro: lifecycle_reachable.step)
  have dr: "draining m2 = Some {}" by (simp add: m2_def m1_def new_registry_def)
  have step: "lifecycle_step m2 (m2\<lparr>rx_closed := insert (''a'', 1) (rx_closed m2)\<rparr>)" by (rule lifecycle_step.close_rx)
  from shutdown_is_final [OF reach dr step] dr step show ?thesis by blast
qed

end
