(* ===== verification/Filters.thy ===== *)
theory Filters
  imports Error_Model
begin

text \<open>
  Client-side message filters: the rules (\<^verbatim>\<open>filters/rules.rs\<close>), the matching engine
  (\<^verbatim>\<open>filters/engine.rs\<close>) and the action plan. The regular expression engine is the parameter
  \<open>regex\<close>: \<^term>\<open>None\<close> when a pattern is invalid or too complex, otherwise whether it matches.
\<close>

section \<open>Rules\<close>

datatype MatchType = All | Any

datatype ConditionField = FromField | ToField | CcField | ToCc | Subject | Size | HasAttachment

datatype ConditionOp =
    Contains | NotContains | Equals | NotEquals | MatchesRegex | GreaterThan | LessThan

record Condition =
  cond_field :: ConditionField
  cond_op :: ConditionOp
  cond_value :: string

datatype FilterAction =
    Move string
  | Copy string
  | Delete
  | Flag string
  | Unflag string
  | MarkRead
  | MarkUnread
  | Stop

record FilterRule =
  rule_id :: string
  rule_account_id :: "string option"
  rule_name :: string
  rule_enabled :: bool
  rule_priority :: int
  rule_match_type :: MatchType
  rule_conditions :: "Condition list"
  rule_actions :: "FilterAction list"
  rule_stop_processing :: bool

section \<open>Messages\<close>

record AddressEntry =
  address_name :: "string option"
  address_email :: string

record MessageData =
  msg_id :: string
  msg_uid :: u32
  msg_folder_path :: string
  msg_from_name :: "string option"
  msg_from_email :: string
  msg_to_addresses :: "AddressEntry list"
  msg_cc_addresses :: "AddressEntry list"
  msg_subject :: "string option"
  msg_size :: u64
  msg_has_attachments :: bool
  msg_flags :: "string list"

type_synonym regex = "string \<Rightarrow> string \<Rightarrow> bool option"

section \<open>Matching\<close>

definition unwrap_or_empty :: "string option \<Rightarrow> string" where
  "unwrap_or_empty s = (case s of None \<Rightarrow> [] | Some t \<Rightarrow> t)"

definition combined_address :: "string option \<Rightarrow> string \<Rightarrow> string" where
  "combined_address name email = unwrap_or_empty name @ '' '' @ email"

fun eval_string_op :: "regex \<Rightarrow> ConditionOp \<Rightarrow> string \<Rightarrow> string \<Rightarrow> bool" where
  "eval_string_op rx Contains haystack needle = str_contains (to_lowercase needle) (to_lowercase haystack)"
| "eval_string_op rx NotContains haystack needle \<longleftrightarrow> \<not> str_contains (to_lowercase needle) (to_lowercase haystack)"
| "eval_string_op rx Equals haystack needle \<longleftrightarrow> to_lowercase haystack = to_lowercase needle"
| "eval_string_op rx NotEquals haystack needle \<longleftrightarrow> to_lowercase haystack \<noteq> to_lowercase needle"
| "eval_string_op rx MatchesRegex haystack needle = (case rx needle haystack of None \<Rightarrow> False | Some b \<Rightarrow> b)"
| "eval_string_op rx GreaterThan haystack needle = False"
| "eval_string_op rx LessThan haystack needle = False"

fun compare_u64 :: "ConditionOp \<Rightarrow> u64 \<Rightarrow> u64 \<Rightarrow> bool" where
  "compare_u64 GreaterThan actual threshold \<longleftrightarrow> threshold < actual"
| "compare_u64 LessThan actual threshold \<longleftrightarrow> actual < threshold"
| "compare_u64 Equals actual threshold \<longleftrightarrow> actual = threshold"
| "compare_u64 NotEquals actual threshold \<longleftrightarrow> actual \<noteq> threshold"
| "compare_u64 _ actual threshold \<longleftrightarrow> False"

definition eval_numeric_op :: "ConditionOp \<Rightarrow> u64 \<Rightarrow> string \<Rightarrow> bool" where
  "eval_numeric_op cop actual value_str =
     (case parse_unsigned 64 value_str of
        None \<Rightarrow> False
      | Some n \<Rightarrow> compare_u64 cop actual (word_of_nat n))"

definition address_matches :: "regex \<Rightarrow> ConditionOp \<Rightarrow> string \<Rightarrow> AddressEntry \<Rightarrow> bool" where
  "address_matches rx cop v a =
     eval_string_op rx cop (combined_address (address_name a) (address_email a)) v"

definition eval_address_iter_op :: "regex \<Rightarrow> ConditionOp \<Rightarrow> AddressEntry list \<Rightarrow> bool \<Rightarrow> string \<Rightarrow> bool" where
  "eval_address_iter_op rx cop addrs is_empty v =
     (if is_empty then cop = NotContains \<or> cop = NotEquals
      else (case cop of
              NotContains \<Rightarrow> \<not> list_ex (address_matches rx Contains v) addrs
            | NotEquals \<Rightarrow> \<not> list_ex (address_matches rx Equals v) addrs
            | _ \<Rightarrow> list_ex (address_matches rx cop v) addrs))"

definition eval_address_list_op :: "regex \<Rightarrow> ConditionOp \<Rightarrow> AddressEntry list \<Rightarrow> string \<Rightarrow> bool" where
  "eval_address_list_op rx cop addrs v = eval_address_iter_op rx cop addrs (addrs = []) v"

definition eval_condition :: "regex \<Rightarrow> Condition \<Rightarrow> MessageData \<Rightarrow> bool" where
  "eval_condition rx cond msg =
     (case cond_field cond of
        FromField \<Rightarrow>
          eval_string_op rx (cond_op cond) (combined_address (msg_from_name msg) (msg_from_email msg)) (cond_value cond)
      | ToField \<Rightarrow> eval_address_list_op rx (cond_op cond) (msg_to_addresses msg) (cond_value cond)
      | CcField \<Rightarrow> eval_address_list_op rx (cond_op cond) (msg_cc_addresses msg) (cond_value cond)
      | ToCc \<Rightarrow>
          eval_address_iter_op rx (cond_op cond) (msg_to_addresses msg @ msg_cc_addresses msg)
            (msg_to_addresses msg = [] \<and> msg_cc_addresses msg = []) (cond_value cond)
      | Subject \<Rightarrow> eval_string_op rx (cond_op cond) (unwrap_or_empty (msg_subject msg)) (cond_value cond)
      | Size \<Rightarrow> eval_numeric_op (cond_op cond) (msg_size msg) (cond_value cond)
      | HasAttachment \<Rightarrow> msg_has_attachments msg = (to_lowercase (cond_value cond) = ''true''))"

definition matches_message :: "regex \<Rightarrow> FilterRule \<Rightarrow> MessageData \<Rightarrow> bool" where
  "matches_message rx rule msg =
     (if rule_conditions rule = [] then False
      else (case rule_match_type rule of
              All \<Rightarrow> list_all (\<lambda>c. eval_condition rx c msg) (rule_conditions rule)
            | Any \<Rightarrow> list_ex (\<lambda>c. eval_condition rx c msg) (rule_conditions rule)))"

section \<open>Actions\<close>

fun keeps_action :: "string \<Rightarrow> FilterAction \<Rightarrow> bool" where
  "keeps_action folder (Move target) \<longleftrightarrow> target \<noteq> folder"
| "keeps_action folder (Copy target) \<longleftrightarrow> target \<noteq> folder"
| "keeps_action folder _ \<longleftrightarrow> True"

fun collect_actions :: "regex \<Rightarrow> MessageData \<Rightarrow> FilterRule list \<Rightarrow> FilterAction list" where
  "collect_actions rx msg [] = []"
| "collect_actions rx msg (rule # rest) =
     (if matches_message rx rule msg
      then filter (keeps_action (msg_folder_path msg)) (rule_actions rule)
           @ (if rule_stop_processing rule then [] else collect_actions rx msg rest)
      else collect_actions rx msg rest)"

definition by_priority :: "FilterRule list \<Rightarrow> FilterRule list" where
  "by_priority rules = sort_key (\<lambda>r. - rule_priority r) (filter rule_enabled rules)"

definition apply_filters :: "regex \<Rightarrow> FilterRule list \<Rightarrow> MessageData \<Rightarrow> FilterAction list" where
  "apply_filters rx rules msg = collect_actions rx msg (by_priority rules)"

type_synonym action_plan = "(MessageData \<times> FilterAction list) list"

fun build_filter_action_plan :: "regex \<Rightarrow> FilterRule list \<Rightarrow> MessageData list \<Rightarrow> action_plan" where
  "build_filter_action_plan rx rules [] = []"
| "build_filter_action_plan rx rules (msg # msgs) =
     (let actions = apply_filters rx rules msg
      in if actions \<noteq> [] then (msg, actions) # build_filter_action_plan rx rules msgs
         else build_filter_action_plan rx rules msgs)"

section \<open>Specification\<close>

text \<open>
  The rules that fire: enabled, matching, and not cut off by a matching rule that stops
  processing earlier in the order (higher priority, or the same priority and listed earlier).
\<close>

definition halts :: "regex \<Rightarrow> MessageData \<Rightarrow> FilterRule \<Rightarrow> bool" where
  "halts rx msg r \<longleftrightarrow> matches_message rx r msg \<and> rule_stop_processing r"

definition fires_at :: "regex \<Rightarrow> MessageData \<Rightarrow> FilterRule list \<Rightarrow> nat \<Rightarrow> bool" where
  "fires_at rx msg rs k \<longleftrightarrow> matches_message rx (rs ! k) msg \<and> (\<forall>j < k. \<not> halts rx msg (rs ! j))"

definition fired_rules :: "regex \<Rightarrow> FilterRule list \<Rightarrow> MessageData \<Rightarrow> FilterRule list" where
  "fired_rules rx rules msg =
     (let rs = by_priority rules in map ((!) rs) (filter (fires_at rx msg rs) [0..<length rs]))"

section \<open>Lemmas\<close>

lemma fires_at_0 [simp]: "fires_at rx msg (r # rs) 0 \<longleftrightarrow> matches_message rx r msg"
  by (simp add: fires_at_def)

lemma fires_at_Suc [simp]:
  "fires_at rx msg (r # rs) (Suc k) \<longleftrightarrow> \<not> halts rx msg r \<and> fires_at rx msg rs k"
  by (auto simp: fires_at_def less_Suc_eq_0_disj)

lemma upt_Suc_map: "[0..<Suc n] = 0 # map Suc [0..<n]"
  by (metis map_Suc_upt upt_conv_Cons zero_less_Suc)

lemma collect_actions_fired:
  "collect_actions rx msg rs =
     concat (map (\<lambda>r. filter (keeps_action (msg_folder_path msg)) (rule_actions r))
       (map ((!) rs) (filter (fires_at rx msg rs) [0..<length rs])))"
proof (induction rs)
  case (Cons r rs)
  have shift: "map ((!) (r # rs)) (filter (fires_at rx msg (r # rs)) (map Suc xs))
      = (if halts rx msg r then [] else map ((!) rs) (filter (fires_at rx msg rs) xs))" for xs
    by (induction xs) auto
  show ?case
    unfolding list.size(4) add_0_right add_Suc_right upt_Suc_map
    using Cons.IH by (auto simp: shift halts_def simp del: map_map)
qed simp

lemma to_lowercase_append: "to_lowercase (s @ t) = to_lowercase s @ to_lowercase t"
  by (simp add: to_lowercase_def)

lemma char_to_lowercase_space: "char_to_lowercase c = CHR '' '' \<longleftrightarrow> c = CHR '' ''"
proof -
  have "char_code (char_to_lowercase c) = 32 \<longleftrightarrow> char_code c = 32"
    using char_code_bound [of c] by (auto simp: char_to_lowercase_def Let_def)
  moreover have "char_code (CHR '' '') = 32" by (simp add: char_code_def)
  ultimately show ?thesis by (metis char_code_inject)
qed

lemma space_in_combined: "CHR '' '' \<in> set (to_lowercase (combined_address n e))"
  by (auto simp: combined_address_def to_lowercase_def char_to_lowercase_def char_code_def)


section \<open>Properties\<close>


text \<open>The negative operators are the exact negation of the positive ones on every text and
  address field, also for messages without addresses.\<close>

theorem negated_operators:
  "list_all (\<lambda>fd.
      eval_condition rx \<lparr>cond_field = fd, cond_op = NotContains, cond_value = v\<rparr> msg
        = (\<not> eval_condition rx \<lparr>cond_field = fd, cond_op = Contains, cond_value = v\<rparr> msg)
    \<and> eval_condition rx \<lparr>cond_field = fd, cond_op = NotEquals, cond_value = v\<rparr> msg
        = (\<not> eval_condition rx \<lparr>cond_field = fd, cond_op = Equals, cond_value = v\<rparr> msg))
   [FromField, ToField, CcField, ToCc, Subject]"
  by (simp add: eval_condition_def eval_address_list_op_def eval_address_iter_op_def)

text \<open>An \<^verbatim>\<open>equals\<close> condition on a sender or recipient never matches a value without a
  space, so never a bare e-mail address: the address is compared with its display name and a
  separating space in front, also when there is no display name.\<close>

theorem equals_never_matches_bare_address:
  assumes "CHR '' '' \<notin> set v"
  shows "list_all (\<lambda>fd. \<not> eval_condition rx \<lparr>cond_field = fd, cond_op = Equals, cond_value = v\<rparr> msg)
           [FromField, ToField, CcField, ToCc]"
proof -
  have "CHR '' '' \<notin> set (to_lowercase v)"
    using assms by (auto simp: to_lowercase_def) (metis char_to_lowercase_space)
  then have "to_lowercase (combined_address n e) \<noteq> to_lowercase v" for n e
    using space_in_combined [of n e] by metis
  then show ?thesis
    by (simp add: eval_condition_def eval_address_list_op_def eval_address_iter_op_def address_matches_def list_ex_iff)
qed

theorem equals_never_matches_bare_address_witness:
  "list_all (\<lambda>fd. \<not> eval_condition (\<lambda>_ _. None) \<lparr>cond_field = fd, cond_op = Equals, cond_value = ''alice@example.com''\<rparr>
       \<lparr>msg_id = ''1'', msg_uid = 1, msg_folder_path = ''INBOX'', msg_from_name = None,
        msg_from_email = ''alice@example.com'', msg_to_addresses = [], msg_cc_addresses = [], msg_subject = None,
        msg_size = 0, msg_has_attachments = False, msg_flags = []\<rparr>)
     [FromField, ToField, CcField, ToCc]"
  by (rule equals_never_matches_bare_address) simp

definition stop_rule :: FilterRule where
  "stop_rule = \<lparr>rule_id = ''s'', rule_account_id = None, rule_name = ''stop'', rule_enabled = True,
     rule_priority = 10, rule_match_type = Any,
     rule_conditions = [\<lparr>cond_field = Subject, cond_op = Contains, cond_value = []\<rparr>],
     rule_actions = [Stop], rule_stop_processing = False\<rparr>"

lemma str_contains_Nil [simp]: "str_contains [] s"
  by (cases s) (simp_all add: starts_with_def)

lemma stop_rule_matches: "matches_message rx stop_rule msg"
  by (simp add: matches_message_def stop_rule_def eval_condition_def to_lowercase_def)

text \<open>The \<^verbatim>\<open>Stop\<close> action stops nothing: a matching rule whose only action is \<^verbatim>\<open>Stop\<close> lets the
  rules after it act, for every message and every other rule that matches.\<close>

theorem stop_action_does_not_stop:
  assumes "rule_enabled r" and "rule_priority r < 10" and "matches_message rx r msg"
  shows "apply_filters rx [stop_rule, r] msg
           = Stop # filter (keeps_action (msg_folder_path msg)) (rule_actions r)"
  using assms stop_rule_matches [of rx msg]
  by (simp add: apply_filters_def by_priority_def stop_rule_def)

definition delete_rule :: FilterRule where
  "delete_rule = stop_rule\<lparr>rule_priority := 0, rule_actions := [Delete]\<rparr>"

theorem stop_action_does_not_stop_witness:
  "\<exists>msg. apply_filters (\<lambda>_ _. None) [stop_rule, delete_rule] msg = [Stop, Delete]"
proof -
  have "matches_message (\<lambda>_ _. None) delete_rule msg" for msg
    by (simp add: matches_message_def delete_rule_def stop_rule_def eval_condition_def to_lowercase_def)
  moreover have "rule_enabled delete_rule" "rule_priority delete_rule < 10"
    by (simp_all add: delete_rule_def stop_rule_def)
  ultimately show ?thesis
    using stop_action_does_not_stop [of delete_rule "\<lambda>_ _. None"] by (auto simp: delete_rule_def)
qed

end
