(* ===== verification/Filter_Service.thy ===== *)
theory Filter_Service
  imports Filters Message Json_Value
begin

text \<open>
  Executing a filter plan (\<^verbatim>\<open>filters/service.rs\<close>): loading the messages, the executors of the
  three mail protocols and the two entry points. The protocol clients are parameters: a batch
  call returns an error or one outcome per message, in the order of the request. A hash map is
  an association list, its iteration order the parameter \<open>iter\<close>.
\<close>

section \<open>Loading messages\<close>

record message_row =
  mrow_account :: string
  mrow_id :: string
  mrow_uid :: u32
  mrow_folder :: string
  mrow_from_name :: "string option"
  mrow_from_email :: string
  mrow_to :: string
  mrow_cc :: string
  mrow_subject :: "string option"
  mrow_size :: int
  mrow_has_attachments :: bool
  mrow_flags :: string

text \<open>\<^verbatim>\<open>serde_json::from_str::<Vec<AddressEntry>>\<close>: a missing name is none, a missing address an error.\<close>

definition address_from_json :: "json \<Rightarrow> AddressEntry option" where
  "address_from_json v =
     (case jget ''email'' v of
        Some (JStr email) \<Rightarrow>
          (case jget ''name'' v of
             None \<Rightarrow> Some \<lparr>address_name = None, address_email = email\<rparr>
           | Some JNull \<Rightarrow> Some \<lparr>address_name = None, address_email = email\<rparr>
           | Some (JStr n) \<Rightarrow> Some \<lparr>address_name = Some n, address_email = email\<rparr>
           | Some _ \<Rightarrow> None)
      | _ \<Rightarrow> None)"

definition parse_addresses :: "externals \<Rightarrow> string \<Rightarrow> AddressEntry list" where
  "parse_addresses x s =
     (case Option.bind (json_parse x s) (\<lambda>v. Option.bind (as_array v) (\<lambda>vs. collect_options (map address_from_json vs))) of
        None \<Rightarrow> [] | Some as \<Rightarrow> as)"

definition parse_flags :: "externals \<Rightarrow> string \<Rightarrow> string list" where
  "parse_flags x s = (case Option.bind (json_parse x s) value_strings of None \<Rightarrow> [] | Some fs \<Rightarrow> fs)"

definition message_from_row :: "externals \<Rightarrow> message_row \<Rightarrow> MessageData" where
  "message_from_row x r =
     \<lparr>msg_id = mrow_id r, msg_uid = mrow_uid r, msg_folder_path = mrow_folder r,
      msg_from_name = mrow_from_name r, msg_from_email = mrow_from_email r,
      msg_to_addresses = parse_addresses x (mrow_to r), msg_cc_addresses = parse_addresses x (mrow_cc r),
      msg_subject = mrow_subject r, msg_size = word_of_int (mrow_size r),
      msg_has_attachments = mrow_has_attachments r, msg_flags = parse_flags x (mrow_flags r)\<rparr>"

definition load_folder_messages :: "externals \<Rightarrow> message_row list \<Rightarrow> string \<Rightarrow> string \<Rightarrow> MessageData list" where
  "load_folder_messages x table account_id folder_path =
     map (message_from_row x) (filter (\<lambda>r. mrow_account r = account_id \<and> mrow_folder r = folder_path) table)"

definition MAX_IN_PARAMS :: nat where
  "MAX_IN_PARAMS = 900"

definition load_messages_by_ids_chunk ::
    "externals \<Rightarrow> message_row list \<Rightarrow> string \<Rightarrow> string \<Rightarrow> string list \<Rightarrow> MessageData list" where
  "load_messages_by_ids_chunk x table account_id folder_path ids =
     (if ids = [] then []
      else map (message_from_row x)
             (filter (\<lambda>r. mrow_account r = account_id \<and> mrow_folder r = folder_path \<and> mrow_id r \<in> set ids) table))"

definition load_messages_by_ids ::
    "externals \<Rightarrow> message_row list \<Rightarrow> string \<Rightarrow> string \<Rightarrow> string list \<Rightarrow> MessageData list" where
  "load_messages_by_ids x table account_id folder_path ids =
     concat (map (load_messages_by_ids_chunk x table account_id folder_path) (chunks MAX_IN_PARAMS ids))"

section \<open>Results of an execution\<close>

record ExecutionResult =
  moved_db_ids :: "string list"
  deleted_db_ids :: "string list"
  errors :: "string list"
  failed_db_ids :: "string list"

definition no_result :: ExecutionResult where
  "no_result = \<lparr>moved_db_ids = [], deleted_db_ids = [], errors = [], failed_db_ids = []\<rparr>"

definition is_graph_item_not_found :: "error \<Rightarrow> bool" where
  "is_graph_item_not_found e \<longleftrightarrow>
     str_contains ''404'' (error_to_string e) \<and> str_contains ''ErrorItemNotFound'' (error_to_string e)"

type_synonym 'k groups = "('k \<times> (string \<times> string) list) list"

section \<open>Microsoft Graph\<close>

record graph_client =
  set_read_status_batch :: "string list \<Rightarrow> bool \<Rightarrow> unit result list result"
  move_messages_batch :: "string list \<Rightarrow> string \<Rightarrow> unit result list result"
  delete_messages_batch :: "string list \<Rightarrow> unit result list result"

fun graph_move :: "FilterAction \<Rightarrow> string option" where
  "graph_move (Move target) = Some target"
| "graph_move _ = None"

fun is_delete :: "FilterAction \<Rightarrow> bool" where
  "is_delete Delete = True"
| "is_delete _ = False"

fun graph_mark_read :: "FilterAction \<Rightarrow> bool" where
  "graph_mark_read MarkRead = True"
| "graph_mark_read (Flag v) = eq_ignore_ascii_case v ''seen''"
| "graph_mark_read _ = False"

fun graph_mark_unread :: "FilterAction \<Rightarrow> bool" where
  "graph_mark_unread MarkUnread = True"
| "graph_mark_unread (Unflag v) = eq_ignore_ascii_case v ''seen''"
| "graph_mark_unread _ = False"

definition graph_id_of :: "string \<Rightarrow> MessageData \<Rightarrow> string" where
  "graph_id_of account_id msg = the (graph_item_id (graph_from_db_id account_id (msg_id msg)))"

text \<open>The pairs of DB id and Graph id of the planned actions of one kind, in plan order.\<close>

definition planned_pairs :: "string \<Rightarrow> (FilterAction \<Rightarrow> bool) \<Rightarrow> action_plan \<Rightarrow> (string \<times> string) list" where
  "planned_pairs account_id p plan =
     concat (map (\<lambda>(msg, actions). map (\<lambda>_. (msg_id msg, graph_id_of account_id msg)) (filter p actions)) plan)"

definition planned_moves :: "string \<Rightarrow> action_plan \<Rightarrow> (string \<times> string \<times> string) list" where
  "planned_moves account_id plan =
     concat (map (\<lambda>(msg, actions).
       map (\<lambda>target. (msg_id msg, graph_id_of account_id msg, target)) (List.map_filter graph_move actions)) plan)"

text \<open>A read-status batch: each failed outcome, or the whole batch, is recorded.\<close>

definition record_read_status :: "string \<Rightarrow> (string \<times> string) list \<Rightarrow> unit result list result \<Rightarrow> ExecutionResult \<Rightarrow> ExecutionResult" where
  "record_read_status label items answer res =
     (case answer of
        Inr os \<Rightarrow>
          foldl (\<lambda>res ((db_id, graph_id), outcome).
             case outcome of
               Inl e \<Rightarrow> res\<lparr>errors := errors res @ [label @ '' '' @ graph_id @ '': '' @ error_to_string e],
                            failed_db_ids := failed_db_ids res @ [db_id]\<rparr>
             | Inr _ \<Rightarrow> res) res (zip items os)
      | Inl e \<Rightarrow> res\<lparr>errors := errors res @ [label @ '': '' @ error_to_string e],
                     failed_db_ids := failed_db_ids res @ map fst items\<rparr>)"

definition graph_read_status ::
    "graph_client \<Rightarrow> string \<Rightarrow> bool \<Rightarrow> (string \<times> string) list \<Rightarrow> ExecutionResult \<Rightarrow> ExecutionResult" where
  "graph_read_status client label flag items res =
     (if items = [] then res
      else record_read_status label items (set_read_status_batch client (map snd items) flag) res)"

text \<open>Only the first planned move of a message is executed.\<close>

fun first_moves :: "string list \<Rightarrow> (string \<times> string \<times> string) list \<Rightarrow> (string \<times> string \<times> string) list" where
  "first_moves seen [] = []"
| "first_moves seen ((db_id, graph_id, target) # rest) =
     (if db_id \<in> set seen then first_moves seen rest
      else (db_id, graph_id, target) # first_moves (db_id # seen) rest)"

definition moves_by_target :: "(string \<times> string \<times> string) list \<Rightarrow> string groups" where
  "moves_by_target moves =
     group_entries (map (\<lambda>(db_id, graph_id, target). (target, (db_id, graph_id))) (first_moves [] moves))"

text \<open>The outcomes of a move batch. The set of moved ids of the source is the list of moved ids.\<close>

definition record_move :: "(string \<times> string) \<times> unit result \<Rightarrow> ExecutionResult \<Rightarrow> ExecutionResult" where
  "record_move io res =
     (case io of ((db_id, graph_id), outcome) \<Rightarrow>
        (case outcome of
           Inr _ \<Rightarrow> res\<lparr>moved_db_ids := moved_db_ids res @ [db_id]\<rparr>
         | Inl e \<Rightarrow>
             if is_graph_item_not_found e then res\<lparr>deleted_db_ids := deleted_db_ids res @ [db_id]\<rparr>
             else res\<lparr>errors := errors res @ [''move: '' @ error_to_string e],
                      failed_db_ids := failed_db_ids res @ [db_id]\<rparr>))"

definition graph_move_group :: "graph_client \<Rightarrow> string \<times> (string \<times> string) list \<Rightarrow> ExecutionResult \<Rightarrow> ExecutionResult" where
  "graph_move_group client grp res =
     (case grp of (target, items) \<Rightarrow>
        (case move_messages_batch client (map snd items) target of
           Inr os \<Rightarrow> fold record_move (zip items os) res
         | Inl e \<Rightarrow> res\<lparr>errors := errors res @ [''move batch: '' @ error_to_string e],
                        failed_db_ids := failed_db_ids res @ map fst items\<rparr>))"

definition record_delete :: "(string \<times> string) \<times> unit result \<Rightarrow> ExecutionResult \<Rightarrow> ExecutionResult" where
  "record_delete io res =
     (case io of ((db_id, graph_id), outcome) \<Rightarrow>
        (case outcome of
           Inr _ \<Rightarrow> res\<lparr>deleted_db_ids := deleted_db_ids res @ [db_id]\<rparr>
         | Inl e \<Rightarrow>
             if is_graph_item_not_found e then res\<lparr>deleted_db_ids := deleted_db_ids res @ [db_id]\<rparr>
             else res\<lparr>errors := errors res @ [''delete: '' @ error_to_string e],
                      failed_db_ids := failed_db_ids res @ [db_id]\<rparr>))"

definition graph_deletes :: "graph_client \<Rightarrow> (string \<times> string) list \<Rightarrow> ExecutionResult \<Rightarrow> ExecutionResult" where
  "graph_deletes client deletes res =
     (let to_delete = filter (\<lambda>(db_id, _). db_id \<notin> set (moved_db_ids res)) deletes
      in if to_delete = [] then res
         else (case delete_messages_batch client (map snd to_delete) of
                 Inr os \<Rightarrow> fold record_delete (zip to_delete os) res
               | Inl e \<Rightarrow> res\<lparr>errors := errors res @ [''delete batch: '' @ error_to_string e],
                              failed_db_ids := failed_db_ids res @ map fst to_delete\<rparr>))"

definition execute_graph_filter_actions ::
    "(string groups \<Rightarrow> string groups) \<Rightarrow> graph_client result \<Rightarrow> string \<Rightarrow> action_plan \<Rightarrow> ExecutionResult result" where
  "execute_graph_filter_actions iter client_result account_id plan =
     and_then client_result (\<lambda>client.
       Inr (graph_deletes client (planned_pairs account_id is_delete plan)
             (fold (graph_move_group client) (iter (moves_by_target (planned_moves account_id plan)))
               (graph_read_status client ''mark-unread'' False (planned_pairs account_id graph_mark_unread plan)
                 (graph_read_status client ''mark-read'' True (planned_pairs account_id graph_mark_read plan)
                   no_result)))))"


section \<open>IMAP\<close>

text \<open>\<^verbatim>\<open>char::to_uppercase\<close> on the modelled plane: the sharp s becomes two letters; the micro sign
  and the y with diaeresis, whose upper case lies outside the plane, are kept.\<close>

definition char_to_uppercase :: "char \<Rightarrow> string" where
  "char_to_uppercase c =
     (let n = char_code c
      in if n = 223 then ''SS''
         else if (97 \<le> n \<and> n \<le> 122) \<or> (224 \<le> n \<and> n \<le> 254 \<and> n \<noteq> 247) then [char_of (n - 32)]
         else [c])"

fun capitalize_flag :: "string \<Rightarrow> string" where
  "capitalize_flag [] = []"
| "capitalize_flag (c # cs) = char_to_uppercase c @ cs"

definition imap_flag :: "string \<Rightarrow> string" where
  "imap_flag v = CHR 0x5C # capitalize_flag v"

datatype imap_command =
    ImapSetFlags "u32 list" "string list" bool
  | ImapCopy "u32 list" string
  | ImapMove "u32 list" string
  | ImapDelete "u32 list"

fun copy_target :: "FilterAction \<Rightarrow> string option" where
  "copy_target (Copy target) = Some target"
| "copy_target _ = None"

fun flag_value :: "FilterAction \<Rightarrow> string option" where
  "flag_value (Flag v) = Some v"
| "flag_value _ = None"

fun unflag_value :: "FilterAction \<Rightarrow> string option" where
  "unflag_value (Unflag v) = Some v"
| "unflag_value _ = None"

fun is_mark_read :: "FilterAction \<Rightarrow> bool" where
  "is_mark_read MarkRead = True"
| "is_mark_read _ = False"

fun is_mark_unread :: "FilterAction \<Rightarrow> bool" where
  "is_mark_unread MarkUnread = True"
| "is_mark_unread _ = False"

text \<open>The keyed and the plain collections of the loop over the plan.\<close>

definition uids_by_key :: "(FilterAction \<Rightarrow> string option) \<Rightarrow> action_plan \<Rightarrow> (string \<times> u32 list) list" where
  "uids_by_key key plan =
     group_entries (concat (map (\<lambda>(msg, actions).
       map (\<lambda>k. (k, msg_uid msg)) (List.map_filter key actions)) plan))"

definition uids_where :: "(FilterAction \<Rightarrow> bool) \<Rightarrow> action_plan \<Rightarrow> u32 list" where
  "uids_where p plan = concat (map (\<lambda>(msg, actions). map (\<lambda>_. msg_uid msg) (filter p actions)) plan)"

definition unless_empty :: "u32 list \<Rightarrow> imap_command \<Rightarrow> imap_command list" where
  "unless_empty uids c = (if uids = [] then [] else [c])"

definition imap_commands ::
    "((string \<times> u32 list) list \<Rightarrow> (string \<times> u32 list) list) \<Rightarrow> action_plan \<Rightarrow> imap_command list" where
  "imap_commands iter plan =
     (let move_targets = uids_by_key graph_move plan;
          copy_targets = uids_by_key copy_target plan;
          delete_uids = uids_where is_delete plan;
          flag_add = uids_by_key (map_option imap_flag \<circ> flag_value) plan;
          flag_remove = uids_by_key (map_option imap_flag \<circ> unflag_value) plan;
          mark_read_uids = uids_where is_mark_read plan;
          mark_unread_uids = uids_where is_mark_unread plan;
          delete_remaining = filter (\<lambda>u. \<not> list_ex (\<lambda>(_, moved). u \<in> set moved) move_targets) delete_uids
      in unless_empty mark_read_uids (ImapSetFlags mark_read_uids [CHR 0x5C # ''Seen''] True)
       @ unless_empty mark_unread_uids (ImapSetFlags mark_unread_uids [CHR 0x5C # ''Seen''] False)
       @ map (\<lambda>(fl, uids). ImapSetFlags uids [fl] True) (iter flag_add)
       @ map (\<lambda>(fl, uids). ImapSetFlags uids [fl] False) (iter flag_remove)
       @ map (\<lambda>(target, uids). ImapCopy uids target) (iter copy_targets)
       @ map (\<lambda>(target, uids). ImapMove uids target) (iter move_targets)
       @ unless_empty delete_remaining (ImapDelete delete_remaining))"

text \<open>Commands run until the first error; the second component lists those that were sent.\<close>

fun run_commands :: "('c \<Rightarrow> unit result) \<Rightarrow> 'c list \<Rightarrow> unit result \<times> 'c list" where
  "run_commands exec [] = (Inr (), [])"
| "run_commands exec (c # cs) =
     (case exec c of
        Inl e \<Rightarrow> (Inl e, [c])
      | Inr _ \<Rightarrow> (case run_commands exec cs of (r, sent) \<Rightarrow> (r, c # sent)))"

definition ids_where :: "(FilterAction \<Rightarrow> bool) \<Rightarrow> action_plan \<Rightarrow> string list" where
  "ids_where p plan = concat (map (\<lambda>(msg, actions). map (\<lambda>_. msg_id msg) (filter p actions)) plan)"

definition execute_imap_filter_actions ::
    "((string \<times> u32 list) list \<Rightarrow> (string \<times> u32 list) list) \<Rightarrow> unit result \<Rightarrow> unit result
      \<Rightarrow> (imap_command \<Rightarrow> unit result) \<Rightarrow> action_plan \<Rightarrow> ExecutionResult result" where
  "execute_imap_filter_actions iter credentials connected exec plan =
     and_then credentials (\<lambda>_. and_then connected (\<lambda>_.
       and_then (fst (run_commands exec (imap_commands iter plan))) (\<lambda>_.
         Inr (no_result\<lparr>moved_db_ids := ids_where (\<lambda>a. graph_move a \<noteq> None) plan,
                        deleted_db_ids := ids_where is_delete plan\<rparr>))))"

section \<open>JMAP\<close>

datatype jmap_call =
    JmapSetFlags "string list" "string list" bool
  | JmapMove "string list" string string
  | JmapDelete "string list"

definition jmap_email_id :: "string \<Rightarrow> MessageData \<Rightarrow> string option" where
  "jmap_email_id account_id msg =
     Option.bind (jmap_from_db_id account_id (msg_folder_path msg) (msg_id msg)) into_jmap_email_id"

text \<open>The planned actions of the messages whose id is well formed, with that id.\<close>

definition jmap_plan :: "string \<Rightarrow> action_plan \<Rightarrow> (string \<times> string \<times> FilterAction list) list" where
  "jmap_plan account_id plan =
     List.map_filter (\<lambda>(msg, actions). map_option (\<lambda>j. (msg_id msg, j, actions)) (jmap_email_id account_id msg)) plan"

definition jmap_by_key :: "(FilterAction \<Rightarrow> string option) \<Rightarrow> (string \<times> string \<times> FilterAction list) list \<Rightarrow> string groups" where
  "jmap_by_key key items =
     group_entries (concat (map (\<lambda>(db_id, j, actions).
       map (\<lambda>k. (k, (db_id, j))) (List.map_filter key actions)) items))"

definition jmap_where :: "(FilterAction \<Rightarrow> bool) \<Rightarrow> (string \<times> string \<times> FilterAction list) list \<Rightarrow> (string \<times> string) list" where
  "jmap_where p items = concat (map (\<lambda>(db_id, j, actions). map (\<lambda>_. (db_id, j)) (filter p actions)) items)"

definition jmap_set_flags :: "(string \<times> string) list \<Rightarrow> string \<Rightarrow> bool \<Rightarrow> jmap_call list" where
  "jmap_set_flags items flag add = (if items = [] then [] else [JmapSetFlags (map snd items) [flag] add])"

definition jmap_calls :: "(string groups \<Rightarrow> string groups) \<Rightarrow> string \<Rightarrow> (string \<times> string \<times> FilterAction list) list \<Rightarrow> jmap_call list" where
  "jmap_calls iter folder_path items =
     (let moves = iter (jmap_by_key graph_move items);
          moved = map fst (concat (map snd moves));
          to_delete = filter (\<lambda>(db_id, _). db_id \<notin> set moved) (jmap_where is_delete items)
      in jmap_set_flags (jmap_where is_mark_read items) ''seen'' True
       @ jmap_set_flags (jmap_where is_mark_unread items) ''seen'' False
       @ map (\<lambda>(fl, ids). JmapSetFlags (map snd ids) [fl] True) (iter (jmap_by_key flag_value items))
       @ map (\<lambda>(fl, ids). JmapSetFlags (map snd ids) [fl] False) (iter (jmap_by_key unflag_value items))
       @ map (\<lambda>(target, ids). JmapMove (map snd ids) folder_path target) moves
       @ (if to_delete = [] then [] else [JmapDelete (map snd to_delete)]))"

definition execute_jmap_filter_actions ::
    "(string groups \<Rightarrow> string groups) \<Rightarrow> unit result \<Rightarrow> (jmap_call \<Rightarrow> unit result) \<Rightarrow> string \<Rightarrow> string
      \<Rightarrow> action_plan \<Rightarrow> ExecutionResult result" where
  "execute_jmap_filter_actions iter connected exec account_id folder_path plan =
     and_then connected (\<lambda>_.
       let items = jmap_plan account_id plan;
           moved = map fst (concat (map snd (iter (jmap_by_key graph_move items))));
           to_delete = filter (\<lambda>(db_id, _). db_id \<notin> set moved) (jmap_where is_delete items)
       in and_then (fst (run_commands exec (jmap_calls iter folder_path items))) (\<lambda>_.
            Inr (no_result\<lparr>moved_db_ids := moved, deleted_db_ids := map fst to_delete\<rparr>)))"

section \<open>Entry points\<close>

text \<open>
  What the entry points get from the database and the providers: the account's rules, the
  messages, its mail protocol, the answers of the executors, and the deletion of local rows.
\<close>

record filter_env =
  account_rules :: "FilterRule list result"
  folder_messages :: "MessageData list result"
  messages_by_ids :: "string list \<Rightarrow> MessageData list result"
  mail_protocol :: "string result"
  run_graph :: "action_plan \<Rightarrow> ExecutionResult result"
  run_jmap :: "action_plan \<Rightarrow> ExecutionResult result"
  run_imap :: "action_plan \<Rightarrow> ExecutionResult result"
  delete_messages_by_ids :: "string list \<Rightarrow> unit result"

text \<open>\<^verbatim>\<open>sort\<close> followed by \<^verbatim>\<open>dedup\<close>.\<close>

definition sorted_dedup :: "string list \<Rightarrow> string list" where
  "sorted_dedup xs = remdups_adj (sort xs)"

definition prune_rows :: "filter_env \<Rightarrow> ExecutionResult \<Rightarrow> unit result" where
  "prune_rows env res =
     (let to_remove = sorted_dedup (moved_db_ids res @ deleted_db_ids res)
      in if to_remove = [] then Inr () else delete_messages_by_ids env to_remove)"

text \<open>The message of a partial failure.\<close>

definition partial_failure :: "ExecutionResult \<Rightarrow> u32 \<Rightarrow> error" where
  "partial_failure res affected_count =
     Other (show_nat (length (errors res)) @ '' failure(s) across '' @ show_nat (unat affected_count)
            @ '' matched message(s) ('' @ show_nat (length (moved_db_ids res) + length (deleted_db_ids res))
            @ '' server-confirmed change(s)); first: '' @ hd (errors res))"

definition apply_filters_to_folder :: "regex \<Rightarrow> filter_env \<Rightarrow> string \<Rightarrow> u32 result" where
  "apply_filters_to_folder rx env account_id =
     and_then (account_rules env) (\<lambda>rules.
     let enabled_rules = filter rule_enabled rules in
     if enabled_rules = [] then Inr 0
     else and_then (folder_messages env) (\<lambda>messages.
     if messages = [] then Inr 0
     else and_then (mail_protocol env) (\<lambda>protocol.
     let plan = build_filter_action_plan rx enabled_rules messages in
     if plan = [] then Inr 0
     else if protocol = '''' then Inr 0
     else and_then
       (if protocol = ''graph'' then run_graph env plan
        else if protocol = ''jmap'' then run_jmap env plan
        else if protocol = ''imap'' then run_imap env plan
        else Inl (Other (''Unknown mail protocol '' @ [CHR 0x27] @ protocol @ [CHR 0x27] @ '' for account '' @ account_id)))
       (\<lambda>res. and_then (prune_rows env res) (\<lambda>_.
          if errors res \<noteq> [] then Inl (partial_failure res (word_of_nat (length plan)))
          else Inr (word_of_nat (length plan)))))))"

record FilterPassOutcome =
  affected :: u32
  pass_failed_db_ids :: "string list"

definition no_pass :: FilterPassOutcome where
  "no_pass = \<lparr>affected = 0, pass_failed_db_ids = []\<rparr>"

definition apply_filters_to_new_messages :: "regex \<Rightarrow> filter_env \<Rightarrow> string list \<Rightarrow> FilterPassOutcome result" where
  "apply_filters_to_new_messages rx env new_ids =
     (if new_ids = [] then Inr no_pass
      else and_then (account_rules env) (\<lambda>rules.
      let enabled_rules = filter rule_enabled rules in
      if enabled_rules = [] then Inr no_pass
      else and_then (messages_by_ids env new_ids) (\<lambda>messages.
      if messages = [] then Inr no_pass
      else and_then (mail_protocol env) (\<lambda>protocol.
      let plan = build_filter_action_plan rx enabled_rules messages in
      if plan = [] then Inr no_pass
      else if protocol = ''jmap'' \<or> protocol = ''graph''
      then (case (if protocol = ''jmap'' then run_jmap env plan else run_graph env plan) of
              Inl e \<Rightarrow> Inr \<lparr>affected = 0, pass_failed_db_ids = map (msg_id \<circ> fst) plan\<rparr>
            | Inr res \<Rightarrow> and_then (prune_rows env res) (\<lambda>_.
                Inr \<lparr>affected = word_of_nat (length plan), pass_failed_db_ids = sorted_dedup (failed_db_ids res)\<rparr>))
      else Inr no_pass))))"


section \<open>Accounting of a Graph execution\<close>

definition accounted_ids :: "ExecutionResult \<Rightarrow> string set" where
  "accounted_ids res = set (moved_db_ids res) \<union> set (deleted_db_ids res) \<union> set (failed_db_ids res)"

definition pruned_ids :: "ExecutionResult \<Rightarrow> string set" where
  "pruned_ids res = set (moved_db_ids res) \<union> set (deleted_db_ids res)"

lemmas id_sets = accounted_ids_def pruned_ids_def

text \<open>The client answers with one outcome per requested message.\<close>

definition answers_each :: "graph_client \<Rightarrow> bool" where
  "answers_each client \<longleftrightarrow>
     (\<forall>ids target os. move_messages_batch client ids target = Inr os \<longrightarrow> length os = length ids)
   \<and> (\<forall>ids os. delete_messages_batch client ids = Inr os \<longrightarrow> length os = length ids)"

lemma record_move_ids:
  "accounted_ids (record_move ((d, g), oc) res) = insert d (accounted_ids res)"
  "pruned_ids (record_move ((d, g), oc) res) \<subseteq> insert d (pruned_ids res)"
  by (auto simp: record_move_def id_sets split: sum.splits)

lemma record_delete_ids:
  "accounted_ids (record_delete ((d, g), oc) res) = insert d (accounted_ids res)"
  "pruned_ids (record_delete ((d, g), oc) res) \<subseteq> insert d (pruned_ids res)"
  by (auto simp: record_delete_def id_sets split: sum.splits)

text \<open>Recording one outcome per item accounts for every item, and prunes items only.\<close>

lemma fold_record_ids:
  assumes "\<And>d g oc res. accounted_ids (rec ((d, g), oc) res) = insert d (accounted_ids res)"
    and "\<And>d g oc res. pruned_ids (rec ((d, g), oc) res) \<subseteq> insert d (pruned_ids res)"
    and "length os = length items"
  shows "accounted_ids (fold rec (zip items os) res) = accounted_ids res \<union> fst ` set items"
    and "pruned_ids (fold rec (zip items os) res) \<subseteq> pruned_ids res \<union> fst ` set items"
proof -
  have "accounted_ids (fold rec (zip items os) res) = accounted_ids res \<union> fst ` set items
      \<and> pruned_ids (fold rec (zip items os) res) \<subseteq> pruned_ids res \<union> fst ` set items"
    using assms(3) [symmetric]
  proof (induction items os arbitrary: res rule: list_induct2)
    case (Cons it items oc os)
    obtain d g where it: "it = (d, g)" by (cases it)
    have "accounted_ids (rec ((d, g), oc) res) = insert d (accounted_ids res)"
      "pruned_ids (rec ((d, g), oc) res) \<subseteq> insert d (pruned_ids res)"
      using assms(1,2) by blast+
    with Cons.IH [of "rec ((d, g), oc) res"] show ?case by (auto simp: it)
  qed simp
  then show "accounted_ids (fold rec (zip items os) res) = accounted_ids res \<union> fst ` set items"
    and "pruned_ids (fold rec (zip items os) res) \<subseteq> pruned_ids res \<union> fst ` set items" by blast+
qed

lemma graph_move_group_ids:
  assumes "answers_each client"
  shows "accounted_ids (graph_move_group client (target, items) res) = accounted_ids res \<union> fst ` set items"
    and "pruned_ids (graph_move_group client (target, items) res) \<subseteq> pruned_ids res \<union> fst ` set items"
proof -
  have "length os = length items" if "move_messages_batch client (map snd items) target = Inr os" for os
    using assms that unfolding answers_each_def by fastforce
  then show "accounted_ids (graph_move_group client (target, items) res) = accounted_ids res \<union> fst ` set items"
    and "pruned_ids (graph_move_group client (target, items) res) \<subseteq> pruned_ids res \<union> fst ` set items"
    using fold_record_ids [OF record_move_ids, of _ items res]
    by (auto simp: graph_move_group_def id_sets split: sum.splits)
qed

lemma graph_move_groups_ids:
  assumes "answers_each client"
  shows "accounted_ids (fold (graph_move_group client) groups res) = accounted_ids res \<union> (\<Union>(t, items) \<in> set groups. fst ` set items)"
    and "pruned_ids (fold (graph_move_group client) groups res) \<subseteq> pruned_ids res \<union> (\<Union>(t, items) \<in> set groups. fst ` set items)"
proof -
  have "accounted_ids (fold (graph_move_group client) groups res) = accounted_ids res \<union> (\<Union>(t, items) \<in> set groups. fst ` set items)
    \<and> pruned_ids (fold (graph_move_group client) groups res) \<subseteq> pruned_ids res \<union> (\<Union>(t, items) \<in> set groups. fst ` set items)"
  proof (induction groups arbitrary: res)
    case (Cons grp groups)
    obtain t items where grp: "grp = (t, items)" by (cases grp)
    show ?case
      using Cons.IH [of "graph_move_group client (t, items) res"] graph_move_group_ids [OF assms, of t items res]
      by (auto simp: grp)
  qed simp
  then show "accounted_ids (fold (graph_move_group client) groups res) = accounted_ids res \<union> (\<Union>(t, items) \<in> set groups. fst ` set items)"
    and "pruned_ids (fold (graph_move_group client) groups res) \<subseteq> pruned_ids res \<union> (\<Union>(t, items) \<in> set groups. fst ` set items)"
    by blast+
qed

lemma graph_deletes_ids:
  assumes "answers_each client"
  shows "accounted_ids (graph_deletes client deletes res) = accounted_ids res \<union> fst ` set deletes"
    and "pruned_ids (graph_deletes client deletes res) \<subseteq> pruned_ids res \<union> fst ` set deletes"
proof -
  define td where "td = filter (\<lambda>(db_id, _). db_id \<notin> set (moved_db_ids res)) deletes"
  have td: "fst ` set td \<subseteq> fst ` set deletes" "accounted_ids res \<union> fst ` set td = accounted_ids res \<union> fst ` set deletes"
    by (force simp: td_def id_sets)+
  have len: "length os = length td" if "delete_messages_batch client (map snd td) = Inr os" for os
    using assms that unfolding answers_each_def by fastforce
  have "accounted_ids (graph_deletes client deletes res) = accounted_ids res \<union> fst ` set td
      \<and> pruned_ids (graph_deletes client deletes res) \<subseteq> pruned_ids res \<union> fst ` set td"
    using fold_record_ids [OF record_delete_ids len, of _ res]
    by (auto simp: graph_deletes_def td_def [symmetric] Let_def id_sets split: sum.splits)
  with td show "accounted_ids (graph_deletes client deletes res) = accounted_ids res \<union> fst ` set deletes"
    and "pruned_ids (graph_deletes client deletes res) \<subseteq> pruned_ids res \<union> fst ` set deletes" by blast+
qed


lemma read_status_pruned [simp]: "pruned_ids (graph_read_status client label flag items res) = pruned_ids res"
proof -
  have "pruned_ids (foldl (\<lambda>res ((db_id, graph_id), outcome).
      case outcome of
        Inl e \<Rightarrow> res\<lparr>errors := errors res @ [label @ '' '' @ graph_id @ '': '' @ error_to_string e],
                     failed_db_ids := failed_db_ids res @ [db_id]\<rparr>
      | Inr _ \<Rightarrow> res) r ios) = pruned_ids r" for ios :: "((string \<times> string) \<times> unit result) list" and r
    by (induction ios arbitrary: r) (auto simp: id_sets split: sum.splits)
  then show ?thesis
    by (auto simp: graph_read_status_def record_read_status_def id_sets split: sum.splits)
qed

text \<open>The first planned move of each message.\<close>

lemma first_moves_find:
  "(d, g, t) \<in> set (first_moves seen moves) \<longleftrightarrow>
     d \<notin> set seen \<and> find (\<lambda>(d', _). d' = d) moves = Some (d, g, t)"
  by (induction seen moves rule: first_moves.induct) auto

lemma first_moves_covers:
  "(d, g, t) \<in> set moves \<Longrightarrow> \<exists>g' t'. (d, g', t') \<in> set (first_moves [] moves)"
proof -
  assume "(d, g, t) \<in> set moves"
  then have "find (\<lambda>(d', _). d' = d) moves \<noteq> None" by (induction moves) auto
  then obtain p where p: "find (\<lambda>(d', _). d' = d) moves = Some p" by blast
  then have "fst p = d" by (induction moves) (auto split: if_splits)
  with p show ?thesis by (cases p) (auto simp: first_moves_find)
qed

lemma moves_by_target_pairs:
  "(\<exists>items. (t, items) \<in> set (moves_by_target moves) \<and> (d, g) \<in> set items) \<longleftrightarrow> (d, g, t) \<in> set (first_moves [] moves)"
  unfolding moves_by_target_def group_entries_pairs by force

lemma moves_by_target_ids: "(\<Union>(t, items) \<in> set (moves_by_target moves). fst ` set items) = fst ` set moves"
proof
  show "(\<Union>(t, items) \<in> set (moves_by_target moves). fst ` set items) \<subseteq> fst ` set moves"
  proof clarsimp
    fix t items d g assume "(t, items) \<in> set (moves_by_target moves)" "(d, g) \<in> set items"
    then have "(d, g, t) \<in> set (first_moves [] moves)" using moves_by_target_pairs by blast
    then have "(d, g, t) \<in> set moves"
      by (auto simp: first_moves_find) (metis (no_types, lifting) find_Some_iff nth_mem)
    then show "d \<in> fst ` set moves" by force
  qed
  show "fst ` set moves \<subseteq> (\<Union>(t, items) \<in> set (moves_by_target moves). fst ` set items)"
  proof clarsimp
    fix d g t assume "(d, g, t) \<in> set moves"
    then obtain g' t' where "(d, g', t') \<in> set (first_moves [] moves)" using first_moves_covers by blast
    then obtain items where "(t', items) \<in> set (moves_by_target moves)" "(d, g') \<in> set items"
      using moves_by_target_pairs by blast
    then show "\<exists>x \<in> set (moves_by_target moves). d \<in> (case x of (t, items) \<Rightarrow> fst ` set items)" by force
  qed
qed

definition has_removal :: "action_plan \<Rightarrow> string \<Rightarrow> bool" where
  "has_removal plan d \<longleftrightarrow>
     (\<exists>p \<in> set plan. msg_id (fst p) = d \<and> (\<exists>a \<in> set (snd p). graph_move a \<noteq> None \<or> is_delete a))"

lemma planned_moves_ids:
  "fst ` set (planned_moves account_id plan)
     = (\<Union>p \<in> set plan. if \<exists>a \<in> set (snd p). graph_move a \<noteq> None then {msg_id (fst p)} else {})"
proof -
  have "fst ` set (map (\<lambda>target. (i, g, target)) xs) = (if xs = [] then {} else {i})" for i g :: string and xs :: "string list"
    by (cases xs) auto
  moreover have "List.map_filter graph_move actions = [] \<longleftrightarrow> \<not> (\<exists>a \<in> set actions. graph_move a \<noteq> None)" for actions
    by (induction actions) (auto simp: List.map_filter_def)
  ultimately show ?thesis
    by (simp add: planned_moves_def image_UN case_prod_unfold)
qed

lemma planned_pairs_ids:
  "fst ` set (planned_pairs account_id q plan)
     = (\<Union>p \<in> set plan. if \<exists>a \<in> set (snd p). q a then {msg_id (fst p)} else {})"
proof -
  have "fst ` set (map (\<lambda>_. (i, g)) (filter q actions)) = (if \<exists>a \<in> set actions. q a then {i} else {})"
    for i g :: string and actions
    by (induction actions) auto
  then show ?thesis
    by (simp add: planned_pairs_def image_UN case_prod_unfold)
qed

lemma removal_ids:
  "fst ` set (planned_moves account_id plan) \<union> fst ` set (planned_pairs account_id is_delete plan)
     = {d. has_removal plan d}"
  unfolding has_removal_def planned_moves_ids planned_pairs_ids
  by (auto split: if_splits)

section \<open>Properties\<close>

text \<open>C20: A Graph filter run accounts for every planned move and delete. Whatever the server
  answers and in whatever order the targets are tried, each message with a planned move or
  delete is reported as moved, deleted or failed, and local rows are pruned only for such
  messages.\<close>

theorem graph_run_accounts_for_plan:
  assumes "execute_graph_filter_actions iter (Inr client) account_id plan = Inr res"
    and "answers_each client" and "\<forall>m. mset (iter m) = mset m"
  shows "{d. has_removal plan d} \<subseteq> accounted_ids res \<and> pruned_ids res \<subseteq> {d. has_removal plan d}"
proof -
  define r0 where "r0 = graph_read_status client ''mark-unread'' False (planned_pairs account_id graph_mark_unread plan)
      (graph_read_status client ''mark-read'' True (planned_pairs account_id graph_mark_read plan) no_result)"
  define groups where "groups = iter (moves_by_target (planned_moves account_id plan))"
  define r1 where "r1 = fold (graph_move_group client) groups r0"
  have res: "res = graph_deletes client (planned_pairs account_id is_delete plan) r1"
    using assms(1) by (simp add: execute_graph_filter_actions_def r0_def r1_def groups_def)
  have "set groups = set (moves_by_target (planned_moves account_id plan))"
    using assms(3) unfolding groups_def by (metis set_mset_mset)
  then have ids: "(\<Union>(t, items) \<in> set groups. fst ` set items) = fst ` set (planned_moves account_id plan)"
    by (simp add: moves_by_target_ids)
  have "pruned_ids r0 = {}" by (simp add: r0_def) (simp add: pruned_ids_def no_result_def)
  then have r1: "fst ` set (planned_moves account_id plan) \<subseteq> accounted_ids r1"
    "pruned_ids r1 \<subseteq> fst ` set (planned_moves account_id plan)"
    using graph_move_groups_ids [OF assms(2), of groups r0] ids by (auto simp: r1_def)
  show ?thesis
    using graph_deletes_ids [OF assms(2), of "planned_pairs account_id is_delete plan" r1] r1
    unfolding res removal_ids [of account_id plan, symmetric] by blast
qed

text \<open>On Graph the first planned move of a message decides its destination: a message is put
  in the batch of a target exactly when its first planned move names that target, so it is in
  one batch only.\<close>

theorem graph_first_move_wins:
  "(\<exists>items. (t, items) \<in> set (moves_by_target moves) \<and> (d, g) \<in> set items)
     \<longleftrightarrow> find (\<lambda>(d', _). d' = d) moves = Some (d, g, t)"
  by (simp add: moves_by_target_pairs first_moves_find)

text \<open>On IMAP the first planned move does not decide: for a message with two planned moves
  both moves are sent, in whatever order the targets are iterated.\<close>

theorem imap_sends_both_moves:
  assumes "\<forall>m. mset (iter m) = mset m" and "a \<noteq> b"
  shows "{ImapMove [msg_uid msg] a, ImapMove [msg_uid msg] b} \<subseteq> set (imap_commands iter [(msg, [Move a, Move b])])"
proof -
  have "uids_by_key graph_move [(msg, [Move a, Move b])] = [(a, [msg_uid msg]), (b, [msg_uid msg])]"
    using assms(2) by (simp add: uids_by_key_def List.map_filter_def group_entries_def)
  then have "set (iter (uids_by_key graph_move [(msg, [Move a, Move b])])) = {(a, [msg_uid msg]), (b, [msg_uid msg])}"
    using assms(1) by (metis set_mset_mset list.set(1) list.simps(15))
  then show ?thesis by (auto simp: imap_commands_def Let_def image_iff)
qed


subsection \<open>Chunked loading\<close>

lemma filter_by_chunks:
  "distinct (concat css) \<Longrightarrow>
     mset (concat (map (\<lambda>c. filter (\<lambda>r. P r \<and> f r \<in> set c) table) css))
       = mset (filter (\<lambda>r. P r \<and> f r \<in> set (concat css)) table)"
proof (induction css)
  case (Cons c css)
  then have disj: "set c \<inter> set (concat css) = {}" and IH: "distinct (concat css)" by auto
  have "mset (filter (\<lambda>r. P r \<and> f r \<in> set c) table) + mset (filter (\<lambda>r. P r \<and> f r \<in> set (concat css)) table)
      = mset (filter (\<lambda>r. P r \<and> f r \<in> set c \<union> set (concat css)) table)"
    using disj by (induction table) auto
  with Cons.IH [OF IH] show ?case by simp
qed simp

text \<open>Loading messages in chunks of at most 900 ids, to stay below SQLite's limit on bound
  parameters, finds the same messages, each once, as one query with all the ids would; no query
  has more than 902 parameters.\<close>

theorem load_by_ids_chunked:
  assumes "distinct ids"
  shows "mset (load_messages_by_ids x table account_id folder_path ids)
      = mset (map (message_from_row x)
          (filter (\<lambda>r. (mrow_account r = account_id \<and> mrow_folder r = folder_path) \<and> mrow_id r \<in> set ids) table))
    \<and> list_all (\<lambda>c. length c + 2 \<le> 902) (chunks MAX_IN_PARAMS ids)"
proof -
  let ?P = "\<lambda>r. mrow_account r = account_id \<and> mrow_folder r = folder_path"
  have cc: "concat (chunks MAX_IN_PARAMS ids) = ids" by (simp add: concat_chunks MAX_IN_PARAMS_def)
  have chunk: "load_messages_by_ids_chunk x table account_id folder_path
      = (\<lambda>c. map (message_from_row x) (filter (\<lambda>r. ?P r \<and> mrow_id r \<in> set c) table))"
    by (rule ext) (auto simp: load_messages_by_ids_chunk_def)
  have "load_messages_by_ids x table account_id folder_path ids
      = map (message_from_row x) (concat (map (\<lambda>c. filter (\<lambda>r. ?P r \<and> mrow_id r \<in> set c) table) (chunks MAX_IN_PARAMS ids)))"
    by (simp add: load_messages_by_ids_def chunk map_concat o_def)
  moreover have "distinct (concat (chunks MAX_IN_PARAMS ids))" using assms cc by simp
  ultimately have "mset (load_messages_by_ids x table account_id folder_path ids)
      = image_mset (message_from_row x) (mset (filter (\<lambda>r. ?P r \<and> mrow_id r \<in> set ids) table))"
    using filter_by_chunks [of "chunks MAX_IN_PARAMS ids" ?P mrow_id table] cc by (simp only: mset_map)
  moreover have "list_all (\<lambda>c. length c + 2 \<le> 902) (chunks MAX_IN_PARAMS ids)"
    by (auto simp: list_all_iff MAX_IN_PARAMS_def dest!: chunks_size)
  ultimately show ?thesis by simp
qed

section \<open>Witnesses\<close>

definition sample_message :: "string \<Rightarrow> MessageData" where
  "sample_message i = \<lparr>msg_id = i, msg_uid = 7, msg_folder_path = ''INBOX'', msg_from_name = None,
     msg_from_email = ''alice@example.com'', msg_to_addresses = [], msg_cc_addresses = [], msg_subject = None,
     msg_size = 0, msg_has_attachments = False, msg_flags = []\<rparr>"

definition sample_client :: graph_client where
  "sample_client = \<lparr>set_read_status_batch = (\<lambda>_ _. Inr []),
     move_messages_batch = (\<lambda>ids _. Inr (map (\<lambda>_. Inl (Other ''HTTP 404: ErrorItemNotFound'')) ids)),
     delete_messages_batch = (\<lambda>_. Inl (Other ''offline''))\<rparr>"

theorem graph_run_accounts_for_plan_witness:
  "\<exists>res. execute_graph_filter_actions rev (Inr sample_client) ''a''
           [(sample_message ''a_m1'', [Move ''Archive'', Move ''Old'']), (sample_message ''a_m2'', [Delete])] = Inr res
     \<and> {''a_m1'', ''a_m2''} \<subseteq> accounted_ids res"
proof -
  let ?plan = "[(sample_message ''a_m1'', [Move ''Archive'', Move ''Old'']), (sample_message ''a_m2'', [Delete])]"
  have "answers_each sample_client" by (simp add: answers_each_def sample_client_def)
  moreover obtain res where run: "execute_graph_filter_actions rev (Inr sample_client) ''a'' ?plan = Inr res"
    by (simp add: execute_graph_filter_actions_def)
  moreover have "\<forall>m :: string groups. mset (rev m) = mset m" by simp
  ultimately have "{d. has_removal ?plan d} \<subseteq> accounted_ids res"
    using graph_run_accounts_for_plan [of rev sample_client "''a''" ?plan res] by blast
  moreover have "has_removal ?plan ''a_m1''" "has_removal ?plan ''a_m2''"
    by (auto simp: has_removal_def sample_message_def)
  ultimately show ?thesis using run by blast
qed

theorem imap_sends_both_moves_witness:
  "{ImapMove [7] ''Archive'', ImapMove [7] ''Old''}
     \<subseteq> set (imap_commands rev [(sample_message ''m'', [Move ''Archive'', Move ''Old''])])"
  using imap_sends_both_moves [of rev "''Archive''" "''Old''" "sample_message ''m''"]
  by (simp add: sample_message_def)

definition plain_externals :: externals where
  "plain_externals = \<lparr>json_text = (\<lambda>_. []), json_parse = (\<lambda>_. None), b64_encode = (\<lambda>_. []),
     b64_decode = (\<lambda>_. None), hash_iter = (\<lambda>m. m)\<rparr>"

definition sample_mrow :: "string \<Rightarrow> message_row" where
  "sample_mrow i = \<lparr>mrow_account = ''a'', mrow_id = i, mrow_uid = 7, mrow_folder = ''INBOX'', mrow_from_name = None,
     mrow_from_email = ''alice@example.com'', mrow_to = ''[]'', mrow_cc = ''[]'', mrow_subject = None, mrow_size = 0,
     mrow_has_attachments = False, mrow_flags = ''[]''\<rparr>"

theorem load_by_ids_chunked_witness:
  "mset (load_messages_by_ids plain_externals [sample_mrow ''m1'', sample_mrow ''m3''] ''a'' ''INBOX'' [''m1'', ''m2''])
     = {#message_from_row plain_externals (sample_mrow ''m1'')#}"
  using load_by_ids_chunked [of "[''m1'', ''m2'']" plain_externals "[sample_mrow ''m1'', sample_mrow ''m3'']" "''a''" "''INBOX''"]
  by (simp add: sample_mrow_def)

end
