(* ===== verification/Contact_Plan.thy ===== *)
theory Contact_Plan
  imports Error_Model "HOL-Library.Multiset"
begin

text \<open>
  The pure part of \<^verbatim>\<open>contact/reconcile.rs\<close>: patches of remote contacts, the validation of
  complete snapshots and of deltas, the matching of remote records with local rows, and the
  three-way plan between the rows captured before the download (the baseline), the rows found
  in the transaction that applies it (current), and the remote state. Hash sets are lists used
  through membership, hash maps are maps; \<^verbatim>\<open>usize\<close> counters are naturals.
\<close>

section \<open>Data\<close>

datatype 'a RemoteField = Preserve | SetField 'a

fun resolve :: "'a RemoteField \<Rightarrow> 'a \<Rightarrow> 'a" where
  "resolve Preserve preserved = preserved"
| "resolve (SetField v) preserved = v"

record RemoteContactPatch =
  p_uid :: "string option RemoteField"
  p_display_name :: "string RemoteField"
  p_emails_json :: "string RemoteField"
  p_phones_json :: "string RemoteField"
  p_addresses_json :: "string RemoteField"
  p_organization :: "string option RemoteField"
  p_title :: "string option RemoteField"
  p_notes :: "string option RemoteField"
  p_vcard_data :: "string option RemoteField"
  p_remote_id :: "string option RemoteField"
  p_etag :: "string option RemoteField"

record ContactValues =
  v_uid :: "string option"
  v_display_name :: string
  v_emails_json :: string
  v_phones_json :: string
  v_addresses_json :: string
  v_organization :: "string option"
  v_title :: "string option"
  v_notes :: "string option"
  v_vcard_data :: "string option"
  v_remote_id :: "string option"
  v_etag :: "string option"

record StoredContact =
  contact_id :: string
  contact_book :: string
  contact_values :: ContactValues
  created_at :: string
  updated_at :: string

section \<open>Patches\<close>

text \<open>The text a field holds, when it is set and not blank.\<close>

definition nonblank :: "string option \<Rightarrow> string option" where
  "nonblank v = (case v of None \<Rightarrow> None | Some s \<Rightarrow> if is_blank s then None else Some s)"

definition validated_remote_id :: "RemoteContactPatch \<Rightarrow> string result" where
  "validated_remote_id p =
     (case p_remote_id p of
        SetField (Some remote_id) \<Rightarrow>
          if \<not> is_blank remote_id then Inr remote_id
          else Inl (Sync_error ''complete contact snapshot contains a missing remote ID'')
      | _ \<Rightarrow> Inl (Sync_error ''complete contact snapshot contains a missing remote ID''))"

definition apply_patch :: "RemoteContactPatch \<Rightarrow> ContactValues \<Rightarrow> ContactValues" where
  "apply_patch p v =
     \<lparr>v_uid = resolve (p_uid p) (v_uid v),
      v_display_name = resolve (p_display_name p) (v_display_name v),
      v_emails_json = resolve (p_emails_json p) (v_emails_json v),
      v_phones_json = resolve (p_phones_json p) (v_phones_json v),
      v_addresses_json = resolve (p_addresses_json p) (v_addresses_json v),
      v_organization = resolve (p_organization p) (v_organization v),
      v_title = resolve (p_title p) (v_title v),
      v_notes = resolve (p_notes p) (v_notes v),
      v_vcard_data = resolve (p_vcard_data p) (v_vcard_data v),
      v_remote_id = resolve (p_remote_id p) (v_remote_id v),
      v_etag = resolve (p_etag p) (v_etag v)\<rparr>"

definition insert_values :: "RemoteContactPatch \<Rightarrow> ContactValues" where
  "insert_values p = apply_patch p
     \<lparr>v_uid = None, v_display_name = [], v_emails_json = ''[]'', v_phones_json = ''[]'',
      v_addresses_json = ''[]'', v_organization = None, v_title = None, v_notes = None,
      v_vcard_data = None, v_remote_id = None, v_etag = None\<rparr>"

section \<open>Complete snapshots\<close>

record SnapshotRecord =
  s_remote_id :: string
  s_uid :: "string option"
  s_patch :: RemoteContactPatch

datatype SnapshotMatchPolicy = RemoteIdOnly | RemoteIdThenUid

record CompleteRemoteIdSnapshot =
  snap_records :: "SnapshotRecord list"
  snap_policy :: SnapshotMatchPolicy

text \<open>The UID of a patch under the UID-aware policy, checked against the UIDs seen so far.\<close>

definition snapshot_uid :: "SnapshotMatchPolicy \<Rightarrow> string list \<Rightarrow> RemoteContactPatch \<Rightarrow> string option result" where
  "snapshot_uid policy remote_uids patch =
     (case policy of
        RemoteIdOnly \<Rightarrow> Inr None
      | RemoteIdThenUid \<Rightarrow>
          (case p_uid patch of
             SetField (Some uid) \<Rightarrow>
               if is_blank uid then Inl (Sync_error ''UID-aware contact snapshot contains a missing UID'')
               else if uid \<in> set remote_uids
               then Inl (Sync_error ''UID-aware contact snapshot contains a duplicate UID'')
               else Inr (Some uid)
           | _ \<Rightarrow> Inl (Sync_error ''UID-aware contact snapshot contains a missing UID'')))"

fun snapshot_records ::
  "SnapshotMatchPolicy \<Rightarrow> string list \<Rightarrow> string list \<Rightarrow> RemoteContactPatch list \<Rightarrow> SnapshotRecord list result" where
  "snapshot_records policy remote_ids remote_uids [] = Inr []"
| "snapshot_records policy remote_ids remote_uids (patch # patches) =
     and_then (validated_remote_id patch) (\<lambda>remote_id.
       if remote_id \<in> set remote_ids
       then Inl (Sync_error (''complete contact snapshot contains duplicate remote ID '' @ debug_str remote_id))
       else and_then (snapshot_uid policy remote_uids patch) (\<lambda>uid.
         and_then (snapshot_records policy (remote_id # remote_ids)
             (case uid of None \<Rightarrow> remote_uids | Some u \<Rightarrow> u # remote_uids) patches) (\<lambda>records.
           Inr (\<lparr>s_remote_id = remote_id, s_uid = uid, s_patch = patch\<rparr> # records))))"

definition with_match_policy :: "RemoteContactPatch list \<Rightarrow> SnapshotMatchPolicy \<Rightarrow> CompleteRemoteIdSnapshot result" where
  "with_match_policy patches policy =
     and_then (snapshot_records policy [] [] patches)
       (\<lambda>records. Inr \<lparr>snap_records = records, snap_policy = policy\<rparr>)"

definition new_snapshot :: "RemoteContactPatch list \<Rightarrow> CompleteRemoteIdSnapshot result" where
  "new_snapshot patches = with_match_policy patches RemoteIdOnly"

definition new_with_uid_fallback :: "RemoteContactPatch list \<Rightarrow> CompleteRemoteIdSnapshot result" where
  "new_with_uid_fallback patches = with_match_policy patches RemoteIdThenUid"

section \<open>Deltas\<close>

record DeltaRecord =
  current_remote_id :: string
  previous_remote_ids :: "string list"
  d_patch :: RemoteContactPatch

record RemoteIdDelta =
  delta_records :: "DeltaRecord list"
  deleted_remote_ids :: "string list"

fun delta_upserts :: "string list \<Rightarrow> (RemoteContactPatch \<times> string list) list \<Rightarrow> (DeltaRecord list \<times> string list) result" where
  "delta_upserts claimed [] = Inr ([], claimed)"
| "delta_upserts claimed ((patch, previous) # upserts) =
     and_then (validated_remote_id patch) (\<lambda>remote_id.
       if remote_id \<in> set claimed
       then Inl (Sync_error ''contact delta contains a duplicate current remote ID'')
       else and_then (delta_upserts (remote_id # claimed) upserts) (\<lambda>(records, claimed').
         Inr (\<lparr>current_remote_id = remote_id, previous_remote_ids = previous, d_patch = patch\<rparr> # records,
              claimed')))"

fun claim_aliases :: "string list \<Rightarrow> string list \<Rightarrow> string list result" where
  "claim_aliases claimed [] = Inr claimed"
| "claim_aliases claimed (previous # rest) =
     (if is_blank previous then Inl (Sync_error ''contact delta contains a blank previous remote ID'')
      else if previous \<in> set claimed
      then Inl (Sync_error ''contact delta contains crossed or duplicate remote-ID aliases'')
      else claim_aliases (previous # claimed) rest)"

fun check_deletions :: "string list \<Rightarrow> string list \<Rightarrow> string list \<Rightarrow> unit result" where
  "check_deletions claimed seen [] = Inr ()"
| "check_deletions claimed seen (remote_id # rest) =
     (if is_blank remote_id then Inl (Sync_error ''contact delta contains a blank deleted remote ID'')
      else if remote_id \<in> set seen \<or> remote_id \<in> set claimed
      then Inl (Sync_error ''contact delta contains crossed or duplicate deletion identities'')
      else check_deletions claimed (remote_id # seen) rest)"

definition new_delta :: "(RemoteContactPatch \<times> string list) list \<Rightarrow> string list \<Rightarrow> RemoteIdDelta result" where
  "new_delta upserts deleted =
     and_then (delta_upserts [] upserts) (\<lambda>(records, claimed).
       and_then (claim_aliases claimed (concat (map previous_remote_ids records))) (\<lambda>claimed.
         and_then (check_deletions claimed [] deleted) (\<lambda>_.
           Inr \<lparr>delta_records = records, deleted_remote_ids = deleted\<rparr>)))"

section \<open>Matching\<close>

record RemoteIdBaseline =
  base_account :: string
  base_book :: string
  base_sync_type :: string
  base_rows :: "StoredContact list"

text \<open>The loop that builds a hash map from a key of the rows to their indices.\<close>

fun index_by :: "(StoredContact \<Rightarrow> string option) \<Rightarrow> (string \<Rightarrow> error) \<Rightarrow> nat \<Rightarrow> (string \<rightharpoonup> nat)
    \<Rightarrow> StoredContact list \<Rightarrow> (string \<rightharpoonup> nat) result" where
  "index_by key duplicate i m [] = Inr m"
| "index_by key duplicate i m (row # rows) =
     (case key row of
        None \<Rightarrow> index_by key duplicate (Suc i) m rows
      | Some k \<Rightarrow>
          if m k \<noteq> None then Inl (duplicate k)
          else index_by key duplicate (Suc i) (m(k \<mapsto> i)) rows)"

definition managed_id :: "StoredContact \<Rightarrow> string option" where
  "managed_id row = nonblank (v_remote_id (contact_values row))"

definition stored_uid :: "StoredContact \<Rightarrow> string option" where
  "stored_uid row = nonblank (v_uid (contact_values row))"

definition index_managed_row_indices :: "StoredContact list \<Rightarrow> string \<Rightarrow> (string \<rightharpoonup> nat) result" where
  "index_managed_row_indices rows state =
     index_by managed_id
       (\<lambda>remote_id. Sync_error (''duplicate local managed remote ID '' @ debug_str remote_id @ '' in '' @ state @ '' contact rows''))
       0 Map.empty rows"

definition index_row_uids :: "StoredContact list \<Rightarrow> string \<Rightarrow> (string \<rightharpoonup> nat) result" where
  "index_row_uids rows state =
     index_by stored_uid (\<lambda>_. Sync_error (''duplicate local UID in '' @ state @ '' contact rows'')) 0 Map.empty rows"

definition multiple_claims :: "string \<Rightarrow> error" where
  "multiple_claims state = Sync_error (''multiple remote contacts claim one '' @ state @ '' contact row'')"

text \<open>The first pass of \<^verbatim>\<open>match_snapshot_rows\<close>: by remote id.\<close>

fun claim_by_remote_id ::
  "string \<Rightarrow> (string \<rightharpoonup> nat) \<Rightarrow> nat \<Rightarrow> (nat \<rightharpoonup> nat) \<Rightarrow> SnapshotRecord list \<Rightarrow> (nat option list \<times> (nat \<rightharpoonup> nat)) result" where
  "claim_by_remote_id state by_remote_id i claimed [] = Inr ([], claimed)"
| "claim_by_remote_id state by_remote_id i claimed (record # records) =
     (case by_remote_id (s_remote_id record) of
        None \<Rightarrow>
          and_then (claim_by_remote_id state by_remote_id (Suc i) claimed records)
            (\<lambda>(ms, c). Inr (None # ms, c))
      | Some row_index \<Rightarrow>
          if claimed row_index \<noteq> None then Inl (multiple_claims state)
          else and_then (claim_by_remote_id state by_remote_id (Suc i) (claimed(row_index \<mapsto> i)) records)
            (\<lambda>(ms, c). Inr (Some row_index # ms, c)))"

text \<open>The second pass: the UIDs must agree with the first and may claim further rows.\<close>

fun claim_by_uid ::
  "string \<Rightarrow> (string \<rightharpoonup> nat) \<Rightarrow> nat \<Rightarrow> (nat \<rightharpoonup> nat) \<Rightarrow> (SnapshotRecord \<times> nat option) list \<Rightarrow> nat option list result" where
  "claim_by_uid state by_uid i claimed [] = Inr []"
| "claim_by_uid state by_uid i claimed ((record, remote_match) # rest) =
     and_then (ok_or (Sync_error ''UID-aware contact snapshot lost its validated UID'') (s_uid record)) (\<lambda>uid.
       (case (remote_match, by_uid uid) of
          (Some a, Some b) \<Rightarrow>
            if a \<noteq> b
            then Inl (Sync_error (''remote ID and UID identify different '' @ state @ '' contact rows''))
            else and_then (claim_by_uid state by_uid (Suc i) claimed rest) (\<lambda>ms. Inr (Some a # ms))
        | (None, Some row_index) \<Rightarrow>
            if claimed row_index \<noteq> None then Inl (multiple_claims state)
            else and_then (claim_by_uid state by_uid (Suc i) (claimed(row_index \<mapsto> i)) rest)
              (\<lambda>ms. Inr (Some row_index # ms))
        | (m, None) \<Rightarrow> and_then (claim_by_uid state by_uid (Suc i) claimed rest) (\<lambda>ms. Inr (m # ms))))"

definition match_snapshot_rows ::
  "SnapshotRecord list \<Rightarrow> StoredContact list \<Rightarrow> SnapshotMatchPolicy \<Rightarrow> string \<Rightarrow> nat option list result" where
  "match_snapshot_rows records rows policy state =
     and_then (index_managed_row_indices rows state) (\<lambda>by_remote_id.
       and_then (claim_by_remote_id state by_remote_id 0 Map.empty records) (\<lambda>(matches, claimed).
         if policy = RemoteIdOnly then Inr matches
         else and_then (index_row_uids rows state) (\<lambda>by_uid.
           claim_by_uid state by_uid 0 claimed (zip records matches))))"

text \<open>\<^verbatim>\<open>match_delta_rows\<close>: the current ids claim without a check, the aliases with one.\<close>

fun delta_current_matches ::
  "(string \<rightharpoonup> nat) \<Rightarrow> nat \<Rightarrow> (nat \<rightharpoonup> nat) \<Rightarrow> DeltaRecord list \<Rightarrow> nat option list \<times> (nat \<rightharpoonup> nat)" where
  "delta_current_matches by_remote_id i claimed [] = ([], claimed)"
| "delta_current_matches by_remote_id i claimed (record # records) =
     (let m = by_remote_id (current_remote_id record);
          claimed' = (case m of None \<Rightarrow> claimed | Some row_index \<Rightarrow> claimed(row_index \<mapsto> i));
          (ms, c) = delta_current_matches by_remote_id (Suc i) claimed' records
      in (m # ms, c))"

definition alias_rows :: "(string \<rightharpoonup> nat) \<Rightarrow> DeltaRecord \<Rightarrow> nat list" where
  "alias_rows by_remote_id record = remdups (List.map_filter by_remote_id (previous_remote_ids record))"

fun claim_by_alias ::
  "string \<Rightarrow> (string \<rightharpoonup> nat) \<Rightarrow> nat \<Rightarrow> (nat \<rightharpoonup> nat) \<Rightarrow> (DeltaRecord \<times> nat option) list \<Rightarrow> nat option list result" where
  "claim_by_alias state by_remote_id i claimed [] = Inr []"
| "claim_by_alias state by_remote_id i claimed ((record, current_match) # rest) =
     (let aliases = alias_rows by_remote_id record in
      if length aliases > 1
      then Inl (Sync_error (''contact delta aliases identify multiple '' @ state @ '' rows''))
      else (case (current_match, aliases) of
          (Some a, b # _) \<Rightarrow>
            if a \<noteq> b
            then Inl (Sync_error (''contact delta current ID and aliases identify different '' @ state @ '' rows''))
            else and_then (claim_by_alias state by_remote_id (Suc i) claimed rest) (\<lambda>ms. Inr (Some a # ms))
        | (None, row_index # _) \<Rightarrow>
            if claimed row_index \<noteq> None
            then Inl (Sync_error (''multiple contact delta records claim one '' @ state @ '' row''))
            else and_then (claim_by_alias state by_remote_id (Suc i) (claimed(row_index \<mapsto> i)) rest)
              (\<lambda>ms. Inr (Some row_index # ms))
        | (m, []) \<Rightarrow> and_then (claim_by_alias state by_remote_id (Suc i) claimed rest) (\<lambda>ms. Inr (m # ms))))"

definition match_delta_rows :: "DeltaRecord list \<Rightarrow> StoredContact list \<Rightarrow> string \<Rightarrow> nat option list result" where
  "match_delta_rows records rows state =
     and_then (index_managed_row_indices rows state) (\<lambda>by_remote_id.
       case delta_current_matches by_remote_id 0 Map.empty records of
         (matches, claimed) \<Rightarrow> claim_by_alias state by_remote_id 0 claimed (zip records matches))"

section \<open>Plans\<close>

record ReconcileReport =
  inserted :: nat
  updated :: nat
  deleted :: nat
  unchanged_or_stale :: nat

definition empty_report :: ReconcileReport where
  "empty_report = \<lparr>inserted = 0, updated = 0, deleted = 0, unchanged_or_stale = 0\<rparr>"

datatype PlannedMutation = UpdateContact string RemoteContactPatch | InsertContact RemoteContactPatch

record ReconcilePlan =
  plan_book :: string
  plan_policy :: SnapshotMatchPolicy
  plan_mutations :: "PlannedMutation list"
  plan_deletions :: "string list"
  plan_report :: ReconcileReport

text \<open>What one remote record does, given the rows it matches in the baseline and now.\<close>

fun plan_record ::
  "RemoteContactPatch \<Rightarrow> StoredContact option \<Rightarrow> StoredContact option \<Rightarrow> ReconcileReport
     \<Rightarrow> PlannedMutation list \<times> ReconcileReport" where
  "plan_record patch (Some baseline_row) (Some current_row) report =
     (if contact_id baseline_row = contact_id current_row \<and> baseline_row = current_row
      then if apply_patch patch (contact_values current_row) = contact_values current_row
           then ([], report\<lparr>unchanged_or_stale := unchanged_or_stale report + 1\<rparr>)
           else ([UpdateContact (contact_id current_row) patch], report\<lparr>updated := updated report + 1\<rparr>)
      else ([], report\<lparr>unchanged_or_stale := unchanged_or_stale report + 1\<rparr>))"
| "plan_record patch None None report = ([InsertContact patch], report\<lparr>inserted := inserted report + 1\<rparr>)"
| "plan_record patch _ _ report = ([], report\<lparr>unchanged_or_stale := unchanged_or_stale report + 1\<rparr>)"

fun plan_records ::
  "StoredContact list \<Rightarrow> StoredContact list \<Rightarrow> ((SnapshotRecord \<times> nat option) \<times> nat option) list \<Rightarrow> ReconcileReport
     \<Rightarrow> PlannedMutation list \<times> ReconcileReport" where
  "plan_records baseline_rows current_rows [] report = ([], report)"
| "plan_records baseline_rows current_rows (((record, b), c) # rest) report =
     (case plan_record (s_patch record) (map_option ((!) baseline_rows) b) (map_option ((!) current_rows) c) report of
        (ms, report) \<Rightarrow>
          (case plan_records baseline_rows current_rows rest report of
             (ms', report) \<Rightarrow> (ms @ ms', report)))"

text \<open>The rows the remote side no longer has: a managed baseline row no record claims, deleted
  only while it is unchanged. The hash map by id keeps the last row with an id.\<close>

definition row_by_id :: "StoredContact list \<Rightarrow> string \<Rightarrow> StoredContact option" where
  "row_by_id rows i = find (\<lambda>r. contact_id r = i) (rev rows)"

fun plan_deletions_of ::
  "StoredContact list \<Rightarrow> string list \<Rightarrow> StoredContact list \<Rightarrow> ReconcileReport \<Rightarrow> string list \<times> ReconcileReport" where
  "plan_deletions_of current_rows claimed_ids [] report = ([], report)"
| "plan_deletions_of current_rows claimed_ids (baseline_row # rest) report =
     (if managed_id baseline_row = None \<or> contact_id baseline_row \<in> set claimed_ids
      then plan_deletions_of current_rows claimed_ids rest report
      else if row_by_id current_rows (contact_id baseline_row) = Some baseline_row
      then (case plan_deletions_of current_rows claimed_ids rest (report\<lparr>deleted := deleted report + 1\<rparr>) of
              (ids, report) \<Rightarrow> (contact_id baseline_row # ids, report))
      else plan_deletions_of current_rows claimed_ids rest
             (report\<lparr>unchanged_or_stale := unchanged_or_stale report + 1\<rparr>))"

definition build_reconcile_plan ::
  "RemoteIdBaseline \<Rightarrow> StoredContact list \<Rightarrow> CompleteRemoteIdSnapshot \<Rightarrow> ReconcilePlan result" where
  "build_reconcile_plan baseline current_rows snapshot =
     (let records = snap_records snapshot; policy = snap_policy snapshot in
      and_then (match_snapshot_rows records (base_rows baseline) policy ''baseline'') (\<lambda>baseline_matches.
        and_then (match_snapshot_rows records current_rows policy ''current'') (\<lambda>current_matches.
          let claimed_baseline_ids = map (\<lambda>i. contact_id (base_rows baseline ! i)) (somes baseline_matches)
          in case plan_records (base_rows baseline) current_rows
                    (zip (zip records baseline_matches) current_matches) empty_report of
               (mutations, report) \<Rightarrow>
                 (case plan_deletions_of current_rows claimed_baseline_ids (base_rows baseline) report of
                    (deletions, report) \<Rightarrow>
                      Inr \<lparr>plan_book = base_book baseline, plan_policy = policy, plan_mutations = mutations,
                           plan_deletions = deletions, plan_report = report\<rparr>))))"

subsection \<open>Plans of deltas\<close>

record DeltaReconcilePlan =
  dplan_book :: string
  dplan_mutations :: "PlannedMutation list"
  dplan_deletions :: "string list"
  dplan_report :: ReconcileReport

fun plan_delta_records ::
  "StoredContact list \<Rightarrow> StoredContact list \<Rightarrow> ((DeltaRecord \<times> nat option) \<times> nat option) list \<Rightarrow> ReconcileReport
     \<Rightarrow> (PlannedMutation list \<times> ReconcileReport) result" where
  "plan_delta_records baseline_rows current_rows [] report = Inr ([], report)"
| "plan_delta_records baseline_rows current_rows (((record, b), c) # rest) report =
     (let baseline_row = map_option ((!) baseline_rows) b; current_row = map_option ((!) current_rows) c
      in if (baseline_row = None \<and> current_row = None)
            \<or> (baseline_row \<noteq> None \<and> current_row = baseline_row)
         then (case plan_record (d_patch record) baseline_row current_row report of
                 (ms, report) \<Rightarrow>
                   and_then (plan_delta_records baseline_rows current_rows rest report)
                     (\<lambda>(ms', report). Inr (ms @ ms', report)))
         else Inl (Sync_error (''contact delta identity '' @ debug_str (current_remote_id record)
                                @ '' changed after baseline capture'')))"

fun plan_delta_deletions ::
  "(string \<Rightarrow> StoredContact option) \<Rightarrow> (string \<Rightarrow> StoredContact option) \<Rightarrow> string list \<Rightarrow> ReconcileReport
     \<Rightarrow> (string list \<times> ReconcileReport) result" where
  "plan_delta_deletions baseline_row current_row [] report = Inr ([], report)"
| "plan_delta_deletions baseline_row current_row (remote_id # rest) report =
     (case (baseline_row remote_id, current_row remote_id) of
        (Some b, Some c) \<Rightarrow>
          if contact_id b = contact_id c \<and> b = c
          then and_then (plan_delta_deletions baseline_row current_row rest (report\<lparr>deleted := deleted report + 1\<rparr>))
                 (\<lambda>(ids, report). Inr (contact_id c # ids, report))
          else Inl (Sync_error (''contact delta deletion identity '' @ debug_str remote_id
                                 @ '' changed after baseline capture''))
      | (None, None) \<Rightarrow>
          plan_delta_deletions baseline_row current_row rest
            (report\<lparr>unchanged_or_stale := unchanged_or_stale report + 1\<rparr>)
      | _ \<Rightarrow> Inl (Sync_error (''contact delta deletion identity '' @ debug_str remote_id
                              @ '' changed after baseline capture'')))"

definition build_delta_reconcile_plan ::
  "RemoteIdBaseline \<Rightarrow> StoredContact list \<Rightarrow> RemoteIdDelta \<Rightarrow> DeltaReconcilePlan result" where
  "build_delta_reconcile_plan baseline current_rows delta =
     and_then (match_delta_rows (delta_records delta) (base_rows baseline) ''baseline'') (\<lambda>baseline_matches.
     and_then (match_delta_rows (delta_records delta) current_rows ''current'') (\<lambda>current_matches.
     and_then (index_managed_row_indices (base_rows baseline) ''baseline'') (\<lambda>baseline_by_remote.
     and_then (index_managed_row_indices current_rows ''current'') (\<lambda>current_by_remote.
     and_then (plan_delta_records (base_rows baseline) current_rows
                 (zip (zip (delta_records delta) baseline_matches) current_matches) empty_report) (\<lambda>(mutations, report).
     and_then (plan_delta_deletions (\<lambda>i. map_option ((!) (base_rows baseline)) (baseline_by_remote i))
                 (\<lambda>i. map_option ((!) current_rows) (current_by_remote i)) (deleted_remote_ids delta) report) (\<lambda>(deletions, report).
       Inr \<lparr>dplan_book = base_book baseline, dplan_mutations = mutations, dplan_deletions = deletions,
            dplan_report = report\<rparr>))))))"

section \<open>Lemmas\<close>

subsection \<open>Indexing and matching\<close>

lemma index_by_lookup:
  "index_by key dup i m rows = Inr m' \<Longrightarrow>
     m' k = Some j \<longleftrightarrow> m k = Some j \<or> (\<exists>n < length rows. key (rows ! n) = Some k \<and> j = i + n)"
proof (induction rows arbitrary: i m)
  case (Cons row rows)
  have shift: "(\<exists>n < length (row # rows). key ((row # rows) ! n) = Some k \<and> j = i + n)
      \<longleftrightarrow> (key row = Some k \<and> j = i) \<or> (\<exists>n < length rows. key (rows ! n) = Some k \<and> j = Suc i + n)"
    by (auto simp: less_Suc_eq_0_disj)
  show ?case
  proof (cases "key row")
    case None
    with Cons show ?thesis unfolding shift by simp
  next
    case (Some k0)
    with Cons.prems have "m k0 = None" by (auto split: if_splits)
    with Some Cons show ?thesis unfolding shift by auto
  qed
qed simp

lemma index_by_distinct:
  "index_by key dup i m rows = Inr m' \<Longrightarrow>
     distinct (List.map_filter key rows) \<and> (\<forall>k \<in> set (List.map_filter key rows). m k = None)"
proof (induction rows arbitrary: i m)
  case (Cons row rows)
  show ?case
  proof (cases "key row")
    case None
    with Cons show ?thesis by simp
  next
    case (Some k0)
    with Cons.prems have "m k0 = None" "index_by key dup (Suc i) (m(k0 \<mapsto> i)) rows = Inr m'"
      by (auto split: if_splits)
    with Cons.IH [OF this(2)] Some show ?thesis by (auto split: if_splits)
  qed
qed simp

lemma index_by_ok:
  "distinct (List.map_filter key rows) \<Longrightarrow> (\<forall>k \<in> set (List.map_filter key rows). m k = None) \<Longrightarrow>
     \<exists>m'. index_by key dup i m rows = Inr m'"
proof (induction rows arbitrary: i m)
  case (Cons row rows)
  show ?case
  proof (cases "key row")
    case None
    with Cons show ?thesis by simp
  next
    case (Some k0)
    with Cons.prems have "m k0 = None" "distinct (List.map_filter key rows)"
      "\<forall>k \<in> set (List.map_filter key rows). (m(k0 \<mapsto> i)) k = None" by auto
    moreover obtain m' where "index_by key dup (Suc i) (m(k0 \<mapsto> i)) rows = Inr m'"
      using Cons.IH [OF calculation(2,3)] by blast
    ultimately show ?thesis using Some by simp
  qed
qed simp

lemma index_managed_lookup:
  "index_managed_row_indices rows st = Inr m \<Longrightarrow>
     m k = Some j \<longleftrightarrow> j < length rows \<and> managed_id (rows ! j) = Some k"
  using index_by_lookup [of managed_id _ 0 Map.empty rows m k j] by (auto simp: index_managed_row_indices_def)

lemma index_managed_ok_iff:
  "(\<exists>m. index_managed_row_indices rows st = Inr m) \<longleftrightarrow> distinct (List.map_filter managed_id rows)"
  using index_by_ok [of managed_id rows Map.empty] index_by_distinct [of managed_id _ 0 Map.empty rows]
  unfolding index_managed_row_indices_def by fastforce

lemma index_uids_lookup:
  "index_row_uids rows st = Inr m \<Longrightarrow> m k = Some j \<longleftrightarrow> j < length rows \<and> stored_uid (rows ! j) = Some k"
  using index_by_lookup [of stored_uid _ 0 Map.empty rows m k j] by (auto simp: index_row_uids_def)

lemma claim_by_remote_id_ok:
  "claim_by_remote_id st by i claimed records = Inr (ms, claimed') \<Longrightarrow>
     ms = map (\<lambda>r. by (s_remote_id r)) records
   \<and> distinct (somes ms)
   \<and> (\<forall>j. claimed' j \<noteq> None \<longleftrightarrow> claimed j \<noteq> None \<or> Some j \<in> set ms)
   \<and> (\<forall>j. Some j \<in> set ms \<longrightarrow> claimed j = None)"
proof (induction records arbitrary: i claimed ms)
  case (Cons rec1 records)
  show ?case
  proof (cases "by (s_remote_id rec1)")
    case None
    with Cons.prems obtain ms1 where "claim_by_remote_id st by (Suc i) claimed records = Inr (ms1, claimed')"
      and "ms = None # ms1" by auto
    with Cons.IH [OF this(1)] None show ?thesis by auto
  next
    case (Some row)
    with Cons.prems obtain ms1 where free: "claimed row = None"
      and run: "claim_by_remote_id st by (Suc i) (claimed(row \<mapsto> i)) records = Inr (ms1, claimed')"
      and ms: "ms = Some row # ms1" by (auto split: if_splits)
    note IH = Cons.IH [OF run]
    then have fresh: "Some row \<notin> set ms1" by (metis fun_upd_same option.distinct(1))
    have "claimed' j \<noteq> None \<longleftrightarrow> claimed j \<noteq> None \<or> j = row \<or> Some j \<in> set ms1" for j
      using IH by simp
    moreover have "Some j \<in> set ms1 \<Longrightarrow> claimed j = None" for j
      using IH by (metis fun_upd_apply option.distinct(1))
    moreover have "ms1 = map (\<lambda>r. by (s_remote_id r)) records" "distinct (somes ms1)"
      using IH by blast+
    ultimately show ?thesis using fresh Some free ms by (auto simp: set_somes)
  qed
qed simp

text \<open>The row a rec1 ends up with: its remote match, or else its UID match.\<close>

definition uid_choice :: "(string \<rightharpoonup> nat) \<Rightarrow> SnapshotRecord \<times> nat option \<Rightarrow> nat option" where
  "uid_choice by_uid rm = (case rm of (rec1, Some a) \<Rightarrow> Some a
     | (rec1, None) \<Rightarrow> Option.bind (s_uid rec1) by_uid)"

lemma claim_by_uid_ok:
  "claim_by_uid st by i claimed rms = Inr ms \<Longrightarrow> distinct (somes (map snd rms)) \<Longrightarrow>
     (\<forall>j. Some j \<in> set (map snd rms) \<longrightarrow> claimed j \<noteq> None) \<Longrightarrow>
     ms = map (uid_choice by) rms \<and> distinct (somes ms)
   \<and> (\<forall>j. Some j \<in> set ms \<longrightarrow> Some j \<in> set (map snd rms) \<or> claimed j = None)"
proof (induction rms arbitrary: i claimed ms)
  case (Cons rm rms)
  obtain rec1 m where rm: "rm = (rec1, m)" by (cases rm)
  from Cons.prems(1) rm obtain uid where uid: "s_uid rec1 = Some uid" by auto
  have dist: "distinct (somes (map snd rms))" using Cons.prems(2) rm by (cases m) auto
  show ?case
  proof (cases m)
    case (Some a)
    with Cons.prems(1) rm uid obtain ms1 where run: "claim_by_uid st by (Suc i) claimed rms = Inr ms1"
      and ms: "ms = Some a # ms1" by (auto split: option.splits if_splits)
    have IH: "ms1 = map (uid_choice by) rms" "distinct (somes ms1)"
        "\<And>j. Some j \<in> set ms1 \<Longrightarrow> Some j \<in> set (map snd rms) \<or> claimed j = None"
      using Cons.IH [OF run dist] Cons.prems(3) by auto
    have "a \<notin> set (somes (map snd rms))" "claimed a \<noteq> None"
      using Cons.prems(2,3) rm Some by auto
    then have "Some a \<notin> set ms1" using IH(3) [of a] by (auto simp: set_somes)
    with IH ms rm Some show ?thesis by (auto simp: uid_choice_def set_somes)
  next
    case None
    show ?thesis
    proof (cases "by uid")
      case (Some row)
      with None Cons.prems(1) rm uid obtain ms1 where free: "claimed row = None"
        and run: "claim_by_uid st by (Suc i) (claimed(row \<mapsto> i)) rms = Inr ms1"
        and ms: "ms = Some row # ms1" by (auto split: if_splits)
      have "\<forall>j. Some j \<in> set (map snd rms) \<longrightarrow> (claimed(row \<mapsto> i)) j \<noteq> None"
        using Cons.prems(3) by simp
      note step = Cons.IH [OF run dist this]
      note IH = step [THEN conjunct1] step [THEN conjunct2, THEN conjunct1]
        step [THEN conjunct2, THEN conjunct2, rule_format]
      have "Some row \<notin> set (map snd rms)" using Cons.prems(3) free rm by auto
      then have "Some row \<notin> set ms1" using IH(3) [of row] by auto
      moreover have "Some j \<in> set ms1 \<Longrightarrow> Some j \<in> set (map snd rms) \<or> claimed j = None" for j
        using IH(3) [of j] by (cases "j = row") simp_all
      moreover have "uid_choice by rm = Some row" using rm None uid Some by (simp add: uid_choice_def)
      ultimately show ?thesis using IH(1,2) ms free by (auto simp: set_somes)
    next
      case no: None
      with None Cons.prems(1) rm uid obtain ms1 where run: "claim_by_uid st by (Suc i) claimed rms = Inr ms1"
        and ms: "ms = None # ms1" by auto
      have "ms1 = map (uid_choice by) rms" "distinct (somes ms1)"
          "\<And>j. Some j \<in> set ms1 \<Longrightarrow> Some j \<in> set (map snd rms) \<or> claimed j = None"
        using Cons.IH [OF run dist] Cons.prems(3) by auto
      with ms rm None no uid show ?thesis by (auto simp: uid_choice_def)
    qed
  qed
qed simp



lemma match_snapshot_ok:
  assumes "match_snapshot_rows records rows policy st = Inr ms"
  shows "length ms = length records" and "distinct (somes ms)" and "Some i \<in> set ms \<Longrightarrow> i < length rows"
proof -
  from assms obtain by_remote ms0 claimed where by_remote: "index_managed_row_indices rows st = Inr by_remote"
    and first: "claim_by_remote_id st by_remote 0 Map.empty records = Inr (ms0, claimed)"
    and rest: "if policy = RemoteIdOnly then ms = ms0
       else \<exists>by_uid. index_row_uids rows st = Inr by_uid \<and> claim_by_uid st by_uid 0 claimed (zip records ms0) = Inr ms"
    by (auto simp: match_snapshot_rows_def split: if_splits)
  note one = claim_by_remote_id_ok [OF first]
  have len0: "length ms0 = length records" using one by auto
  have range0: "Some i \<in> set ms0 \<Longrightarrow> i < length rows" for i
    using one index_managed_lookup [OF by_remote] by (auto dest: sym)
  have "length ms = length records \<and> distinct (somes ms) \<and> (\<forall>i. Some i \<in> set ms \<longrightarrow> i < length rows)"
  proof (cases "policy = RemoteIdOnly")
    case True
    with rest have "ms = ms0" by simp
    with one [THEN conjunct2, THEN conjunct1] len0 range0 show ?thesis by blast
  next
    case False
    with rest obtain by_uid where by_uid: "index_row_uids rows st = Inr by_uid"
      and second: "claim_by_uid st by_uid 0 claimed (zip records ms0) = Inr ms" by auto
    have snds: "map snd (zip records ms0) = ms0" using len0 by simp
    have "distinct (somes (map snd (zip records ms0)))"
      and "\<forall>j. Some j \<in> set (map snd (zip records ms0)) \<longrightarrow> claimed j \<noteq> None"
      unfolding snds using one by blast+
    note two = claim_by_uid_ok [OF second this]
    have "uid_choice by_uid (r, m) = Some i \<Longrightarrow> m \<in> set ms0 \<Longrightarrow> i < length rows" for i r m
      using range0 index_uids_lookup [OF by_uid]
      by (auto simp: uid_choice_def bind_eq_Some_conv split: option.splits)
    then have "Some i \<in> set (map (uid_choice by_uid) (zip records ms0)) \<Longrightarrow> i < length rows" for i
      by (auto dest: set_zip_rightD sym)
    then have "Some i \<in> set ms \<Longrightarrow> i < length rows" for i using two [THEN conjunct1] by simp
    moreover have "length ms = length records" using two [THEN conjunct1] len0 by simp
    ultimately show ?thesis using two [THEN conjunct2, THEN conjunct1] by blast
  qed
  then show "length ms = length records" "distinct (somes ms)" "Some i \<in> set ms \<Longrightarrow> i < length rows" by blast+
qed

subsection \<open>The planned mutations\<close>

text \<open>The ids a list of mutations updates, the patches it inserts, and what it does to the
  values of the row with an id.\<close>

definition update_ids :: "PlannedMutation list \<Rightarrow> string set" where
  "update_ids ms = {i. \<exists>p. UpdateContact i p \<in> set ms}"

fun insert_patches :: "PlannedMutation list \<Rightarrow> RemoteContactPatch list" where
  "insert_patches [] = []"
| "insert_patches (InsertContact p # ms) = p # insert_patches ms"
| "insert_patches (UpdateContact i p # ms) = insert_patches ms"

fun patched :: "PlannedMutation list \<Rightarrow> string \<Rightarrow> ContactValues \<Rightarrow> ContactValues" where
  "patched [] i v = v"
| "patched (UpdateContact j p # ms) i v = patched ms i (if j = i then apply_patch p v else v)"
| "patched (InsertContact p # ms) i v = patched ms i v"

lemma update_ids_simps [simp]:
  "update_ids [] = {}"
  "update_ids (UpdateContact i p # ms) = insert i (update_ids ms)"
  "update_ids (InsertContact p # ms) = update_ids ms"
  by (auto simp: update_ids_def)

lemma update_ids_append [simp]: "update_ids (ms @ ns) = update_ids ms \<union> update_ids ns"
  by (auto simp: update_ids_def)

lemma insert_patches_append [simp]: "insert_patches (ms @ ns) = insert_patches ms @ insert_patches ns"
  by (induction ms rule: insert_patches.induct) auto

lemma patched_append [simp]: "patched (ms @ ns) i v = patched ns i (patched ms i v)"
  by (induction ms i v rule: patched.induct) auto

lemma patched_other: "i \<notin> update_ids ms \<Longrightarrow> patched ms i v = v"
  by (induction ms i v rule: patched.induct) auto

text \<open>An update is planned only for a row that is the same in the baseline and now.\<close>

lemma plan_record_updates:
  "plan_record p b c rep = (ms, rep') \<Longrightarrow> i \<in> update_ids ms \<Longrightarrow> \<exists>r. b = Some r \<and> c = Some r \<and> contact_id r = i"
  by (cases "(p, b, c, rep)" rule: plan_record.cases) (auto split: if_splits)

lemma plan_records_updates:
  "plan_records bs cs rbcs rep = (ms, rep') \<Longrightarrow> i \<in> update_ids ms \<Longrightarrow>
     (\<And>rc j c. ((rc, Some j), c) \<in> set rbcs \<Longrightarrow> j < length bs) \<Longrightarrow>
     (\<And>rb j. (rb, Some j) \<in> set rbcs \<Longrightarrow> j < length cs) \<Longrightarrow>
     \<exists>r \<in> set bs \<inter> set cs. contact_id r = i"
proof (induction bs cs rbcs rep arbitrary: ms rep' rule: plan_records.induct)
  case (2 bs cs rec1 b c rest rep)
  obtain ms1 rep1 where one: "plan_record (s_patch rec1) (map_option ((!) bs) b) (map_option ((!) cs) c) rep = (ms1, rep1)"
    by fastforce
  obtain ms2 rep2 where two: "plan_records bs cs rest rep1 = (ms2, rep2)" by fastforce
  from "2.prems"(1) one two have ms: "ms = ms1 @ ms2" by simp
  show ?case
  proof (cases "i \<in> update_ids ms1")
    case True
    with plan_record_updates [OF one True] obtain j k where "b = Some j" "c = Some k" "bs ! j = cs ! k" "contact_id (bs ! j) = i"
      by auto
    moreover from this have "j < length bs" "k < length cs"
      using "2.prems"(3) [of rec1 j c] "2.prems"(4) [of "(rec1, b)" k] by simp_all
    ultimately show ?thesis by (metis IntI nth_mem)
  next
    case False
    have "i \<in> update_ids ms2" using False "2.prems"(2) ms by simp
    then show ?thesis
      by (rule "2.IH" [OF one [symmetric] two]) (meson "2.prems"(3,4) list.set_intros(2))+
  qed
qed simp

lemma plan_deletions_of_eq:
  "fst (plan_deletions_of cs claimed rows rep) =
     map contact_id (filter (\<lambda>r. managed_id r \<noteq> None \<and> contact_id r \<notin> set claimed
                                \<and> row_by_id cs (contact_id r) = Some r) rows)"
  by (induction cs claimed rows rep rule: plan_deletions_of.induct) (auto split: prod.splits)

subsection \<open>Plans without interference\<close>

text \<open>
  When the rows are still those of the baseline, each matched record patches its row (a patch
  that changes nothing is left out, to the same effect) and each unmatched record is inserted.
\<close>

lemma plan_calm_inserts:
  "plan_records rows rows (zip (zip records ms) ms) rep = (muts, rep') \<Longrightarrow> length ms = length records \<Longrightarrow>
     insert_patches muts = map (\<lambda>(r, _). s_patch r) (filter (\<lambda>(_, m). m = None) (zip records ms))"
proof (induction records arbitrary: ms rep muts rep')
  case (Cons r records)
  then obtain m ms' where ms: "ms = m # ms'" by (cases ms) auto
  with Cons show ?case by (cases m) (auto split: prod.splits if_splits)
qed simp

lemma plan_calm_unmatched:
  "plan_records rows rows (zip (zip records ms) ms) rep = (muts, rep') \<Longrightarrow> length ms = length records \<Longrightarrow>
     distinct (map contact_id rows) \<Longrightarrow> (\<And>j. Some j \<in> set ms \<Longrightarrow> j < length rows) \<Longrightarrow>
     i < length rows \<Longrightarrow> Some i \<notin> set ms \<Longrightarrow> contact_id (rows ! i) \<notin> update_ids muts"
proof (induction records arbitrary: ms rep muts rep')
  case (Cons r records)
  then obtain m ms' where ms: "ms = m # ms'" by (cases ms) auto
  obtain ms1 rep1 where one: "plan_record (s_patch r) (map_option ((!) rows) m) (map_option ((!) rows) m) rep = (ms1, rep1)"
    by fastforce
  obtain ms2 rep2 where two: "plan_records rows rows (zip (zip records ms') ms') rep1 = (ms2, rep2)" by fastforce
  have muts: "muts = ms1 @ ms2" using Cons.prems(1) ms one two by simp
  have "contact_id (rows ! i) \<notin> update_ids ms2"
    by (rule Cons.IH [OF two]) (use Cons.prems ms in auto)
  moreover have "contact_id (rows ! i) \<notin> update_ids ms1"
  proof
    assume "contact_id (rows ! i) \<in> update_ids ms1"
    with plan_record_updates [OF one this] obtain j where "m = Some j" "contact_id (rows ! j) = contact_id (rows ! i)"
      by auto
    with Cons.prems(3-6) ms show False by (auto simp: distinct_conv_nth)
  qed
  ultimately show ?case using muts by simp
qed simp

lemma plan_calm_matched:
  "plan_records rows rows (zip (zip records ms) ms) rep = (muts, rep') \<Longrightarrow> length ms = length records \<Longrightarrow>
     distinct (map contact_id rows) \<Longrightarrow> (\<And>j. Some j \<in> set ms \<Longrightarrow> j < length rows) \<Longrightarrow> distinct (somes ms) \<Longrightarrow>
     (r, Some i) \<in> set (zip records ms) \<Longrightarrow>
     patched muts (contact_id (rows ! i)) (contact_values (rows ! i)) = apply_patch (s_patch r) (contact_values (rows ! i))"
proof (induction records arbitrary: ms rep muts rep')
  case (Cons r0 records)
  then obtain m ms' where ms: "ms = m # ms'" by (cases ms) auto
  obtain ms1 rep1 where one: "plan_record (s_patch r0) (map_option ((!) rows) m) (map_option ((!) rows) m) rep = (ms1, rep1)"
    by fastforce
  obtain ms2 rep2 where two: "plan_records rows rows (zip (zip records ms') ms') rep1 = (ms2, rep2)" by fastforce
  have muts: "muts = ms1 @ ms2" using Cons.prems(1) ms one two by simp
  let ?i = "contact_id (rows ! i)" and ?v = "contact_values (rows ! i)"
  have i: "i < length rows" using Cons.prems(4,6) by (auto dest: set_zip_rightD)
  have len: "length ms' = length records" and range: "\<And>j. Some j \<in> set ms' \<Longrightarrow> j < length rows"
    using Cons.prems(2,4) ms by auto
  show ?case
  proof (cases "m = Some i")
    case True
    then have "Some i \<notin> set ms'" using Cons.prems(5) ms by (auto simp: set_somes)
    then have "?i \<notin> update_ids ms2" using plan_calm_unmatched [OF two len Cons.prems(3) range i] by blast
    moreover have "r = r0" using Cons.prems(6) ms True \<open>Some i \<notin> set ms'\<close> by (auto dest: set_zip_rightD)
    ultimately show ?thesis using one True muts by (auto simp: patched_other split: if_splits)
  next
    case False
    then have "(r, Some i) \<in> set (zip records ms')" using Cons.prems(6) ms by auto
    moreover have "distinct (somes ms')" using Cons.prems(5) ms by (cases m) auto
    ultimately have "patched ms2 ?i ?v = apply_patch (s_patch r) ?v"
      using Cons.IH [OF two len Cons.prems(3) range] by blast
    moreover have "?i \<notin> update_ids ms1"
    proof
      assume "?i \<in> update_ids ms1"
      with plan_record_updates [OF one this] obtain j where "m = Some j" "contact_id (rows ! j) = ?i" by auto
      with Cons.prems(3,4) False i ms show False by (auto simp: distinct_conv_nth)
    qed
    ultimately show ?thesis using muts by (simp add: patched_other)
  qed
qed simp

text \<open>What a record makes of the row it matches.\<close>

definition remote_values :: "StoredContact list \<Rightarrow> SnapshotRecord \<times> nat option \<Rightarrow> ContactValues" where
  "remote_values rows rm = (case rm of (r, None) \<Rightarrow> insert_values (s_patch r)
     | (r, Some i) \<Rightarrow> apply_patch (s_patch r) (contact_values (rows ! i)))"

lemma remote_values_split:
  "mset (map (remote_values rows) rms) =
     mset (map (\<lambda>(r, m). apply_patch (s_patch r) (contact_values (rows ! the m))) (filter (\<lambda>(_, m). m \<noteq> None) rms))
   + mset (map insert_values (map (\<lambda>(r, _). s_patch r) (filter (\<lambda>(_, m). m = None) rms)))"
proof (induction rms)
  case (Cons rm rms)
  obtain r m where "rm = (r, m)" by (cases rm)
  with Cons show ?case by (cases m) (auto simp: remote_values_def)
qed simp

lemma matched_values_mset:
  assumes "distinct (somes ms)" and "length ms = length records"
    and "\<And>r i. (r, Some i) \<in> set (zip records ms) \<Longrightarrow> f i = g r i"
  shows "image_mset f (mset (somes ms)) = mset (map (\<lambda>(r, m). g r (the m)) (filter (\<lambda>(_, m). m \<noteq> None) (zip records ms)))"
  using assms
proof (induction records arbitrary: ms)
  case (Cons r records)
  then obtain m ms' where ms: "ms = m # ms'" by (cases ms) auto
  have "image_mset f (mset (somes ms')) = mset (map (\<lambda>(r, m). g r (the m)) (filter (\<lambda>(_, m). m \<noteq> None) (zip records ms')))"
    by (rule Cons.IH) (use Cons.prems ms in \<open>cases m; auto\<close>)+
  with Cons.prems(3) ms show ?case by (cases m) auto
qed simp

text \<open>The rows a plan keeps: the matched ones, patched, and the local-only ones, as they were.\<close>

lemma kept_rows_mset:
  assumes "distinct (somes ms)" and "\<And>i. Some i \<in> set ms \<Longrightarrow> i < length rows"
  shows "mset (map f (filter (\<lambda>i. Some i \<in> set ms \<or> P (rows ! i)) [0..<length rows])) =
     image_mset f (mset (somes ms)) + mset (map f (filter (\<lambda>i. Some i \<notin> set ms \<and> P (rows ! i)) [0..<length rows]))"
proof -
  have claimed: "mset (filter (\<lambda>i. Some i \<in> set ms) [0..<length rows]) = mset (somes ms)"
  proof -
    have "set (filter (\<lambda>i. Some i \<in> set ms) [0..<length rows]) = set (somes ms)"
      using assms(2) by (auto simp: set_somes)
    with assms(1) show ?thesis by (metis distinct_filter distinct_upt set_eq_iff_mset_eq_distinct)
  qed
  have parts: "mset (filter (\<lambda>i. Some i \<in> set ms \<or> P (rows ! i)) xs) =
      mset (filter (\<lambda>i. Some i \<in> set ms) xs) + mset (filter (\<lambda>i. Some i \<notin> set ms \<and> P (rows ! i)) xs)" for xs
    by (induction xs) auto
  show ?thesis unfolding mset_map parts claimed image_mset_union ..
qed

subsection \<open>Plans in general\<close>

lemma row_by_id_member: "row_by_id rows i = Some r \<Longrightarrow> r \<in> set rows \<and> contact_id r = i"
  unfolding row_by_id_def by (metis (mono_tags, lifting) find_Some_iff nth_mem set_rev)

lemma row_by_id_distinct:
  assumes "distinct (map contact_id rows)" and "r \<in> set rows"
  shows "row_by_id rows (contact_id r) = Some r"
proof -
  obtain r' where r': "row_by_id rows (contact_id r) = Some r'"
    using assms(2) unfolding row_by_id_def by (cases "find (\<lambda>x. contact_id x = contact_id r) (rev rows)") (auto simp: find_None_iff)
  from row_by_id_member [OF this] assms have "r' = r" by (metis distinct_map inj_onD)
  with r' show ?thesis by simp
qed

lemma build_reconcile_plan_cases:
  assumes "build_reconcile_plan bl cs s = Inr plan"
  obtains bms cms rep where
    "match_snapshot_rows (snap_records s) (base_rows bl) (snap_policy s) ''baseline'' = Inr bms"
    "match_snapshot_rows (snap_records s) cs (snap_policy s) ''current'' = Inr cms"
    "plan_records (base_rows bl) cs (zip (zip (snap_records s) bms) cms) empty_report = (plan_mutations plan, rep)"
    "plan_deletions_of cs (map (\<lambda>i. contact_id (base_rows bl ! i)) (somes bms)) (base_rows bl) rep
       = (plan_deletions plan, plan_report plan)"
    "plan_book plan = base_book bl" "plan_policy plan = snap_policy s"
proof -
  from assms obtain bms cms where ms:
    "match_snapshot_rows (snap_records s) (base_rows bl) (snap_policy s) ''baseline'' = Inr bms"
    "match_snapshot_rows (snap_records s) cs (snap_policy s) ''current'' = Inr cms"
    by (auto simp: build_reconcile_plan_def Let_def)
  obtain muts rep where p: "plan_records (base_rows bl) cs (zip (zip (snap_records s) bms) cms) empty_report = (muts, rep)"
    by fastforce
  obtain ids rep' where d: "plan_deletions_of cs (map (\<lambda>i. contact_id (base_rows bl ! i)) (somes bms)) (base_rows bl) rep
      = (ids, rep')" by fastforce
  from assms ms p d show ?thesis by (intro that [of bms cms rep]) (auto simp: build_reconcile_plan_def Let_def)
qed

text \<open>Whatever a plan updates or deletes is, row for row, what the baseline saw.\<close>

lemma plan_targets_unchanged:
  assumes "build_reconcile_plan bl cs s = Inr plan"
    and "i \<in> update_ids (plan_mutations plan) \<union> set (plan_deletions plan)"
  shows "\<exists>r \<in> set (base_rows bl) \<inter> set cs. contact_id r = i"
  using assms(1)
proof (cases rule: build_reconcile_plan_cases)
  case (1 bms cms rep)
  show ?thesis
  proof (cases "i \<in> update_ids (plan_mutations plan)")
    case True
    show ?thesis
    proof (rule plan_records_updates [OF 1(3) True])
      show "j < length (base_rows bl)" if "((rc, Some j), c) \<in> set (zip (zip (snap_records s) bms) cms)" for rc j c
        using that match_snapshot_ok(3) [OF 1(1)] by (meson set_zip_leftD set_zip_rightD)
      show "j < length cs" if "(rb, Some j) \<in> set (zip (zip (snap_records s) bms) cms)" for rb j
        using that match_snapshot_ok(3) [OF 1(2)] by (meson set_zip_rightD)
    qed
  next
    case False
    with assms(2) have "i \<in> set (plan_deletions plan)" by simp
    then obtain r where "r \<in> set (base_rows bl)" "row_by_id cs (contact_id r) = Some r" "contact_id r = i"
      using 1(4) plan_deletions_of_eq [of cs "map (\<lambda>i. contact_id (base_rows bl ! i)) (somes bms)" "base_rows bl" rep]
      by auto
    with row_by_id_member [OF this(2)] show ?thesis by blast
  qed
qed

text \<open>Every remote record and every managed row the remote side lost is counted once.\<close>

definition report_total :: "ReconcileReport \<Rightarrow> nat" where
  "report_total rep = inserted rep + updated rep + deleted rep + unchanged_or_stale rep"

lemma plan_record_total: "report_total (snd (plan_record p b c rep)) = Suc (report_total rep)"
  by (cases "(p, b, c, rep)" rule: plan_record.cases) (simp_all add: report_total_def)

lemma plan_records_total: "report_total (snd (plan_records bs cs rbcs rep)) = report_total rep + length rbcs"
proof (induction bs cs rbcs rep rule: plan_records.induct)
  case (2 bs cs rec1 b c rest rep)
  then show ?case
    using plan_record_total [of "s_patch rec1" "map_option ((!) bs) b" "map_option ((!) cs) c" rep]
    by (auto split: prod.splits)
qed simp

text \<open>The text of an error aside, matching does not depend on which rows it is said to match.\<close>

lemma index_by_dup: "index_by key dup i m rows = Inr m' \<Longrightarrow> index_by key dup' i m rows = Inr m'"
  by (induction key dup i m rows rule: index_by.induct) (auto split: option.splits if_splits)

lemma claim_by_remote_id_state:
  "claim_by_remote_id st idx i claimed records = Inr r \<Longrightarrow> claim_by_remote_id st' idx i claimed records = Inr r"
  by (induction st idx i claimed records arbitrary: r rule: claim_by_remote_id.induct)
     (auto split: option.splits if_splits)

lemma claim_by_uid_state: "claim_by_uid st idx i claimed rms = Inr r \<Longrightarrow> claim_by_uid st' idx i claimed rms = Inr r"
proof (induction rms arbitrary: i claimed r)
  case (Cons rm rms)
  obtain rec1 m where rm: "rm = (rec1, m)" by (cases rm)
  from Cons.prems rm obtain u where u: "s_uid rec1 = Some u" by auto
  from Cons show ?case by (cases m; cases "idx u") (auto simp: rm u split: if_splits)
qed simp

lemma index_state:
  "index_managed_row_indices rows st = Inr m \<Longrightarrow> index_managed_row_indices rows st' = Inr m"
  "index_row_uids rows st = Inr m \<Longrightarrow> index_row_uids rows st' = Inr m"
  unfolding index_managed_row_indices_def index_row_uids_def by (erule index_by_dup)+

lemma match_snapshot_rows_state:
  assumes "match_snapshot_rows records rows policy st = Inr ms"
  shows "match_snapshot_rows records rows policy st' = Inr ms"
proof -
  from assms obtain by_remote ms0 claimed where one: "index_managed_row_indices rows st = Inr by_remote"
      "claim_by_remote_id st by_remote 0 Map.empty records = Inr (ms0, claimed)"
    and rest: "(if policy = RemoteIdOnly then Inr ms0
       else and_then (index_row_uids rows st) (\<lambda>by_uid. claim_by_uid st by_uid 0 claimed (zip records ms0))) = Inr ms"
    by (auto simp: match_snapshot_rows_def)
  note two = index_state(1) [OF one(1), of st'] claim_by_remote_id_state [OF one(2), of st']
  show ?thesis
  proof (cases "policy = RemoteIdOnly")
    case True
    with two rest show ?thesis by (simp add: match_snapshot_rows_def)
  next
    case False
    with rest obtain by_uid where "index_row_uids rows st = Inr by_uid"
      "claim_by_uid st by_uid 0 claimed (zip records ms0) = Inr ms" by auto
    from index_state(2) [OF this(1), of st'] claim_by_uid_state [OF this(2), of st'] two False
    show ?thesis by (simp add: match_snapshot_rows_def)
  qed
qed

subsection \<open>Validated snapshots\<close>

definition valid_record :: "SnapshotRecord \<Rightarrow> bool" where
  "valid_record r \<longleftrightarrow> p_remote_id (s_patch r) = SetField (Some (s_remote_id r)) \<and> \<not> is_blank (s_remote_id r)"

lemma validated_remote_id_ok:
  "validated_remote_id p = Inr i \<longleftrightarrow> p_remote_id p = SetField (Some i) \<and> \<not> is_blank i"
  by (auto simp: validated_remote_id_def split: RemoteField.splits option.splits if_splits)

lemma snapshot_records_ok:
  "snapshot_records policy ids uids patches = Inr records \<Longrightarrow>
     list_all valid_record records \<and> map s_patch records = patches
   \<and> distinct (map s_remote_id records) \<and> set ids \<inter> s_remote_id ` set records = {}"
proof (induction policy ids uids patches arbitrary: records rule: snapshot_records.induct)
  case (2 policy ids uids patch patches)
  then obtain i u records' where i: "p_remote_id patch = SetField (Some i)" "\<not> is_blank i" "i \<notin> set ids"
    and u: "snapshot_uid policy uids patch = Inr u"
    and rest: "snapshot_records policy (i # ids) (case u of None \<Rightarrow> uids | Some v \<Rightarrow> v # uids) patches = Inr records'"
    and records: "records = \<lparr>s_remote_id = i, s_uid = u, s_patch = patch\<rparr> # records'"
    by (auto simp: validated_remote_id_ok split: if_splits)
  from "2.IH" [OF i(3) rest] i records show ?case by (auto simp: valid_record_def)
qed simp

lemma with_match_policy_ok:
  assumes "with_match_policy patches policy = Inr s"
  shows "list_all valid_record (snap_records s)" and "distinct (map s_remote_id (snap_records s))"
    and "map s_patch (snap_records s) = patches" and "snap_policy s = policy"
  using assms snapshot_records_ok [of policy "[]" "[]" patches] by (auto simp: with_match_policy_def)

lemma managed_after_patch: "valid_record r \<Longrightarrow> nonblank (v_remote_id (remote_values rows (r, m))) = Some (s_remote_id r)"
  by (cases m) (simp_all add: valid_record_def remote_values_def insert_values_def apply_patch_def nonblank_def)

lemma apply_patch_idem: "apply_patch p (remote_values rows (r, m)) = remote_values rows (r, m)" if "p = s_patch r"
proof -
  have twice: "resolve f (resolve f x) = resolve f x" for f :: "'a RemoteField" and x by (cases f) simp_all
  show ?thesis unfolding that by (cases m) (simp_all add: remote_values_def insert_values_def apply_patch_def twice)
qed

subsection \<open>Plans with nothing to do\<close>

lemma claim_by_remote_id_succeeds:
  "distinct (map s_remote_id records) \<Longrightarrow> (\<And>k k' j. idx k = Some j \<Longrightarrow> idx k' = Some j \<Longrightarrow> k = k') \<Longrightarrow>
     (\<And>r j. r \<in> set records \<Longrightarrow> idx (s_remote_id r) = Some j \<Longrightarrow> claimed j = None) \<Longrightarrow>
     \<exists>x. claim_by_remote_id st idx i claimed records = Inr x"
proof (induction records arbitrary: i claimed)
  case (Cons r records)
  show ?case
  proof (cases "idx (s_remote_id r)")
    case None
    have "\<exists>x. claim_by_remote_id st idx (Suc i) claimed records = Inr x"
    proof (rule Cons.IH)
      show "claimed j = None" if "r' \<in> set records" "idx (s_remote_id r') = Some j" for r' j
        using Cons.prems(3) [of r' j] that by simp
    qed (use Cons.prems in auto)
    with None show ?thesis by force
  next
    case (Some j)
    then have free: "claimed j = None" using Cons.prems(3) [of r j] by simp
    have "\<exists>x. claim_by_remote_id st idx (Suc i) (claimed(j \<mapsto> i)) records = Inr x"
    proof (rule Cons.IH)
      show "(claimed(j \<mapsto> i)) j' = None" if "r' \<in> set records" "idx (s_remote_id r') = Some j'" for r' j'
        using that Cons.prems(1) Cons.prems(2) [of "s_remote_id r" j "s_remote_id r'"] Cons.prems(3) [of r' j'] Some
        by (auto simp: image_iff)
    qed (use Cons.prems in auto)
    with Some free show ?thesis by force
  qed
qed simp

lemma match_by_remote_id:
  assumes "distinct (List.map_filter managed_id rows)" and "distinct (map s_remote_id records)"
  shows "\<exists>idx. index_managed_row_indices rows st = Inr idx
    \<and> match_snapshot_rows records rows RemoteIdOnly st = Inr (map (\<lambda>r. idx (s_remote_id r)) records)"
proof -
  from assms(1) obtain idx where idx: "index_managed_row_indices rows st = Inr idx" using index_managed_ok_iff by blast
  have "\<exists>x. claim_by_remote_id st idx 0 Map.empty records = Inr x"
    by (rule claim_by_remote_id_succeeds [OF assms(2)]) (auto simp: index_managed_lookup [OF idx])
  with claim_by_remote_id_ok [of st idx 0 Map.empty records] idx show ?thesis
    by (force simp: match_snapshot_rows_def)
qed

lemma plan_records_noop:
  assumes "\<And>r m. (r, m) \<in> set (zip records ms) \<Longrightarrow> \<exists>i. m = Some i \<and> apply_patch (s_patch r) (contact_values (rows ! i)) = contact_values (rows ! i)"
  shows "fst (plan_records rows rows (zip (zip records ms) ms) rep) = []"
  using assms
proof (induction records arbitrary: ms rep)
  case (Cons r records)
  show ?case
  proof (cases ms)
    case ms: (Cons m ms')
    with Cons.prems obtain i where "m = Some i" "apply_patch (s_patch r) (contact_values (rows ! i)) = contact_values (rows ! i)"
      by fastforce
    with ms Cons show ?thesis by (auto split: prod.splits)
  qed simp
qed simp

lemma somes_map: "somes (map f xs) = List.map_filter f xs"
proof (induction xs)
  case (Cons x xs)
  then show ?case by (cases "f x") auto
qed simp

text \<open>A book that holds each remote record already patched, and no other managed row, needs
  nothing.\<close>

lemma plan_at_fixpoint:
  assumes "distinct (map s_remote_id records)" and "list_all valid_record records"
    and ids: "mset (somes (map managed_id rows)) = mset (map s_remote_id records)"
    and vals: "\<And>r. r \<in> set records \<Longrightarrow> \<exists>row \<in> set rows. managed_id row = Some (s_remote_id r)
       \<and> apply_patch (s_patch r) (contact_values row) = contact_values row"
  shows "\<exists>plan. build_reconcile_plan \<lparr>base_account = a, base_book = b, base_sync_type = t, base_rows = rows\<rparr> rows
      \<lparr>snap_records = records, snap_policy = RemoteIdOnly\<rparr> = Inr plan
    \<and> plan_mutations plan = [] \<and> plan_deletions plan = []"
proof -
  have dist: "distinct (List.map_filter managed_id rows)"
    using ids assms(1) by (metis distinct_count_atmost_1 set_mset_mset somes_map mset_eq_imp_distinct_iff)
  from match_by_remote_id [OF dist assms(1)] obtain idx where
    idx: "index_managed_row_indices rows ''baseline'' = Inr idx"
    and base: "match_snapshot_rows records rows RemoteIdOnly ''baseline'' = Inr (map (\<lambda>r. idx (s_remote_id r)) records)" by blast
  let ?ms = "map (\<lambda>r. idx (s_remote_id r)) records"
  have cur: "match_snapshot_rows records rows RemoteIdOnly ''current'' = Inr ?ms"
    by (rule match_snapshot_rows_state [OF base])
  have one: "\<exists>i. idx (s_remote_id r) = Some i \<and> apply_patch (s_patch r) (contact_values (rows ! i)) = contact_values (rows ! i)"
    if "r \<in> set records" for r
    using vals [OF that] by (metis idx in_set_conv_nth index_managed_lookup)
  have "fst (plan_records rows rows (zip (zip records ?ms) ?ms) empty_report) = []"
    by (rule plan_records_noop) (use one in \<open>auto simp: zip_map2 zip_same_conv_map\<close>)
  then obtain rep where recs: "plan_records rows rows (zip (zip records ?ms) ?ms) empty_report = ([], rep)"
    by (metis prod.collapse)
  have claimed: "contact_id row \<in> set (map (\<lambda>i. contact_id (rows ! i)) (somes ?ms))" if "row \<in> set rows" "managed_id row \<noteq> None" for row
  proof -
    from that obtain i k where i: "i < length rows" "rows ! i = row" "managed_id row = Some k" by (metis in_set_conv_nth not_Some_eq)
    then have "k \<in> set (somes (map managed_id rows))" by (metis (no_types, lifting) image_eqI mem_Collect_eq nth_mem set_map set_somes)
    then have "k \<in> set (map s_remote_id records)" using ids by (metis set_mset_mset)
    then obtain r where "r \<in> set records" "k = s_remote_id r" by auto
    moreover have "idx k = Some i" using i index_managed_lookup [OF idx] by simp
    ultimately have "Some i \<in> set ?ms" by force
    with i(2) show ?thesis by (auto simp: set_somes)
  qed
  have "fst (plan_deletions_of rows (map (\<lambda>i. contact_id (rows ! i)) (somes ?ms)) rows rep) = []"
    unfolding plan_deletions_of_eq using claimed by (auto simp: filter_empty_conv)
  then obtain rep' where "plan_deletions_of rows (map (\<lambda>i. contact_id (rows ! i)) (somes ?ms)) rows rep = ([], rep')"
    by (metis prod.collapse)
  with base cur recs show ?thesis by (simp add: build_reconcile_plan_def)
qed

end
