(* ===== verification/Contact_Store.thy ===== *)
theory Contact_Store
  imports Contact_Plan Sql_Store "HOL-Library.Char_ord" "HOL-Library.List_Lexorder" "HOL-Library.Product_Lexorder"
begin

text \<open>
  The database part of \<^verbatim>\<open>contact/reconcile.rs\<close>: the tables \<^verbatim>\<open>contact_books\<close> and \<^verbatim>\<open>contacts\<close> of
  \<^verbatim>\<open>db/schema.rs\<close> (the columns the module reads; rows in rowid order), the repair of duplicate
  remote ids, and the transactions that apply snapshots and deltas. Random UUIDs and
  \<^verbatim>\<open>CURRENT_TIMESTAMP\<close> are arbitrary functions of a counter of the statements that read them; an
  insert fails on a primary key that is taken or a book that does not exist.
\<close>

section \<open>State\<close>

record contact_book_row =
  book_id :: string
  book_account :: string
  book_name :: string
  book_sync_type :: string

record contacts_db = sqlite +
  contact_books :: "contact_book_row list"
  contacts :: "StoredContact list"
  tick :: nat
  uuids :: "nat \<Rightarrow> string"
  clock :: "nat \<Rightarrow> string"

type_synonym 'a cdb = "(contacts_db, 'a) run"

section \<open>Statements\<close>

definition update_contacts :: "(StoredContact \<Rightarrow> bool) \<Rightarrow> (ContactValues \<Rightarrow> ContactValues) \<Rightarrow> nat cdb" where
  "update_contacts p u = sql (\<lambda>c. (length (filter p (contacts c)),
     c\<lparr>contacts := map (\<lambda>r. if p r then r\<lparr>contact_values := u (contact_values r), updated_at := clock c (tick c)\<rparr> else r)
                     (contacts c),
       tick := tick c + 1\<rparr>))"

definition delete_contacts :: "(StoredContact \<Rightarrow> bool) \<Rightarrow> nat cdb" where
  "delete_contacts p = sql (\<lambda>c. (length (filter p (contacts c)),
     c\<lparr>contacts := filter (\<lambda>r. \<not> p r) (contacts c)\<rparr>))"

definition insert_contact :: "string \<Rightarrow> ContactValues \<Rightarrow> unit cdb" where
  "insert_contact b vals = sql_checked
     (\<lambda>c. uuids c (tick c) \<notin> contact_id ` set (contacts c) \<and> b \<in> book_id ` set (contact_books c))
     ''constraint failed''
     (\<lambda>c. ((), c\<lparr>contacts := contacts c @ [\<lparr>contact_id = uuids c (tick c), contact_book = b, contact_values = vals,
                   created_at = clock c (tick c), updated_at = clock c (tick c)\<rparr>],
                 tick := tick c + 1\<rparr>))"

definition insert_book :: "contact_book_row \<Rightarrow> unit cdb" where
  "insert_book b = sql_checked (\<lambda>c. book_id b \<notin> book_id ` set (contact_books c)) ''constraint failed''
     (\<lambda>c. ((), c\<lparr>contact_books := contact_books c @ [b]\<rparr>))"

definition load_contacts :: "string \<Rightarrow> StoredContact list cdb" where
  "load_contacts b = sql (\<lambda>c. (filter (\<lambda>r. contact_book r = b) (contacts c), c))"

definition verify_book_scope :: "string \<Rightarrow> string \<Rightarrow> string \<Rightarrow> unit cdb" where
  "verify_book_scope account_id b expected_sync_type =
     db_bind (sql (\<lambda>c. (find (\<lambda>k. book_id k = b) (contact_books c), c))) (\<lambda>actual.
       case actual of
         Some k \<Rightarrow>
           if book_account k = account_id \<and> book_sync_type k = expected_sync_type then db_return ()
           else db_fail (Sync_error (''contact book '' @ debug_str b @ '' scope changed: expected account ''
                  @ debug_str account_id @ '' and sync type '' @ debug_str expected_sync_type @ '', found account ''
                  @ debug_str (book_account k) @ '' and sync type '' @ debug_str (book_sync_type k)))
       | None \<Rightarrow> db_fail (Sync_error (''contact book '' @ debug_str b @ '' no longer exists'')))"

subsection \<open>The update statement\<close>

text \<open>The assignments of the generated statement: a column and the value bound to its parameter.\<close>

type_synonym assignment = "string \<times> string option"

definition push_text_update :: "string \<Rightarrow> string RemoteField \<Rightarrow> assignment list \<Rightarrow> assignment list" where
  "push_text_update column field assignments =
     (case field of Preserve \<Rightarrow> assignments | SetField v \<Rightarrow> assignments @ [(column, Some v)])"

definition push_nullable_update :: "string \<Rightarrow> string option RemoteField \<Rightarrow> assignment list \<Rightarrow> assignment list" where
  "push_nullable_update column field assignments =
     (case field of Preserve \<Rightarrow> assignments | SetField v \<Rightarrow> assignments @ [(column, v)])"

definition owned_assignments :: "RemoteContactPatch \<Rightarrow> assignment list" where
  "owned_assignments patch =
     (push_nullable_update ''etag'' (p_etag patch)
     (push_nullable_update ''remote_id'' (p_remote_id patch)
     (push_nullable_update ''vcard_data'' (p_vcard_data patch)
     (push_nullable_update ''notes'' (p_notes patch)
     (push_nullable_update ''title'' (p_title patch)
     (push_nullable_update ''organization'' (p_organization patch)
     (push_text_update ''addresses_json'' (p_addresses_json patch)
     (push_text_update ''phones_json'' (p_phones_json patch)
     (push_text_update ''emails_json'' (p_emails_json patch)
     (push_text_update ''display_name'' (p_display_name patch)
     (push_nullable_update ''uid'' (p_uid patch) [])))))))))))"

text \<open>What SQLite does with one assignment; the text columns are only ever assigned text.\<close>

definition assign_column :: "assignment \<Rightarrow> ContactValues \<Rightarrow> ContactValues" where
  "assign_column a v =
     (case a of (column, x) \<Rightarrow>
        if column = ''uid'' then v\<lparr>v_uid := x\<rparr>
        else if column = ''display_name'' then v\<lparr>v_display_name := the x\<rparr>
        else if column = ''emails_json'' then v\<lparr>v_emails_json := the x\<rparr>
        else if column = ''phones_json'' then v\<lparr>v_phones_json := the x\<rparr>
        else if column = ''addresses_json'' then v\<lparr>v_addresses_json := the x\<rparr>
        else if column = ''organization'' then v\<lparr>v_organization := x\<rparr>
        else if column = ''title'' then v\<lparr>v_title := x\<rparr>
        else if column = ''notes'' then v\<lparr>v_notes := x\<rparr>
        else if column = ''vcard_data'' then v\<lparr>v_vcard_data := x\<rparr>
        else if column = ''remote_id'' then v\<lparr>v_remote_id := x\<rparr>
        else if column = ''etag'' then v\<lparr>v_etag := x\<rparr>
        else v)"

definition update_owned_fields :: "string \<Rightarrow> string \<Rightarrow> RemoteContactPatch \<Rightarrow> unit cdb" where
  "update_owned_fields b i patch =
     db_bind (update_contacts (\<lambda>r. contact_id r = i \<and> contact_book r = b) (fold assign_column (owned_assignments patch)))
       (\<lambda>updated. if updated \<noteq> 1 then db_fail (Sync_error (''contact '' @ debug_str i @ '' changed while updating''))
                  else db_return ())"

definition verify_unique_nonblank_uids :: "string \<Rightarrow> unit cdb" where
  "verify_unique_nonblank_uids b =
     db_bind (load_contacts b) (\<lambda>rows.
       if distinct (List.map_filter stored_uid rows) then db_return ()
       else db_fail (Sync_error ''UID-aware reconciliation produced duplicate local UIDs''))"

section \<open>Applying plans\<close>

fun apply_mutation :: "string \<Rightarrow> PlannedMutation \<Rightarrow> unit cdb" where
  "apply_mutation b (UpdateContact i patch) = update_owned_fields b i patch"
| "apply_mutation b (InsertContact patch) = insert_contact b (insert_values patch)"

definition apply_deletion :: "string \<Rightarrow> string \<Rightarrow> string \<Rightarrow> unit cdb" where
  "apply_deletion what b i =
     db_bind (delete_contacts (\<lambda>r. contact_id r = i \<and> contact_book r = b)) (\<lambda>n.
       if n \<noteq> 1 then db_fail (Sync_error (''contact '' @ debug_str i @ what)) else db_return ())"

definition apply_reconcile_plan :: "ReconcilePlan \<Rightarrow> ReconcileReport cdb" where
  "apply_reconcile_plan plan =
     db_bind (db_each (apply_mutation (plan_book plan)) (plan_mutations plan)) (\<lambda>_.
     db_bind (db_each (apply_deletion '' changed while deleting'' (plan_book plan)) (plan_deletions plan)) (\<lambda>_.
     db_bind (if plan_policy plan = RemoteIdThenUid then verify_unique_nonblank_uids (plan_book plan) else db_return ())
       (\<lambda>_. db_return (plan_report plan))))"

definition apply_delta_reconcile_plan :: "DeltaReconcilePlan \<Rightarrow> ReconcileReport cdb" where
  "apply_delta_reconcile_plan plan =
     db_bind (db_each (apply_mutation (dplan_book plan)) (dplan_mutations plan)) (\<lambda>_.
     db_bind (db_each (apply_deletion '' changed while applying a remote delta deletion'' (dplan_book plan)) (dplan_deletions plan))
       (\<lambda>_. db_return (dplan_report plan)))"

section \<open>Snapshots\<close>

definition of_result :: "'a result \<Rightarrow> 'a cdb" where
  "of_result r c = (r, c)"

definition capture_remote_id_baseline :: "string \<Rightarrow> string \<Rightarrow> string \<Rightarrow> RemoteIdBaseline cdb" where
  "capture_remote_id_baseline account_id b expected_sync_type =
     transaction (db_bind (verify_book_scope account_id b expected_sync_type) (\<lambda>_.
       db_bind (load_contacts b) (\<lambda>loaded.
         db_return \<lparr>base_account = account_id, base_book = b, base_sync_type = expected_sync_type, base_rows = loaded\<rparr>)))"

text \<open>The planning loop of a batch: every plan is built before the first one is applied.\<close>

fun plan_batch :: "string list \<Rightarrow> (RemoteIdBaseline \<times> CompleteRemoteIdSnapshot) list \<Rightarrow> ReconcilePlan list cdb" where
  "plan_batch seen_books [] = db_return []"
| "plan_batch seen_books ((baseline, snapshot) # rest) =
     (if base_book baseline \<in> set seen_books
      then db_fail (Sync_error ''contact reconciliation batch contains a duplicate book'')
      else db_bind (verify_book_scope (base_account baseline) (base_book baseline) (base_sync_type baseline)) (\<lambda>_.
           db_bind (load_contacts (base_book baseline)) (\<lambda>current_rows.
           db_bind (of_result (build_reconcile_plan baseline current_rows snapshot)) (\<lambda>plan.
           db_bind (plan_batch (base_book baseline # seen_books) rest) (\<lambda>plans. db_return (plan # plans))))))"

fun apply_batch :: "ReconcilePlan list \<Rightarrow> ReconcileReport list cdb" where
  "apply_batch [] = db_return []"
| "apply_batch (plan # plans) =
     db_bind (apply_reconcile_plan plan) (\<lambda>report.
       db_bind (apply_batch plans) (\<lambda>reports. db_return (report # reports)))"

definition reconcile_remote_id_snapshot_batch_with_postcheck ::
  "(RemoteIdBaseline \<times> CompleteRemoteIdSnapshot) list \<Rightarrow> 'a cdb \<Rightarrow> (ReconcileReport list \<times> 'a) cdb" where
  "reconcile_remote_id_snapshot_batch_with_postcheck reconciliations postcheck =
     transaction (db_bind (plan_batch [] reconciliations) (\<lambda>plans.
       db_bind (apply_batch plans) (\<lambda>reports.
         db_bind postcheck (\<lambda>x. db_return (reports, x)))))"

definition reconcile_remote_id_snapshot_batch ::
  "(RemoteIdBaseline \<times> CompleteRemoteIdSnapshot) list \<Rightarrow> ReconcileReport list cdb" where
  "reconcile_remote_id_snapshot_batch reconciliations =
     db_bind (reconcile_remote_id_snapshot_batch_with_postcheck reconciliations (db_return ()))
       (\<lambda>(reports, _). db_return reports)"

definition reconcile_remote_id_snapshot :: "RemoteIdBaseline \<Rightarrow> CompleteRemoteIdSnapshot \<Rightarrow> ReconcileReport cdb" where
  "reconcile_remote_id_snapshot baseline snapshot =
     db_bind (reconcile_remote_id_snapshot_batch [(baseline, snapshot)]) (\<lambda>reports.
       case reports of
         [] \<Rightarrow> db_fail (Sync_error ''contact reconciliation produced no report'')
       | report # _ \<Rightarrow> db_return report)"

section \<open>Repair of duplicate remote ids\<close>

record DuplicateRemoteIdRepairReport =
  duplicate_remote_ids :: nat
  detached :: nat

text \<open>Candidates with a UID come first, then the oldest, then the lowest id. Strings compare by
  their code points, which is the order of their UTF-8 bytes.\<close>

definition repair_key :: "string \<times> string option \<times> string \<Rightarrow> nat \<times> string \<times> string" where
  "repair_key cand = (case cand of (i, uid, created) \<Rightarrow> (if nonblank uid \<noteq> None then 0 else 1, created, i))"

definition candidates_by_remote_id :: "StoredContact list \<Rightarrow> (string \<times> (string \<times> string option \<times> string) list) list" where
  "candidates_by_remote_id rows = group_entries (List.map_filter
     (\<lambda>r. map_option (\<lambda>remote_id. (remote_id, (contact_id r, v_uid (contact_values r), created_at r))) (managed_id r)) rows)"

definition detach_contact :: "string \<Rightarrow> string \<Rightarrow> string \<Rightarrow> unit cdb" where
  "detach_contact b remote_id i =
     db_bind (update_contacts
        (\<lambda>r. contact_id r = i \<and> contact_book r = b \<and> v_remote_id (contact_values r) = Some remote_id)
        (\<lambda>v. v\<lparr>v_remote_id := None\<rparr>))
       (\<lambda>n. if n \<noteq> 1
            then db_fail (Sync_error (''contact '' @ debug_str i @ '' changed while detaching duplicate remote ID''))
            else db_return ())"

fun repair_groups ::
  "string \<Rightarrow> (string \<times> (string \<times> string option \<times> string) list) list \<Rightarrow> DuplicateRemoteIdRepairReport
     \<Rightarrow> DuplicateRemoteIdRepairReport cdb" where
  "repair_groups b [] report = db_return report"
| "repair_groups b ((remote_id, candidates) # groups) report =
     (if length candidates < 2 then repair_groups b groups report
      else let losers = tl (sort_key repair_key candidates) in
        db_bind (db_each (\<lambda>cand. detach_contact b remote_id (fst cand)) losers) (\<lambda>_.
          repair_groups b groups
            (report\<lparr>duplicate_remote_ids := duplicate_remote_ids report + 1,
                    detached := detached report + length losers\<rparr>)))"

text \<open>The loop over the hash map runs in an order \<open>iter\<close> chooses.\<close>

definition repair_duplicate_managed_remote_ids_in_transaction ::
  "((string \<times> (string \<times> string option \<times> string) list) list \<Rightarrow> (string \<times> (string \<times> string option \<times> string) list) list)
     \<Rightarrow> string \<Rightarrow> string \<Rightarrow> string \<Rightarrow> DuplicateRemoteIdRepairReport cdb" where
  "repair_duplicate_managed_remote_ids_in_transaction iter account_id b expected_sync_type =
     db_bind (verify_book_scope account_id b expected_sync_type) (\<lambda>_.
       db_bind (load_contacts b) (\<lambda>loaded.
         repair_groups b (iter (candidates_by_remote_id loaded)) \<lparr>duplicate_remote_ids = 0, detached = 0\<rparr>))"

definition repair_duplicate_managed_remote_ids ::
  "((string \<times> (string \<times> string option \<times> string) list) list \<Rightarrow> (string \<times> (string \<times> string option \<times> string) list) list)
     \<Rightarrow> string \<Rightarrow> string \<Rightarrow> string \<Rightarrow> DuplicateRemoteIdRepairReport cdb" where
  "repair_duplicate_managed_remote_ids iter account_id b expected_sync_type =
     transaction (repair_duplicate_managed_remote_ids_in_transaction iter account_id b expected_sync_type)"

section \<open>Deltas\<close>

definition reconcile_remote_id_delta_with_postcheck :: "RemoteIdBaseline \<Rightarrow> RemoteIdDelta \<Rightarrow> 'a cdb \<Rightarrow> (ReconcileReport \<times> 'a) cdb" where
  "reconcile_remote_id_delta_with_postcheck baseline delta postcheck =
     transaction
       (db_bind (verify_book_scope (base_account baseline) (base_book baseline) (base_sync_type baseline)) (\<lambda>_.
        db_bind (load_contacts (base_book baseline)) (\<lambda>current_rows.
        db_bind (of_result (build_delta_reconcile_plan baseline current_rows delta)) (\<lambda>plan.
        db_bind (apply_delta_reconcile_plan plan) (\<lambda>report.
        db_bind postcheck (\<lambda>x. db_return (report, x)))))))"

definition reconcile_remote_id_delta_with_repair_and_postcheck ::
  "((string \<times> (string \<times> string option \<times> string) list) list \<Rightarrow> (string \<times> (string \<times> string option \<times> string) list) list)
     \<Rightarrow> string \<Rightarrow> string \<Rightarrow> string \<Rightarrow> RemoteIdDelta \<Rightarrow> 'a cdb
     \<Rightarrow> (DuplicateRemoteIdRepairReport \<times> ReconcileReport \<times> 'a) cdb" where
  "reconcile_remote_id_delta_with_repair_and_postcheck iter account_id b expected_sync_type delta postcheck =
     transaction
       (db_bind (repair_duplicate_managed_remote_ids_in_transaction iter account_id b expected_sync_type) (\<lambda>repair.
        db_bind (load_contacts b) (\<lambda>loaded.
        db_bind (of_result (build_delta_reconcile_plan
            \<lparr>base_account = account_id, base_book = b, base_sync_type = expected_sync_type, base_rows = loaded\<rparr> loaded delta))
          (\<lambda>plan.
        db_bind (apply_delta_reconcile_plan plan) (\<lambda>report.
        db_bind postcheck (\<lambda>x. db_return (repair, report, x)))))))"

definition reconcile_remote_id_delta_into_new_book_with_postcheck ::
  "string \<Rightarrow> string \<Rightarrow> string \<Rightarrow> string \<Rightarrow> RemoteIdDelta \<Rightarrow> 'a cdb \<Rightarrow> (ReconcileReport \<times> 'a) cdb" where
  "reconcile_remote_id_delta_into_new_book_with_postcheck account_id b name sync_type delta postcheck =
     transaction
       (db_bind (insert_book \<lparr>book_id = b, book_account = account_id, book_name = name, book_sync_type = sync_type\<rparr>) (\<lambda>_.
        db_bind (of_result (build_delta_reconcile_plan
            \<lparr>base_account = account_id, base_book = b, base_sync_type = sync_type, base_rows = []\<rparr> [] delta)) (\<lambda>plan.
        db_bind (apply_delta_reconcile_plan plan) (\<lambda>report.
        db_bind postcheck (\<lambda>x. db_return (report, x))))))"

section \<open>Lemmas\<close>

subsection \<open>The generated update statement\<close>

lemma fold_push_text:
  "fold assign_column (push_text_update col f as) v =
     (case f of Preserve \<Rightarrow> fold assign_column as v | SetField x \<Rightarrow> assign_column (col, Some x) (fold assign_column as v))"
  by (simp add: push_text_update_def split: RemoteField.split)

lemma fold_push_nullable:
  "fold assign_column (push_nullable_update col f as) v =
     (case f of Preserve \<Rightarrow> fold assign_column as v | SetField x \<Rightarrow> assign_column (col, x) (fold assign_column as v))"
  by (simp add: push_nullable_update_def split: RemoteField.split)

lemma push_columns:
  "fold assign_column (push_nullable_update ''uid'' f as) v =
     (let w = fold assign_column as v in w\<lparr>v_uid := resolve f (v_uid w)\<rparr>)"
  "fold assign_column (push_text_update ''display_name'' g as) v =
     (let w = fold assign_column as v in w\<lparr>v_display_name := resolve g (v_display_name w)\<rparr>)"
  "fold assign_column (push_text_update ''emails_json'' g as) v =
     (let w = fold assign_column as v in w\<lparr>v_emails_json := resolve g (v_emails_json w)\<rparr>)"
  "fold assign_column (push_text_update ''phones_json'' g as) v =
     (let w = fold assign_column as v in w\<lparr>v_phones_json := resolve g (v_phones_json w)\<rparr>)"
  "fold assign_column (push_text_update ''addresses_json'' g as) v =
     (let w = fold assign_column as v in w\<lparr>v_addresses_json := resolve g (v_addresses_json w)\<rparr>)"
  "fold assign_column (push_nullable_update ''organization'' f as) v =
     (let w = fold assign_column as v in w\<lparr>v_organization := resolve f (v_organization w)\<rparr>)"
  "fold assign_column (push_nullable_update ''title'' f as) v =
     (let w = fold assign_column as v in w\<lparr>v_title := resolve f (v_title w)\<rparr>)"
  "fold assign_column (push_nullable_update ''notes'' f as) v =
     (let w = fold assign_column as v in w\<lparr>v_notes := resolve f (v_notes w)\<rparr>)"
  "fold assign_column (push_nullable_update ''vcard_data'' f as) v =
     (let w = fold assign_column as v in w\<lparr>v_vcard_data := resolve f (v_vcard_data w)\<rparr>)"
  "fold assign_column (push_nullable_update ''remote_id'' f as) v =
     (let w = fold assign_column as v in w\<lparr>v_remote_id := resolve f (v_remote_id w)\<rparr>)"
  "fold assign_column (push_nullable_update ''etag'' f as) v =
     (let w = fold assign_column as v in w\<lparr>v_etag := resolve f (v_etag w)\<rparr>)"
  by (simp_all add: fold_push_text fold_push_nullable assign_column_def Let_def split: RemoteField.split)

lemma owned_assignments_apply: "fold assign_column (owned_assignments patch) v = apply_patch patch v"
  by (simp add: owned_assignments_def push_columns Let_def apply_patch_def)

subsection \<open>Statements\<close>

definition contacts_ok :: "contacts_db \<Rightarrow> bool" where
  "contacts_ok c \<longleftrightarrow> distinct (map contact_id (contacts c))"

definition in_book :: "string \<Rightarrow> contacts_db \<Rightarrow> StoredContact list" where
  "in_book b c = filter (\<lambda>r. contact_book r = b) (contacts c)"

lemma same_data_contacts:
  "same_data c d \<Longrightarrow> contacts c = contacts d \<and> contact_books c = contact_books d"
  by (cases c; cases d) (simp add: same_data_def)

lemma load_contacts_ok: "load_contacts b c = (Inr loaded, c') \<Longrightarrow> loaded = in_book b c \<and> contacts c' = contacts c"
  by (auto simp: load_contacts_def in_book_def elim!: sql_data_cases)

lemma verify_book_scope_contacts: "verify_book_scope a b s c = (Inr u, c') \<Longrightarrow> contacts c' = contacts c"
  unfolding verify_book_scope_def
  by (erule db_bind_cases; erule sql_data_cases)
     (auto simp: db_return_def db_fail_def split: option.splits if_splits)

text \<open>The update of one contact.\<close>

definition touch :: "string \<Rightarrow> string \<Rightarrow> (ContactValues \<Rightarrow> ContactValues) \<Rightarrow> string \<Rightarrow> StoredContact \<Rightarrow> StoredContact" where
  "touch b i u t r = (if contact_id r = i \<and> contact_book r = b
     then r\<lparr>contact_values := u (contact_values r), updated_at := t\<rparr> else r)"

lemma touch_simps [simp]:
  "contact_id (touch b i u t r) = contact_id r" "contact_book (touch b i u t r) = contact_book r"
  "created_at (touch b i u t r) = created_at r"
  by (simp_all add: touch_def)

lemma update_owned_fields_ok:
  assumes "update_owned_fields b i patch c = (Inr u, c')"
  obtains t where "contacts c' = map (touch b i (apply_patch patch) t) (contacts c)" "contact_books c' = contact_books c"
    "\<exists>r \<in> set (contacts c). contact_id r = i \<and> contact_book r = b"
  using assms unfolding update_owned_fields_def
proof (cases rule: db_bind_cases)
  case (ok n d)
  then have one: "n = 1" "d = c'" by (auto simp: db_return_def db_fail_def split: if_splits)
  from ok(1) [unfolded update_contacts_def] show ?thesis
  proof (cases rule: sql_data_cases)
    case (ok a fs d')
    let ?p = "\<lambda>r. contact_id r = i \<and> contact_book r = b"
    from ok one have "length (filter ?p (contacts c)) = 1" by auto
    then have "filter ?p (contacts c) \<noteq> []" by auto
    then have "\<exists>r \<in> set (contacts c). ?p r" by (auto simp: filter_empty_conv)
    with ok one show ?thesis
      by (intro that [of "clock c (tick c)"]) (auto simp: touch_def owned_assignments_apply intro!: map_cong)
  qed simp
qed simp

lemma insert_contact_ok:
  assumes "insert_contact b vals c = (Inr u, c')"
  obtains i t where "contacts c' = contacts c @ [\<lparr>contact_id = i, contact_book = b, contact_values = vals, created_at = t, updated_at = t\<rparr>]"
    "i \<notin> contact_id ` set (contacts c)" "contact_books c' = contact_books c"
  using assms unfolding insert_contact_def
proof (cases rule: sql_checked_cases)
  case (ok a fs d)
  then show ?thesis by (intro that [of "uuids c (tick c)" "clock c (tick c)"]) auto
qed simp

lemma apply_deletion_ok:
  assumes "apply_deletion what b i c = (Inr u, c')"
  shows "contacts c' = filter (\<lambda>r. \<not> (contact_id r = i \<and> contact_book r = b)) (contacts c)
       \<and> contact_books c' = contact_books c"
  using assms unfolding apply_deletion_def
proof (cases rule: db_bind_cases)
  case (ok n d)
  then have one: "n = 1" "d = c'" by (auto simp: db_return_def db_fail_def split: if_splits)
  from ok(1) [unfolded delete_contacts_def] show ?thesis
    by (cases rule: sql_data_cases) (use one in auto)
qed simp

lemma apply_deletions_ok:
  "db_each (apply_deletion what b) ids c = (Inr (), c') \<Longrightarrow>
     contacts c' = filter (\<lambda>r. \<not> (contact_id r \<in> set ids \<and> contact_book r = b)) (contacts c)
   \<and> contact_books c' = contact_books c"
proof (induction ids arbitrary: c)
  case (Cons i ids)
  from Cons.prems obtain u d where "apply_deletion what b i c = (Inr u, d)"
    and rest: "db_each (apply_deletion what b) ids d = (Inr (), c')"
    by (auto elim: db_bind_cases)
  from apply_deletion_ok [OF this(1)] Cons.IH [OF rest] show ?case
    by (auto intro!: filter_cong)
qed (simp add: db_return_def)

subsection \<open>Mutations\<close>

text \<open>What a list of mutations leaves of a row that was there before.\<close>

definition follows :: "string \<Rightarrow> PlannedMutation list \<Rightarrow> StoredContact \<Rightarrow> StoredContact \<Rightarrow> bool" where
  "follows b ms r r' \<longleftrightarrow> contact_id r' = contact_id r \<and> contact_book r' = contact_book r \<and> created_at r' = created_at r
     \<and> (contact_book r = b \<longrightarrow> contact_values r' = patched ms (contact_id r) (contact_values r))
     \<and> (contact_book r \<noteq> b \<or> contact_id r \<notin> update_ids ms \<longrightarrow> r' = r)"

lemma follows_touch: "follows b ms (touch b i (apply_patch p) t r) r' \<Longrightarrow> follows b (UpdateContact i p # ms) r r'"
  by (auto simp: follows_def touch_def split: if_splits)

lemma follows_insert: "follows b ms r r' \<Longrightarrow> follows b (InsertContact p # ms) r r'"
  by (simp add: follows_def)

lemma apply_mutations_ok:
  "db_each (apply_mutation b) ms c = (Inr (), c') \<Longrightarrow> update_ids ms \<subseteq> contact_id ` set (contacts c) \<Longrightarrow> contacts_ok c \<Longrightarrow>
     \<exists>olds news. contacts c' = olds @ news \<and> list_all2 (follows b ms) (contacts c) olds
       \<and> map contact_values news = map insert_values (insert_patches ms)
       \<and> list_all (\<lambda>r. contact_book r = b \<and> contact_id r \<notin> contact_id ` set (contacts c)) news
       \<and> contacts_ok c' \<and> contact_books c' = contact_books c"
proof (induction ms arbitrary: c)
  case Nil
  then show ?case
    by (auto simp: db_return_def follows_def list_all2_same intro!: exI [of _ "contacts c'"])
next
  case (Cons m ms)
  from Cons.prems(1) obtain u d where head: "apply_mutation b m c = (Inr u, d)"
    and rest: "db_each (apply_mutation b) ms d = (Inr (), c')"
    by (auto elim: db_bind_cases)
  show ?case
  proof (cases m)
    case (UpdateContact i p)
    with head obtain t where d: "contacts d = map (touch b i (apply_patch p) t) (contacts c)" "contact_books d = contact_books c"
      by (auto elim: update_owned_fields_ok)
    then have ids: "map contact_id (contacts d) = map contact_id (contacts c)" by simp
    then have "contact_id ` set (contacts d) = contact_id ` set (contacts c)" by (metis set_map)
    then obtain olds news where step: "contacts c' = olds @ news" "list_all2 (follows b ms) (contacts d) olds"
      "map contact_values news = map insert_values (insert_patches ms)"
      "list_all (\<lambda>r. contact_book r = b \<and> contact_id r \<notin> contact_id ` set (contacts c)) news"
      "contacts_ok c'" "contact_books c' = contact_books d"
      using Cons.IH [OF rest] Cons.prems(2,3) UpdateContact ids by (auto simp: contacts_ok_def)
    have "list_all2 (follows b (m # ms)) (contacts c) olds"
      using step(2) unfolding d(1) list_all2_map1 UpdateContact
      by (rule list_all2_mono) (rule follows_touch)
    with step d UpdateContact show ?thesis by auto
  next
    case (InsertContact p)
    with head obtain i t where d: "contacts d = contacts c @ [\<lparr>contact_id = i, contact_book = b,
          contact_values = insert_values p, created_at = t, updated_at = t\<rparr>]" (is "_ = _ @ [?new]")
        "i \<notin> contact_id ` set (contacts c)" "contact_books d = contact_books c"
      by (auto elim: insert_contact_ok)
    have "contacts_ok d" "update_ids ms \<subseteq> contact_id ` set (contacts d)"
      using Cons.prems(2,3) d InsertContact by (auto simp: contacts_ok_def)
    from Cons.IH [OF rest this(2,1)] obtain olds news where step: "contacts c' = olds @ news"
      "list_all2 (follows b ms) (contacts d) olds" "map contact_values news = map insert_values (insert_patches ms)"
      "list_all (\<lambda>r. contact_book r = b \<and> contact_id r \<notin> contact_id ` set (contacts d)) news"
      "contacts_ok c'" "contact_books c' = contact_books d" by blast
    from step(2) d(1) obtain olds' new' where olds: "olds = olds' @ [new']"
      "list_all2 (follows b ms) (contacts c) olds'" "follows b ms ?new new'"
      by (auto simp: list_all2_append1 list_all2_Cons1)
    have "i \<notin> update_ids ms" using d(2) Cons.prems(2) InsertContact by auto
    with olds(3) have "new' = ?new" by (simp add: follows_def)
    moreover have "list_all2 (follows b (m # ms)) (contacts c) olds'"
      using olds(2) unfolding InsertContact by (rule list_all2_mono) (rule follows_insert)
    ultimately show ?thesis
      using step d olds(1) InsertContact
      by (intro exI [of _ olds'] exI [of _ "new' # news"]) (auto simp: list_all_iff)
  qed
qed

end
