(* ===== verification/Contact_Sync.thy ===== *)
theory Contact_Sync
  imports Contact_Store
begin

text \<open>
  What the reconciliation of contacts guarantees: a snapshot never overwrites or deletes a row
  that changed since the baseline, makes the book exactly what the remote side has plus the
  local-only rows when nothing changed, is then at a fixed point, and is all or nothing; the
  repair of duplicates keeps every contact and one owner per remote id; deltas of the same
  transaction never see a conflict.
\<close>

lemma list_all2_member2: "list_all2 R xs ys \<Longrightarrow> y \<in> set ys \<Longrightarrow> \<exists>x \<in> set xs. R x y"
  by (induction rule: list_all2_induct) auto

section \<open>Applying one plan\<close>

definition kept_by :: "ReconcilePlan \<Rightarrow> StoredContact \<Rightarrow> bool" where
  "kept_by plan r \<longleftrightarrow> \<not> (contact_id r \<in> set (plan_deletions plan) \<and> contact_book r = plan_book plan)"

lemma apply_reconcile_plan_ok:
  assumes "apply_reconcile_plan plan c = (Inr rep, c')"
    and "update_ids (plan_mutations plan) \<subseteq> contact_id ` set (contacts c)" and "contacts_ok c"
  shows "\<exists>olds news. contacts c' = filter (kept_by plan) (olds @ news)
      \<and> list_all2 (follows (plan_book plan) (plan_mutations plan)) (contacts c) olds
      \<and> map contact_values news = map insert_values (insert_patches (plan_mutations plan))
      \<and> list_all (\<lambda>r. contact_book r = plan_book plan \<and> contact_id r \<notin> contact_id ` set (contacts c)) news
      \<and> contacts_ok c' \<and> rep = plan_report plan"
proof -
  from assms(1) obtain d1 d2 u d3 where muts: "db_each (apply_mutation (plan_book plan)) (plan_mutations plan) c = (Inr (), d1)"
    and dels: "db_each (apply_deletion '' changed while deleting'' (plan_book plan)) (plan_deletions plan) d1 = (Inr (), d2)"
    and check: "(if plan_policy plan = RemoteIdThenUid then verify_unique_nonblank_uids (plan_book plan) else db_return ()) d2 = (Inr u, d3)"
    and fin: "db_return (plan_report plan) d3 = (Inr rep, c')"
    unfolding apply_reconcile_plan_def by (auto elim!: db_bind_cases)
  have "contacts d3 = contacts d2"
    using check unfolding verify_unique_nonblank_uids_def
    by (auto simp: db_return_def db_fail_def split: if_splits elim!: db_bind_cases dest!: load_contacts_ok)
  then have c': "contacts c' = filter (kept_by plan) (contacts d1)" and rep: "rep = plan_report plan"
    using apply_deletions_ok [OF dels] fin by (auto simp: db_return_def kept_by_def [abs_def])
  from apply_mutations_ok [OF muts assms(2,3)] obtain olds news where
    "contacts d1 = olds @ news" "list_all2 (follows (plan_book plan) (plan_mutations plan)) (contacts c) olds"
    "map contact_values news = map insert_values (insert_patches (plan_mutations plan))"
    "list_all (\<lambda>r. contact_book r = plan_book plan \<and> contact_id r \<notin> contact_id ` set (contacts c)) news"
    "contacts_ok d1" by blast
  moreover from this(5) have "contacts_ok c'" unfolding contacts_ok_def c' by (simp add: distinct_map_filter)
  ultimately show ?thesis using c' rep by auto
qed

text \<open>Rows that are not the target of the plan stay, and so do the rows of every other book.\<close>

lemma follows_same: "follows b ms r r' \<Longrightarrow> contact_book r \<noteq> b \<or> contact_id r \<notin> update_ids ms \<Longrightarrow> r' = r"
  by (simp add: follows_def)

lemma apply_plan_untouched:
  assumes "apply_reconcile_plan plan c = (Inr rep, c')"
    and "update_ids (plan_mutations plan) \<subseteq> contact_id ` set (contacts c)" and "contacts_ok c"
    and "r \<in> set (contacts c)"
    and "contact_book r \<noteq> plan_book plan \<or> contact_id r \<notin> update_ids (plan_mutations plan) \<union> set (plan_deletions plan)"
  shows "r \<in> set (contacts c')"
proof -
  from apply_reconcile_plan_ok [OF assms(1-3)] obtain olds news where c': "contacts c' = filter (kept_by plan) (olds @ news)"
    and olds: "list_all2 (follows (plan_book plan) (plan_mutations plan)) (contacts c) olds" by blast
  from olds assms(4) obtain r' where "r' \<in> set olds" "follows (plan_book plan) (plan_mutations plan) r r'"
    by (metis in_set_conv_nth list_all2_conv_all_nth)
  with follows_same [OF this(2)] assms(5) have "r \<in> set olds" by auto
  with assms(5) show ?thesis by (auto simp: c' kept_by_def)
qed

lemma list_all2_filter_same:
  assumes "list_all2 R xs ys" and "\<And>x y. R x y \<Longrightarrow> P x \<Longrightarrow> y = x" and "\<And>x y. R x y \<Longrightarrow> P x = P y"
  shows "filter P ys = filter P xs"
  using assms by (induction rule: list_all2_induct) auto

lemma apply_plan_other_books:
  assumes "apply_reconcile_plan plan c = (Inr rep, c')"
    and "update_ids (plan_mutations plan) \<subseteq> contact_id ` set (contacts c)" and "contacts_ok c"
    and "b \<noteq> plan_book plan"
  shows "in_book b c' = in_book b c"
proof -
  from apply_reconcile_plan_ok [OF assms(1-3)] obtain olds news where c': "contacts c' = filter (kept_by plan) (olds @ news)"
    and olds: "list_all2 (follows (plan_book plan) (plan_mutations plan)) (contacts c) olds"
    and news: "list_all (\<lambda>r. contact_book r = plan_book plan \<and> contact_id r \<notin> contact_id ` set (contacts c)) news" by blast
  have "filter (\<lambda>r. contact_book r = b) olds = filter (\<lambda>r. contact_book r = b) (contacts c)"
    by (rule list_all2_filter_same [OF olds]) (use assms(4) in \<open>auto simp: follows_def\<close>)
  moreover have "filter (\<lambda>r. contact_book r = b) news = []"
    using news assms(4) by (auto simp: filter_empty_conv list_all_iff)
  moreover have "filter (\<lambda>r. contact_book r = b) (filter (kept_by plan) xs) = filter (\<lambda>r. contact_book r = b) xs" for xs
    using assms(4) by (auto simp: kept_by_def intro!: filter_cong)
  ultimately show ?thesis unfolding in_book_def c' by simp
qed

section \<open>Batches\<close>

lemma of_result_ok [simp]: "of_result r c = (Inr a, c') \<longleftrightarrow> r = Inr a \<and> c' = c"
  by (auto simp: of_result_def)

lemma plan_batch_ok:
  "plan_batch seen rs c = (Inr plans, c') \<Longrightarrow>
     contacts c' = contacts c
   \<and> list_all2 (\<lambda>(bl, s) plan. build_reconcile_plan bl (in_book (base_book bl) c) s = Inr plan) rs plans
   \<and> distinct (map (base_book \<circ> fst) rs) \<and> set seen \<inter> (base_book \<circ> fst) ` set rs = {}"
proof (induction seen rs arbitrary: c plans rule: plan_batch.induct)
  case (2 seen bl s rest)
  from "2.prems" obtain u d1 rows d2 plan plans' where fresh: "base_book bl \<notin> set seen"
    and scope: "verify_book_scope (base_account bl) (base_book bl) (base_sync_type bl) c = (Inr u, d1)"
    and load: "load_contacts (base_book bl) d1 = (Inr rows, d2)"
    and plan: "build_reconcile_plan bl rows s = Inr plan"
    and rest: "plan_batch (base_book bl # seen) rest d2 = (Inr plans', c')" and plans: "plans = plan # plans'"
    by (auto simp: db_return_def db_fail_def split: if_splits elim!: db_bind_cases)
  have d2: "contacts d2 = contacts c" and rows: "rows = in_book (base_book bl) c"
    using verify_book_scope_contacts [OF scope] load_contacts_ok [OF load] by (auto simp: in_book_def)
  then have same: "in_book b d2 = in_book b c" for b by (simp add: in_book_def)
  from "2.IH" [OF fresh rest] d2 rows plan plans fresh show ?case by (auto simp: same)
qed (simp add: db_return_def)

lemma apply_batch_untouched:
  "apply_batch plans c = (Inr reps, c') \<Longrightarrow> distinct (map plan_book plans) \<Longrightarrow> contacts_ok c \<Longrightarrow>
     (\<And>plan. plan \<in> set plans \<Longrightarrow> update_ids (plan_mutations plan) \<subseteq> contact_id ` set (in_book (plan_book plan) c)) \<Longrightarrow>
     r \<in> set (contacts c) \<Longrightarrow>
     (\<And>plan. plan \<in> set plans \<Longrightarrow> contact_book r \<noteq> plan_book plan
        \<or> contact_id r \<notin> update_ids (plan_mutations plan) \<union> set (plan_deletions plan)) \<Longrightarrow>
     r \<in> set (contacts c')"
proof (induction plans arbitrary: c reps)
  case (Cons plan plans)
  from Cons.prems(1) obtain rep d reps' where head: "apply_reconcile_plan plan c = (Inr rep, d)"
    and rest: "apply_batch plans d = (Inr reps', c')"
    by (auto simp: db_return_def elim!: db_bind_cases)
  have ups: "update_ids (plan_mutations plan) \<subseteq> contact_id ` set (contacts c)"
    using Cons.prems(4) [of plan] by (auto simp: in_book_def)
  have ok: "contacts_ok d" using apply_reconcile_plan_ok [OF head ups Cons.prems(3)] by blast
  have "in_book (plan_book p) d = in_book (plan_book p) c" if "p \<in> set plans" for p
    using apply_plan_other_books [OF head ups Cons.prems(3)] Cons.prems(2) that by (auto simp: image_iff)
  then have "update_ids (plan_mutations p) \<subseteq> contact_id ` set (in_book (plan_book p) d)" if "p \<in> set plans" for p
    using Cons.prems(4) [of p] that by auto
  moreover have "r \<in> set (contacts d)"
    using apply_plan_untouched [OF head ups Cons.prems(3,5)] Cons.prems(6) [of plan] by auto
  ultimately show ?case using Cons.IH [OF rest _ ok] Cons.prems(2,6) by auto
qed (simp add: db_return_def)

lemma reconcile_batch_cases:
  assumes "reconcile_remote_id_snapshot_batch rs c = (Inr reps, c')"
  obtains c1 plans c2 c3 where "same_data c1 c" "plan_batch [] rs c1 = (Inr plans, c2)"
    "apply_batch plans c2 = (Inr reps, c3)" "same_data c' c3"
  using assms unfolding reconcile_remote_id_snapshot_batch_def reconcile_remote_id_snapshot_batch_with_postcheck_def
  by (auto simp: db_return_def elim!: db_bind_cases transaction_ok_data)

lemma reconcile_batch_error:
  "reconcile_remote_id_snapshot_batch rs c = (Inl e, c') \<Longrightarrow> same_data c' c"
  unfolding reconcile_remote_id_snapshot_batch_def reconcile_remote_id_snapshot_batch_with_postcheck_def
  by (erule db_bind_cases) (auto simp: db_return_def dest: transaction_error_data)

section \<open>Local edits\<close>

text \<open>C4: Local edits win. Whatever the remote snapshots say and however the run ends, a contact that
  is not, field for field, one the baselines captured (because it was edited, created or moved
  while the snapshots were downloaded) is still there unchanged.\<close>

theorem local_edits_survive:
  assumes "contacts_ok c" and "reconcile_remote_id_snapshot_batch rs c = (res, c')"
    and "r \<in> set (contacts c)" and "list_all (\<lambda>(bl, s). r \<notin> set (base_rows bl)) rs"
  shows "r \<in> set (contacts c')"
proof (cases res)
  case (Inl e)
  with assms(2) have "contacts c' = contacts c"
    using reconcile_batch_error [THEN same_data_contacts] by blast
  with assms(3) show ?thesis by simp
next
  case (Inr reps)
  with assms(2) have "reconcile_remote_id_snapshot_batch rs c = (Inr reps, c')" by simp
  then show ?thesis
  proof (cases rule: reconcile_batch_cases)
    case (1 c1 plans c2 c3)
    note planned = plan_batch_ok [OF 1(2)]
    have c2: "contacts c2 = contacts c" using planned same_data_contacts [OF 1(1)] by simp
    then have ok: "contacts_ok c2" using assms(1) by (simp add: contacts_ok_def)
    have books: "in_book b c1 = in_book b c2" for b using planned by (simp add: in_book_def)
    from planned have plans: "list_all2 (\<lambda>(bl, s) plan. build_reconcile_plan bl (in_book (base_book bl) c2) s = Inr plan) rs plans"
      by (simp add: books)
    have pb: "map plan_book plans = map (base_book \<circ> fst) rs"
      using plans by (induction rule: list_all2_induct) (auto elim: build_reconcile_plan_cases)
    have target: "\<exists>q bl s. (bl, s) \<in> set rs \<and> q \<in> set (base_rows bl) \<and> q \<in> set (in_book (plan_book plan) c2) \<and> contact_id q = i"
      if member: "plan \<in> set plans" and i: "i \<in> update_ids (plan_mutations plan) \<union> set (plan_deletions plan)" for plan i
    proof -
      obtain bl s where bl: "(bl, s) \<in> set rs" "build_reconcile_plan bl (in_book (base_book bl) c2) s = Inr plan"
        using list_all2_member2 [OF plans member] by auto
      then have "plan_book plan = base_book bl" by (auto elim: build_reconcile_plan_cases)
      with plan_targets_unchanged [OF bl(2) i] bl(1) show ?thesis by auto
    qed
    have "r \<in> set (contacts c3)"
    proof (rule apply_batch_untouched [OF 1(3) _ ok])
      show "distinct (map plan_book plans)" using planned pb by simp
      show "update_ids (plan_mutations p) \<subseteq> contact_id ` set (in_book (plan_book p) c2)" if "p \<in> set plans" for p
        using target [OF that] by blast
      show "r \<in> set (contacts c2)" using assms(3) c2 by simp
      show "contact_book r \<noteq> plan_book p \<or> contact_id r \<notin> update_ids (plan_mutations p) \<union> set (plan_deletions p)"
        if "p \<in> set plans" for p
      proof (rule ccontr)
        assume "\<not> ?thesis"
        with target [OF that, of "contact_id r"] obtain q bl s where "(bl, s) \<in> set rs" "q \<in> set (base_rows bl)"
          "q \<in> set (contacts c2)" "contact_id q = contact_id r" by (auto simp: in_book_def)
        moreover from this(3,4) ok assms(3) c2 have "q = r" by (auto simp: contacts_ok_def distinct_map dest: inj_onD)
        ultimately show False using assms(4) by (auto simp: list_all_iff)
      qed
    qed
    with same_data_contacts [OF 1(4)] show ?thesis by simp
  qed
qed

section \<open>Convergence\<close>

lemma filter_nth: "filter P xs = map ((!) xs) (filter (\<lambda>i. P (xs ! i)) [0..<length xs])"
  by (metis (no_types, lifting) comp_apply filter_cong filter_map map_nth)

lemma list_all2_filter:
  assumes "list_all2 R xs ys" and "\<And>x y. R x y \<Longrightarrow> P x = P y"
  shows "list_all2 R (filter P xs) (filter P ys)"
  using assms by (induction rule: list_all2_induct) auto

text \<open>The rows the remote side does not know: unmatched and without a remote id.\<close>

definition local_only :: "StoredContact list \<Rightarrow> nat option list \<Rightarrow> StoredContact list" where
  "local_only rows ms = map ((!) rows) (filter (\<lambda>i. Some i \<notin> set ms \<and> managed_id (rows ! i) = None) [0..<length rows])"

text \<open>In a plan without interference exactly the unmatched managed rows go.\<close>

lemma calm_plan_kept:
  assumes "distinct (map contact_id rows)" and "\<And>i. Some i \<in> set ms \<Longrightarrow> i < length rows"
    and "plan_deletions plan = fst (plan_deletions_of rows (map (\<lambda>i. contact_id (rows ! i)) (somes ms)) rows rep)"
    and "list_all (\<lambda>r. contact_book r = plan_book plan) rows" and "i < length rows"
  shows "kept_by plan (rows ! i) \<longleftrightarrow> Some i \<in> set ms \<or> managed_id (rows ! i) = None"
proof -
  have inj: "j < length rows \<Longrightarrow> contact_id (rows ! i) = contact_id (rows ! j) \<longleftrightarrow> i = j" for j
    using assms(1,5) by (auto simp: distinct_conv_nth)
  have "contact_id (rows ! i) \<in> set (map (\<lambda>i. contact_id (rows ! i)) (somes ms)) \<longleftrightarrow> Some i \<in> set ms"
    using assms(2,5) inj by (auto simp: set_somes)
  moreover have "contact_id (rows ! i) \<in> set (plan_deletions plan) \<longleftrightarrow>
      managed_id (rows ! i) \<noteq> None \<and> contact_id (rows ! i) \<notin> set (map (\<lambda>i. contact_id (rows ! i)) (somes ms))"
  proof -
    have "r \<in> set rows \<and> contact_id r = contact_id (rows ! i) \<longleftrightarrow> r = rows ! i" for r
      using assms(1,5) by (metis distinct_map inj_onD nth_mem)
    then show ?thesis
      unfolding assms(3) plan_deletions_of_eq using row_by_id_distinct [OF assms(1)] assms(5) by fastforce
  qed
  moreover have "contact_book (rows ! i) = plan_book plan" using assms(4,5) by (simp add: list_all_length)
  ultimately show ?thesis by (auto simp: kept_by_def)
qed

lemma follows_values:
  "list_all2 (follows b ms) xs ys \<Longrightarrow> list_all (\<lambda>r. contact_book r = b) xs \<Longrightarrow>
     map contact_values ys = map (\<lambda>r. patched ms (contact_id r) (contact_values r)) xs"
  by (induction rule: list_all2_induct) (auto simp: follows_def)

lemma apply_calm_plan:
  assumes "contacts_ok c" and rows: "base_rows bl = in_book (base_book bl) c"
    and plan: "build_reconcile_plan bl (base_rows bl) s = Inr plan"
    and applied: "apply_reconcile_plan plan c = (Inr rep, c')"
  shows "\<exists>ms. match_snapshot_rows (snap_records s) (base_rows bl) (snap_policy s) ''current'' = Inr ms
    \<and> mset (map contact_values (in_book (base_book bl) c')) =
        mset (map (remote_values (base_rows bl)) (zip (snap_records s) ms))
      + mset (map contact_values (local_only (base_rows bl) ms))"
proof -
  let ?b = "base_book bl" and ?rows = "base_rows bl" and ?muts = "plan_mutations plan"
  from plan obtain bms ms rep0 where bms: "match_snapshot_rows (snap_records s) ?rows (snap_policy s) ''baseline'' = Inr bms"
    and ms: "match_snapshot_rows (snap_records s) ?rows (snap_policy s) ''current'' = Inr ms"
    and recs: "plan_records ?rows ?rows (zip (zip (snap_records s) bms) ms) empty_report = (?muts, rep0)"
    and dels: "plan_deletions_of ?rows (map (\<lambda>i. contact_id (?rows ! i)) (somes bms)) ?rows rep0 = (plan_deletions plan, plan_report plan)"
    and book: "plan_book plan = ?b" by (auto elim: build_reconcile_plan_cases)
  have same: "bms = ms" using match_snapshot_rows_state [OF bms, of "''current''"] ms by simp
  note m = match_snapshot_ok [OF ms]
  have ids: "distinct (map contact_id ?rows)"
    using assms(1) unfolding rows in_book_def contacts_ok_def by (rule distinct_map_filter)
  note calm = recs [unfolded same] m(1) ids
  have sub: "update_ids ?muts \<subseteq> contact_id ` set (contacts c)"
    using plan_targets_unchanged [OF plan] rows by (auto simp: in_book_def)
  from apply_reconcile_plan_ok [OF applied sub assms(1)] book obtain olds news where
    c': "contacts c' = filter (kept_by plan) (olds @ news)" and olds: "list_all2 (follows ?b ?muts) (contacts c) olds"
    and vals: "map contact_values news = map insert_values (insert_patches ?muts)"
    and news: "list_all (\<lambda>r. contact_book r = ?b \<and> contact_id r \<notin> contact_id ` set (contacts c)) news" by auto
  let ?P = "\<lambda>r. kept_by plan r \<and> contact_book r = ?b"
  have "set (plan_deletions plan) \<subseteq> contact_id ` set (contacts c)"
    using plan_targets_unchanged [OF plan] rows by (auto simp: in_book_def)
  then have "filter ?P news = news"
    using news by (auto simp: filter_id_conv list_all_iff kept_by_def)
  then have split: "in_book ?b c' = filter ?P olds @ news"
    unfolding in_book_def c' by (simp add: conj_commute)
  have kept: "filter ?P (contacts c) = filter (kept_by plan) ?rows" unfolding rows in_book_def by (simp add: conj_commute)
  have "list_all2 (follows ?b ?muts) (filter ?P (contacts c)) (filter ?P olds)"
    by (rule list_all2_filter [OF olds]) (auto simp: follows_def kept_by_def)
  then have "map contact_values (filter ?P olds) = map (\<lambda>r. patched ?muts (contact_id r) (contact_values r)) (filter ?P (contacts c))"
    by (rule follows_values) (simp add: list_all_iff)
  also have "\<dots> = map (\<lambda>r. patched ?muts (contact_id r) (contact_values r)) (filter (kept_by plan) ?rows)"
    unfolding kept ..
  finally have old_vals: "map contact_values (filter ?P olds) = \<dots>" .
  let ?f = "\<lambda>i. patched ?muts (contact_id (?rows ! i)) (contact_values (?rows ! i))"
  have keep: "kept_by plan (?rows ! i) \<longleftrightarrow> Some i \<in> set ms \<or> managed_id (?rows ! i) = None" if "i < length ?rows" for i
    by (rule calm_plan_kept [OF ids _ _ _ that, where rep = rep0 and ms = ms])
       (use dels same book rows m(3) in \<open>auto simp: in_book_def list_all_iff\<close>)
  have "filter (kept_by plan) ?rows = map ((!) ?rows) (filter (\<lambda>i. Some i \<in> set ms \<or> managed_id (?rows ! i) = None) [0..<length ?rows])"
    unfolding filter_nth [of "kept_by plan"] using keep by (auto intro!: arg_cong [where f = "map _"] filter_cong)
  with old_vals have "mset (map contact_values (filter ?P olds)) =
      mset (map ?f (filter (\<lambda>i. Some i \<in> set ms \<or> managed_id (?rows ! i) = None) [0..<length ?rows]))"
    by (simp add: comp_def)
  also have "\<dots> = image_mset ?f (mset (somes ms))
      + mset (map ?f (filter (\<lambda>i. Some i \<notin> set ms \<and> managed_id (?rows ! i) = None) [0..<length ?rows]))"
    by (rule kept_rows_mset [OF m(2) m(3)])
  also have "map ?f (filter (\<lambda>i. Some i \<notin> set ms \<and> managed_id (?rows ! i) = None) [0..<length ?rows])
      = map contact_values (local_only ?rows ms)"
    unfolding local_only_def map_map comp_def
    by (rule map_cong [OF refl]) (use plan_calm_unmatched [OF calm m(3)] in \<open>auto simp: patched_other\<close>)
  also have "image_mset ?f (mset (somes ms)) = mset (map (\<lambda>(r, m). apply_patch (s_patch r) (contact_values (?rows ! the m)))
      (filter (\<lambda>(_, m). m \<noteq> None) (zip (snap_records s) ms)))"
    by (rule matched_values_mset [OF m(2) m(1)]) (rule plan_calm_matched [OF calm m(3) m(2)])
  finally have "mset (map contact_values (in_book ?b c')) = mset (map (remote_values ?rows) (zip (snap_records s) ms))
      + mset (map contact_values (local_only ?rows ms))"
    unfolding split map_append mset_append vals plan_calm_inserts [OF recs [unfolded same] m(1)] remote_values_split by simp
  with ms show ?thesis by blast
qed

lemma reconcile_snapshot_cases:
  assumes "reconcile_remote_id_snapshot bl s c = (Inr rep, c')"
  obtains c1 plan c2 where "contacts c1 = contacts c" "build_reconcile_plan bl (in_book (base_book bl) c1) s = Inr plan"
    "apply_reconcile_plan plan c1 = (Inr rep, c2)" "contacts c' = contacts c2"
proof -
  from assms obtain reps d where run: "reconcile_remote_id_snapshot_batch [(bl, s)] c = (Inr reps, d)"
    and pick: "(case reps of [] \<Rightarrow> db_fail (Sync_error ''contact reconciliation produced no report'') | r # _ \<Rightarrow> db_return r) d = (Inr rep, c')"
    unfolding reconcile_remote_id_snapshot_def by (auto elim: db_bind_cases)
  from run show ?thesis
  proof (cases rule: reconcile_batch_cases)
    case (1 c1 plans c2 c3)
    note planned = plan_batch_ok [OF 1(2)]
    from planned obtain plan where plan: "plans = [plan]" "build_reconcile_plan bl (in_book (base_book bl) c2) s = Inr plan"
      by (auto simp: list_all2_Cons1 in_book_def)
    from 1(3) plan obtain r where "apply_reconcile_plan plan c2 = (Inr r, c3)" "reps = [r]"
      by (auto simp: db_return_def elim!: db_bind_cases)
    with pick plan planned same_data_contacts [OF 1(1)] same_data_contacts [OF 1(4)] show ?thesis
      by (intro that [of c2 plan c3]) (auto simp: db_return_def in_book_def)
  qed
qed

lemma managed_ids_of_values: "somes (map managed_id rs) = somes (map (\<lambda>v. nonblank (v_remote_id v)) (map contact_values rs))"
  by (simp add: comp_def managed_id_def [abs_def])

lemma mset_somes_map: "mset xs = mset ys \<Longrightarrow> mset (somes (map f xs)) = mset (somes (map f ys))"
proof -
  have "mset (somes (map f zs)) = image_mset the (filter_mset (\<lambda>m. m \<noteq> None) (image_mset f (mset zs)))" for zs
  proof (induction zs)
    case (Cons z zs)
    then show ?case by (cases "f z") auto
  qed simp
  then show "mset xs = mset ys \<Longrightarrow> mset (somes (map f xs)) = mset (somes (map f ys))" by simp
qed

lemma managed_ids_converged:
  assumes "list_all valid_record records" and "length ms = length records"
    and vals: "mset (map contact_values rs) = mset (map (remote_values rows) (zip records ms)) + mset (map contact_values (local_only rows ms))"
  shows "mset (somes (map managed_id rs)) = mset (map s_remote_id records)"
proof -
  let ?key = "\<lambda>v. nonblank (v_remote_id v)"
  have "mset (somes (map managed_id rs)) =
      mset (somes (map ?key (map (remote_values rows) (zip records ms) @ map contact_values (local_only rows ms))))"
    unfolding managed_ids_of_values by (rule mset_somes_map) (simp only: vals mset_append)
  also have "somes (map ?key (map contact_values (local_only rows ms))) = []"
    by (auto simp: local_only_def managed_id_def set_somes simp flip: set_empty)
  then have "mset (somes (map ?key (map (remote_values rows) (zip records ms) @ map contact_values (local_only rows ms))))
      = mset (somes (map ?key (map (remote_values rows) (zip records ms))))"
    by simp
  also have "somes (map ?key (map (remote_values rows) (zip records ms))) = map s_remote_id records"
    using assms(1,2)
  proof (induction records arbitrary: ms)
    case (Cons r records)
    then obtain m ms' where "ms = m # ms'" by (cases ms) auto
    with Cons show ?case by (simp add: managed_after_patch)
  qed simp
  finally show ?thesis .
qed

lemma snapshot_outcome:
  assumes "contacts_ok c" and "base_rows bl = in_book (base_book bl) c"
    and "with_match_policy patches policy = Inr s"
    and "reconcile_remote_id_snapshot bl s c = (Inr rep, c')"
  shows "\<exists>ms. match_snapshot_rows (snap_records s) (base_rows bl) policy ''current'' = Inr ms
    \<and> mset (map contact_values (in_book (base_book bl) c')) =
        mset (map (remote_values (base_rows bl)) (zip (snap_records s) ms))
      + mset (map contact_values (local_only (base_rows bl) ms))
    \<and> mset (somes (map managed_id (in_book (base_book bl) c'))) = mset (map s_remote_id (snap_records s))
    \<and> (\<forall>b. b \<noteq> base_book bl \<longrightarrow> in_book b c' = in_book b c)"
  using assms(4)
proof (cases rule: reconcile_snapshot_cases)
  case (1 c1 plan c2)
  have ok: "contacts_ok c1" and rows: "base_rows bl = in_book (base_book bl) c1"
    using assms(1,2) 1(1) by (simp_all add: contacts_ok_def in_book_def)
  have same: "in_book b c' = in_book b c2" "in_book b c1 = in_book b c" for b using 1(1,4) by (simp_all add: in_book_def)
  from apply_calm_plan [OF ok rows 1(2) [folded rows] 1(3)] obtain ms
    where ms: "match_snapshot_rows (snap_records s) (base_rows bl) (snap_policy s) ''current'' = Inr ms"
    and vals: "mset (map contact_values (in_book (base_book bl) c')) =
        mset (map (remote_values (base_rows bl)) (zip (snap_records s) ms)) + mset (map contact_values (local_only (base_rows bl) ms))"
    by (auto simp: same)
  have "update_ids (plan_mutations plan) \<subseteq> contact_id ` set (contacts c1)" "plan_book plan = base_book bl"
    using plan_targets_unchanged [OF 1(2)] 1(2) by (auto simp: in_book_def elim: build_reconcile_plan_cases)
  then have "\<forall>b. b \<noteq> base_book bl \<longrightarrow> in_book b c' = in_book b c"
    using apply_plan_other_books [OF 1(3) _ ok] by (simp add: same)
  with ms vals managed_ids_converged [OF with_match_policy_ok(1) [OF assms(3)] match_snapshot_ok(1) [OF ms] vals]
  show ?thesis using with_match_policy_ok(4) [OF assms(3)] by auto
qed

text \<open>C8: A complete snapshot converges: when no row changed since the baseline, a successful
  reconciliation leaves in the book, as a multiset of contacts, exactly the remote records (each
  the patched row it matched, or a new row) and the local-only rows unchanged; its managed
  remote ids are exactly the snapshot's, each once; and every other book is untouched.\<close>

theorem snapshot_converges:
  assumes "contacts_ok c" and "base_rows bl = in_book (base_book bl) c"
    and "with_match_policy patches policy = Inr s"
    and "reconcile_remote_id_snapshot bl s c = (Inr rep, c')"
  shows "\<exists>ms. match_snapshot_rows (snap_records s) (base_rows bl) policy ''current'' = Inr ms
    \<and> mset (map contact_values (in_book (base_book bl) c')) =
        mset (map (remote_values (base_rows bl)) (zip (snap_records s) ms))
      + mset (map contact_values (local_only (base_rows bl) ms))
    \<and> mset (somes (map managed_id (in_book (base_book bl) c'))) = mset (map s_remote_id (snap_records s))
    \<and> (\<forall>b. b \<noteq> base_book bl \<longrightarrow> in_book b c' = in_book b c)"
  by (rule snapshot_outcome [OF assms])

text \<open>After a successful reconciliation without interference the same snapshot has nothing left
  to do: planned again from a new baseline it neither changes nor deletes a row.\<close>

theorem snapshot_fixpoint:
  assumes "contacts_ok c" and "base_rows bl = in_book (base_book bl) c"
    and "new_snapshot patches = Inr s" and "reconcile_remote_id_snapshot bl s c = (Inr rep, c')"
  shows "\<exists>plan. build_reconcile_plan
        \<lparr>base_account = base_account bl, base_book = base_book bl, base_sync_type = base_sync_type bl,
         base_rows = in_book (base_book bl) c'\<rparr> (in_book (base_book bl) c') s = Inr plan
    \<and> plan_mutations plan = [] \<and> plan_deletions plan = []"
proof -
  have valid: "list_all valid_record (snap_records s)" "distinct (map s_remote_id (snap_records s))" "snap_policy s = RemoteIdOnly"
    using with_match_policy_ok assms(3) by (auto simp: new_snapshot_def)
  let ?rows = "in_book (base_book bl) c'"
  from snapshot_outcome [OF assms(1,2) assms(3) [unfolded new_snapshot_def] assms(4)] obtain ms where
    ms: "match_snapshot_rows (snap_records s) (base_rows bl) RemoteIdOnly ''current'' = Inr ms"
    and vals: "mset (map contact_values ?rows) = mset (map (remote_values (base_rows bl)) (zip (snap_records s) ms))
        + mset (map contact_values (local_only (base_rows bl) ms))"
    and ids: "mset (somes (map managed_id ?rows)) = mset (map s_remote_id (snap_records s))" by blast
  have "\<exists>row \<in> set ?rows. managed_id row = Some (s_remote_id r) \<and> apply_patch (s_patch r) (contact_values row) = contact_values row"
    if "r \<in> set (snap_records s)" for r
  proof -
    from that match_snapshot_ok(1) [OF ms] obtain m where m: "(r, m) \<in> set (zip (snap_records s) ms)"
      by (metis in_set_impl_in_set_zip1)
    then have "remote_values (base_rows bl) (r, m) \<in># mset (map contact_values ?rows)" unfolding vals by auto
    then obtain row where "row \<in> set ?rows" "contact_values row = remote_values (base_rows bl) (r, m)" by auto
    moreover have "valid_record r" using that valid(1) by (simp add: list_all_iff)
    ultimately show ?thesis using managed_after_patch [of r] apply_patch_idem [of _ r] by (metis managed_id_def)
  qed
  from plan_at_fixpoint [OF valid(2,1) ids this] valid(3) show ?thesis by (cases s) simp
qed

section \<open>Repair of duplicate remote ids\<close>

text \<open>What a set of detachments \<open>(remote id, contact id)\<close> leaves of a row.\<close>

definition detached_by :: "(string \<times> string) set \<Rightarrow> string \<Rightarrow> StoredContact \<Rightarrow> StoredContact \<Rightarrow> bool" where
  "detached_by D b r r' \<longleftrightarrow> contact_id r' = contact_id r \<and> contact_book r' = contact_book r \<and> created_at r' = created_at r
     \<and> (if contact_book r = b \<and> (\<exists>k. v_remote_id (contact_values r) = Some k \<and> (k, contact_id r) \<in> D)
        then contact_values r' = (contact_values r)\<lparr>v_remote_id := None\<rparr> else r' = r)"

lemma detached_by_compose: "detached_by D b r r' \<Longrightarrow> detached_by E b r' r'' \<Longrightarrow> detached_by (D \<union> E) b r r''"
proof (cases "contact_book r = b \<and> (\<exists>k. v_remote_id (contact_values r) = Some k \<and> (k, contact_id r) \<in> D)")
  case True
  assume one: "detached_by D b r r'" and two: "detached_by E b r' r''"
  from one True have "v_remote_id (contact_values r') = None" by (auto simp: detached_by_def)
  with two have "r'' = r'" by (simp add: detached_by_def)
  with one True show ?thesis by (auto simp: detached_by_def)
next
  case False
  assume one: "detached_by D b r r'" and two: "detached_by E b r' r''"
  from one False have "r' = r" by (auto simp: detached_by_def split: if_splits)
  with two False show ?thesis by (auto simp: detached_by_def split: if_splits)
qed

lemma detached_all_compose:
  "list_all2 (detached_by D b) xs ys \<Longrightarrow> list_all2 (detached_by E b) ys zs \<Longrightarrow> list_all2 (detached_by (D \<union> E) b) xs zs"
  by (rule list_all2_trans) (rule detached_by_compose)

lemma detached_all_refl: "list_all2 (detached_by {} b) xs xs"
  by (simp add: list_all2_same detached_by_def)

lemma detach_contact_ok:
  assumes "detach_contact b k i c = (Inr u, c')"
  shows "list_all2 (detached_by {(k, i)} b) (contacts c) (contacts c')"
  using assms unfolding detach_contact_def
proof (cases rule: db_bind_cases)
  case (ok n d)
  then have d: "d = c'" by (auto simp: db_return_def db_fail_def split: if_splits)
  from ok(1) [unfolded update_contacts_def] show ?thesis
    by (cases rule: sql_data_cases) (use d in \<open>auto simp: list_all2_map2 list_all2_same detached_by_def\<close>)
qed simp

lemma detach_each_ok:
  "db_each (\<lambda>cand. detach_contact b k (fst cand)) losers c = (Inr (), c') \<Longrightarrow>
     list_all2 (detached_by ((\<lambda>cand. (k, fst cand)) ` set losers) b) (contacts c) (contacts c')"
proof (induction losers arbitrary: c)
  case (Cons l losers)
  from Cons.prems obtain u d where one: "detach_contact b k (fst l) c = (Inr u, d)"
    and rest: "db_each (\<lambda>cand. detach_contact b k (fst cand)) losers d = (Inr (), c')"
    by (auto elim: db_bind_cases)
  from detached_all_compose [OF detach_contact_ok [OF one] Cons.IH [OF rest]] show ?case by simp
qed (simp add: db_return_def detached_all_refl)

definition losers_of :: "(string \<times> (string \<times> string option \<times> string) list) list \<Rightarrow> (string \<times> string) set" where
  "losers_of groups = (\<Union>(k, cands) \<in> set groups. (\<lambda>cand. (k, fst cand)) ` set (tl (sort_key repair_key cands)))"

lemma tl_sort_short: "length xs < 2 \<Longrightarrow> tl (sort_key f xs) = []"
  by (metis One_nat_def length_0_conv length_sort length_tl less_2_cases_iff diff_is_0_eq' le_numeral_extra(3) less_one zero_less_one_class.zero_le_one cancel_comm_monoid_add_class.diff_cancel)

lemma repair_groups_ok:
  "repair_groups b groups rep c = (Inr rep', c') \<Longrightarrow>
     list_all2 (detached_by (losers_of groups) b) (contacts c) (contacts c')"
proof (induction b groups rep arbitrary: c rule: repair_groups.induct)
  case (1 b rep)
  then show ?case by (simp add: db_return_def losers_of_def detached_all_refl)
next
  case (2 b k cands groups rep)
  have split: "losers_of ((k, cands) # groups) = (\<lambda>cand. (k, fst cand)) ` set (tl (sort_key repair_key cands)) \<union> losers_of groups"
    by (simp add: losers_of_def)
  show ?case
  proof (cases "length cands < 2")
    case True
    with "2.IH"(1) [OF True] "2.prems" show ?thesis unfolding split by (simp add: tl_sort_short)
  next
    case False
    with "2.prems" obtain u d where one: "db_each (\<lambda>cand. detach_contact b k (fst cand)) (tl (sort_key repair_key cands)) c = (Inr u, d)"
      and rest: "repair_groups b groups (rep\<lparr>duplicate_remote_ids := duplicate_remote_ids rep + 1,
                    detached := detached rep + length (tl (sort_key repair_key cands))\<rparr>) d = (Inr rep', c')"
      by (auto simp: Let_def elim!: db_bind_cases)
    from detach_each_ok [of b k _ c d] one "2.IH"(2) [OF False refl rest] show ?thesis
      unfolding split by (auto intro: detached_all_compose)
  qed
qed

text \<open>A row loses its remote id when another row of the book that has it comes first.\<close>

definition repair_candidate :: "StoredContact \<Rightarrow> string \<times> string option \<times> string" where
  "repair_candidate r = (contact_id r, v_uid (contact_values r), created_at r)"

definition loses :: "StoredContact list \<Rightarrow> StoredContact \<Rightarrow> bool" where
  "loses rows r \<longleftrightarrow> (\<exists>q \<in> set rows. managed_id q \<noteq> None \<and> managed_id q = managed_id r
     \<and> repair_key (repair_candidate q) < repair_key (repair_candidate r))"

lemma repair_key_inject: "repair_key (repair_candidate p) = repair_key (repair_candidate q) \<Longrightarrow> contact_id p = contact_id q"
  by (simp add: repair_key_def repair_candidate_def)

lemma losers_of_candidates:
  assumes "distinct (map contact_id rows)" and "r \<in> set rows"
  shows "(k, contact_id r) \<in> losers_of (candidates_by_remote_id rows) \<longleftrightarrow> managed_id r = Some k \<and> loses rows r"
proof -
  let ?rows = "filter (\<lambda>r. managed_id r = Some k) rows"
  have group: "map snd (filter (\<lambda>(l, _). l = k) (List.map_filter (\<lambda>r. map_option (\<lambda>i. (i, repair_candidate r)) (managed_id r)) xs))
      = map repair_candidate (filter (\<lambda>r. managed_id r = Some k) xs)" for xs
  proof (induction xs)
    case (Cons x xs)
    then show ?case by (cases "managed_id x") auto
  qed simp
  have dist: "distinct (map contact_id ?rows)" using assms(1) by (rule distinct_map_filter)
  then have ids: "p \<in> set ?rows \<Longrightarrow> q \<in> set ?rows \<Longrightarrow> contact_id p = contact_id q \<Longrightarrow> p = q" for p q
    by (metis distinct_map inj_onD)
  have inj: "inj_on repair_key (set (map repair_candidate ?rows))"
  proof (rule inj_onI)
    fix x y assume "x \<in> set (map repair_candidate ?rows)" "y \<in> set (map repair_candidate ?rows)" "repair_key x = repair_key y"
    then obtain p q where "p \<in> set ?rows" "q \<in> set ?rows" "x = repair_candidate p" "y = repair_candidate q"
      "repair_key (repair_candidate p) = repair_key (repair_candidate q)" by auto
    moreover from this have "p = q" using ids repair_key_inject by blast
    ultimately show "x = y" by simp
  qed
  have "distinct (map repair_candidate ?rows)"
    using dist by (auto simp: distinct_map repair_candidate_def inj_on_def)
  note member = mem_tl_sort_key [OF this inj]
  have "(k, contact_id r) \<in> losers_of (candidates_by_remote_id rows)
      \<longleftrightarrow> contact_id r \<in> fst ` set (tl (sort_key repair_key (map repair_candidate ?rows)))"
    unfolding losers_of_def candidates_by_remote_id_def repair_candidate_def [symmetric]
    by (force simp: group_entries_member group)
  also have "\<dots> \<longleftrightarrow> (\<exists>p \<in> set ?rows. contact_id p = contact_id r \<and> (\<exists>q \<in> set ?rows. repair_key (repair_candidate q) < repair_key (repair_candidate p)))"
    unfolding image_iff Bex_def member by (auto simp: repair_candidate_def)
  also have "\<dots> \<longleftrightarrow> r \<in> set ?rows \<and> (\<exists>q \<in> set ?rows. repair_key (repair_candidate q) < repair_key (repair_candidate r))"
  proof -
    have "p \<in> set rows \<Longrightarrow> contact_id p = contact_id r \<Longrightarrow> p = r" for p
      using assms by (metis distinct_map inj_onD)
    then show ?thesis using assms(2) by auto
  qed
  also have "\<dots> \<longleftrightarrow> managed_id r = Some k \<and> loses rows r"
    using assms(2) by (auto simp: loses_def)
  finally show ?thesis .
qed

lemma repair_outcome:
  assumes "contacts_ok c" and "\<And>groups. set (iter groups) = set groups"
    and "repair_duplicate_managed_remote_ids_in_transaction iter account_id b sync_type c = (Inr rep, c')"
  shows "list_all2 (\<lambda>r r'. contact_id r' = contact_id r \<and> contact_book r' = contact_book r \<and> created_at r' = created_at r
      \<and> (if contact_book r = b \<and> loses (in_book b c) r
         then contact_values r' = (contact_values r)\<lparr>v_remote_id := None\<rparr> else r' = r)) (contacts c) (contacts c')"
proof -
  let ?groups = "candidates_by_remote_id (in_book b c)"
  from assms(3) obtain u d1 loaded d2 where scope: "verify_book_scope account_id b sync_type c = (Inr u, d1)"
    and load: "load_contacts b d1 = (Inr loaded, d2)"
    and groups: "repair_groups b (iter (candidates_by_remote_id loaded)) \<lparr>duplicate_remote_ids = 0, detached = 0\<rparr> d2 = (Inr rep, c')"
    unfolding repair_duplicate_managed_remote_ids_in_transaction_def by (auto elim!: db_bind_cases)
  have d2: "contacts d2 = contacts c" "loaded = in_book b c"
    using verify_book_scope_contacts [OF scope] load_contacts_ok [OF load] by (auto simp: in_book_def)
  have "losers_of (iter ?groups) = losers_of ?groups" by (simp add: losers_of_def assms(2))
  with repair_groups_ok [OF groups] d2 have step: "list_all2 (detached_by (losers_of ?groups) b) (contacts c) (contacts c')" by simp
  have ids: "distinct (map contact_id (in_book b c))"
    using assms(1) unfolding in_book_def contacts_ok_def by (rule distinct_map_filter)
  have lose: "contact_book r = b \<and> (\<exists>k. v_remote_id (contact_values r) = Some k \<and> (k, contact_id r) \<in> losers_of ?groups)
      \<longleftrightarrow> contact_book r = b \<and> loses (in_book b c) r" if "r \<in> set (contacts c)" for r
  proof (cases "contact_book r = b")
    case True
    note that = that True    have "r \<in> set (in_book b c)" using that by (simp add: in_book_def)
    moreover have "managed_id r = Some k \<Longrightarrow> v_remote_id (contact_values r) = Some k" for k
      by (auto simp: managed_id_def nonblank_def split: option.splits if_splits)
    moreover have "loses (in_book b c) r \<Longrightarrow> managed_id r \<noteq> None" by (auto simp: loses_def)
    ultimately show ?thesis using losers_of_candidates [OF ids] by blast
  qed simp
  from step show ?thesis
    by (rule list.rel_mono_strong) (unfold detached_by_def, unfold lose, assumption)
qed

lemma loses_total:
  "p \<in> set rows \<Longrightarrow> q \<in> set rows \<Longrightarrow> contact_id p \<noteq> contact_id q \<Longrightarrow> managed_id p = Some k \<Longrightarrow> managed_id q = Some k \<Longrightarrow>
     loses rows p \<or> loses rows q"
  using repair_key_inject [of p q] by (auto simp: loses_def) (metis linorder_less_linear option.simps(3))

lemma some_row_wins:
  assumes "p \<in> set rows" and "managed_id p = Some k"
  shows "\<exists>q \<in> set rows. managed_id q = Some k \<and> \<not> loses rows q"
proof -
  let ?S = "{q \<in> set rows. managed_id q = Some k}"
  have "finite (repair_key ` repair_candidate ` ?S)" "repair_key ` repair_candidate ` ?S \<noteq> {}" using assms by auto
  then have "Min (repair_key ` repair_candidate ` ?S) \<in> repair_key ` repair_candidate ` ?S"
    and least: "q \<in> ?S \<Longrightarrow> Min (repair_key ` repair_candidate ` ?S) \<le> repair_key (repair_candidate q)" for q
    by (rule Min_in) (rule Min_le; simp)
  then obtain q where "q \<in> ?S" "repair_key (repair_candidate q) = Min (repair_key ` repair_candidate ` ?S)" by auto
  with least show ?thesis by (auto simp: loses_def not_less intro!: bexI [of _ q])
qed

text \<open>C21: The repair of duplicate remote ids loses no contact and no identity: every row survives with
  its id, book, creation time and fields, and only the remote id of a row that another row of the
  book beats (a UID first, then the older, then the lower id) is cleared; afterwards every remote
  id of the book has exactly one owner, and rows of other books are untouched.\<close>

theorem repair_keeps_contacts:
  assumes "contacts_ok c" and "\<And>groups. set (iter groups) = set groups"
    and "repair_duplicate_managed_remote_ids iter account_id b sync_type c = (Inr rep, c')"
  shows "list_all2 (\<lambda>r r'. contact_id r' = contact_id r \<and> contact_book r' = contact_book r \<and> created_at r' = created_at r
      \<and> (if contact_book r = b \<and> loses (in_book b c) r
         then contact_values r' = (contact_values r)\<lparr>v_remote_id := None\<rparr> else r' = r)) (contacts c) (contacts c')
    \<and> distinct (List.map_filter managed_id (in_book b c'))
    \<and> set (List.map_filter managed_id (in_book b c')) = set (List.map_filter managed_id (in_book b c))"
proof -
  from assms(3) obtain c1 c2 where tr: "same_data c1 c"
    "repair_duplicate_managed_remote_ids_in_transaction iter account_id b sync_type c1 = (Inr rep, c2)" "same_data c' c2"
    unfolding repair_duplicate_managed_remote_ids_def by (rule transaction_ok_data)
  have same: "contacts c1 = contacts c" "contacts c' = contacts c2" "in_book b c1 = in_book b c"
    using same_data_contacts [OF tr(1)] same_data_contacts [OF tr(3)] by (simp_all add: in_book_def)
  let ?R = "\<lambda>r r'. contact_id r' = contact_id r \<and> contact_book r' = contact_book r \<and> created_at r' = created_at r
      \<and> (if contact_book r = b \<and> loses (in_book b c) r
         then contact_values r' = (contact_values r)\<lparr>v_remote_id := None\<rparr> else r' = r)"
  have all: "list_all2 ?R (contacts c) (contacts c')"
    using repair_outcome [OF _ assms(2) tr(2)] assms(1) unfolding same by (simp add: contacts_ok_def same)
  then have book: "list_all2 ?R (in_book b c) (in_book b c')"
    unfolding in_book_def by (rule list_all2_filter) auto
  have ids: "map contact_id (in_book b c') = map contact_id (in_book b c)"
    using book by (induction rule: list_all2_induct) auto
  have dist: "distinct (map contact_id (in_book b c))"
    using assms(1) unfolding in_book_def contacts_ok_def by (rule distinct_map_filter)
  have kept: "r' \<in> set (in_book b c) \<and> \<not> loses (in_book b c) r'" if "r' \<in> set (in_book b c')" "managed_id r' \<noteq> None" for r'
  proof -
    from list_all2_member2 [OF book that(1)] obtain r where r: "r \<in> set (in_book b c)" "?R r r'" by blast
    then have "contact_book r = b" by (simp add: in_book_def)
    have "\<not> loses (in_book b c) r"
    proof
      assume "loses (in_book b c) r"
      with r(2) \<open>contact_book r = b\<close> have "managed_id r' = None" by (simp add: managed_id_def nonblank_def)
      with that(2) show False by simp
    qed
    with r show ?thesis by simp
  qed
  have "distinct (List.map_filter managed_id (in_book b c'))"
  proof (rule distinct_map_filterI)
    show "distinct (in_book b c')" using dist ids by (metis distinct_map)
    fix p q k assume "p \<in> set (in_book b c')" "q \<in> set (in_book b c')" "managed_id p = Some k" "managed_id q = Some k"
    then have "contact_id p = contact_id q" using kept [of p] kept [of q] loses_total [of p "in_book b c" q k] by auto
    with dist kept [of p] kept [of q] \<open>managed_id p = Some k\<close> \<open>managed_id q = Some k\<close> \<open>p \<in> _\<close> \<open>q \<in> _\<close> show "p = q"
      by (auto simp: distinct_map dest: inj_onD)
  qed
  moreover have "k \<in> set (List.map_filter managed_id (in_book b c')) \<longleftrightarrow> k \<in> set (List.map_filter managed_id (in_book b c))" for k
  proof
    assume "k \<in> set (List.map_filter managed_id (in_book b c'))"
    then show "k \<in> set (List.map_filter managed_id (in_book b c))" using kept by (force simp: set_map_filter)
  next
    assume "k \<in> set (List.map_filter managed_id (in_book b c))"
    then obtain q where q: "q \<in> set (in_book b c)" "managed_id q = Some k" "\<not> loses (in_book b c) q"
      using some_row_wins by (force simp: set_map_filter)
    then obtain i where i: "i < length (in_book b c)" "in_book b c ! i = q" by (metis in_set_conv_nth)
    with book q(3) have "in_book b c' ! i = q" "i < length (in_book b c')" by (auto simp: list_all2_conv_all_nth)
    with q(2) show "k \<in> set (List.map_filter managed_id (in_book b c'))" by (force simp: set_map_filter in_set_conv_nth)
  qed
  ultimately show ?thesis using all by blast
qed

section \<open>Examples\<close>

text \<open>A book with a managed contact the snapshot renames, a local contact, and a managed contact
  the remote side no longer has.\<close>

definition sample_patch :: RemoteContactPatch where
  "sample_patch = \<lparr>p_uid = Preserve, p_display_name = SetField ''Ann'', p_emails_json = Preserve, p_phones_json = Preserve,
     p_addresses_json = Preserve, p_organization = Preserve, p_title = Preserve, p_notes = Preserve, p_vcard_data = Preserve,
     p_remote_id = SetField (Some ''r1''), p_etag = SetField (Some ''e2'')\<rparr>"

definition sample_contact :: "string \<Rightarrow> string option \<Rightarrow> StoredContact" where
  "sample_contact i remote = \<lparr>contact_id = i, contact_book = ''b'',
     contact_values = (insert_values sample_patch)\<lparr>v_display_name := i, v_remote_id := remote\<rparr>,
     created_at = ''t0'', updated_at = ''t0''\<rparr>"

definition sample_db :: contacts_db where
  "sample_db = \<lparr>faults = [], contact_books = [\<lparr>book_id = ''b'', book_account = ''a'', book_name = ''n'', book_sync_type = ''s''\<rparr>],
     contacts = [sample_contact ''1'' (Some ''r1''), sample_contact ''2'' None, sample_contact ''3'' (Some ''r3'')],
     tick = 0, uuids = (\<lambda>n. show_nat (100 + n)), clock = (\<lambda>n. show_nat n)\<rparr>"

definition sample_baseline :: RemoteIdBaseline where
  "sample_baseline = \<lparr>base_account = ''a'', base_book = ''b'', base_sync_type = ''s'', base_rows = contacts sample_db\<rparr>"

definition sample_snapshot :: CompleteRemoteIdSnapshot where
  "sample_snapshot = \<lparr>snap_records = [\<lparr>s_remote_id = ''r1'', s_uid = None, s_patch = sample_patch\<rparr>], snap_policy = RemoteIdOnly\<rparr>"

lemma sample_snapshot_valid: "new_snapshot [sample_patch] = Inr sample_snapshot"
  by code_simp

lemma sample_ok: "contacts_ok sample_db \<and> base_rows sample_baseline = in_book ''b'' sample_db"
  by code_simp
lemma sample_run: "fst (reconcile_remote_id_snapshot sample_baseline sample_snapshot sample_db)
   = Inr \<lparr>inserted = 0, updated = 1, deleted = 1, unchanged_or_stale = 0\<rparr>"
  by code_simp


theorem local_edits_survive_witness:
  "sample_contact ''2'' None \<in> set (contacts (snd (reconcile_remote_id_snapshot_batch
     [(sample_baseline\<lparr>base_rows := [sample_contact ''1'' (Some ''r1'')]\<rparr>, sample_snapshot)] sample_db)))"
proof -
  have "sample_contact ''2'' None \<in> set (contacts sample_db)" by code_simp
  moreover have "list_all (\<lambda>(bl, s). sample_contact ''2'' None \<notin> set (base_rows bl))
      [(sample_baseline\<lparr>base_rows := [sample_contact ''1'' (Some ''r1'')]\<rparr>, sample_snapshot)]" by code_simp
  ultimately show ?thesis
    using local_edits_survive [OF sample_ok [THEN conjunct1] surjective_pairing] by blast
qed

theorem snapshot_converges_witness:
  "mset (somes (map managed_id (in_book ''b'' (snd (reconcile_remote_id_snapshot sample_baseline sample_snapshot sample_db)))))
     = mset [''r1'']"
proof -
  have run: "reconcile_remote_id_snapshot sample_baseline sample_snapshot sample_db
      = (Inr \<lparr>inserted = 0, updated = 1, deleted = 1, unchanged_or_stale = 0\<rparr>,
         snd (reconcile_remote_id_snapshot sample_baseline sample_snapshot sample_db))"
    using sample_run by (metis prod.collapse)
  have book: "base_book sample_baseline = ''b''" and recs: "map s_remote_id (snap_records sample_snapshot) = [''r1'']"
    by (simp_all add: sample_baseline_def sample_snapshot_def)
  show ?thesis
    using snapshot_converges [OF sample_ok [THEN conjunct1] _ sample_snapshot_valid [unfolded new_snapshot_def] run]
      sample_ok recs unfolding book by auto
qed

theorem snapshot_fixpoint_witness:
  "\<exists>rows plan. build_reconcile_plan \<lparr>base_account = ''a'', base_book = ''b'', base_sync_type = ''s'', base_rows = rows\<rparr> rows sample_snapshot
      = Inr plan \<and> plan_mutations plan = [] \<and> plan_deletions plan = []"
proof -
  have run: "reconcile_remote_id_snapshot sample_baseline sample_snapshot sample_db
      = (Inr \<lparr>inserted = 0, updated = 1, deleted = 1, unchanged_or_stale = 0\<rparr>,
         snd (reconcile_remote_id_snapshot sample_baseline sample_snapshot sample_db))"
    using sample_run by (metis prod.collapse)
  have fields: "base_book sample_baseline = ''b''" "base_account sample_baseline = ''a''" "base_sync_type sample_baseline = ''s''"
    by (simp_all add: sample_baseline_def)
  show ?thesis
    using snapshot_fixpoint [OF sample_ok [THEN conjunct1] _ sample_snapshot_valid run] sample_ok
    unfolding fields by blast
qed

definition duplicate_db :: contacts_db where
  "duplicate_db = sample_db\<lparr>contacts := [sample_contact ''1'' (Some ''r1''), sample_contact ''2'' (Some ''r1'')]\<rparr>"

lemma duplicate_run:
  "fst (repair_duplicate_managed_remote_ids id ''a'' ''b'' ''s'' duplicate_db) = Inr \<lparr>duplicate_remote_ids = 1, detached = 1\<rparr>"
  by code_simp

theorem repair_keeps_contacts_witness:
  "distinct (List.map_filter managed_id (in_book ''b'' (snd (repair_duplicate_managed_remote_ids id ''a'' ''b'' ''s'' duplicate_db))))"
proof -
  have run: "repair_duplicate_managed_remote_ids id ''a'' ''b'' ''s'' duplicate_db
      = (Inr \<lparr>duplicate_remote_ids = 1, detached = 1\<rparr>, snd (repair_duplicate_managed_remote_ids id ''a'' ''b'' ''s'' duplicate_db))"
    using duplicate_run by (metis prod.collapse)
  have ok: "contacts_ok duplicate_db" by code_simp
  from repair_keeps_contacts [OF ok _ run] show ?thesis by simp
qed

end
