(* ===== verification/Contact_Delta.thy ===== *)
theory Contact_Delta
  imports Contact_Sync
begin

text \<open>
  Deltas of contacts: what the validation of a delta establishes, and exactly when a delta can be
  planned on rows read in its own transaction.
\<close>

definition identities :: "DeltaRecord \<Rightarrow> string list" where
  "identities r = current_remote_id r # previous_remote_ids r"

section \<open>Validation\<close>

lemma delta_upserts_ok:
  "delta_upserts claimed ups = Inr (records, claimed') \<Longrightarrow> distinct claimed \<Longrightarrow>
     set claimed' = set claimed \<union> set (map current_remote_id records) \<and> distinct (map current_remote_id records)
   \<and> set claimed \<inter> set (map current_remote_id records) = {}
   \<and> list_all (\<lambda>r. p_remote_id (d_patch r) = SetField (Some (current_remote_id r)) \<and> \<not> is_blank (current_remote_id r)) records
   \<and> map (\<lambda>r. (d_patch r, previous_remote_ids r)) records = ups"
proof (induction claimed ups arbitrary: records claimed' rule: delta_upserts.induct)
  case (2 claimed patch previous ups)
  then obtain i records' where i: "p_remote_id patch = SetField (Some i)" "\<not> is_blank i" "i \<notin> set claimed"
    and rest: "delta_upserts (i # claimed) ups = Inr (records', claimed')"
    and records: "records = \<lparr>current_remote_id = i, previous_remote_ids = previous, d_patch = patch\<rparr> # records'"
    by (auto simp: validated_remote_id_ok split: if_splits)
  from "2.IH" [OF i(3) rest] "2.prems"(2) i records show ?case by auto
qed simp

lemma claim_aliases_ok:
  "claim_aliases claimed ps = Inr claimed' \<Longrightarrow>
     set claimed' = set claimed \<union> set ps \<and> distinct ps \<and> set claimed \<inter> set ps = {} \<and> list_all (\<lambda>p. \<not> is_blank p) ps"
  by (induction claimed ps rule: claim_aliases.induct) (auto split: if_splits)

lemma check_deletions_ok:
  "check_deletions claimed seen ds = Inr u \<Longrightarrow>
     distinct ds \<and> set seen \<inter> set ds = {} \<and> set claimed \<inter> set ds = {} \<and> list_all (\<lambda>d. \<not> is_blank d) ds"
  by (induction claimed seen ds rule: check_deletions.induct) (auto split: if_splits)

lemma new_delta_ok:
  assumes "new_delta ups dels = Inr d"
  shows "distinct (map current_remote_id (delta_records d))"
    and "distinct (concat (map previous_remote_ids (delta_records d)))"
    and "set (map current_remote_id (delta_records d)) \<inter> set (concat (map previous_remote_ids (delta_records d))) = {}"
    and "distinct (deleted_remote_ids d)"
    and "set (deleted_remote_ids d) \<inter> (set (map current_remote_id (delta_records d)) \<union> set (concat (map previous_remote_ids (delta_records d)))) = {}"
    and "deleted_remote_ids d = dels" and "map (\<lambda>r. (d_patch r, previous_remote_ids r)) (delta_records d) = ups"
proof -
  from assms obtain records claimed claimed' u where run: "delta_upserts [] ups = Inr (records, claimed)"
    "claim_aliases claimed (concat (map previous_remote_ids records)) = Inr claimed'"
    "check_deletions claimed' [] dels = Inr u" and d: "d = \<lparr>delta_records = records, deleted_remote_ids = dels\<rparr>"
    by (auto simp: new_delta_def)
  note facts = delta_upserts_ok [OF run(1)] claim_aliases_ok [OF run(2)] check_deletions_ok [OF run(3)]
  show "distinct (map current_remote_id (delta_records d))" "distinct (concat (map previous_remote_ids (delta_records d)))"
    "set (map current_remote_id (delta_records d)) \<inter> set (concat (map previous_remote_ids (delta_records d))) = {}"
    "distinct (deleted_remote_ids d)"
    "set (deleted_remote_ids d) \<inter> (set (map current_remote_id (delta_records d)) \<union> set (concat (map previous_remote_ids (delta_records d)))) = {}"
    "deleted_remote_ids d = dels" "map (\<lambda>r. (d_patch r, previous_remote_ids r)) (delta_records d) = ups"
    using facts d by auto
qed

section \<open>Matching\<close>

text \<open>A record that the index finds under at most one of its identities.\<close>

definition unambiguous :: "(string \<rightharpoonup> nat) \<Rightarrow> DeltaRecord \<Rightarrow> bool" where
  "unambiguous idx r \<longleftrightarrow> (\<forall>k \<in> set (identities r). \<forall>k' \<in> set (identities r). idx k \<noteq> None \<longrightarrow> idx k' \<noteq> None \<longrightarrow> k = k')"

lemma delta_current_matches_ok:
  "delta_current_matches idx i claimed records = (ms, claimed') \<Longrightarrow>
     ms = map (\<lambda>r. idx (current_remote_id r)) records
   \<and> (\<forall>j. claimed' j \<noteq> None \<longrightarrow> claimed j \<noteq> None \<or> (\<exists>r \<in> set records. idx (current_remote_id r) = Some j))"
proof (induction records arbitrary: i claimed ms)
  case (Cons r records)
  let ?claimed = "case idx (current_remote_id r) of None \<Rightarrow> claimed | Some row \<Rightarrow> claimed(row \<mapsto> i)"
  obtain ms1 c1 where run: "delta_current_matches idx (Suc i) ?claimed records = (ms1, c1)" by fastforce
  with Cons.prems have out: "ms = idx (current_remote_id r) # ms1" "claimed' = c1" by (auto simp: Let_def)
  have "?claimed j \<noteq> None \<Longrightarrow> claimed j \<noteq> None \<or> idx (current_remote_id r) = Some j" for j
    by (auto split: option.splits if_splits)
  moreover note IH = Cons.IH [OF run [folded out(2)]]
  ultimately have "claimed' j \<noteq> None \<Longrightarrow> claimed j \<noteq> None \<or> (\<exists>r' \<in> set (r # records). idx (current_remote_id r') = Some j)" for j
    by (metis list.set_intros)
  with IH out(1) show ?case by simp
qed simp

lemma alias_rows_eq:
  "set (alias_rows idx r) = {j. \<exists>k \<in> set (previous_remote_ids r). idx k = Some j}" "distinct (alias_rows idx r)"
  by (auto simp: alias_rows_def set_map_filter)

text \<open>
  With identities that no two records share, on an index that gives different rows for different
  ids, the aliases are in order exactly when every record is unambiguous.
\<close>

lemma claim_by_alias_ok_iff:
  assumes inj: "\<And>k k' j. idx k = Some j \<Longrightarrow> idx k' = Some j \<Longrightarrow> k = k'"
  shows "distinct (concat (map previous_remote_ids records)) \<Longrightarrow>
     (\<And>r. r \<in> set records \<Longrightarrow> current_remote_id r \<notin> set (previous_remote_ids r)) \<Longrightarrow>
     (\<And>j. claimed j \<noteq> None \<Longrightarrow> \<exists>k. idx k = Some j \<and> k \<notin> set (concat (map previous_remote_ids records))) \<Longrightarrow>
     (\<exists>ms. claim_by_alias st idx i claimed (zip records (map (\<lambda>r. idx (current_remote_id r)) records)) = Inr ms)
       \<longleftrightarrow> list_all (unambiguous idx) records"
proof (induction records arbitrary: i claimed)
  case (Cons r records)
  let ?as = "alias_rows idx r" and ?m = "idx (current_remote_id r)"
  have later: "(\<exists>ms. claim_by_alias st idx (Suc i) claimed' (zip records (map (\<lambda>r. idx (current_remote_id r)) records)) = Inr ms)
      \<longleftrightarrow> list_all (unambiguous idx) records"
    if "\<And>j. claimed' j \<noteq> None \<Longrightarrow> \<exists>k. idx k = Some j \<and> k \<notin> set (concat (map previous_remote_ids records))" for claimed'
    by (rule Cons.IH) (use Cons.prems(1,2) that in auto)
  have claims: "\<exists>k. idx k = Some j \<and> k \<notin> set (concat (map previous_remote_ids records))" if "claimed j \<noteq> None" for j
    using Cons.prems(3) [OF that] by auto
  note dist = Cons.prems(1) and cur = Cons.prems(2) [of r]
  show ?case
  proof (cases ?as)
    case Nil
    then have "unambiguous idx r" using alias_rows_eq(1) [of idx r] by (auto simp: unambiguous_def identities_def)
    with Nil later [of claimed, OF claims] show ?thesis by (cases ?m) auto
  next
    case (Cons a as)
    then obtain k where k: "k \<in> set (previous_remote_ids r)" "idx k = Some a" using alias_rows_eq(1) [of idx r] by force
    show ?thesis
    proof (cases as)
      case two: (Cons b bs)
      then obtain k' where "k' \<in> set (previous_remote_ids r)" "idx k' = Some b" using alias_rows_eq(1) [of idx r] Cons by force
      moreover have "a \<noteq> b" using alias_rows_eq(2) [of idx r] Cons two by auto
      ultimately have "\<not> unambiguous idx r" using k unfolding unambiguous_def identities_def
        by (metis list.set_intros(2) option.inject option.simps(3))
      with Cons two show ?thesis by (simp add: Let_def)
    next
      case one: Nil
      show ?thesis
      proof (cases ?m)
        case (Some j)
        then have "j \<noteq> a" using inj [of "current_remote_id r" j k] k cur by auto
        moreover have "\<not> unambiguous idx r" using k Some cur by (auto simp: unambiguous_def identities_def)
        ultimately show ?thesis using Cons one Some by (simp add: Let_def)
      next
        case None
        have "idx k' = Some j \<Longrightarrow> k' \<in> set (previous_remote_ids r) \<Longrightarrow> k' = k" for k' j
          using alias_rows_eq(1) [of idx r] Cons one inj [of k' a k] k(2) by auto
        then have single: "unambiguous idx r"
          using None unfolding unambiguous_def identities_def by (metis not_Some_eq set_ConsD)
        have free: "claimed a = None"
        proof (rule ccontr)
          assume "claimed a \<noteq> None"
          from Cons.prems(3) [OF this] obtain k' where "idx k' = Some a"
            "k' \<notin> set (concat (map previous_remote_ids (r # records)))" by blast
          with inj [of k' a k] k show False by auto
        qed
        have "(claimed(a \<mapsto> i)) j \<noteq> None \<Longrightarrow> \<exists>k. idx k = Some j \<and> k \<notin> set (concat (map previous_remote_ids records))" for j
          using claims [of j] k dist by (cases "j = a") auto
        note rest = later [of "claimed(a \<mapsto> i)", OF this]
        show ?thesis using single free Cons one None by (simp add: Let_def rest del: fun_upd_apply)
      qed
    qed
  qed
qed simp

lemma claim_by_alias_state: "claim_by_alias st idx i claimed rms = Inr r \<Longrightarrow> claim_by_alias st' idx i claimed rms = Inr r"
proof (induction rms arbitrary: i claimed r)
  case (Cons rm rms)
  obtain rec1 m where rm: "rm = (rec1, m)" by (cases rm)
  from Cons show ?case
    by (cases m; cases "alias_rows idx rec1") (auto simp: rm Let_def split: if_splits)
qed simp

lemma match_delta_rows_state: "match_delta_rows records rows st = Inr ms \<Longrightarrow> match_delta_rows records rows st' = Inr ms"
proof -
  assume "match_delta_rows records rows st = Inr ms"
  then obtain idx where one: "index_managed_row_indices rows st = Inr idx"
    and rest: "(case delta_current_matches idx 0 Map.empty records of (ms0, claimed) \<Rightarrow>
       claim_by_alias st idx 0 claimed (zip records ms0)) = Inr ms"
    by (auto simp: match_delta_rows_def)
  obtain ms0 claimed where dcm: "delta_current_matches idx 0 Map.empty records = (ms0, claimed)" by fastforce
  with rest have two: "claim_by_alias st idx 0 claimed (zip records ms0) = Inr ms" by simp
  from index_state(1) [OF one, of st'] claim_by_alias_state [OF two, of st'] dcm show ?thesis
    by (simp add: match_delta_rows_def)
qed

lemma plan_delta_records_calm: "\<exists>x. plan_delta_records rows rows (zip (zip records ms) ms) rep = Inr x"
proof (induction records arbitrary: ms rep)
  case (Cons r records)
  show ?case
  proof (cases ms)
    case ms: (Cons m ms')
    obtain ms1 rep1 where "plan_record (d_patch r) (map_option ((!) rows) m) (map_option ((!) rows) m) rep = (ms1, rep1)"
      by fastforce
    with Cons.IH [of ms' rep1] ms show ?thesis by (cases m) (auto simp: Let_def split: prod.splits)
  qed simp
qed simp

lemma plan_delta_deletions_calm: "\<exists>x. plan_delta_deletions f f dels rep = Inr x"
proof (induction dels arbitrary: rep)
  case (Cons d dels)
  show ?case
  proof (cases "f d")
    case None
    with Cons show ?thesis by simp
  next
    case (Some r)
    with Cons [of "rep\<lparr>deleted := deleted rep + 1\<rparr>"] show ?thesis by (auto split: prod.splits)
  qed
qed simp

section \<open>Planning\<close>

text \<open>A validated delta planned on the rows of its own transaction fails exactly when some
  record's identities (its remote id and its previous ones) belong to two different rows; no
  record is refused for a conflict with another record or with a change since the baseline.\<close>

theorem delta_plan_succeeds_iff:
  assumes "new_delta upserts deletions = Inr delta" and "distinct (List.map_filter managed_id rows)"
  shows "(\<exists>plan. build_delta_reconcile_plan
        \<lparr>base_account = a, base_book = b, base_sync_type = t, base_rows = rows\<rparr> rows delta = Inr plan)
    \<longleftrightarrow> list_all (\<lambda>r. \<forall>p \<in> set rows. \<forall>q \<in> set rows.
          managed_id p \<in> Some ` set (identities r) \<longrightarrow> managed_id q \<in> Some ` set (identities r) \<longrightarrow> p = q)
        (delta_records delta)"
proof -
  let ?records = "delta_records delta"
  note valid = new_delta_ok [OF assms(1)]
  from assms(2) obtain idx where base: "index_managed_row_indices rows ''baseline'' = Inr idx"
    using index_managed_ok_iff by blast
  note cur = index_state(1) [OF base, of "''current''"]
  note look = index_managed_lookup [OF base]
  have inj: "idx k = Some j \<Longrightarrow> idx k' = Some j \<Longrightarrow> k = k'" for k k' j by (simp add: look)
  obtain ms claimed where dcm: "delta_current_matches idx 0 Map.empty ?records = (ms, claimed)" by fastforce
  note d = delta_current_matches_ok [OF dcm]
  have "(\<exists>out. match_delta_rows ?records rows ''baseline'' = Inr out) \<longleftrightarrow> list_all (unambiguous idx) ?records"
  proof -
    have "(\<exists>out. claim_by_alias ''baseline'' idx 0 claimed (zip ?records (map (\<lambda>r. idx (current_remote_id r)) ?records)) = Inr out)
        \<longleftrightarrow> list_all (unambiguous idx) ?records"
    proof (rule claim_by_alias_ok_iff)
      show "idx k = Some j \<Longrightarrow> idx k' = Some j \<Longrightarrow> k = k'" for k k' j by (rule inj)
      show "distinct (concat (map previous_remote_ids ?records))" by (rule valid(2))
      show "current_remote_id r \<notin> set (previous_remote_ids r)" if "r \<in> set ?records" for r using valid(3) that by auto
      show "\<exists>k. idx k = Some j \<and> k \<notin> set (concat (map previous_remote_ids ?records))" if "claimed j \<noteq> None" for j
      proof -
        from d that obtain r where "r \<in> set ?records" "idx (current_remote_id r) = Some j" by auto
        with valid(3) show ?thesis by (intro exI [of _ "current_remote_id r"]) auto
      qed
    qed
    then show ?thesis using d by (simp add: match_delta_rows_def base dcm)
  qed
  also have "list_all (unambiguous idx) ?records \<longleftrightarrow> list_all (\<lambda>r. \<forall>p \<in> set rows. \<forall>q \<in> set rows.
          managed_id p \<in> Some ` set (identities r) \<longrightarrow> managed_id q \<in> Some ` set (identities r) \<longrightarrow> p = q) ?records"
  proof (rule list.pred_cong [OF refl])
    fix r
    have unique: "p \<in> set rows \<Longrightarrow> q \<in> set rows \<Longrightarrow> managed_id p = Some k \<Longrightarrow> managed_id q = Some k \<Longrightarrow> p = q" for p q k
      by (metis in_set_conv_nth look option.inject)
    have some: "idx k \<noteq> None \<longleftrightarrow> (\<exists>p \<in> set rows. managed_id p = Some k)" for k
      using look by (metis in_set_conv_nth not_Some_eq)
    show "unambiguous idx r \<longleftrightarrow> (\<forall>p \<in> set rows. \<forall>q \<in> set rows.
          managed_id p \<in> Some ` set (identities r) \<longrightarrow> managed_id q \<in> Some ` set (identities r) \<longrightarrow> p = q)"
      unfolding unambiguous_def some using unique by (smt (verit) image_iff option.inject)
  qed
  finally have match: "(\<exists>out. match_delta_rows ?records rows ''baseline'' = Inr out) \<longleftrightarrow> \<dots>" .
  have "(\<exists>plan. build_delta_reconcile_plan \<lparr>base_account = a, base_book = b, base_sync_type = t, base_rows = rows\<rparr> rows delta = Inr plan)
      \<longleftrightarrow> (\<exists>out. match_delta_rows ?records rows ''baseline'' = Inr out)"
  proof
    assume "\<exists>out. match_delta_rows ?records rows ''baseline'' = Inr out"
    then obtain out where out: "match_delta_rows ?records rows ''baseline'' = Inr out" by blast
    note out' = match_delta_rows_state [OF out, of "''current''"]
    obtain muts rep where "plan_delta_records rows rows (zip (zip ?records out) out) empty_report = Inr (muts, rep)"
      using plan_delta_records_calm by (metis surj_pair)
    moreover obtain ids rep' where "plan_delta_deletions (\<lambda>i. map_option ((!) rows) (idx i)) (\<lambda>i. map_option ((!) rows) (idx i))
        (deleted_remote_ids delta) rep = Inr (ids, rep')"
      using plan_delta_deletions_calm by (metis surj_pair)
    ultimately show "\<exists>plan. build_delta_reconcile_plan \<lparr>base_account = a, base_book = b, base_sync_type = t, base_rows = rows\<rparr> rows delta = Inr plan"
      using out out' base cur by (simp add: build_delta_reconcile_plan_def)
  qed (auto simp: build_delta_reconcile_plan_def)
  with match show ?thesis by simp
qed

theorem delta_plan_succeeds_iff_witness:
  "\<exists>plan. build_delta_reconcile_plan sample_baseline (contacts sample_db)
     \<lparr>delta_records = [\<lparr>current_remote_id = ''r1'', previous_remote_ids = [''r0''], d_patch = sample_patch\<rparr>],
      deleted_remote_ids = [''r3'']\<rparr> = Inr plan"
proof -
  let ?delta = "\<lparr>delta_records = [\<lparr>current_remote_id = ''r1'', previous_remote_ids = [''r0''], d_patch = sample_patch\<rparr>],
      deleted_remote_ids = [''r3'']\<rparr>"
  have valid: "new_delta [(sample_patch, [''r0''])] [''r3''] = Inr ?delta" by code_simp
  have rows: "distinct (List.map_filter managed_id (contacts sample_db))" by code_simp
  have "list_all (\<lambda>r. \<forall>p \<in> set (contacts sample_db). \<forall>q \<in> set (contacts sample_db).
      managed_id p \<in> Some ` set (identities r) \<longrightarrow> managed_id q \<in> Some ` set (identities r) \<longrightarrow> p = q) (delta_records ?delta)"
    by code_simp
  with delta_plan_succeeds_iff [OF valid rows, of "''a''" "''b''" "''s''"] show ?thesis
    by (simp add: sample_baseline_def)
qed

end
