(* ===== verification/Chrono_Model.thy ===== *)
theory Chrono_Model
  imports Error_Model
begin

text \<open>
  What the calendar code uses of the crates \<^verbatim>\<open>chrono\<close> and \<^verbatim>\<open>chrono_tz\<close>, as a record of functions
  the model takes as a parameter. A \<^verbatim>\<open>NaiveDate\<close> is its number of days since Monday 0001-01-01, an
  instant (\<^verbatim>\<open>DateTime<Utc>\<close>) its number of nanoseconds since that midnight in UTC, a local date and
  time the pair of a date and the nanoseconds since midnight. A parsed time is a pair of seconds
  and nanoseconds, where at least a full second of nanoseconds marks a leap second.
\<close>

type_synonym date = int
type_synonym instant = int

definition NANOS_PER_DAY :: int where
  "NANOS_PER_DAY = 86400 * 1000000000"

datatype local_result = Single instant | Ambiguous instant instant | NoTime

record 'z chrono =
  civil_date :: "date \<Rightarrow> int \<times> nat \<times> nat"
  from_ymd_opt :: "int \<Rightarrow> nat \<Rightarrow> nat \<Rightarrow> date option"
  date_min :: date
  date_max :: date
  time_min :: instant
  time_max :: instant
  parse_iso_date :: "string \<Rightarrow> date option"
  parse_compact_date :: "string \<Rightarrow> date option"
  parse_compact_stamp :: "string \<Rightarrow> (int \<times> int) option"
  parse_rfc3339 :: "string \<Rightarrow> (int \<times> int) option"
  show_iso_date :: "date \<Rightarrow> string"
  show_compact_date :: "date \<Rightarrow> string"
  show_compact_stamp :: "instant \<Rightarrow> string"
  show_rfc3339 :: "instant \<Rightarrow> string"
  parse_zone :: "string \<Rightarrow> 'z option"
  zone_utc :: 'z
  zone_local :: "'z \<Rightarrow> instant \<Rightarrow> date \<times> int"
  zone_instant :: "'z \<Rightarrow> date \<times> int \<Rightarrow> local_result"

definition year_of :: "'z chrono \<Rightarrow> date \<Rightarrow> int" where
  "year_of x d = (case civil_date x d of (y, m, k) \<Rightarrow> y)"

definition month_of :: "'z chrono \<Rightarrow> date \<Rightarrow> nat" where
  "month_of x d = (case civil_date x d of (y, m, k) \<Rightarrow> m)"

definition day_of :: "'z chrono \<Rightarrow> date \<Rightarrow> nat" where
  "day_of x d = (case civil_date x d of (y, m, k) \<Rightarrow> k)"

definition num_days_from_monday :: "date \<Rightarrow> nat" where
  "num_days_from_monday d = nat (d mod 7)"

definition date_naive :: "instant \<Rightarrow> date" where
  "date_naive t = t div NANOS_PER_DAY"

definition midnight :: "date \<Rightarrow> instant" where
  "midnight d = d * NANOS_PER_DAY"

text \<open>\<^verbatim>\<open>Duration::try_days\<close> and the checked arithmetic of dates and instants.\<close>

definition try_days :: "int \<Rightarrow> int option" where
  "try_days n = (if abs n * 86400000 < 2 ^ 63 then Some n else None)"

definition date_checked_add :: "'z chrono \<Rightarrow> date \<Rightarrow> int \<Rightarrow> date option" where
  "date_checked_add x d n = (if date_min x \<le> d + n \<and> d + n \<le> date_max x then Some (d + n) else None)"

definition time_checked_add :: "'z chrono \<Rightarrow> instant \<Rightarrow> int \<Rightarrow> instant option" where
  "time_checked_add x t n = (if time_min x \<le> t + n \<and> t + n \<le> time_max x then Some (t + n) else None)"

text \<open>The arithmetic of \<^verbatim>\<open>i64\<close>.\<close>

definition i64_ok :: "int \<Rightarrow> bool" where
  "i64_ok n \<longleftrightarrow> - (2 ^ 63) \<le> n \<and> n < 2 ^ 63"

definition i64_checked :: "int \<Rightarrow> int option" where
  "i64_checked n = (if i64_ok n then Some n else None)"

lemma NANOS_PER_DAY_pos [simp]: "0 < NANOS_PER_DAY" "NANOS_PER_DAY \<noteq> 0" "0 \<le> NANOS_PER_DAY"
  by (simp_all add: NANOS_PER_DAY_def)

lemma date_naive_midnight [simp]: "date_naive (midnight d) = d"
  by (simp add: date_naive_def midnight_def)

lemma midnight_mod [simp]: "midnight d mod NANOS_PER_DAY = 0"
  by (simp add: midnight_def)

lemma date_naive_mono: "s \<le> t \<Longrightarrow> date_naive s \<le> date_naive t"
  by (simp add: date_naive_def zdiv_mono1)

lemma midnight_date_naive: "midnight (date_naive t) \<le> t" "t < midnight (date_naive t + 1)"
proof -
  have "t = midnight (date_naive t) + t mod NANOS_PER_DAY" by (simp add: midnight_def date_naive_def)
  moreover have "0 \<le> t mod NANOS_PER_DAY" "t mod NANOS_PER_DAY < NANOS_PER_DAY" by simp_all
  ultimately show "midnight (date_naive t) \<le> t" "t < midnight (date_naive t + 1)"
    unfolding midnight_def distrib_right by linarith+
qed

end
