(* ===== verification/Recurrence_Rule.thy ===== *)
theory Recurrence_Rule
  imports Chrono_Model
begin

text \<open>
  The recurrence rules of the calendar editor (\<^verbatim>\<open>Rule\<close> of \<^verbatim>\<open>calendar/simple_recurrence.rs\<close>): the
  parser of the supported RRULE subset and the canonical serialiser.
\<close>

section \<open>Values\<close>

definition DAY_CODES :: "string list" where
  "DAY_CODES = [''MO'', ''TU'', ''WE'', ''TH'', ''FR'', ''SA'', ''SU'']"

datatype Frequency = Daily | Weekly | Monthly | Yearly

datatype Until = UntilDate date | UntilInstant instant

record Rule =
  frequency :: Frequency
  interval :: nat
  by_day :: "nat list option"
  week_start :: nat
  rule_count :: "nat option"
  rule_until :: "Until option"

definition invalid :: "string \<Rightarrow> error" where
  "invalid message = Other (''simple recurrence: '' @ message)"

definition range_error :: error where
  "range_error = invalid ''position or boundary exceeds the supported date range (0001..9999)''"

definition check_date :: "'z chrono \<Rightarrow> date \<Rightarrow> date result" where
  "check_date x d = (if 1 \<le> year_of x d \<and> year_of x d \<le> 9999 then Inr d else Inl range_error)"

text \<open>A string of a fixed shape: the character at position \<open>i\<close> passes the test \<open>i\<close>.\<close>

definition shaped :: "(nat \<Rightarrow> char \<Rightarrow> bool) \<Rightarrow> string \<Rightarrow> bool" where
  "shaped p s \<longleftrightarrow> list_all (\<lambda>(i, c). p i c) (enumerate 0 s)"

definition iso_char :: "nat \<Rightarrow> char \<Rightarrow> bool" where
  "iso_char i c \<longleftrightarrow> (if i = 4 \<or> i = 7 then c = CHR ''-'' else is_ascii_digit c)"

definition parse_date_value :: "'z chrono \<Rightarrow> string \<Rightarrow> date result" where
  "parse_date_value x value =
     (if str_len value \<noteq> 10 \<or> \<not> shaped iso_char value
      then Inl (invalid ''expected an ISO date (YYYY-MM-DD)'')
      else and_then (ok_or (invalid ''invalid calendar date'') (parse_iso_date x value)) (check_date x))"

definition parse_instant :: "'z chrono \<Rightarrow> string \<Rightarrow> instant result" where
  "parse_instant x value =
     (if str_len value > 64 then Inl (invalid ''invalid RFC 3339 instant'')
      else and_then (ok_or (invalid ''expected an RFC 3339 instant with an explicit offset'') (parse_rfc3339 x value))
        (\<lambda>(secs, nanos).
          and_then (check_date x (secs div 86400)) (\<lambda>_.
            if nanos \<ge> 1000000000 then Inl (invalid ''leap-second timestamps are unsupported'')
            else Inr (secs * 1000000000 + nanos))))"

definition boundary :: "'z chrono \<Rightarrow> string \<Rightarrow> instant result" where
  "boundary x value =
     (if str_len value = 10 then and_then (parse_date_value x value) (\<lambda>d. Inr (midnight d))
      else parse_instant x value)"

definition positive_integer :: "string \<Rightarrow> nat result" where
  "positive_integer value =
     (if value = [] \<or> \<not> list_all is_ascii_digit value
      then Inl (invalid ''COUNT and INTERVAL require positive integers'')
      else ok_or (invalid ''COUNT or INTERVAL is zero or exceeds u32'')
        (case parse_unsigned 32 value of Some n \<Rightarrow> if n > 0 then Some n else None | None \<Rightarrow> None))"

fun position :: "'a \<Rightarrow> 'a list \<Rightarrow> nat option" where
  "position y [] = None"
| "position y (z # zs) = (if z = y then Some 0 else map_option Suc (position y zs))"

definition weekday :: "string \<Rightarrow> nat result" where
  "weekday value = ok_or (invalid ''expected an unqualified weekday MO..SU'') (position value DAY_CODES)"

definition stamp_char :: "nat \<Rightarrow> char \<Rightarrow> bool" where
  "stamp_char i c \<longleftrightarrow> (if i = 8 then c = CHR ''T'' else if i = 15 then c = CHR ''Z'' else is_ascii_digit c)"

definition parse_until :: "'z chrono \<Rightarrow> string \<Rightarrow> Until result" where
  "parse_until x value =
     (if str_len value = 10 then and_then (parse_date_value x value) (\<lambda>d. Inr (UntilDate d))
      else if str_len value = 8 \<and> list_all is_ascii_digit value
      then and_then (and_then (ok_or (invalid ''invalid UNTIL date'') (parse_compact_date x value)) (check_date x))
             (\<lambda>d. Inr (UntilDate d))
      else if str_len value \<noteq> 16
        \<or> \<not> shaped stamp_char value
      then Inl (invalid ''UNTIL must be a date or RFC 5545 UTC timestamp'')
      else and_then (ok_or (invalid ''invalid UNTIL timestamp'') (parse_compact_stamp x value)) (\<lambda>(secs, nanos).
        and_then (check_date x (secs div 86400)) (\<lambda>_.
          if nanos \<ge> 1000000000 then Inl (invalid ''UNTIL leap seconds are unsupported'')
          else Inr (UntilInstant (secs * 1000000000 + nanos)))))"

section \<open>Parsing\<close>

text \<open>The variables of the parsing loop.\<close>

record parts =
  pt_frequency :: "Frequency option"
  pt_interval :: nat
  pt_by_day :: "nat list option"
  pt_week_start :: nat
  pt_count :: "nat option"
  pt_until :: "Until option"
  pt_keys :: "string list"

definition no_parts :: parts where
  "no_parts = \<lparr>pt_frequency = None, pt_interval = 1, pt_by_day = None, pt_week_start = 0, pt_count = None,
     pt_until = None, pt_keys = []\<rparr>"

definition parse_frequency :: "string \<Rightarrow> Frequency result" where
  "parse_frequency value =
     (if value = ''DAILY'' then Inr Daily
      else if value = ''WEEKLY'' then Inr Weekly
      else if value = ''MONTHLY'' then Inr Monthly
      else if value = ''YEARLY'' then Inr Yearly
      else Inl (invalid ''unsupported FREQ''))"

fun collect_results :: "'a result list \<Rightarrow> 'a list result" where
  "collect_results [] = Inr []"
| "collect_results (r # rs) = and_then r (\<lambda>a. and_then (collect_results rs) (\<lambda>as. Inr (a # as)))"

definition parse_days :: "string \<Rightarrow> nat list result" where
  "parse_days value =
     and_then (collect_results (map (\<lambda>day. weekday (trim day)) (split_on (CHR '','') value)))
       (\<lambda>days. Inr (remdups_adj (sort days)))"

text \<open>The match on the key of a part.\<close>

definition parse_key :: "'z chrono \<Rightarrow> parts \<Rightarrow> string \<Rightarrow> string \<Rightarrow> parts result" where
  "parse_key x st key value =
     (if key = ''FREQ'' then and_then (parse_frequency value) (\<lambda>f. Inr (st\<lparr>pt_frequency := Some f\<rparr>))
      else if key = ''INTERVAL''
      then and_then (positive_integer value) (\<lambda>n.
             if n > 99 then Inl (invalid ''INTERVAL must be in 1..=99'') else Inr (st\<lparr>pt_interval := n\<rparr>))
      else if key = ''COUNT'' then and_then (positive_integer value) (\<lambda>n. Inr (st\<lparr>pt_count := Some n\<rparr>))
      else if key = ''UNTIL'' then and_then (parse_until x value) (\<lambda>u. Inr (st\<lparr>pt_until := Some u\<rparr>))
      else if key = ''WKST'' then and_then (weekday value) (\<lambda>d. Inr (st\<lparr>pt_week_start := d\<rparr>))
      else if key = ''BYDAY'' then and_then (parse_days value) (\<lambda>days. Inr (st\<lparr>pt_by_day := Some days\<rparr>))
      else Inl (invalid (''unsupported RRULE part '' @ key)))"

definition parse_part :: "'z chrono \<Rightarrow> parts \<Rightarrow> string \<Rightarrow> parts result" where
  "parse_part x st part =
     and_then (ok_or (invalid ''malformed RRULE part'') (split_once (CHR ''='') part)) (\<lambda>(k, v).
       let key = trim k; value = trim v in
       if value = [] \<or> key \<in> set (pt_keys st) then Inl (invalid ''empty or duplicate RRULE part'')
       else parse_key x (st\<lparr>pt_keys := key # pt_keys st\<rparr>) key value)"

fun parse_parts :: "'z chrono \<Rightarrow> parts \<Rightarrow> string list \<Rightarrow> parts result" where
  "parse_parts x st [] = Inr st"
| "parse_parts x st (p # ps) = and_then (parse_part x st p) (\<lambda>st. parse_parts x st ps)"

definition is_ascii_control :: "char \<Rightarrow> bool" where
  [str_defs]: "is_ascii_control c \<longleftrightarrow> char_code c < 32 \<or> char_code c = 127"

lemma is_ascii_control_code [code]:
  "is_ascii_control c \<longleftrightarrow> (let n = (of_char c :: int) in n < 32 \<or> n = 127)"
  by (auto simp: is_ascii_control_def Let_def simp flip: char_code_int)

definition finish_rule :: "parts \<Rightarrow> Rule result" where
  "finish_rule st =
     and_then (ok_or (invalid ''RRULE requires FREQ'') (pt_frequency st)) (\<lambda>f.
       if f \<noteq> Weekly \<and> (pt_by_day st \<noteq> None \<or> ''WKST'' \<in> set (pt_keys st))
       then Inl (invalid ''BYDAY and WKST are supported only for WEEKLY'')
       else if pt_count st \<noteq> None \<and> pt_until st \<noteq> None
       then Inl (invalid ''COUNT and UNTIL are mutually exclusive'')
       else Inr \<lparr>frequency = f, interval = pt_interval st, by_day = pt_by_day st, week_start = pt_week_start st,
                 rule_count = pt_count st, rule_until = pt_until st\<rparr>)"

definition parse_rule :: "'z chrono \<Rightarrow> string \<Rightarrow> Rule result" where
  "parse_rule x input =
     (if str_len input > 4096 \<or> \<not> list_all is_ascii input \<or> list_ex is_ascii_control input
      then Inl (invalid ''RRULE must be at most 4096 printable ASCII bytes'')
      else let uppercase = to_ascii_uppercase (trim input);
               rest = (case strip_prefix ''RRULE:'' uppercase of Some r \<Rightarrow> r | None \<Rightarrow> uppercase)
           in and_then (parse_parts x no_parts (split_on (CHR '';'') rest)) finish_rule)"

section \<open>Serialisation\<close>

fun frequency_text :: "Frequency \<Rightarrow> string" where
  "frequency_text Daily = ''DAILY''"
| "frequency_text Weekly = ''WEEKLY''"
| "frequency_text Monthly = ''MONTHLY''"
| "frequency_text Yearly = ''YEARLY''"

fun until_text :: "'z chrono \<Rightarrow> Until \<Rightarrow> string" where
  "until_text x (UntilDate d) = show_compact_date x d"
| "until_text x (UntilInstant t) = show_compact_stamp x t"

definition rule_parts :: "'z chrono \<Rightarrow> Rule \<Rightarrow> string list" where
  "rule_parts x r =
     [''FREQ='' @ frequency_text (frequency r)]
   @ (if interval r \<noteq> 1 then [''INTERVAL='' @ show_nat (interval r)] else [])
   @ (case by_day r of None \<Rightarrow> [] | Some days \<Rightarrow> [''BYDAY='' @ join '','' (map ((!) DAY_CODES) days)])
   @ (if week_start r \<noteq> 0 then [''WKST='' @ DAY_CODES ! week_start r] else [])
   @ (case rule_count r of None \<Rightarrow> [] | Some n \<Rightarrow> [''COUNT='' @ show_nat n])
   @ (case rule_until r of None \<Rightarrow> [] | Some u \<Rightarrow> [''UNTIL='' @ until_text x u])"

definition serialize_rule :: "'z chrono \<Rightarrow> Rule \<Rightarrow> string" where
  "serialize_rule x r = join '';'' (rule_parts x r)"

section \<open>Laws of the date formats\<close>

text \<open>What serialisation relies on: the compact forms of dates and whole seconds in the supported
  years have their fixed width and are read back, and a stamp is read to whole seconds.\<close>

definition supported :: "'z chrono \<Rightarrow> date \<Rightarrow> bool" where
  "supported x d \<longleftrightarrow> 1 \<le> year_of x d \<and> year_of x d \<le> 9999"

locale compact_formats =
  fixes x :: "'z chrono"
  assumes compact_date: "supported x d \<Longrightarrow> length (show_compact_date x d) = 8
      \<and> list_all is_ascii_digit (show_compact_date x d) \<and> parse_compact_date x (show_compact_date x d) = Some d"
    and compact_stamp: "supported x (secs div 86400) \<Longrightarrow>
      length (show_compact_stamp x (secs * 1000000000)) = 16
      \<and> shaped stamp_char
          (show_compact_stamp x (secs * 1000000000))
      \<and> parse_compact_stamp x (show_compact_stamp x (secs * 1000000000)) = Some (secs, 0)"
    and stamp_whole: "parse_compact_stamp x s = Some (secs, nanos) \<Longrightarrow> nanos = 0 \<or> 1000000000 \<le> nanos"

text \<open>What the parser guarantees of a rule.\<close>

fun until_ok :: "'z chrono \<Rightarrow> Until \<Rightarrow> bool" where
  "until_ok x (UntilDate d) \<longleftrightarrow> supported x d"
| "until_ok x (UntilInstant t) \<longleftrightarrow> supported x (date_naive t) \<and> t mod 1000000000 = 0"

definition rule_ok :: "'z chrono \<Rightarrow> Rule \<Rightarrow> bool" where
  "rule_ok x r \<longleftrightarrow> 1 \<le> interval r \<and> interval r \<le> 99 \<and> week_start r < 7
     \<and> pred_option (\<lambda>ds. ds \<noteq> [] \<and> sorted_wrt (<) ds \<and> list_all (\<lambda>d. d < 7) ds) (by_day r)
     \<and> pred_option (\<lambda>n. 0 < n \<and> n < 2 ^ 32) (rule_count r) \<and> pred_option (until_ok x) (rule_until r)
     \<and> (frequency r \<noteq> Weekly \<longrightarrow> by_day r = None \<and> week_start r = 0)
     \<and> (rule_count r = None \<or> rule_until r = None)"

section \<open>Lemmas\<close>

lemma position_Some: "position y zs = Some i \<Longrightarrow> i < length zs \<and> zs ! i = y"
  by (induction zs arbitrary: i) (auto split: if_splits)

lemma position_nth: "distinct zs \<Longrightarrow> i < length zs \<Longrightarrow> position (zs ! i) zs = Some i"
proof (induction zs arbitrary: i)
  case (Cons z zs)
  then show ?case by (cases i) (auto simp: nth_eq_iff_index_eq)
qed simp

lemma DAY_CODES_facts: "length DAY_CODES = 7" "distinct DAY_CODES"
  by (simp_all add: DAY_CODES_def)

lemma weekday_ok: "weekday v = Inr d \<Longrightarrow> d < 7"
  using position_Some [of v DAY_CODES d] by (simp add: weekday_def DAY_CODES_facts)

lemma weekday_code: "d < 7 \<Longrightarrow> weekday (DAY_CODES ! d) = Inr d"
  by (simp add: weekday_def position_nth DAY_CODES_facts)

lemma positive_integer_ok: "positive_integer v = Inr n \<Longrightarrow> 0 < n \<and> n < 2 ^ 32"
  by (auto simp: positive_integer_def parse_unsigned_def Let_def split: if_splits option.splits)

lemma positive_integer_show: "0 < n \<Longrightarrow> n < 2 ^ 32 \<Longrightarrow> positive_integer (show_nat n) = Inr n"
  using parse_unsigned_show_nat [of n 32] show_nat_digits [of n] by (simp add: positive_integer_def)

lemma collect_results_Inr: "collect_results (map f xs) = Inr ys \<Longrightarrow> list_all2 (\<lambda>x y. f x = Inr y) xs ys"
  by (induction xs arbitrary: ys) auto

lemma collect_results_map: "(\<And>x. x \<in> set xs \<Longrightarrow> f (g x) = Inr x) \<Longrightarrow> collect_results (map f (map g xs)) = Inr xs"
  by (induction xs) auto



lemma strict_sorted_remdups_adj: "sorted (xs :: nat list) \<Longrightarrow> sorted_wrt (<) (remdups_adj xs)"
  by (induction xs rule: remdups_adj.induct) auto

lemma parse_days_ok:
  assumes "parse_days v = Inr ds"
  shows "ds \<noteq> [] \<and> sorted_wrt (<) ds \<and> list_all (\<lambda>d. d < 7) ds"
proof -
  from assms obtain days where days: "list_all2 (\<lambda>d n. weekday (trim d) = Inr n) (split_on (CHR '','') v) days"
    and ds: "ds = remdups_adj (sort days)" by (auto simp: parse_days_def dest: collect_results_Inr)
  have "days \<noteq> []" using days split_on_nonempty by (metis list_all2_Nil2)
  moreover have "list_all (\<lambda>d. d < 7) days"
    using days by (induction rule: list_all2_induct) (auto dest: weekday_ok)
  ultimately show ?thesis
    unfolding ds by (auto simp add: list_all_iff strict_sorted_remdups_adj simp flip: set_empty)
qed

lemma check_date_Inr [simp]: "check_date x d = Inr d' \<longleftrightarrow> d' = d \<and> supported x d"
  by (auto simp: check_date_def supported_def)

lemma parse_until_ok:
  assumes "compact_formats x" and "parse_until x v = Inr u"
  shows "until_ok x u"
proof -
  have nanos: "parse_compact_stamp x s = Some (secs, n) \<Longrightarrow> n < 1000000000 \<Longrightarrow> n = 0" for s secs n
    using compact_formats.stamp_whole [OF assms(1)] by force
  have "date_naive (secs * 1000000000) = secs div 86400" for secs
    by (simp add: date_naive_def NANOS_PER_DAY_def)
  with assms(2) show ?thesis
    by (auto simp: parse_until_def parse_date_value_def not_le dest!: nanos split: if_splits)
qed

text \<open>Invariant of the parsing loop.\<close>

definition parts_ok :: "'z chrono \<Rightarrow> parts \<Rightarrow> bool" where
  "parts_ok x st \<longleftrightarrow> 1 \<le> pt_interval st \<and> pt_interval st \<le> 99 \<and> pt_week_start st < 7
     \<and> (pt_week_start st \<noteq> 0 \<longrightarrow> ''WKST'' \<in> set (pt_keys st))
     \<and> pred_option (\<lambda>ds. ds \<noteq> [] \<and> sorted_wrt (<) ds \<and> list_all (\<lambda>d. d < 7) ds) (pt_by_day st)
     \<and> pred_option (\<lambda>n. 0 < n \<and> n < 2 ^ 32) (pt_count st) \<and> pred_option (until_ok x) (pt_until st)"

lemma parse_key_preserves:
  assumes "compact_formats x" and "parts_ok x st" and "key \<in> set (pt_keys st)" and "parse_key x st key value = Inr st'"
  shows "parts_ok x st'"
  using assms(2-)
  by (auto simp: parse_key_def parts_ok_def split: if_splits
      dest: positive_integer_ok weekday_ok parse_days_ok parse_until_ok [OF assms(1)])

lemma parse_part_preserves:
  assumes "compact_formats x" and "parts_ok x st" and "parse_part x st p = Inr st'"
  shows "parts_ok x st'"
proof -
  from assms(3) obtain key v where run: "parse_key x (st\<lparr>pt_keys := key # pt_keys st\<rparr>) key v = Inr st'"
    by (auto simp: parse_part_def Let_def split: if_splits)
  have "parts_ok x (st\<lparr>pt_keys := key # pt_keys st\<rparr>)" using assms(2) by (simp add: parts_ok_def)
  from parse_key_preserves [OF assms(1) this _ run] show ?thesis by simp
qed

lemma parse_parts_preserves:
  "compact_formats x \<Longrightarrow> parts_ok x st \<Longrightarrow> parse_parts x st ps = Inr st' \<Longrightarrow> parts_ok x st'"
  by (induction ps arbitrary: st) (auto dest: parse_part_preserves)

lemma parse_rule_ok:
  assumes "compact_formats x" and "parse_rule x s = Inr r"
  shows "rule_ok x r"
proof -
  from assms(2) obtain ps st where parts: "parse_parts x no_parts ps = Inr st" and fin: "finish_rule st = Inr r"
    by (auto simp: parse_rule_def Let_def split: if_splits)
  have "parts_ok x no_parts" by (simp add: parts_ok_def no_parts_def)
  from parse_parts_preserves [OF assms(1) this parts] fin show ?thesis
    by (auto simp: finish_rule_def parts_ok_def rule_ok_def split: if_splits)
qed

section \<open>Round trip\<close>

text \<open>The characters of a serialised rule other than the separator of the parts.\<close>

definition plain :: "char \<Rightarrow> bool" where
  "plain c \<longleftrightarrow> is_ascii_digit c \<or> (65 \<le> char_code c \<and> char_code c \<le> 90) \<or> c = CHR ''='' \<or> c = CHR '',''"

lemma plain_facts:
  assumes "plain c"
  shows "is_ascii c" and "\<not> is_ascii_control c" and "\<not> is_whitespace c" and "char_to_ascii_uppercase c = c"
    and "c \<noteq> CHR '';''"
  using assms
  by (auto simp: plain_def is_ascii_def is_ascii_digit_def is_ascii_control_def is_whitespace_def
      char_to_ascii_uppercase_def char_code_def Let_def)

lemma digit_plain: "is_ascii_digit c \<Longrightarrow> plain c \<and> c \<noteq> CHR ''='' \<and> c \<noteq> CHR '',''"
  by (auto simp: plain_def is_ascii_digit_def char_code_def)

text \<open>A value of a part: plain characters, none of them an equality sign, at least one.\<close>

definition plain_value :: "string \<Rightarrow> bool" where
  "plain_value v \<longleftrightarrow> v \<noteq> [] \<and> list_all (\<lambda>c. plain c \<and> c \<noteq> CHR ''='') v"

lemma plain_value_trim: "plain_value v \<Longrightarrow> trim v = v"
  by (rule trim_id) (auto simp: plain_value_def list_all_iff plain_facts)

lemma plain_value_digits: "list_all is_ascii_digit v \<Longrightarrow> v \<noteq> [] \<Longrightarrow> plain_value v"
  by (auto simp: plain_value_def list_all_iff dest: digit_plain)

definition KEYS :: "string list" where
  "KEYS = [''FREQ'', ''INTERVAL'', ''BYDAY'', ''WKST'', ''COUNT'', ''UNTIL'']"

lemma KEYS_plain: "k \<in> set KEYS \<Longrightarrow> plain_value k \<and> CHR ''='' \<notin> set k \<and> length k \<le> 8"
  by (auto simp: KEYS_def plain_value_def plain_def char_code_def is_ascii_digit_def)

lemma parse_part_key:
  assumes "k \<in> set KEYS" and "plain_value v" and "k \<notin> set (pt_keys st)"
  shows "parse_part x st (k @ CHR ''='' # v) = parse_key x (st\<lparr>pt_keys := k # pt_keys st\<rparr>) k v"
  using assms KEYS_plain [OF assms(1)]
  by (simp add: parse_part_def split_once_append plain_value_trim Let_def plain_value_def [of v])

lemma DAY_CODES_plain: "d < 7 \<Longrightarrow> plain_value (DAY_CODES ! d) \<and> CHR '','' \<notin> set (DAY_CODES ! d) \<and> length (DAY_CODES ! d) = 2"
  by (auto simp: DAY_CODES_def less_Suc_eq numeral_eq_Suc plain_value_def plain_def char_code_def)

definition days_text :: "nat list \<Rightarrow> string" where
  "days_text days = join '','' (map ((!) DAY_CODES) days)"

lemma parse_days_text:
  assumes "ds \<noteq> []" and "sorted_wrt (<) ds" and "list_all (\<lambda>d. d < 7) ds"
  shows "parse_days (days_text ds) = Inr ds"
proof -
  have "split_on (CHR '','') (days_text ds) = map ((!) DAY_CODES) ds"
    unfolding days_text_def
    by (rule split_on_join) (use assms DAY_CODES_plain in \<open>auto simp: list_all_iff\<close>)
  moreover have "collect_results (map (\<lambda>day. weekday (trim day)) (map ((!) DAY_CODES) ds)) = Inr ds"
    by (rule collect_results_map)
      (use assms in \<open>simp add: list_all_iff plain_value_trim [OF DAY_CODES_plain [THEN conjunct1]] weekday_code\<close>)
  moreover have "remdups_adj (sort ds) = ds"
    using assms(2) by (simp add: sorted_sort_id strict_sorted_iff remdups_adj_distinct)
  ultimately show ?thesis by (simp add: parse_days_def)
qed

lemma join_plain:
  assumes "ps \<noteq> []" and "\<And>p. p \<in> set ps \<Longrightarrow> plain_value p"
  shows "plain_value (join '','' ps)"
proof -
  have "join '','' ps \<noteq> []" using assms by (cases "('','', ps)" rule: join.cases) (auto simp: plain_value_def)
  moreover have "plain (CHR '','')" by (simp add: plain_def)
  ultimately show ?thesis using set_join [of "'',''" ps] assms(2)
    by (fastforce simp: plain_value_def list_all_iff)
qed

lemma days_text_plain:
  assumes "ds \<noteq> []" and "sorted_wrt (<) ds" and "list_all (\<lambda>d. d < 7) ds"
  shows "plain_value (days_text ds) \<and> length (days_text ds) \<le> 21"
proof -
  have "plain_value (days_text ds)"
    unfolding days_text_def using assms by (intro join_plain) (auto simp: list_all_iff DAY_CODES_plain)
  moreover have "length ds \<le> 7"
    using assms(2,3) card_mono [of "{..<7::nat}" "set ds"]
    by (auto simp: list_all_iff strict_sorted_iff distinct_card)
  moreover have "length (days_text ds) \<le> length (map ((!) DAY_CODES) ds) * (2 + length '','')"
    unfolding days_text_def using assms(3) by (intro length_join) (auto simp: list_all_iff DAY_CODES_plain)
  ultimately show ?thesis by simp
qed

lemma frequency_text_plain: "plain_value (frequency_text f) \<and> length (frequency_text f) \<le> 7"
  by (cases f) (simp_all add: plain_value_def plain_def char_code_def)

lemma parse_frequency_text: "parse_frequency (frequency_text f) = Inr f"
  by (cases f) (simp_all add: parse_frequency_def)

lemma shaped_set: "shaped p s \<longleftrightarrow> (\<forall>i < length s. p i (s ! i))"
  by (auto simp: shaped_def list_all_iff in_set_enumerate_eq)

lemma stamp_plain:
  assumes "shaped stamp_char s"
  shows "list_all (\<lambda>c. plain c \<and> c \<noteq> CHR ''='') s"
proof -
  have "plain (s ! i) \<and> s ! i \<noteq> CHR ''=''" if "i < length s" for i
  proof -
    have "s ! i = CHR ''T'' \<or> s ! i = CHR ''Z'' \<or> is_ascii_digit (s ! i)"
      using assms [unfolded shaped_set stamp_char_def, rule_format, OF that] by presburger
    moreover have "plain (CHR ''T'')" "plain (CHR ''Z'')" by (simp_all add: plain_def char_code_def)
    ultimately show ?thesis using digit_plain [of "s ! i"] by auto
  qed
  then show ?thesis by (auto simp: list_all_length)
qed

lemma until_text_round_trip:
  assumes "compact_formats x" and "until_ok x u"
  shows "plain_value (until_text x u) \<and> length (until_text x u) \<le> 16 \<and> parse_until x (until_text x u) = Inr u"
proof (cases u)
  case (UntilDate d)
  with assms have facts: "length (show_compact_date x d) = 8" "list_all is_ascii_digit (show_compact_date x d)"
    "parse_compact_date x (show_compact_date x d) = Some d" "supported x d"
    by (auto dest: compact_formats.compact_date)
  have pv: "plain_value (show_compact_date x d)" using facts by (intro plain_value_digits) auto
  then have "str_len (show_compact_date x d) = 8"
    using facts(1) by (subst str_len_ascii) (auto simp: plain_value_def list_all_iff plain_facts)
  with facts pv UntilDate show ?thesis by (simp add: parse_until_def)
next
  case (UntilInstant t)
  define secs where "secs = t div 1000000000"
  have t: "t = secs * 1000000000" using assms(2) UntilInstant by (auto simp: secs_def)
  have "date_naive t = secs div 86400" by (simp add: t date_naive_def NANOS_PER_DAY_def)
  with assms UntilInstant have facts: "length (show_compact_stamp x t) = 16"
    "shaped stamp_char
       (show_compact_stamp x t)"
    "parse_compact_stamp x (show_compact_stamp x t) = Some (secs, 0)" "supported x (secs div 86400)"
    by (auto simp: t dest: compact_formats.compact_stamp)
  have pv: "plain_value (show_compact_stamp x t)"
    using facts(1) stamp_plain [OF facts(2)] by (auto simp: plain_value_def)
  then have "str_len (show_compact_stamp x t) = 16"
    using facts(1) by (subst str_len_ascii) (auto simp: plain_value_def list_all_iff plain_facts)
  with facts pv UntilInstant show ?thesis by (simp add: parse_until_def t)
qed

text \<open>The parts of a serialised rule as keys and values.\<close>

definition rule_fields :: "'z chrono \<Rightarrow> Rule \<Rightarrow> (string \<times> string) list" where
  "rule_fields x r =
     [(''FREQ'', frequency_text (frequency r))]
   @ (if interval r \<noteq> 1 then [(''INTERVAL'', show_nat (interval r))] else [])
   @ (case by_day r of None \<Rightarrow> [] | Some days \<Rightarrow> [(''BYDAY'', days_text days)])
   @ (if week_start r \<noteq> 0 then [(''WKST'', DAY_CODES ! week_start r)] else [])
   @ (case rule_count r of None \<Rightarrow> [] | Some n \<Rightarrow> [(''COUNT'', show_nat n)])
   @ (case rule_until r of None \<Rightarrow> [] | Some u \<Rightarrow> [(''UNTIL'', until_text x u)])"

lemma rule_parts_fields: "rule_parts x r = map (\<lambda>(k, v). k @ CHR ''='' # v) (rule_fields x r)"
  by (simp add: rule_parts_def rule_fields_def days_text_def split: option.split)

lemma rule_fields_plain:
  assumes "compact_formats x" and "rule_ok x r" and "(k, v) \<in> set (rule_fields x r)"
  shows "k \<in> set KEYS \<and> plain_value v \<and> length v \<le> 21"
proof -
  have nat_value: "plain_value (show_nat n) \<and> length (show_nat n) \<le> 21" if "n < 2 ^ 32" for n
    using that show_nat_digits [of n] length_show_nat [of n 20]
    by (simp add: plain_value_digits)
  show ?thesis
    using assms(2,3) frequency_text_plain [of "frequency r"] nat_value [of "interval r"]
      nat_value [of "the (rule_count r)"] days_text_plain [of "the (by_day r)"] DAY_CODES_plain [of "week_start r"]
      until_text_round_trip [OF assms(1), of "the (rule_until r)"]
    by (cases "by_day r"; cases "rule_count r"; cases "rule_until r")
      (auto simp: rule_fields_def rule_ok_def KEYS_def split: if_splits)
qed

lemma KEYS_member [simp]:
  "''FREQ'' \<in> set KEYS" "''INTERVAL'' \<in> set KEYS" "''BYDAY'' \<in> set KEYS" "''WKST'' \<in> set KEYS"
  "''COUNT'' \<in> set KEYS" "''UNTIL'' \<in> set KEYS"
  by (simp_all add: KEYS_def)

text \<open>Reading fields in place of parts.\<close>

fun parse_fields :: "'z chrono \<Rightarrow> parts \<Rightarrow> (string \<times> string) list \<Rightarrow> parts result" where
  "parse_fields x st [] = Inr st"
| "parse_fields x st ((k, v) # kvs) =
     and_then (parse_key x (st\<lparr>pt_keys := k # pt_keys st\<rparr>) k v) (\<lambda>st. parse_fields x st kvs)"

lemma parse_key_keys: "parse_key x st k v = Inr st' \<Longrightarrow> pt_keys st' = pt_keys st"
  by (auto simp: parse_key_def split: if_splits)

lemma parse_parts_fields:
  assumes "\<And>k v. (k, v) \<in> set kvs \<Longrightarrow> k \<in> set KEYS \<and> plain_value v"
    and "distinct (map fst kvs)" and "set (map fst kvs) \<inter> set (pt_keys st) = {}"
  shows "parse_parts x st (map (\<lambda>(k, v). k @ CHR ''='' # v) kvs) = parse_fields x st kvs"
  using assms
proof (induction x st kvs rule: parse_fields.induct)
  case (2 x st k v kvs)
  have "parse_part x st (k @ CHR ''='' # v) = parse_key x (st\<lparr>pt_keys := k # pt_keys st\<rparr>) k v"
    using "2.prems" by (intro parse_part_key) auto
  moreover have "parse_parts x st' (map (\<lambda>(k, v). k @ CHR ''='' # v) kvs) = parse_fields x st' kvs"
    if "parse_key x (st\<lparr>pt_keys := k # pt_keys st\<rparr>) k v = Inr st'" for st'
    by (rule "2.IH") (use "2.prems" parse_key_keys [OF that] in auto)
  ultimately show ?case
    by (cases "parse_key x (st\<lparr>pt_keys := k # pt_keys st\<rparr>) k v") auto
qed simp

lemma rule_fields_keys: "distinct (map fst (rule_fields x r))"
  by (simp add: rule_fields_def split: option.split)

lemma parse_rule_parts:
  assumes "compact_formats x" and "rule_ok x r"
  shows "and_then (parse_parts x no_parts (rule_parts x r)) finish_rule = Inr r"
proof -
  have day: "parse_days (days_text ds) = Inr ds" if "by_day r = Some ds" for ds
    using assms(2) that by (simp add: rule_ok_def parse_days_text)
  have until: "parse_until x (until_text x u) = Inr u" if "rule_until r = Some u" for u
    using assms that until_text_round_trip [of x u] by (simp add: rule_ok_def)
  have "parse_parts x no_parts (rule_parts x r) = parse_fields x no_parts (rule_fields x r)"
    unfolding rule_parts_fields using rule_fields_plain [OF assms] rule_fields_keys
    by (intro parse_parts_fields) (auto simp: no_parts_def)
  moreover have "and_then (parse_fields x no_parts (rule_fields x r)) finish_rule = Inr r"
    using assms(2)
    by (cases "by_day r"; cases "rule_count r"; cases "rule_until r"; cases "interval r = 1"; cases "week_start r = 0";
        cases r)
      (simp_all add: rule_fields_def rule_ok_def parse_key_def no_parts_def parse_frequency_text positive_integer_show
         weekday_code day until finish_rule_def del: frequency_text.simps and_then_eq_Inr)
  ultimately show ?thesis by simp
qed

lemma rule_parts_plain:
  assumes "compact_formats x" and "rule_ok x r" and "p \<in> set (rule_parts x r)"
  shows "list_all plain p \<and> length p \<le> 30"
proof -
  from assms(3) obtain k v where kv: "(k, v) \<in> set (rule_fields x r)" and p: "p = k @ CHR ''='' # v"
    by (auto simp: rule_parts_fields)
  have "plain (CHR ''='')" by (simp add: plain_def)
  with rule_fields_plain [OF assms(1,2) kv] show ?thesis using KEYS_plain [of k]
    by (auto simp: p plain_value_def list_all_iff)
qed

lemma length_rule_parts: "length (rule_parts x r) \<le> 6"
  by (simp add: rule_parts_def split: option.split)

lemma serialize_rule_text:
  assumes "compact_formats x" and "rule_ok x r"
  shows "list_all (\<lambda>c. plain c \<or> c = CHR '';'') (serialize_rule x r)" and "length (serialize_rule x r) \<le> 186"
proof -
  show "list_all (\<lambda>c. plain c \<or> c = CHR '';'') (serialize_rule x r)"
    using set_join [of "'';''" "rule_parts x r"] rule_parts_plain [OF assms]
    by (fastforce simp: serialize_rule_def list_all_iff)
  have "length (serialize_rule x r) \<le> length (rule_parts x r) * (30 + length '';'')"
    unfolding serialize_rule_def by (rule length_join) (use rule_parts_plain [OF assms] in blast)
  then show "length (serialize_rule x r) \<le> 186" using length_rule_parts [of x r] by simp
qed

lemma parse_serialize_rule:
  assumes "compact_formats x" and "rule_ok x r"
  shows "parse_rule x (serialize_rule x r) = Inr r"
proof -
  let ?s = "serialize_rule x r"
  have semi: "is_ascii (CHR '';'')" "\<not> is_ascii_control (CHR '';'')" "\<not> is_whitespace (CHR '';'')"
    "char_to_ascii_uppercase (CHR '';'') = CHR '';''"
    by (simp_all add: str_defs)
  have chars: "is_ascii c \<and> \<not> is_ascii_control c \<and> \<not> is_whitespace c \<and> char_to_ascii_uppercase c = c"
    if "c \<in> set ?s" for c
    using serialize_rule_text(1) [OF assms] that semi plain_facts [of c] by (auto simp: list_all_iff)
  have ascii: "list_all is_ascii ?s" "\<not> list_ex is_ascii_control ?s" using chars by (auto simp: list_all_iff list_ex_iff)
  have trim: "trim ?s = ?s" using chars by (intro trim_id) (simp add: list_all_iff)
  have upper: "to_ascii_uppercase ?s = ?s" using chars by (simp add: to_ascii_uppercase_def map_idI)
  have len: "str_len ?s \<le> 4096" using serialize_rule_text(2) [OF assms] by (simp add: str_len_ascii ascii)
  have freq: "strip_prefix ''RRULE:'' ?s = None"
    by (cases "tl (rule_parts x r)") (simp_all add: serialize_rule_def rule_parts_def strip_prefix_def split: option.splits)
  have "split_on (CHR '';'') ?s = rule_parts x r"
    unfolding serialize_rule_def
  proof (rule split_on_join)
    show "rule_parts x r \<noteq> []" by (simp add: rule_parts_def)
    show "CHR '';'' \<notin> set p" if "p \<in> set (rule_parts x r)" for p
      using rule_parts_plain [OF assms that] plain_facts(5) by (auto simp: list_all_iff)
  qed
  then show ?thesis
    using len ascii parse_rule_parts [OF assms] by (simp add: parse_rule_def trim upper freq Let_def)
qed

end
