(* ===== verification/Calendar_Event.thy ===== *)
theory Calendar_Event
  imports Chrono_Model
begin

text \<open>
  The provider-neutral calendar event and its mutation policy (\<^verbatim>\<open>calendar/mod.rs\<close>), and the
  identities of the objects of a recurring series with their validation
  (\<^verbatim>\<open>calendar/recurrence_identity.rs\<close>).
\<close>

section \<open>Events\<close>

datatype RecurrenceKind = StandaloneKind | SeriesKind | OccurrenceKind | UnknownKind

fun kind_as_str :: "RecurrenceKind \<Rightarrow> string" where
  "kind_as_str UnknownKind = ''unknown''"
| "kind_as_str StandaloneKind = ''standalone''"
| "kind_as_str SeriesKind = ''series''"
| "kind_as_str OccurrenceKind = ''occurrence''"

definition kind_from_stored :: "string \<Rightarrow> RecurrenceKind" where
  "kind_from_stored s =
     (if s = ''standalone'' then StandaloneKind
      else if s = ''series'' then SeriesKind
      else if s = ''occurrence'' then OccurrenceKind
      else UnknownKind)"

definition kind_from_rule :: "string option \<Rightarrow> RecurrenceKind" where
  "kind_from_rule rule = (if pred_option (\<lambda>r. r = []) rule then StandaloneKind else SeriesKind)"

record CalendarEvent =
  ev_id :: string
  ev_account_id :: string
  ev_calendar_id :: string
  ev_uid :: "string option"
  ev_title :: string
  ev_description :: "string option"
  ev_location :: "string option"
  ev_start_time :: string
  ev_end_time :: string
  ev_all_day :: bool
  ev_timezone :: "string option"
  ev_recurrence_rule :: "string option"
  ev_recurrence_kind :: RecurrenceKind
  ev_organizer_email :: "string option"
  ev_attendees_json :: "string option"
  ev_my_status :: "string option"
  ev_source_message_id :: "string option"
  ev_ical_data :: "string option"
  ev_remote_id :: "string option"
  ev_etag :: "string option"

definition ensure_mutable :: "CalendarEvent \<Rightarrow> unit result" where
  "ensure_mutable e =
     (if \<not> pred_option (\<lambda>r. r = []) (ev_recurrence_rule e) \<or> ev_recurrence_kind e = SeriesKind
         \<or> ev_recurrence_kind e = OccurrenceKind
      then Inl (CalendarMutationBlocked Recurring)
      else if ev_recurrence_kind e \<noteq> StandaloneKind then Inl (CalendarMutationBlocked UnknownRecurrence)
      else Inr ())"

record Attendee =
  at_email :: string
  at_name :: "string option"
  at_status :: string
  at_is_self :: "bool option"

definition attendee_status_for_email :: "Attendee list \<Rightarrow> string \<Rightarrow> string option" where
  "attendee_status_for_email attendees email =
     map_option at_status
       (case List.find (\<lambda>a. at_is_self a = Some True) attendees of
          Some a \<Rightarrow> Some a
        | None \<Rightarrow> List.find (\<lambda>a. eq_ignore_ascii_case (at_email a) email) attendees)"

text \<open>\<^verbatim>\<open>serde_json::from_str\<close> for a list of attendees is the argument \<open>decode\<close>.\<close>

definition attendee_status_from_json ::
  "(string \<Rightarrow> Attendee list option) \<Rightarrow> string option \<Rightarrow> string \<Rightarrow> string option" where
  "attendee_status_from_json decode attendees_json email =
     (case attendees_json of
        None \<Rightarrow> None
      | Some json \<Rightarrow>
          (case decode json of None \<Rightarrow> None | Some attendees \<Rightarrow> attendee_status_for_email attendees email))"

section \<open>Identities of recurrence objects\<close>

datatype RecurrenceObjectKind = MasterObject | OccurrenceObject | ExceptionObject | ExclusionObject

fun object_kind_as_str :: "RecurrenceObjectKind \<Rightarrow> string" where
  "object_kind_as_str MasterObject = ''master''"
| "object_kind_as_str OccurrenceObject = ''occurrence''"
| "object_kind_as_str ExceptionObject = ''exception''"
| "object_kind_as_str ExclusionObject = ''exclusion''"

definition object_kind_from_stored :: "string \<Rightarrow> RecurrenceObjectKind result" where
  "object_kind_from_stored s =
     (if s = ''master'' then Inr MasterObject
      else if s = ''occurrence'' then Inr OccurrenceObject
      else if s = ''exception'' then Inr ExceptionObject
      else if s = ''exclusion'' then Inr ExclusionObject
      else Inl (Other (''Unknown recurrence object kind: '' @ debug_str s)))"

datatype RecurrenceValueType = DateValue | DateTimeValue

fun value_type_as_str :: "RecurrenceValueType \<Rightarrow> string" where
  "value_type_as_str DateValue = ''date''"
| "value_type_as_str DateTimeValue = ''date-time''"

definition value_type_from_stored :: "string \<Rightarrow> RecurrenceValueType result" where
  "value_type_from_stored s =
     (if s = ''date'' then Inr DateValue
      else if s = ''date-time'' then Inr DateTimeValue
      else Inl (Other (''Unknown recurrence value type: '' @ debug_str s)))"

record OccurrenceFields =
  oc_title :: string
  oc_description :: "string option"
  oc_location :: "string option"
  oc_start_time :: string
  oc_end_time :: string
  oc_all_day :: bool
  oc_timezone :: "string option"

definition positive_range_error :: error where
  "positive_range_error = Other ''occurrence end must be after occurrence start''"

text \<open>The order of two instants; the nanoseconds of a leap second follow those of its second.\<close>

fun stamp_le :: "int \<times> int \<Rightarrow> int \<times> int \<Rightarrow> bool" where
  "stamp_le (s, n) (s', n') \<longleftrightarrow> s < s' \<or> s = s' \<and> n \<le> n'"

definition bad_text :: "string \<Rightarrow> bool" where
  "bad_text s \<longleftrightarrow> is_blank s \<or> list_ex is_control s"

definition validate_range :: "'z chrono \<Rightarrow> bool \<Rightarrow> OccurrenceFields \<Rightarrow> unit result" where
  "validate_range x display f =
     (if \<not> pred_option (\<lambda>z. \<not> bad_text z) (oc_timezone f)
      then Inl (Other ''timezone must be non-empty and contain no control characters'')
      else if oc_all_day f then
        and_then (ok_or (Other ''all-day occurrences require ISO date start and end values'')
                    (parse_iso_date x (oc_start_time f))) (\<lambda>start.
        and_then (ok_or (Other ''all-day occurrences require ISO date start and end values'')
                    (parse_iso_date x (oc_end_time f))) (\<lambda>end_date.
          if end_date \<le> start then Inl positive_range_error else Inr ()))
      else
        and_then (ok_or (Other ''timed occurrences require RFC 3339 start and end values'')
                    (parse_rfc3339 x (oc_start_time f))) (\<lambda>start.
        and_then (ok_or (Other ''timed occurrences require RFC 3339 start and end values'')
                    (parse_rfc3339 x (oc_end_time f))) (\<lambda>end_time.
          if display \<and> end_time = start then Inr ()
          else if stamp_le end_time start then Inl positive_range_error else Inr ())))"

definition validate_fields :: "'z chrono \<Rightarrow> OccurrenceFields \<Rightarrow> unit result" where
  "validate_fields x f =
     (if is_blank (oc_title f) then Inl (Other ''occurrence title must be non-empty'')
      else validate_range x False f)"

definition validate_display :: "'z chrono \<Rightarrow> OccurrenceFields \<Rightarrow> unit result" where
  "validate_display x f = validate_range x True f"

record RecurrenceIdentitySeed =
  rs_local_series_event_id :: "string option"
  rs_provider_calendar_id :: "string option"
  rs_provider_series_id :: "string option"
  rs_provider_occurrence_id :: "string option"
  rs_recurrence_id :: "string option"
  rs_recurrence_timezone :: "string option"
  rs_recurrence_value_type :: "RecurrenceValueType option"
  rs_occurrence :: OccurrenceFields
  rs_provider_native_data :: "string option"
  rs_provider_revision :: "string option"
  rs_kind :: RecurrenceObjectKind

record RecurrenceIdentity = RecurrenceIdentitySeed +
  ri_object_id :: string
  ri_account_id :: string
  ri_event_id :: string

definition as_seed :: "RecurrenceIdentity \<Rightarrow> RecurrenceIdentitySeed" where
  "as_seed i = RecurrenceIdentitySeed.truncate i"

record RecurrenceObjectSummary =
  ro_object_id :: string
  ro_event_id :: string
  ro_account_id :: string
  ro_calendar_id :: string
  ro_kind :: RecurrenceObjectKind
  ro_local_series_event_id :: "string option"
  ro_provider_calendar_id :: "string option"
  ro_provider_series_id :: "string option"
  ro_provider_occurrence_id :: "string option"
  ro_recurrence_id :: "string option"
  ro_recurrence_timezone :: "string option"
  ro_recurrence_value_type :: "RecurrenceValueType option"
  ro_occurrence :: OccurrenceFields
  ro_provider_revision :: "string option"

definition from_identity :: "RecurrenceIdentity \<Rightarrow> string \<Rightarrow> RecurrenceObjectSummary" where
  "from_identity i calendar_id =
     \<lparr>ro_object_id = ri_object_id i, ro_event_id = ri_event_id i, ro_account_id = ri_account_id i,
      ro_calendar_id = calendar_id, ro_kind = rs_kind i, ro_local_series_event_id = rs_local_series_event_id i,
      ro_provider_calendar_id = rs_provider_calendar_id i, ro_provider_series_id = rs_provider_series_id i,
      ro_provider_occurrence_id = rs_provider_occurrence_id i, ro_recurrence_id = rs_recurrence_id i,
      ro_recurrence_timezone = rs_recurrence_timezone i, ro_recurrence_value_type = rs_recurrence_value_type i,
      ro_occurrence = rs_occurrence i, ro_provider_revision = rs_provider_revision i\<rparr>"

definition validate_identity :: "string \<Rightarrow> string \<Rightarrow> unit result" where
  "validate_identity name v =
     (if bad_text v then Inl (Other (name @ '' must be non-empty and contain no control characters'')) else Inr ())"

text \<open>The loops over the named identifiers.\<close>

fun validate_identities :: "(string \<times> string option) list \<Rightarrow> unit result" where
  "validate_identities [] = Inr ()"
| "validate_identities ((name, v) # nvs) =
     and_then (case v of None \<Rightarrow> Inr () | Some s \<Rightarrow> validate_identity name s) (\<lambda>_. validate_identities nvs)"

definition validate_kind :: "RecurrenceIdentitySeed \<Rightarrow> unit result" where
  "validate_kind s =
     (if rs_kind s = MasterObject then
        (if rs_recurrence_id s \<noteq> None \<or> rs_recurrence_value_type s \<noteq> None
         then Inl (Other ''master recurrence objects cannot have a recurrence ID or value type'') else Inr ())
      else if rs_recurrence_id s = None \<or> rs_recurrence_value_type s = None
      then Inl (Other ''non-master recurrence objects require a recurrence ID and value type'')
      else if rs_local_series_event_id s = None \<and> rs_provider_series_id s = None
      then Inl (Other ''non-master recurrence objects require a local or provider series identity'')
      else Inr ())"

definition validate_seed :: "'z chrono \<Rightarrow> RecurrenceIdentitySeed \<Rightarrow> unit result" where
  "validate_seed x s =
     and_then (validate_identities
       [(''local_series_event_id'', rs_local_series_event_id s),
        (''provider_calendar_id'', rs_provider_calendar_id s),
        (''provider_series_id'', rs_provider_series_id s),
        (''provider_occurrence_id'', rs_provider_occurrence_id s),
        (''recurrence_id'', rs_recurrence_id s)]) (\<lambda>_.
     if (rs_provider_series_id s \<noteq> None \<or> rs_provider_occurrence_id s \<noteq> None)
        \<noteq> (rs_provider_calendar_id s \<noteq> None)
     then Inl (Other ''provider recurrence identity and provider_calendar_id must be supplied together'')
     else if \<not> pred_option (\<lambda>z. \<not> bad_text z) (rs_recurrence_timezone s)
     then Inl (Other ''recurrence_timezone must be non-empty and contain no control characters'')
     else and_then (validate_kind s) (\<lambda>_. validate_fields x (rs_occurrence s)))"

definition validate_recurrence_identity :: "'z chrono \<Rightarrow> RecurrenceIdentity \<Rightarrow> unit result" where
  "validate_recurrence_identity x i =
     and_then (validate_identities
       [(''object_id'', Some (ri_object_id i)), (''account_id'', Some (ri_account_id i)),
        (''event_id'', Some (ri_event_id i))])
       (\<lambda>_. validate_seed x (as_seed i))"

definition bind_seed :: "'z chrono \<Rightarrow> RecurrenceIdentitySeed \<Rightarrow> string \<Rightarrow> string \<Rightarrow> string \<Rightarrow> RecurrenceIdentity result" where
  "bind_seed x s account_id event_id object_id =
     and_then (validate_seed x s) (\<lambda>_.
       let identity = RecurrenceIdentitySeed.extend s
             (RecurrenceIdentity.fields object_id account_id event_id)
       in and_then (validate_recurrence_identity x identity) (\<lambda>_. Inr identity))"

section \<open>Lemmas\<close>

lemma kind_round_trip: "kind_from_stored (kind_as_str k) = k"
  by (cases k) (simp_all add: kind_from_stored_def)

lemma object_kind_round_trip: "object_kind_from_stored (object_kind_as_str k) = Inr k"
  by (cases k) (simp_all add: object_kind_from_stored_def)

lemma value_type_round_trip: "value_type_from_stored (value_type_as_str k) = Inr k"
  by (cases k) (simp_all add: value_type_from_stored_def)

text \<open>A mutation is allowed exactly on positive evidence of a standalone event.\<close>

lemma ensure_mutable_iff:
  "ensure_mutable e = Inr u \<longleftrightarrow>
     ev_recurrence_kind e = StandaloneKind \<and> (ev_recurrence_rule e = None \<or> ev_recurrence_rule e = Some [])"
  by (cases "ev_recurrence_rule e") (auto simp: ensure_mutable_def)

lemma as_seed_extend: "as_seed (RecurrenceIdentitySeed.extend s (RecurrenceIdentity.fields a b c)) = s"
  by (simp add: as_seed_def RecurrenceIdentitySeed.defs RecurrenceIdentity.defs)

lemma validate_identities_ok:
  "validate_identities nvs = Inr u \<longleftrightarrow> list_all (\<lambda>(name, v). pred_option (\<lambda>s. \<not> bad_text s) v) nvs"
  by (induction nvs rule: validate_identities.induct) (auto simp: validate_identity_def split: option.split if_splits)

end
