(* ===== verification/Recurrence_Schedule.thy ===== *)
theory Recurrence_Schedule
  imports Recurrence_Rule Calendar_Event
begin

text \<open>
  The generator of the positions of a recurring series (\<^verbatim>\<open>Schedule\<close>, \<^verbatim>\<open>Budget\<close> and \<^verbatim>\<open>Cursor\<close> of
  \<^verbatim>\<open>calendar/simple_recurrence.rs\<close>) and its public operations: \<^verbatim>\<open>normalize_rule\<close>, \<^verbatim>\<open>expand\<close>,
  \<^verbatim>\<open>resolve\<close>, \<^verbatim>\<open>occurrence_index\<close> and \<^verbatim>\<open>position_at\<close>. Slots and ordinals (\<^verbatim>\<open>u64\<close>) are natural
  numbers: a slot is only incremented after its conversion to \<^verbatim>\<open>i64\<close> succeeded. A cursor and a
  budget that an error leaves behind are dropped by every caller, so an error carries neither.
\<close>

definition CANDIDATE_BUDGET :: nat where
  "CANDIDATE_BUDGET = 200000"

definition MAX_RESULTS :: nat where
  "MAX_RESULTS = 10000"

section \<open>Schedules\<close>

record 'z Schedule =
  sc_event :: CalendarEvent
  sc_rule :: Rule
  sc_start :: instant
  sc_local_start :: "date \<times> int"
  sc_duration :: int
  sc_zone :: 'z
  sc_week_anchor :: date
  sc_week_days :: "nat list"
  sc_first_week_days :: "nat list"

record Candidate =
  cand_floor :: date
  cand_date :: "date option"

definition event_zone :: "'z chrono \<Rightarrow> CalendarEvent \<Rightarrow> 'z result" where
  "event_zone x e =
     (case ev_timezone e of
        None \<Rightarrow> Inr (zone_utc x)
      | Some name \<Rightarrow> ok_or (invalid ''unknown IANA timezone'') (parse_zone x name))"

definition event_template :: "CalendarEvent \<Rightarrow> OccurrenceFields" where
  "event_template e =
     \<lparr>oc_title = ev_title e, oc_description = ev_description e, oc_location = ev_location e,
      oc_start_time = ev_start_time e, oc_end_time = ev_end_time e, oc_all_day = ev_all_day e,
      oc_timezone = ev_timezone e\<rparr>"

text \<open>Start, end and local start of the event.\<close>

definition event_times :: "'z chrono \<Rightarrow> CalendarEvent \<Rightarrow> 'z \<Rightarrow> (instant \<times> instant \<times> (date \<times> int)) result" where
  "event_times x e zone =
     (if ev_all_day e then
        and_then (parse_date_value x (ev_start_time e)) (\<lambda>d.
        and_then (parse_date_value x (ev_end_time e)) (\<lambda>d'. Inr (midnight d, midnight d', (d, 0))))
      else
        and_then (parse_instant x (ev_start_time e)) (\<lambda>start.
        and_then (parse_instant x (ev_end_time e)) (\<lambda>end_time. Inr (start, end_time, zone_local x zone start))))"

fun check_until :: "CalendarEvent \<Rightarrow> instant \<Rightarrow> date \<Rightarrow> Until option \<Rightarrow> unit result" where
  "check_until e start local_date None = Inr ()"
| "check_until e start local_date (Some (UntilDate d)) =
     (if d < local_date then Inl (invalid ''UNTIL is before DTSTART'') else Inr ())"
| "check_until e start local_date (Some (UntilInstant t)) =
     (if ev_all_day e then Inl (invalid ''all-day rules require a date-valued UNTIL'')
      else if t < start then Inl (invalid ''UNTIL is before DTSTART'')
      else Inr ())"

definition new_schedule :: "'z chrono \<Rightarrow> CalendarEvent \<Rightarrow> string \<Rightarrow> 'z Schedule result" where
  "new_schedule x e text =
     and_then (parse_rule x text) (\<lambda>rule.
     and_then (event_zone x e) (\<lambda>zone.
     and_then (validate_fields x (event_template e)) (\<lambda>_.
     and_then (event_times x e zone) (\<lambda>(start, end_time, local_start).
     and_then (check_date x (fst local_start)) (\<lambda>_.
     let duration = end_time - start;
         start_weekday = num_days_from_monday (fst local_start);
         start_offset = (start_weekday + 7 - week_start rule) mod 7;
         days = (case by_day rule of None \<Rightarrow> [start_weekday] | Some days \<Rightarrow> days);
         week_days = sort (map (\<lambda>day. (day + 7 - week_start rule) mod 7) days)
     in if duration \<le> 0 then Inl (invalid ''event end must be after its start'')
     else if \<not> pred_option (\<lambda>days. start_weekday \<in> set days) (by_day rule)
     then Inl (invalid ''DTSTART weekday must be included in BYDAY'')
     else and_then (check_until e start (fst local_start) (rule_until rule)) (\<lambda>_.
       and_then (ok_or range_error (date_checked_add x (fst local_start) (- int start_offset))) (\<lambda>anchor.
         Inr \<lparr>sc_event = e, sc_rule = rule, sc_start = start, sc_local_start = local_start, sc_duration = duration,
              sc_zone = zone, sc_week_anchor = anchor, sc_week_days = week_days,
              sc_first_week_days = filter (\<lambda>day. start_offset \<le> day) week_days\<rparr>)))))))"

definition from_event :: "'z chrono \<Rightarrow> CalendarEvent \<Rightarrow> 'z Schedule result" where
  "from_event x e =
     and_then (ok_or (invalid ''event has no recurrence rule'') (ev_recurrence_rule e)) (new_schedule x e)"

definition arithmetic_count :: "'z chrono \<Rightarrow> 'z Schedule \<Rightarrow> bool" where
  "arithmetic_count x s \<longleftrightarrow> (ev_all_day (sc_event s) \<or> sc_zone s = zone_utc x)
     \<and> (frequency (sc_rule s) = Daily \<or> frequency (sc_rule s) = Weekly)"

definition add_days :: "'z chrono \<Rightarrow> date \<Rightarrow> int \<Rightarrow> date result" where
  "add_days x anchor days =
     and_then (ok_or range_error (try_days days)) (\<lambda>delta. ok_or range_error (date_checked_add x anchor delta))"

definition month_index :: "'z chrono \<Rightarrow> date \<Rightarrow> int" where
  "month_index x d = year_of x d * 12 + (int (month_of x d) - 1)"

text \<open>The week of a slot and the day in it, counted from the start of the week.\<close>

definition week_and_day :: "'z Schedule \<Rightarrow> nat \<Rightarrow> nat \<times> nat" where
  "week_and_day s slot =
     (let first = length (sc_first_week_days s)
      in if slot < first then (0, sc_first_week_days s ! slot)
         else let rest = slot - first
              in (rest div length (sc_week_days s) + 1, sc_week_days s ! (rest mod length (sc_week_days s))))"

definition year_and_month :: "'z chrono \<Rightarrow> 'z Schedule \<Rightarrow> int \<Rightarrow> (int \<times> nat) result" where
  "year_and_month x s step =
     (let start = fst (sc_local_start s) in
      if frequency (sc_rule s) = Monthly
      then and_then (ok_or range_error (i64_checked (month_index x start + step)))
             (\<lambda>month. Inr (month div 12, nat (month mod 12 + 1)))
      else and_then (ok_or range_error (i64_checked (year_of x start + step)))
             (\<lambda>year. Inr (year, month_of x start)))"

definition candidate :: "'z chrono \<Rightarrow> 'z Schedule \<Rightarrow> nat \<Rightarrow> Candidate result" where
  "candidate x s slot =
     (let interval = int (interval (sc_rule s)); start = fst (sc_local_start s);
          on_date = (\<lambda>d. Inr \<lparr>cand_floor = d, cand_date = Some d\<rparr>)
      in and_then (ok_or range_error (i64_checked (int slot))) (\<lambda>slot'.
        case frequency (sc_rule s) of
          Daily \<Rightarrow>
            and_then (and_then (ok_or range_error (i64_checked (slot' * interval))) (add_days x start)) on_date
        | Weekly \<Rightarrow>
            (case week_and_day s slot of (week, day) \<Rightarrow>
              and_then (ok_or range_error (i64_checked (int week * (interval * 7)))) (\<lambda>days.
              and_then (ok_or range_error (i64_checked (days + int day))) (\<lambda>days.
              and_then (add_days x (sc_week_anchor s) days) on_date)))
        | _ \<Rightarrow>
            and_then (ok_or range_error (i64_checked (slot' * interval))) (\<lambda>step.
            and_then (year_and_month x s step) (\<lambda>(year, month).
            if \<not> (- (2 ^ 31) \<le> year \<and> year < 2 ^ 31) then Inl range_error
            else and_then (ok_or range_error (from_ymd_opt x year month 1)) (\<lambda>first.
              Inr \<lparr>cand_floor = first, cand_date = from_ymd_opt x year month (day_of x start)\<rparr>)))))"

definition at_date :: "'z chrono \<Rightarrow> 'z Schedule \<Rightarrow> date \<Rightarrow> instant option result" where
  "at_date x s d =
     and_then (check_date x d) (\<lambda>_.
       if d = fst (sc_local_start s) then Inr (Some (sc_start s))
       else if ev_all_day (sc_event s) then Inr (Some (midnight d))
       else
         (let at = (\<lambda>t. and_then (check_date x (date_naive t)) (\<lambda>_. Inr (Some t)))
          in case zone_instant x (sc_zone s) (d, snd (sc_local_start s)) of
               Single t \<Rightarrow> at t
             | Ambiguous a b \<Rightarrow> at (min a b)
             | NoTime \<Rightarrow> Inr None))"

definition within_until :: "'z Schedule \<Rightarrow> instant \<Rightarrow> date \<Rightarrow> bool" where
  "within_until s t d =
     (case rule_until (sc_rule s) of
        None \<Rightarrow> True
      | Some (UntilDate until_date) \<Rightarrow> d \<le> until_date
      | Some (UntilInstant until_time) \<Rightarrow> t \<le> until_time)"

definition past_until_date :: "'z Schedule \<Rightarrow> date \<Rightarrow> bool" where
  "past_until_date s floor_date =
     (case rule_until (sc_rule s) of
        None \<Rightarrow> False
      | Some (UntilDate until_date) \<Rightarrow> floor_date > until_date
      | Some (UntilInstant until_time) \<Rightarrow> floor_date - date_naive until_time > 2)"

definition seek :: "'z chrono \<Rightarrow> 'z Schedule \<Rightarrow> date \<Rightarrow> nat" where
  "seek x s d =
     (let start = fst (sc_local_start s); interval = int (interval (sc_rule s))
      in if d \<le> start then 0
         else case frequency (sc_rule s) of
           Daily \<Rightarrow> nat ((d - start) div interval)
         | Weekly \<Rightarrow>
             (let cycle = (d - sc_week_anchor s) div (7 * interval)
              in if cycle = 0 then 0
                 else length (sc_first_week_days s) + (nat cycle - 1) * length (sc_week_days s))
         | Monthly \<Rightarrow>
             nat (((year_of x d - year_of x start) * 12 + int (month_of x d) - int (month_of x start)) div interval)
         | Yearly \<Rightarrow> nat ((year_of x d - year_of x start) div interval))"

text \<open>The loop of \<^verbatim>\<open>target_slot\<close> over the next \<open>attempts\<close> slots.\<close>

fun find_slot :: "'z chrono \<Rightarrow> 'z Schedule \<Rightarrow> date \<Rightarrow> instant \<Rightarrow> nat \<Rightarrow> nat \<Rightarrow> (nat \<times> instant) result" where
  "find_slot x s local_date target slot 0 = Inl (invalid ''original_start is not a series position'')"
| "find_slot x s local_date target slot (Suc attempts) =
     and_then (candidate x s slot) (\<lambda>c.
       if cand_date c = Some local_date then
         and_then (at_date x s local_date) (\<lambda>t.
           if t = Some target \<and> within_until s target local_date then Inr (slot, target)
           else Inl (invalid ''original_start is not a series position''))
       else if cand_floor c > local_date then Inl (invalid ''original_start is not a series position'')
       else find_slot x s local_date target (Suc slot) attempts)"

definition target_slot :: "'z chrono \<Rightarrow> 'z Schedule \<Rightarrow> string \<Rightarrow> (nat \<times> instant) result" where
  "target_slot x s original_start =
     and_then (if ev_all_day (sc_event s) then and_then (parse_date_value x original_start) (\<lambda>d. Inr (midnight d))
               else parse_instant x original_start) (\<lambda>target.
       if target < sc_start s then Inl (invalid ''original_start is not a series position'')
       else let local_date = (if ev_all_day (sc_event s) then date_naive target
                              else fst (zone_local x (sc_zone s) target));
                attempts = (if frequency (sc_rule s) = Weekly then length (sc_week_days s) else 1)
            in find_slot x s local_date target (seek x s local_date) attempts)"

definition format_time :: "'z chrono \<Rightarrow> CalendarEvent \<Rightarrow> instant \<Rightarrow> string" where
  "format_time x e t = (if ev_all_day e then show_iso_date x (date_naive t) else show_rfc3339 x t)"

definition occurrence_fields :: "'z chrono \<Rightarrow> 'z Schedule \<Rightarrow> instant \<Rightarrow> OccurrenceFields result" where
  "occurrence_fields x s start =
     and_then (ok_or range_error (time_checked_add x start (sc_duration s))) (\<lambda>end_time.
     and_then (check_date x (date_naive end_time)) (\<lambda>_.
       Inr \<lparr>oc_title = ev_title (sc_event s), oc_description = ev_description (sc_event s),
            oc_location = ev_location (sc_event s), oc_start_time = format_time x (sc_event s) start,
            oc_end_time = format_time x (sc_event s) end_time, oc_all_day = ev_all_day (sc_event s),
            oc_timezone = ev_timezone (sc_event s)\<rparr>))"

section \<open>Cursors\<close>

definition spend :: "nat \<Rightarrow> nat result" where
  "spend budget =
     (if budget \<ge> CANDIDATE_BUDGET then Inl (invalid ''candidate work budget exceeded (200000 positions)'')
      else Inr (budget + 1))"

record Cursor =
  cu_slot :: nat
  cu_ordinal :: nat
  cu_done :: bool

definition default_cursor :: Cursor where
  "default_cursor = \<lparr>cu_slot = 0, cu_ordinal = 0, cu_done = False\<rparr>"

definition count_reached :: "'z Schedule \<Rightarrow> Cursor \<Rightarrow> bool" where
  "count_reached s c \<longleftrightarrow> \<not> pred_option (\<lambda>count. cu_ordinal c < count) (rule_count (sc_rule s))"

definition cursor_step ::
  "'z chrono \<Rightarrow> 'z Schedule \<Rightarrow> Cursor \<Rightarrow> nat \<Rightarrow> ((nat \<times> instant) option \<times> Cursor \<times> nat) result" where
  "cursor_step x s c budget =
     (if cu_done c \<or> count_reached s c then Inr (None, c\<lparr>cu_done := True\<rparr>, budget)
      else and_then (spend budget) (\<lambda>budget.
        and_then (candidate x s (cu_slot c)) (\<lambda>cand.
          let c = c\<lparr>cu_slot := cu_slot c + 1\<rparr> in
          if past_until_date s (cand_floor cand) then Inr (None, c\<lparr>cu_done := True\<rparr>, budget)
          else case cand_date cand of
            None \<Rightarrow> Inr (None, c, budget)
          | Some d \<Rightarrow> and_then (at_date x s d) (\<lambda>time.
              case time of
                None \<Rightarrow> Inr (None, c, budget)
              | Some t \<Rightarrow>
                  if \<not> within_until s t d then Inr (None, c\<lparr>cu_done := True\<rparr>, budget)
                  else Inr (Some (cu_ordinal c, t), c\<lparr>cu_ordinal := cu_ordinal c + 1\<rparr>, budget)))))"

text \<open>A step spends one unit of the budget or finishes the cursor.\<close>

definition work_left :: "Cursor \<Rightarrow> nat \<Rightarrow> nat" where
  "work_left c budget = 2 * (CANDIDATE_BUDGET - budget) + (if cu_done c then 0 else 1)"

lemma spend_code [code]:
  "spend budget =
     (if int budget \<ge> 200000 then Inl (invalid ''candidate work budget exceeded (200000 positions)'')
      else Inr (budget + 1))"
  by (simp add: spend_def CANDIDATE_BUDGET_def)

lemma MAX_RESULTS_code [code_unfold]: "MAX_RESULTS < n \<longleftrightarrow> 10000 < int n"
  by (simp add: MAX_RESULTS_def)

lemma spend_Inr [simp]: "spend b = Inr b' \<longleftrightarrow> b < CANDIDATE_BUDGET \<and> b' = b + 1"
  by (auto simp: spend_def)

lemma cursor_step_finished:
  "cu_done c \<or> count_reached s c \<Longrightarrow> cursor_step x s c b = Inr (None, c\<lparr>cu_done := True\<rparr>, b)"
  by (simp add: cursor_step_def)

text \<open>What a step that inspects a slot did.\<close>

lemma cursor_step_cases:
  assumes "cursor_step x s c b = Inr (v, c', b')" and "\<not> cu_done c" and "\<not> count_reached s c"
  obtains (past) cand where "b < CANDIDATE_BUDGET" "b' = b + 1" "candidate x s (cu_slot c) = Inr cand"
      "past_until_date s (cand_floor cand)" "v = None" "c' = c\<lparr>cu_slot := cu_slot c + 1, cu_done := True\<rparr>"
    | (skip) cand where "b < CANDIDATE_BUDGET" "b' = b + 1" "candidate x s (cu_slot c) = Inr cand"
      "\<And>d. cand_date cand = Some d \<Longrightarrow> at_date x s d = Inr None" "v = None" "c' = c\<lparr>cu_slot := cu_slot c + 1\<rparr>"
    | (until_reached) cand d t where "b < CANDIDATE_BUDGET" "b' = b + 1" "candidate x s (cu_slot c) = Inr cand"
      "cand_date cand = Some d" "at_date x s d = Inr (Some t)" "\<not> within_until s t d" "v = None"
      "c' = c\<lparr>cu_slot := cu_slot c + 1, cu_done := True\<rparr>"
    | (hit) cand d t where "b < CANDIDATE_BUDGET" "b' = b + 1" "candidate x s (cu_slot c) = Inr cand"
      "\<not> past_until_date s (cand_floor cand)" "cand_date cand = Some d" "at_date x s d = Inr (Some t)"
      "within_until s t d" "v = Some (cu_ordinal c, t)"
      "c' = c\<lparr>cu_slot := cu_slot c + 1, cu_ordinal := cu_ordinal c + 1\<rparr>"
proof -
  from assms obtain cand where b: "b < CANDIDATE_BUDGET" and cand: "candidate x s (cu_slot c) = Inr cand"
    by (auto simp: cursor_step_def)
  note step = assms(1) [unfolded cursor_step_def Let_def]
  show thesis
  proof (cases "past_until_date s (cand_floor cand)")
    case True
    with step b cand assms(2,3) show thesis by (intro past [of cand]) simp_all
  next
    case not_past: False
    show thesis
    proof (cases "cand_date cand")
      case None
      with step b cand assms(2,3) not_past show thesis by (intro skip [of cand]) simp_all
    next
      case (Some d)
      with step b cand assms(2,3) not_past obtain time where time: "at_date x s d = Inr time" by auto
      show thesis
      proof (cases time)
        case None
        with step b cand assms(2,3) not_past Some time show thesis by (intro skip [of cand]) simp_all
      next
        case (Some t)
        with step b cand assms(2,3) not_past \<open>cand_date cand = Some d\<close> time show thesis
          by (cases "within_until s t d") (auto intro: hit [of cand d t] until_reached [of cand d t])
      qed
    qed
  qed
qed

lemma cursor_step_work:
  assumes "cursor_step x s c b = Inr (v, c', b')" and "\<not> cu_done c"
  shows "work_left c' b' < work_left c b"
proof (cases "count_reached s c")
  case True
  with assms show ?thesis by (auto simp: cursor_step_finished work_left_def)
next
  case False
  have "b < CANDIDATE_BUDGET" and "b' = b + 1"
    by (rule cursor_step_cases [OF assms False]; blast)+
  with assms(2) show ?thesis by (auto simp: work_left_def)
qed

text \<open>The loop of \<^verbatim>\<open>Cursor::at_slot\<close>.\<close>

function advance :: "'z chrono \<Rightarrow> 'z Schedule \<Rightarrow> nat \<Rightarrow> Cursor \<Rightarrow> nat \<Rightarrow> (Cursor \<times> nat) result" where
  "advance x s slot c budget =
     (if cu_slot c < slot \<and> \<not> cu_done c then
        (case cursor_step x s c budget of
           Inl e \<Rightarrow> Inl e
         | Inr (v, c', budget') \<Rightarrow> advance x s slot c' budget')
      else Inr (c, budget))"
  by pat_completeness auto

termination
  by (relation "measure (\<lambda>(x, s, slot, c, budget). work_left c budget)") (auto dest!: cursor_step_work)

declare advance.simps [simp del]

definition at_slot ::
  "'z chrono \<Rightarrow> 'z Schedule \<Rightarrow> nat \<Rightarrow> bool \<Rightarrow> nat \<Rightarrow> (Cursor \<times> nat) result" where
  "at_slot x s slot need_ordinal budget =
     (if arithmetic_count x s \<or> (\<not> need_ordinal \<and> rule_count (sc_rule s) = None)
      then Inr (\<lparr>cu_slot = slot, cu_ordinal = (if arithmetic_count x s then slot else 0), cu_done = False\<rparr>, budget)
      else advance x s slot default_cursor budget)"

section \<open>Operations\<close>

definition normalize_rule :: "'z chrono \<Rightarrow> string \<Rightarrow> CalendarEvent \<Rightarrow> string result" where
  "normalize_rule x rule e = and_then (new_schedule x e rule) (\<lambda>s. Inr (serialize_rule x (sc_rule s)))"

record GeneratedOccurrence =
  original_start :: string
  generated_fields :: OccurrenceFields

record Expansion =
  occurrences :: "GeneratedOccurrence list"
  has_more :: bool

text \<open>The loop of \<^verbatim>\<open>expand\<close>.\<close>

function expand_loop ::
  "'z chrono \<Rightarrow> 'z Schedule \<Rightarrow> instant \<Rightarrow> instant \<Rightarrow> nat \<Rightarrow> GeneratedOccurrence list \<Rightarrow> Cursor \<Rightarrow> nat \<Rightarrow> Expansion result" where
  "expand_loop x s lower upper limit found c budget =
     (if cu_done c \<or> count_reached s c then Inr \<lparr>occurrences = found, has_more = False\<rparr>
      else case candidate x s (cu_slot c) of
        Inl e \<Rightarrow> Inl e
      | Inr cand \<Rightarrow>
          if cand_floor cand - date_naive upper > 2 \<or> past_until_date s (cand_floor cand)
          then Inr \<lparr>occurrences = found, has_more = False\<rparr>
          else case cursor_step x s c budget of
            Inl e \<Rightarrow> Inl e
          | Inr (v, c', budget') \<Rightarrow>
              (case v of
                 None \<Rightarrow> expand_loop x s lower upper limit found c' budget'
               | Some (index, start) \<Rightarrow>
                   if start \<ge> upper then Inr \<lparr>occurrences = found, has_more = False\<rparr>
                   else case time_checked_add x start (sc_duration s) of
                     None \<Rightarrow> Inl range_error
                   | Some end_time \<Rightarrow>
                       if end_time > lower then
                         if length found = limit then Inr \<lparr>occurrences = found, has_more = True\<rparr>
                         else case occurrence_fields x s start of
                           Inl e \<Rightarrow> Inl e
                         | Inr f \<Rightarrow> expand_loop x s lower upper limit
                             (found @ [\<lparr>original_start = oc_start_time f, generated_fields = f\<rparr>]) c' budget'
                       else expand_loop x s lower upper limit found c' budget'))"
  by pat_completeness auto

termination
  by (relation "measure (\<lambda>(x, s, lower, upper, limit, found, c, budget). work_left c budget)")
    (auto dest!: cursor_step_work)

declare expand_loop.simps [simp del]

definition expand :: "'z chrono \<Rightarrow> CalendarEvent \<Rightarrow> string \<Rightarrow> string \<Rightarrow> nat \<Rightarrow> Expansion result" where
  "expand x e window_start window_end limit =
     (if limit > MAX_RESULTS then Inl (invalid ''expansion limit exceeds 10000'')
      else and_then (from_event x e) (\<lambda>s.
        and_then (boundary x window_start) (\<lambda>lower.
        and_then (boundary x window_end) (\<lambda>upper.
        if lower \<ge> upper then Inl (invalid ''window end must be after window start'')
        else if upper \<le> sc_start s then Inr \<lparr>occurrences = [], has_more = False\<rparr>
        else and_then (ok_or range_error (time_checked_add x lower (- sc_duration s))) (\<lambda>early.
          and_then (ok_or range_error (time_checked_add x early (- (2 * NANOS_PER_DAY)))) (\<lambda>earliest.
          and_then (at_slot x s (seek x s (date_naive earliest)) False 0) (\<lambda>(c, budget).
            expand_loop x s lower upper limit [] c budget)))))))"

definition resolve_position :: "'z chrono \<Rightarrow> CalendarEvent \<Rightarrow> string \<Rightarrow> OccurrenceFields result" where
  "resolve_position x e original =
     and_then (from_event x e) (\<lambda>s.
     and_then (target_slot x s original) (\<lambda>(slot, start).
     and_then (if rule_count (sc_rule s) \<noteq> None then
                 and_then (at_slot x s slot True 0) (\<lambda>(c, budget).
                 and_then (cursor_step x s c budget) (\<lambda>(v, _, _).
                   if v = None then Inl (invalid ''original_start is outside the series count'') else Inr ()))
               else Inr ()) (\<lambda>_.
       occurrence_fields x s start)))"

definition occurrence_index :: "'z chrono \<Rightarrow> CalendarEvent \<Rightarrow> string \<Rightarrow> nat result" where
  "occurrence_index x e original =
     and_then (from_event x e) (\<lambda>s.
     and_then (target_slot x s original) (\<lambda>(slot, _).
     and_then (at_slot x s slot True 0) (\<lambda>(c, budget).
     and_then (cursor_step x s c budget) (\<lambda>(v, _, _).
     and_then (ok_or (invalid ''original_start is outside the series bounds'') v) (\<lambda>(index, _).
       if index < 2 ^ 32 then Inr index else Inl (invalid ''occurrence index exceeds u32''))))))"

text \<open>The loop of \<^verbatim>\<open>position_at\<close>.\<close>

function position_loop ::
  "'z chrono \<Rightarrow> 'z Schedule \<Rightarrow> nat \<Rightarrow> Cursor \<Rightarrow> nat \<Rightarrow> instant result" where
  "position_loop x s index c budget =
     (if cu_done c then Inl (invalid ''occurrence index is outside the series bounds'')
      else case cursor_step x s c budget of
        Inl e \<Rightarrow> Inl e
      | Inr (v, c', budget') \<Rightarrow>
          (case v of
             Some (ordinal, t) \<Rightarrow> if ordinal = index then Inr t else position_loop x s index c' budget'
           | None \<Rightarrow> position_loop x s index c' budget'))"
  by pat_completeness auto

termination
  by (relation "measure (\<lambda>(x, s, index, c, budget). work_left c budget)") (auto dest!: cursor_step_work)

declare position_loop.simps [simp del]

definition position_at :: "'z chrono \<Rightarrow> CalendarEvent \<Rightarrow> nat \<Rightarrow> string result" where
  "position_at x e index =
     and_then (from_event x e) (\<lambda>s.
       if \<not> pred_option (\<lambda>count. index < count) (rule_count (sc_rule s))
       then Inl (invalid ''occurrence index is outside the series count'')
       else and_then (if arithmetic_count x s then at_slot x s index True 0 else Inr (default_cursor, 0))
              (\<lambda>(c, budget). and_then (position_loop x s index c budget) (\<lambda>t. Inr (format_time x e t))))"

end
