(* ===== verification/Recurrence_Series.thy ===== *)
theory Recurrence_Series
  imports Recurrence_Schedule
begin

text \<open>
  The series a schedule describes, independently of cursors, windows and budgets, and what the
  generator's arithmetic relies on: the laws of the proleptic Gregorian calendar and of time zones.
  The lemmas show that the candidates of a schedule are strictly increasing, that \<^verbatim>\<open>seek\<close> skips no
  position on or after its date, and that a cursor enumerates the series in order.
\<close>

section \<open>Laws of the calendar and of time zones\<close>

locale civil_calendar =
  fixes x :: "'z chrono"
  assumes ymd_civil: "from_ymd_opt x y m k = Some d \<Longrightarrow> civil_date x d = (y, m, k)"
    and month_index_mono: "d \<le> e \<Longrightarrow> month_index x d \<le> month_index x e"
    and month_range: "1 \<le> month_of x d \<and> month_of x d \<le> 12"
    and first_of_month: "from_ymd_opt x y m k = Some d \<Longrightarrow> from_ymd_opt x y m 1 = Some f \<Longrightarrow> f \<le> d"
    and civil_inject: "civil_date x d = civil_date x e \<Longrightarrow> d = e"
    and supported_range: "supported x d \<Longrightarrow> date_min x \<le> d \<and> d \<le> date_max x"

text \<open>A wall clock is less than a day away from UTC, is never set back by more than a day, and a
  local time is resolved to instants at which the clock shows it.\<close>

locale time_zones =
  fixes x :: "'z chrono"
  assumes wall_range: "zone_local x z t = (d, w) \<Longrightarrow> 0 \<le> w \<and> w < NANOS_PER_DAY"
    and wall_offset: "zone_local x z t = (d, w) \<Longrightarrow> \<bar>midnight d + w - t\<bar> < NANOS_PER_DAY"
    and wall_order: "t < u \<Longrightarrow> zone_local x z t = (d, w) \<Longrightarrow> zone_local x z u = (d', w')
      \<Longrightarrow> midnight d + w < midnight d' + w' + NANOS_PER_DAY"
    and single_local: "zone_instant x z l = Single t \<Longrightarrow> zone_local x z t = l"
    and ambiguous_local: "zone_instant x z l = Ambiguous a b \<Longrightarrow> zone_local x z a = l \<and> zone_local x z b = l"
    and utc_instant: "0 \<le> w \<Longrightarrow> w < NANOS_PER_DAY \<Longrightarrow> zone_instant x (zone_utc x) (d, w) = Single (midnight d + w)"

text \<open>The formats a generated position is printed in are read back.\<close>

locale text_formats =
  fixes x :: "'z chrono"
  assumes iso_date: "supported x d \<Longrightarrow> length (show_iso_date x d) = 10 \<and> shaped iso_char (show_iso_date x d)
      \<and> parse_iso_date x (show_iso_date x d) = Some d"
    and rfc3339: "supported x (date_naive t) \<Longrightarrow> str_len (show_rfc3339 x t) \<le> 64
      \<and> parse_rfc3339 x (show_rfc3339 x t) = Some (t div 1000000000, t mod 1000000000)"
    and rfc3339_nanos: "parse_rfc3339 x v = Some (secs, nanos) \<Longrightarrow> 0 \<le> nanos"

locale calendar_laws = compact_formats x + civil_calendar x + time_zones x + text_formats x
  for x :: "'z chrono"

section \<open>The series\<close>

text \<open>The wall clock of a schedule; all-day positions are on the UTC axis.\<close>

definition wall :: "'z chrono \<Rightarrow> 'z Schedule \<Rightarrow> instant \<Rightarrow> date \<times> int" where
  "wall x s t = (if ev_all_day (sc_event s) then (date_naive t, t mod NANOS_PER_DAY) else zone_local x (sc_zone s) t)"

text \<open>The instant a slot stands for, when it has one within the rule's UNTIL.\<close>

definition slot_time :: "'z chrono \<Rightarrow> 'z Schedule \<Rightarrow> nat \<Rightarrow> instant option" where
  "slot_time x s n =
     (case candidate x s n of
        Inl _ \<Rightarrow> None
      | Inr cand \<Rightarrow>
          (case cand_date cand of
             None \<Rightarrow> None
           | Some d \<Rightarrow>
               (case at_date x s d of
                  Inr (Some t) \<Rightarrow> if within_until s t d then Some t else None
                | _ \<Rightarrow> None)))"

definition rank :: "'z chrono \<Rightarrow> 'z Schedule \<Rightarrow> nat \<Rightarrow> nat" where
  "rank x s n = length (filter (\<lambda>m. slot_time x s m \<noteq> None) [0..<n])"

text \<open>The positions of the series: the slots with an instant, as many of them as COUNT admits.\<close>

definition series_slot :: "'z chrono \<Rightarrow> 'z Schedule \<Rightarrow> nat \<Rightarrow> instant \<Rightarrow> bool" where
  "series_slot x s n t \<longleftrightarrow> slot_time x s n = Some t \<and> pred_option (\<lambda>count. rank x s n < count) (rule_count (sc_rule s))"

definition series :: "'z chrono \<Rightarrow> 'z Schedule \<Rightarrow> instant set" where
  "series x s = {t. \<exists>n. series_slot x s n t}"

text \<open>What \<^verbatim>\<open>Schedule::new\<close> establishes.\<close>

definition schedule_ok :: "'z chrono \<Rightarrow> 'z Schedule \<Rightarrow> bool" where
  "schedule_ok x s \<longleftrightarrow>
     1 \<le> interval (sc_rule s) \<and> supported x (fst (sc_local_start s)) \<and> 0 < sc_duration s
   \<and> wall x s (sc_start s) = sc_local_start s \<and> (ev_all_day (sc_event s) \<longrightarrow> snd (sc_local_start s) = 0)
   \<and> sorted_wrt (<) (sc_week_days s) \<and> list_all (\<lambda>d. d < 7) (sc_week_days s)
   \<and> sc_week_anchor s \<le> fst (sc_local_start s)
   \<and> nat (fst (sc_local_start s) - sc_week_anchor s) \<in> set (sc_week_days s)
   \<and> sc_first_week_days s = filter (\<lambda>d. nat (fst (sc_local_start s) - sc_week_anchor s) \<le> d) (sc_week_days s)"

section \<open>Schedules are well formed\<close>

lemma shift_mod:
  assumes "a < (7 :: nat)" and "k < 7"
  shows "(a + 7 - k) mod 7 = (if k \<le> a then a - k else a + 7 - k)"
proof (cases "k \<le> a")
  case True
  then have "a + 7 - k = (a - k) + 7" by simp
  with True assms show ?thesis by (metis mod_add_self2 mod_less less_imp_diff_less)
next
  case False
  with assms show ?thesis by simp
qed

lemma shifted_days_distinct:
  assumes "sorted_wrt (<) ds" and "list_all (\<lambda>d. d < 7) ds" and "k < (7 :: nat)"
  shows "sorted_wrt (<) (sort (map (\<lambda>d. (d + 7 - k) mod 7) ds))"
proof -
  have "inj_on (\<lambda>d. (d + 7 - k) mod 7) {..<7}"
  proof (rule inj_onI)
    fix a b :: nat
    assume "a \<in> {..<7}" "b \<in> {..<7}" "(a + 7 - k) mod 7 = (b + 7 - k) mod 7"
    with assms(3) show "a = b" by (auto simp: shift_mod split: if_splits)
  qed
  moreover have "set ds \<subseteq> {..<7}" using assms(2) by (auto simp: list_all_iff)
  ultimately have "distinct (map (\<lambda>d. (d + 7 - k) mod 7) ds)"
    using assms(1) by (auto simp: strict_sorted_iff distinct_map intro: inj_on_subset)
  then show ?thesis by (simp add: strict_sorted_iff)
qed

lemma and_then_InrE: "and_then r f = Inr b \<Longrightarrow> (\<And>a. r = Inr a \<Longrightarrow> f a = Inr b \<Longrightarrow> P) \<Longrightarrow> P"
  by auto

lemma new_schedule_cases:
  assumes "new_schedule x e text = Inr s"
  obtains rule zone start end_time local_start anchor where
    "parse_rule x text = Inr rule" "event_zone x e = Inr zone"
    "event_times x e zone = Inr (start, end_time, local_start)" "supported x (fst local_start)"
    "start < end_time"
    "pred_option (\<lambda>days. num_days_from_monday (fst local_start) \<in> set days) (by_day rule)"
    "anchor = fst local_start - int ((num_days_from_monday (fst local_start) + 7 - week_start rule) mod 7)"
    "s = \<lparr>sc_event = e, sc_rule = rule, sc_start = start, sc_local_start = local_start,
          sc_duration = end_time - start, sc_zone = zone, sc_week_anchor = anchor,
          sc_week_days = sort (map (\<lambda>day. (day + 7 - week_start rule) mod 7)
            (case by_day rule of None \<Rightarrow> [num_days_from_monday (fst local_start)] | Some days \<Rightarrow> days)),
          sc_first_week_days = filter (\<lambda>day. (num_days_from_monday (fst local_start) + 7 - week_start rule) mod 7 \<le> day)
            (sort (map (\<lambda>day. (day + 7 - week_start rule) mod 7)
              (case by_day rule of None \<Rightarrow> [num_days_from_monday (fst local_start)] | Some days \<Rightarrow> days)))\<rparr>"
proof -
  note new = assms [unfolded new_schedule_def]
  from new obtain rule where rule: "parse_rule x text = Inr rule" by (rule and_then_InrE)
  with new obtain zone where zone: "event_zone x e = Inr zone" by (auto elim!: and_then_InrE)
  with new rule obtain start end_time local_start where
    times: "event_times x e zone = Inr (start, end_time, local_start)" and supp: "supported x (fst local_start)"
    by (cases "event_times x e zone") auto
  let ?off = "(num_days_from_monday (fst local_start) + 7 - week_start rule) mod 7"
  from new rule zone times supp obtain anchor where
    anchor: "date_checked_add x (fst local_start) (- int ?off) = Some anchor"
    and rest: "start < end_time"
      "pred_option (\<lambda>days. num_days_from_monday (fst local_start) \<in> set days) (by_day rule)"
      "s = \<lparr>sc_event = e, sc_rule = rule, sc_start = start, sc_local_start = local_start,
          sc_duration = end_time - start, sc_zone = zone, sc_week_anchor = anchor,
          sc_week_days = sort (map (\<lambda>day. (day + 7 - week_start rule) mod 7)
            (case by_day rule of None \<Rightarrow> [num_days_from_monday (fst local_start)] | Some days \<Rightarrow> days)),
          sc_first_week_days = filter (\<lambda>day. ?off \<le> day)
            (sort (map (\<lambda>day. (day + 7 - week_start rule) mod 7)
              (case by_day rule of None \<Rightarrow> [num_days_from_monday (fst local_start)] | Some days \<Rightarrow> days)))\<rparr>"
    by (auto simp add: Let_def split: if_splits)
  have "anchor = fst local_start - int ?off" using anchor by (simp add: date_checked_add_def split: if_splits)
  from that [OF rule zone times supp rest(1,2) this rest(3)] show thesis .
qed

lemma event_times_wall:
  assumes "event_times x e zone = Inr (start, end_time, local_start)"
  shows "(if ev_all_day e then (date_naive start, start mod NANOS_PER_DAY) else zone_local x zone start) = local_start"
    and "ev_all_day e \<Longrightarrow> snd local_start = 0"
  using assms by (auto simp: event_times_def split: if_splits)

lemma new_schedule_ok:
  assumes "compact_formats x" and "new_schedule x e text = Inr s"
  shows "schedule_ok x s"
proof (rule new_schedule_cases [OF assms(2)])
  fix rule zone start end_time local_start anchor
  assume facts: "parse_rule x text = Inr rule" "event_zone x e = Inr zone"
    "event_times x e zone = Inr (start, end_time, local_start)" "supported x (fst local_start)"
    "start < end_time"
  let ?w = "num_days_from_monday (fst local_start)"
  let ?days = "case by_day rule of None \<Rightarrow> [?w] | Some days \<Rightarrow> days"
  assume by_day: "pred_option (\<lambda>days. ?w \<in> set days) (by_day rule)"
    and anchor: "anchor = fst local_start - int ((?w + 7 - week_start rule) mod 7)"
    and s: "s = \<lparr>sc_event = e, sc_rule = rule, sc_start = start, sc_local_start = local_start,
          sc_duration = end_time - start, sc_zone = zone, sc_week_anchor = anchor,
          sc_week_days = sort (map (\<lambda>day. (day + 7 - week_start rule) mod 7) ?days),
          sc_first_week_days = filter (\<lambda>day. (?w + 7 - week_start rule) mod 7 \<le> day)
            (sort (map (\<lambda>day. (day + 7 - week_start rule) mod 7) ?days))\<rparr>"
  have rule: "rule_ok x rule" using assms(1) facts(1) by (rule parse_rule_ok)
  have w: "?w < 7" by (simp add: num_days_from_monday_def)
  have days: "sorted_wrt (<) ?days" "list_all (\<lambda>d. d < 7) ?days" "?w \<in> set ?days"
    using rule w by_day by (auto simp: rule_ok_def split: option.split)
  have "sorted_wrt (<) (sort (map (\<lambda>day. (day + 7 - week_start rule) mod 7) ?days))"
    using rule days by (intro shifted_days_distinct) (auto simp: rule_ok_def)
  moreover have "wall x s start = local_start" "ev_all_day e \<longrightarrow> snd local_start = 0"
    using event_times_wall [OF facts(3)] by (simp_all only: s wall_def Schedule.simps) blast
  ultimately show "schedule_ok x s"
    using facts(4,5) rule days(3) by (simp add: schedule_ok_def s anchor rule_ok_def list_all_iff)
qed

section \<open>Slots in order\<close>

text \<open>Slots are ordered by days, or by months for monthly and yearly rules.\<close>

definition by_months :: "'z Schedule \<Rightarrow> bool" where
  "by_months s \<longleftrightarrow> frequency (sc_rule s) = Monthly \<or> frequency (sc_rule s) = Yearly"

definition date_key :: "'z chrono \<Rightarrow> 'z Schedule \<Rightarrow> date \<Rightarrow> int" where
  "date_key x s d = (if by_months s then month_index x d else d)"

definition week_days_before :: "'z Schedule \<Rightarrow> nat \<Rightarrow> int" where
  "week_days_before s n =
     (case week_and_day s n of (week, day) \<Rightarrow> int week * (int (interval (sc_rule s)) * 7) + int day)"

definition slot_key :: "'z chrono \<Rightarrow> 'z Schedule \<Rightarrow> nat \<Rightarrow> int" where
  "slot_key x s n =
     (let start = fst (sc_local_start s); i = int (interval (sc_rule s)) in
      case frequency (sc_rule s) of
        Daily \<Rightarrow> start + int n * i
      | Weekly \<Rightarrow> sc_week_anchor s + week_days_before s n
      | Monthly \<Rightarrow> month_index x start + int n * i
      | Yearly \<Rightarrow> month_index x start + 12 * (int n * i))"

lemma week_and_day_bounds:
  assumes "schedule_ok x s" and "week_and_day s n = (week, day)"
  shows "day \<in> set (sc_week_days s)" and "day < 7"
proof -
  have "sc_week_days s \<noteq> []" using assms(1) by (auto simp: schedule_ok_def)
  moreover have "sc_first_week_days s ! n \<in> set (sc_week_days s)" if "n < length (sc_first_week_days s)"
    using nth_mem [OF that] assms(1) by (auto simp: schedule_ok_def)
  ultimately show "day \<in> set (sc_week_days s)"
    using assms(2) by (auto simp: week_and_day_def Let_def split: if_splits)
  with assms(1) show "day < 7" by (auto simp: schedule_ok_def list_all_iff)
qed

lemma week_days_before_Suc:
  assumes ok: "schedule_ok x s"
  shows "week_days_before s n < week_days_before s (Suc n)"
proof -
  let ?f = "length (sc_first_week_days s)" and ?l = "length (sc_week_days s)"
  let ?i = "int (interval (sc_rule s)) * 7"
  obtain w d where wd: "week_and_day s n = (w, d)" by fastforce
  obtain w' d' where wd': "week_and_day s (Suc n) = (w', d')" by fastforce
  have bounds: "d < 7" "7 \<le> ?i" using week_and_day_bounds(2) [OF ok wd] ok by (auto simp: schedule_ok_def)
  have sorted: "sorted_wrt (<) (sc_week_days s)" "sorted_wrt (<) (sc_first_week_days s)"
    using ok by (auto simp: schedule_ok_def sorted_wrt_filter)
  have "?l > 0" using ok by (auto simp: schedule_ok_def)
  have "w' = w \<and> d < d' \<or> w' = Suc w"
  proof (cases "n < ?f")
    case True
    then show ?thesis
      using wd wd' sorted(2) by (auto simp: week_and_day_def Let_def sorted_wrt_iff_nth_less split: if_splits)
  next
    case False
    define r where "r = n - ?f"
    have "Suc n - ?f = Suc r" using False by (simp add: r_def)
    moreover have "sc_week_days s ! (r mod ?l) < sc_week_days s ! Suc (r mod ?l)" if "Suc (r mod ?l) \<noteq> ?l"
      using that sorted(1) mod_less_divisor [OF \<open>?l > 0\<close>, of r] by (simp add: sorted_wrt_iff_nth_less)
    ultimately show ?thesis
      using False wd wd'
      by (auto simp: week_and_day_def Let_def div_Suc mod_Suc r_def [symmetric] split: if_splits)
  qed
  then show ?thesis
    using bounds by (auto simp: week_days_before_def wd wd' distrib_right)
qed

lemma slot_key_mono:
  assumes ok: "schedule_ok x s" and "m < n"
  shows "slot_key x s m < slot_key x s n"
proof -
  have "strict_mono (slot_key x s)"
    using ok week_days_before_Suc [OF ok]
    by (cases "frequency (sc_rule s)")
      (auto simp: strict_mono_Suc_iff slot_key_def Let_def schedule_ok_def distrib_right)
  with assms(2) show ?thesis by (simp add: strict_mono_less)
qed

context calendar_laws
begin

lemma year_of_month_index: "year_of x d = month_index x d div 12"
  using month_range [of d] by (simp add: month_index_def)

lemma year_of_mono: "d \<le> e \<Longrightarrow> year_of x d \<le> year_of x e"
  by (simp add: year_of_month_index month_index_mono zdiv_mono1)

lemma date_key_mono: "d \<le> e \<Longrightarrow> date_key x s d \<le> date_key x s e"
  by (simp add: date_key_def month_index_mono)

lemma ymd_month_index:
  assumes "from_ymd_opt x y m k = Some d"
  shows "month_index x d = y * 12 + (int m - 1)"
  using ymd_civil [OF assms] by (simp add: month_index_def year_of_def month_of_def)

lemma month_index_parts: "i div 12 * 12 + (int (nat (i mod 12 + 1)) - 1) = i"
  by simp

lemma candidate_key:
  assumes "candidate x s n = Inr cand"
  shows "date_key x s (cand_floor cand) = slot_key x s n"
    and "cand_date cand = Some d \<Longrightarrow> date_key x s d = slot_key x s n \<and> cand_floor cand \<le> d"
proof -
  have days: "date_key x s (cand_floor cand) = slot_key x s n \<and> cand_date cand = Some (cand_floor cand)"
    if "\<not> by_months s"
    using that assms
    by (cases "frequency (sc_rule s)")
      (auto simp: candidate_def Let_def by_months_def date_key_def slot_key_def add_days_def date_checked_add_def
        i64_checked_def try_days_def week_days_before_def split: if_splits prod.splits)
  have months: "\<exists>y m. from_ymd_opt x y m 1 = Some (cand_floor cand)
      \<and> cand_date cand = from_ymd_opt x y m (day_of x (fst (sc_local_start s))) \<and> y * 12 + (int m - 1) = slot_key x s n"
    if "by_months s"
  proof -
    from that assms obtain step y m where step: "step = int n * int (interval (sc_rule s))"
      and ym: "year_and_month x s step = Inr (y, m)" and ymd: "from_ymd_opt x y m 1 = Some (cand_floor cand)"
      "cand_date cand = from_ymd_opt x y m (day_of x (fst (sc_local_start s)))"
      by (auto simp: candidate_def Let_def by_months_def i64_checked_def split: if_splits)
    have "y * 12 + (int m - 1) = slot_key x s n"
      using that ym step
      by (auto simp: year_and_month_def Let_def by_months_def i64_checked_def slot_key_def month_index_def
          distrib_right split: if_splits)
    with ymd show ?thesis by blast
  qed
  show "date_key x s (cand_floor cand) = slot_key x s n"
    using days months ymd_month_index by (cases "by_months s") (auto simp: date_key_def)
  show "date_key x s d = slot_key x s n \<and> cand_floor cand \<le> d" if "cand_date cand = Some d"
    using that days months ymd_month_index first_of_month
    by (cases "by_months s") (force simp: date_key_def)+
qed

end

lemma div_mult_less: "0 < k \<Longrightarrow> n < a div k \<Longrightarrow> n * k < (a :: int)"
  by (smt (verit, best) mult_less_cancel_right zdiv_mono1 nonzero_mult_div_cancel_right)

lemma week_before_seek:
  assumes ok: "schedule_ok x s" and wd: "week_and_day s n = (week, day)" and cycle: "cycle \<noteq> 0"
    and less: "n < length (sc_first_week_days s) + (cycle - 1) * length (sc_week_days s)"
  shows "week < cycle"
proof (cases "n < length (sc_first_week_days s)")
  case True
  with wd cycle show ?thesis by (auto simp: week_and_day_def Let_def)
next
  case False
  have "0 < length (sc_week_days s)" using ok by (auto simp: schedule_ok_def)
  moreover have "n - length (sc_first_week_days s) < (cycle - 1) * length (sc_week_days s)" using less False by linarith
  ultimately have "(n - length (sc_first_week_days s)) div length (sc_week_days s) < cycle - 1"
    by (simp add: less_mult_imp_div_less)
  with wd False show ?thesis by (auto simp: week_and_day_def Let_def)
qed

context calendar_laws
begin

lemma seek_skips_earlier:
  assumes ok: "schedule_ok x s" and less: "n < seek x s d"
  shows "slot_key x s n < date_key x s d"
proof -
  let ?start = "fst (sc_local_start s)" and ?i = "int (interval (sc_rule s))"
  have i: "0 < ?i" using ok by (auto simp: schedule_ok_def)
  have after: "\<not> d \<le> ?start" using less by (auto simp: seek_def Let_def split: if_splits)
  have scaled: "int n * ?i < a" if "n < nat (a div ?i)" for a
    using div_mult_less [OF i, of "int n" a] that by linarith
  show ?thesis
  proof (cases "frequency (sc_rule s)")
    case Weekly
    obtain week day where wd: "week_and_day s n = (week, day)" by fastforce
    define cycle where "cycle = (d - sc_week_anchor s) div (7 * ?i)"
    have pos: "0 \<le> cycle" using ok after i
      by (simp add: cycle_def schedule_ok_def pos_imp_zdiv_nonneg_iff)
    have "cycle \<noteq> 0" and "n < length (sc_first_week_days s) + (nat cycle - 1) * length (sc_week_days s)"
      using less after Weekly by (auto simp: seek_def Let_def cycle_def split: if_splits)
    then have "week < nat cycle" using week_before_seek [OF ok wd, of "nat cycle"] pos by simp
    then have "(int week + 1) * (7 * ?i) \<le> cycle * (7 * ?i)" using i by (intro mult_right_mono) auto
    also have "\<dots> \<le> d - sc_week_anchor s"
      unfolding cycle_def minus_mod_eq_div_mult [symmetric] using i by simp
    finally have "int week * (?i * 7) + 7 * ?i \<le> d - sc_week_anchor s" by (simp add: distrib_right mult.commute)
    with week_and_day_bounds(2) [OF ok wd] i show ?thesis
      by (simp add: slot_key_def date_key_def by_months_def week_days_before_def wd Weekly)
  next
    case Yearly
    with less after have "int n * ?i < year_of x d - year_of x ?start" by (intro scaled) (simp add: seek_def Let_def)
    then have "12 * (int n * ?i) + 12 \<le> 12 * year_of x d - 12 * year_of x ?start" by linarith
    with Yearly month_range [of d] month_range [of ?start] show ?thesis
      by (simp add: slot_key_def date_key_def by_months_def month_index_def Let_def)
  next
    case Monthly
    with less after have "int n * ?i < (year_of x d - year_of x ?start) * 12 + int (month_of x d) - int (month_of x ?start)"
      by (intro scaled) (simp add: seek_def Let_def)
    with Monthly show ?thesis
      by (simp add: slot_key_def date_key_def by_months_def month_index_def Let_def left_diff_distrib)
  next
    case Daily
    with less after have "int n * ?i < d - ?start" by (intro scaled) (simp add: seek_def Let_def)
    with Daily show ?thesis by (simp add: slot_key_def date_key_def by_months_def Let_def)
  qed
qed

text \<open>Candidates come in order, and none before the start.\<close>

lemma candidate_order:
  assumes ok: "schedule_ok x s" and m: "candidate x s m = Inr c" and n: "candidate x s n = Inr c'" and less: "m < n"
  shows "cand_floor c < cand_floor c'" and "cand_date c = Some d \<Longrightarrow> d < cand_floor c'"
proof -
  have key: "date_key x s (cand_floor c') > slot_key x s m"
    using slot_key_mono [OF ok less] candidate_key(1) [OF n] by simp
  show "cand_floor c < cand_floor c'" using key candidate_key(1) [OF m] date_key_mono [of "cand_floor c'" "cand_floor c" s]
    by fastforce
  show "d < cand_floor c'" if "cand_date c = Some d"
    using key candidate_key(2) [OF m that] date_key_mono [of "cand_floor c'" d s] by fastforce
qed

lemma candidate_before_seek:
  assumes ok: "schedule_ok x s" and n: "candidate x s n = Inr c" and d: "cand_date c = Some d" and less: "n < seek x s e"
  shows "d < e"
  using seek_skips_earlier [OF ok less] candidate_key(2) [OF n d] date_key_mono [of e d s] by fastforce

end

section \<open>Positions in order\<close>

lemma slot_time_Some:
  "slot_time x s n = Some t \<longleftrightarrow>
     (\<exists>cand d. candidate x s n = Inr cand \<and> cand_date cand = Some d \<and> at_date x s d = Inr (Some t) \<and> within_until s t d)"
  by (auto simp: slot_time_def split: sum.splits option.splits)

lemma rank_0 [simp]: "rank x s 0 = 0"
  by (simp add: rank_def)

lemma rank_Suc: "rank x s (Suc n) = rank x s n + (if slot_time x s n = None then 0 else 1)"
  by (simp add: rank_def)

lemma rank_mono: "m \<le> n \<Longrightarrow> rank x s m \<le> rank x s n"
  by (induction n) (auto simp: rank_Suc le_Suc_eq)

lemma rank_full: "(\<And>m. m < n \<Longrightarrow> slot_time x s m \<noteq> None) \<Longrightarrow> rank x s n = n"
  by (simp add: rank_def filter_True)

context calendar_laws
begin

lemma wall_laws:
  assumes "wall x s t = (d, w)"
  shows "0 \<le> w" "w < NANOS_PER_DAY" "\<bar>midnight d + w - t\<bar> < NANOS_PER_DAY"
    and "t < u \<Longrightarrow> wall x s u = (d', w') \<Longrightarrow> midnight d + w < midnight d' + w' + NANOS_PER_DAY"
proof -
  have eq: "midnight (date_naive t) + t mod NANOS_PER_DAY = t" for t by (simp add: midnight_def date_naive_def)
  show "0 \<le> w" "w < NANOS_PER_DAY" "\<bar>midnight d + w - t\<bar> < NANOS_PER_DAY"
    using assms wall_range [of "sc_zone s" t d w] wall_offset [of "sc_zone s" t d w]
    by (auto simp: wall_def eq split: if_splits)
  show "midnight d + w < midnight d' + w' + NANOS_PER_DAY" if "t < u" "wall x s u = (d', w')"
    using assms that wall_order [of t u "sc_zone s" d w d' w'] NANOS_PER_DAY_pos(1)
    by (auto simp: wall_def eq simp del: NANOS_PER_DAY_pos split: if_splits)
qed

text \<open>Equal wall clocks on later dates are later instants.\<close>

lemma wall_mono:
  assumes "wall x s t = (d, w)" and "wall x s u = (d', w)" and "d < d'"
  shows "t < u"
proof (rule ccontr)
  assume "\<not> t < u"
  then have "u < t" using assms by (cases "u = t") auto
  from wall_laws(4) [OF assms(2) this assms(1)] have "d' * NANOS_PER_DAY < (d + 1) * NANOS_PER_DAY"
    by (simp add: midnight_def distrib_right)
  then have "d' < d + 1" using NANOS_PER_DAY_pos(1) by (rule mult_right_less_imp_less [OF _ less_imp_le])
  with assms(3) show False by simp
qed

lemma at_date_wall:
  assumes ok: "schedule_ok x s" and at: "at_date x s d = Inr (Some t)"
  shows "wall x s t = (d, snd (sc_local_start s))" and "supported x d"
proof -
  show "supported x d" using at by (auto simp: at_date_def)
  show "wall x s t = (d, snd (sc_local_start s))"
  proof (cases "d = fst (sc_local_start s)")
    case True
    with at ok show ?thesis by (auto simp: at_date_def schedule_ok_def)
  next
    case False
    with at ok single_local [of "sc_zone s" "(d, snd (sc_local_start s))"]
      ambiguous_local [of "sc_zone s" "(d, snd (sc_local_start s))"] show ?thesis
      by (auto simp: at_date_def wall_def schedule_ok_def Let_def min_def split: if_splits local_result.splits)
  qed
qed

lemma slot_time_order:
  assumes ok: "schedule_ok x s" and m: "slot_time x s m = Some t" and n: "slot_time x s n = Some u" and less: "m < n"
  shows "t < u"
proof -
  obtain c d where c: "candidate x s m = Inr c" "cand_date c = Some d" "at_date x s d = Inr (Some t)"
    using m by (auto simp: slot_time_Some)
  obtain c' d' where c': "candidate x s n = Inr c'" "cand_date c' = Some d'" "at_date x s d' = Inr (Some u)"
    using n by (auto simp: slot_time_Some)
  have "d < d'" using candidate_order(2) [OF ok c(1) c'(1) less c(2)] candidate_key(2) [OF c'(1,2)] by simp
  with wall_mono [OF at_date_wall(1) [OF ok c(3)] at_date_wall(1) [OF ok c'(3)]] show ?thesis .
qed

text \<open>A position on a local date is less than two days away from it in UTC.\<close>

lemma wall_date_bounds:
  assumes "wall x s t = (d, w)"
  shows "midnight (d - 1) < t" and "t < midnight (d + 2)"
  using wall_laws(1-3) [OF assms] by (auto simp: midnight_def distrib_right left_diff_distrib)

text \<open>After the end of UNTIL there is no position.\<close>

lemma past_until_no_position:
  assumes ok: "schedule_ok x s" and c: "candidate x s m = Inr c" and past: "past_until_date s (cand_floor c)" and le: "m \<le> n"
  shows "slot_time x s n = None"
proof (rule ccontr)
  assume "slot_time x s n \<noteq> None"
  then obtain t c' d where c': "candidate x s n = Inr c'" "cand_date c' = Some d" "at_date x s d = Inr (Some t)"
    "within_until s t d" by (auto simp: slot_time_Some)
  have "cand_floor c \<le> cand_floor c'"
    using le c c'(1) candidate_order(1) [OF ok c c'(1)] by (cases "m = n") auto
  then have floor_le: "cand_floor c \<le> d" using candidate_key(2) [OF c'(1,2)] by simp
  show False
  proof (cases "rule_until (sc_rule s)")
    case None
    with past show False by (simp add: past_until_date_def)
  next
    case (Some u)
    show False
    proof (cases u)
      case (UntilDate e)
      with Some past c'(4) floor_le show False by (simp add: past_until_date_def within_until_def)
    next
      case (UntilInstant e)
      with Some past c'(4) have "date_naive e + 2 < cand_floor c" "t \<le> e"
        by (simp_all add: past_until_date_def within_until_def)
      moreover have "d - 1 \<le> date_naive t"
        using wall_date_bounds(1) [OF at_date_wall(1) [OF ok c'(3)]] date_naive_mono [of "midnight (d - 1)" t] by simp
      moreover have "date_naive t \<le> date_naive e" using \<open>t \<le> e\<close> by (rule date_naive_mono)
      ultimately show False using floor_le by linarith
    qed
  qed
qed

lemma outside_until_no_position:
  assumes ok: "schedule_ok x s" and c: "candidate x s m = Inr c" "cand_date c = Some d" "at_date x s d = Inr (Some t)"
    and out: "\<not> within_until s t d" and le: "m \<le> n"
  shows "slot_time x s n = None"
proof (rule ccontr)
  assume "slot_time x s n \<noteq> None"
  then obtain u c' d' where c': "candidate x s n = Inr c'" "cand_date c' = Some d'" "at_date x s d' = Inr (Some u)"
    "within_until s u d'" by (auto simp: slot_time_Some)
  have "m < n" using le out c c' by (cases "m = n") auto
  then have "d < d'" using candidate_order(2) [OF ok c(1) c'(1) _ c(2)] candidate_key(2) [OF c'(1,2)] by fastforce
  moreover from this have "t < u" by (rule wall_mono [OF at_date_wall(1) [OF ok c(3)] at_date_wall(1) [OF ok c'(3)]])
  ultimately show False using out c'(4) by (auto simp: within_until_def split: option.splits Until.splits)
qed

end

end
