(* ===== verification/Recurrence_Expand.thy ===== *)
theory Recurrence_Expand
  imports Recurrence_Series
begin

text \<open>
  A cursor enumerates the series: the invariant of the cursor, and from it the correctness of the
  expansion of a window.
\<close>

section \<open>Earlier slots of daily and weekly rules\<close>

lemma i64_ok_between: "0 \<le> a \<Longrightarrow> a \<le> b \<Longrightarrow> i64_ok b \<Longrightarrow> i64_ok a"
  by (simp add: i64_ok_def)

lemma week_days_before_nonneg: "0 \<le> week_days_before s n"
  by (simp add: week_days_before_def split: prod.split)

lemma week_mono:
  assumes "m \<le> n" and "week_and_day s m = (w, d)" and "week_and_day s n = (w', d')"
  shows "w \<le> w'"
  using assms by (auto simp: week_and_day_def Let_def div_le_mono split: if_splits)

lemma first_week_day:
  assumes ok: "schedule_ok x s"
  shows "week_and_day s 0 = (0, nat (fst (sc_local_start s) - sc_week_anchor s))"
proof -
  let ?off = "nat (fst (sc_local_start s) - sc_week_anchor s)"
  have first: "sc_first_week_days s = filter (\<lambda>d. ?off \<le> d) (sc_week_days s)" "?off \<in> set (sc_first_week_days s)"
    and sorted: "sorted_wrt (<) (sc_first_week_days s)"
    using ok by (auto simp: schedule_ok_def sorted_wrt_filter)
  from first(2) obtain d ds where ds: "sc_first_week_days s = d # ds" by (cases "sc_first_week_days s") auto
  have "d \<in> set (filter (\<lambda>d. ?off \<le> d) (sc_week_days s))" using first(1) ds by (metis list.set_intros(1))
  then have "?off \<le> d" by simp
  moreover have "d \<le> ?off" using first(2) sorted ds by auto
  ultimately show ?thesis using ds by (simp add: week_and_day_def)
qed

lemma slot_key_start:
  assumes ok: "schedule_ok x s" and "\<not> by_months s"
  shows "slot_key x s 0 = fst (sc_local_start s)"
  using assms(2) first_week_day [OF ok] ok
  by (cases "frequency (sc_rule s)")
    (auto simp: slot_key_def by_months_def week_days_before_def schedule_ok_def)

lemma slot_key_le: "schedule_ok x s \<Longrightarrow> m \<le> n \<Longrightarrow> slot_key x s m \<le> slot_key x s n"
  using slot_key_mono [of x s m n] by (cases "m = n") auto

context calendar_laws
begin

lemma supported_between: "supported x d \<Longrightarrow> supported x f \<Longrightarrow> d \<le> e \<Longrightarrow> e \<le> f \<Longrightarrow> supported x e"
  using year_of_mono [of d e] year_of_mono [of e f] by (simp add: supported_def)

lemma earlier_candidate:
  assumes ok: "schedule_ok x s" and days: "\<not> by_months s" and le: "m \<le> n"
    and n: "candidate x s n = Inr c" and max: "slot_key x s n \<le> date_max x"
  shows "candidate x s m = Inr \<lparr>cand_floor = slot_key x s m, cand_date = Some (slot_key x s m)\<rparr>"
proof -
  let ?i = "int (interval (sc_rule s))"
  have range: "date_min x \<le> slot_key x s m" "slot_key x s m \<le> date_max x"
    using slot_key_le [OF ok le] max slot_key_le [OF ok, of 0 m] slot_key_start [OF ok days]
      supported_range [of "fst (sc_local_start s)"] ok by (auto simp: schedule_ok_def)
  have slot: "i64_ok (int m)" using n le by (auto simp: candidate_def Let_def i64_checked_def i64_ok_def split: if_splits)
  show ?thesis
  proof (cases "frequency (sc_rule s)")
    case Daily
    have "0 \<le> int m * ?i" "int m * ?i \<le> int n * ?i" using le by (simp_all add: mult_right_mono)
    moreover have "i64_ok (int n * ?i)" "\<bar>int n * ?i\<bar> * 86400000 < 2 ^ 63"
      using n Daily by (auto simp: candidate_def Let_def i64_checked_def add_days_def try_days_def split: if_splits)
    ultimately have "i64_ok (int m * ?i)" "\<bar>int m * ?i\<bar> * 86400000 < 2 ^ 63" by (auto intro: i64_ok_between)
    with Daily slot range show ?thesis
      by (simp add: candidate_def Let_def i64_checked_def add_days_def try_days_def date_checked_add_def slot_key_def)
  next
    case Weekly
    obtain w d where wd: "week_and_day s m = (w, d)" by fastforce
    obtain w' d' where wd': "week_and_day s n = (w', d')" by fastforce
    have w: "0 \<le> int w * (?i * 7)" "int w * (?i * 7) \<le> int w' * (?i * 7)"
      using week_mono [OF le wd wd'] by (simp_all add: mult_right_mono)
    have before: "0 \<le> week_days_before s m" "week_days_before s m \<le> week_days_before s n"
      using week_days_before_nonneg slot_key_le [OF ok le] Weekly by (simp_all add: slot_key_def)
    have "i64_ok (int w' * (?i * 7))" "i64_ok (week_days_before s n)" "\<bar>week_days_before s n\<bar> * 86400000 < 2 ^ 63"
      using n Weekly by (auto simp: candidate_def Let_def i64_checked_def add_days_def try_days_def wd' week_days_before_def
          split: if_splits)
    then have "i64_ok (int w * (?i * 7))" "i64_ok (week_days_before s m)" "\<bar>week_days_before s m\<bar> * 86400000 < 2 ^ 63"
      using i64_ok_between [OF w] i64_ok_between [OF before] before by auto
    with Weekly slot range show ?thesis
      by (simp add: candidate_def Let_def i64_checked_def add_days_def try_days_def date_checked_add_def slot_key_def wd
          week_days_before_def)
  qed (use days in \<open>auto simp: by_months_def\<close>)
qed

text \<open>Where slots are counted arithmetically, every slot up to a position is a position.\<close>

lemma arithmetic_positions:
  assumes ok: "schedule_ok x s" and arith: "arithmetic_count x s" and n: "slot_time x s n \<noteq> None" and le: "m \<le> n"
  shows "slot_time x s m \<noteq> None"
proof -
  let ?d = "slot_key x s m" and ?w = "snd (sc_local_start s)"
  have days: "\<not> by_months s" using arith by (auto simp: arithmetic_count_def by_months_def)
  from n obtain c d t where c: "candidate x s n = Inr c" "cand_date c = Some d" "at_date x s d = Inr (Some t)"
    "within_until s t d" by (auto simp: slot_time_Some)
  have d: "d = slot_key x s n" "supported x d"
    using candidate_key(2) [OF c(1,2)] days at_date_wall(2) [OF ok c(3)] by (auto simp: date_key_def)
  have cand: "candidate x s m = Inr \<lparr>cand_floor = ?d, cand_date = Some ?d\<rparr>"
    using supported_range [OF d(2)] d(1) by (intro earlier_candidate [OF ok days le c(1)]) simp
  have le_d: "?d \<le> d" using slot_key_le [OF ok le] d(1) by simp
  have supp: "supported x ?d"
    using supported_between [of "fst (sc_local_start s)" d ?d] ok d(2) le_d slot_key_le [OF ok, of 0 m]
      slot_key_start [OF ok days] by (auto simp: schedule_ok_def)
  have w: "0 \<le> ?w" "?w < NANOS_PER_DAY" using wall_laws(1,2) [OF at_date_wall(1) [OF ok c(3)]] by auto
  have naive: "date_naive (midnight ?d + ?w) = ?d" using w by (simp add: date_naive_def midnight_def)
  have "at_date x s ?d = Inr (Some (if ?d = fst (sc_local_start s) then sc_start s
      else if ev_all_day (sc_event s) then midnight ?d else midnight ?d + ?w))"
    using supp arith utc_instant [OF w, of ?d] naive check_date_Inr [of x ?d ?d]
    by (auto simp: at_date_def Let_def arithmetic_count_def)
  then obtain u where u: "at_date x s ?d = Inr (Some u)" by blast
  have "u \<le> t"
    using le_d u c(3) wall_mono [OF at_date_wall(1) [OF ok u] at_date_wall(1) [OF ok c(3)]] by (cases "?d = d") auto
  with c(4) le_d have "within_until s u ?d" by (auto simp: within_until_def split: option.splits Until.splits)
  with cand u have "slot_time x s m = Some u" by (simp add: slot_time_Some)
  then show ?thesis by simp
qed

end

section \<open>The cursor\<close>

definition ordinal_ok :: "'z chrono \<Rightarrow> 'z Schedule \<Rightarrow> Cursor \<Rightarrow> bool" where
  "ordinal_ok x s c \<longleftrightarrow> ((\<exists>n \<ge> cu_slot c. slot_time x s n \<noteq> None) \<longrightarrow> rank x s (cu_slot c) = cu_ordinal c)"

definition exhausted :: "'z chrono \<Rightarrow> 'z Schedule \<Rightarrow> nat \<Rightarrow> bool" where
  "exhausted x s slot \<longleftrightarrow> (\<forall>n t. slot \<le> n \<longrightarrow> \<not> series_slot x s n t)"

definition cursor_ok :: "'z chrono \<Rightarrow> 'z Schedule \<Rightarrow> Cursor \<Rightarrow> bool" where
  "cursor_ok x s c \<longleftrightarrow> (rule_count (sc_rule s) \<noteq> None \<longrightarrow> ordinal_ok x s c) \<and> (cu_done c \<longrightarrow> exhausted x s (cu_slot c))"

lemma count_reached_exhausted:
  assumes "cursor_ok x s c" and "count_reached s c"
  shows "exhausted x s (cu_slot c)"
proof -
  from assms(2) obtain k where k: "rule_count (sc_rule s) = Some k" "k \<le> cu_ordinal c"
    by (cases "rule_count (sc_rule s)") (auto simp: count_reached_def)
  have "\<not> series_slot x s n t" if "cu_slot c \<le> n" for n t
    using assms(1) k that rank_mono [OF that, of x s] by (auto simp: series_slot_def cursor_ok_def ordinal_ok_def)
  then show ?thesis by (simp add: exhausted_def)
qed

lemma finished_exhausted:
  "cursor_ok x s c \<Longrightarrow> cu_done c \<or> count_reached s c \<Longrightarrow> exhausted x s (cu_slot c)"
  using count_reached_exhausted by (auto simp: cursor_ok_def)

lemma default_cursor_ok: "cursor_ok x s default_cursor" "ordinal_ok x s default_cursor"
  by (simp_all add: cursor_ok_def ordinal_ok_def default_cursor_def)

context calendar_laws
begin

text \<open>A step reports the position of its slot, and moves to the next one.\<close>

lemma cursor_step_slot:
  assumes ok: "schedule_ok x s" and step: "cursor_step x s c b = Inr (v, c', b')"
    and live: "\<not> cu_done c" "\<not> count_reached s c"
  shows "slot_time x s (cu_slot c) = map_option snd v" and "cu_slot c' = Suc (cu_slot c)"
    and "cu_ordinal c' = cu_ordinal c + (if v = None then 0 else 1)"
    and "v = Some (i, t) \<Longrightarrow> i = cu_ordinal c \<and> \<not> cu_done c'"
    and "cu_done c' \<Longrightarrow> cu_slot c \<le> n \<Longrightarrow> slot_time x s n = None"
proof -
  note cases = cursor_step_cases [OF step live]
  have none: "slot_time x s n = None" if "cu_done c'" "cu_slot c \<le> n" for n
    by (rule cases) (use that live(1) in \<open>auto dest: past_until_no_position [OF ok] outside_until_no_position [OF ok]\<close>)
  show "slot_time x s (cu_slot c) = map_option snd v"
    by (rule cases) (use none [of "cu_slot c"] in \<open>auto simp: slot_time_def split: option.split\<close>)
  show "cu_slot c' = Suc (cu_slot c)" by (rule cases) auto
  show "cu_ordinal c' = cu_ordinal c + (if v = None then 0 else 1)" by (rule cases) auto
  show "i = cu_ordinal c \<and> \<not> cu_done c'" if "v = Some (i, t)"
    by (rule cases) (use that live in auto)
  show "slot_time x s n = None" if "cu_done c'" "cu_slot c \<le> n" using that by (rule none)
qed

lemma cursor_step_ordinal:
  assumes ok: "schedule_ok x s" and ord: "ordinal_ok x s c" and step: "cursor_step x s c b = Inr (v, c', b')"
  shows "ordinal_ok x s c'"
proof (cases "cu_done c \<or> count_reached s c")
  case True
  with ord step show ?thesis by (auto simp: ordinal_ok_def cursor_step_finished)
next
  case False
  then have "\<not> cu_done c" "\<not> count_reached s c" by auto
  note slot = cursor_step_slot [OF ok step this]
  show ?thesis
    unfolding ordinal_ok_def slot(2)
  proof
    assume "\<exists>n \<ge> Suc (cu_slot c). slot_time x s n \<noteq> None"
    with ord have "rank x s (cu_slot c) = cu_ordinal c" unfolding ordinal_ok_def using Suc_leD by blast
    with slot(1,3) show "rank x s (Suc (cu_slot c)) = cu_ordinal c'" by (auto simp: rank_Suc)
  qed
qed

lemma cursor_step_ok:
  assumes ok: "schedule_ok x s" and inv: "cursor_ok x s c" and step: "cursor_step x s c b = Inr (v, c', b')"
  shows "cursor_ok x s c'"
proof (cases "cu_done c \<or> count_reached s c")
  case True
  with inv step finished_exhausted [OF inv True] show ?thesis
    by (auto simp: cursor_ok_def ordinal_ok_def cursor_step_finished)
next
  case False
  then have "\<not> cu_done c" "\<not> count_reached s c" by auto
  note slot = cursor_step_slot [OF ok step this]
  have "exhausted x s (cu_slot c')" if "cu_done c'"
    using slot(5) [OF that] slot(2) by (simp add: exhausted_def series_slot_def)
  with inv cursor_step_ordinal [OF ok _ step] show ?thesis by (auto simp: cursor_ok_def)
qed

lemma advance_ok:
  assumes "schedule_ok x s" and "cursor_ok x s c" and "cu_slot c \<le> slot" and "advance x s slot c b = Inr (c', b')"
  shows "cursor_ok x s c' \<and> cu_slot c' \<le> slot \<and> (ordinal_ok x s c \<longrightarrow> ordinal_ok x s c')"
  using assms(2-)
proof (induction "work_left c b" arbitrary: c b rule: less_induct)
  case less
  show ?case
  proof (cases "cu_slot c < slot \<and> \<not> cu_done c")
    case True
    with less.prems(3) obtain v c1 b1 where step: "cursor_step x s c b = Inr (v, c1, b1)"
      and rest: "advance x s slot c1 b1 = Inr (c', b')"
      by (subst (asm) advance.simps) (auto split: sum.splits)
    have "cu_slot c1 \<le> slot"
    proof (cases "count_reached s c")
      case False
      then show ?thesis using True cursor_step_slot(2) [OF assms(1) step] by simp
    qed (use step True in \<open>auto simp: cursor_step_finished\<close>)
    then show ?thesis
      using less.hyps [OF _ _ _ rest] cursor_step_work [OF step] True cursor_step_ok [OF assms(1) less.prems(1) step]
        cursor_step_ordinal [OF assms(1) _ step] by blast
  next
    case False
    with less.prems show ?thesis by (subst (asm) advance.simps) auto
  qed
qed

lemma at_slot_ok:
  assumes ok: "schedule_ok x s" and run: "at_slot x s slot need b = Inr (c, b')"
  shows "cursor_ok x s c \<and> cu_slot c \<le> slot \<and> (need \<longrightarrow> ordinal_ok x s c)"
proof (cases "arithmetic_count x s")
  case True
  with run have c: "c = \<lparr>cu_slot = slot, cu_ordinal = slot, cu_done = False\<rparr>" by (simp add: at_slot_def)
  have "rank x s slot = slot" if "slot \<le> n" "slot_time x s n \<noteq> None" for n
    using arithmetic_positions [OF ok True that(2)] that(1) by (intro rank_full) (meson less_imp_le order_trans)
  then have "ordinal_ok x s c" by (auto simp: ordinal_ok_def c)
  then show ?thesis by (simp add: cursor_ok_def c)
next
  case False
  show ?thesis
  proof (cases "need \<or> rule_count (sc_rule s) \<noteq> None")
    case True
    with False run have "advance x s slot default_cursor b = Inr (c, b')" by (auto simp: at_slot_def)
    from advance_ok [OF ok default_cursor_ok(1) _ this] show ?thesis
      using default_cursor_ok(2) [of x s] by (auto simp: default_cursor_def)
  next
    case no_count: False
    with False run show ?thesis by (auto simp: at_slot_def cursor_ok_def)
  qed
qed

end

section \<open>Windows\<close>

text \<open>The positions of the series that overlap a half-open window, and what a list of them that may
  have been cut at a limit has to be.\<close>

definition window :: "'z chrono \<Rightarrow> 'z Schedule \<Rightarrow> instant \<Rightarrow> instant \<Rightarrow> instant set" where
  "window x s lower upper = {t \<in> series x s. t < upper \<and> lower < t + sc_duration s}"

definition lists_window :: "instant set \<Rightarrow> nat \<Rightarrow> instant list \<Rightarrow> bool \<Rightarrow> bool" where
  "lists_window W limit ts truncated \<longleftrightarrow>
     sorted_wrt (<) ts \<and> set ts \<subseteq> W \<and> length ts \<le> limit
   \<and> (\<forall>t \<in> W - set ts. \<forall>u \<in> set ts. u < t)
   \<and> (if truncated then length ts = limit \<and> W - set ts \<noteq> {} else set ts = W)"

definition generated :: "'z chrono \<Rightarrow> 'z Schedule \<Rightarrow> GeneratedOccurrence \<Rightarrow> instant \<Rightarrow> bool" where
  "generated x s g t \<longleftrightarrow> occurrence_fields x s t = Inr (generated_fields g)
     \<and> original_start g = format_time x (sc_event s) t"

text \<open>The loop has listed the window's positions of the slots before the cursor.\<close>

definition listed :: "'z chrono \<Rightarrow> 'z Schedule \<Rightarrow> instant \<Rightarrow> instant \<Rightarrow> nat \<Rightarrow> nat \<Rightarrow> instant list \<Rightarrow> bool" where
  "listed x s lower upper limit slot ts \<longleftrightarrow>
     sorted_wrt (<) ts \<and> length ts \<le> limit
   \<and> set ts = {t. \<exists>n < slot. series_slot x s n t \<and> t < upper \<and> lower < t + sc_duration s}"

lemma listed_finish:
  assumes "listed x s lower upper limit slot ts"
    and "\<And>n t. slot \<le> n \<Longrightarrow> series_slot x s n t \<Longrightarrow> upper \<le> t"
  shows "lists_window (window x s lower upper) limit ts False"
proof -
  have "set ts = window x s lower upper"
    using assms by (auto simp: listed_def window_def series_def) (meson linorder_not_less)
  with assms(1) show ?thesis by (auto simp: lists_window_def listed_def)
qed

lemma listed_exhausted:
  "listed x s lower upper limit slot ts \<Longrightarrow> exhausted x s slot
     \<Longrightarrow> lists_window (window x s lower upper) limit ts False"
  by (erule listed_finish) (simp add: exhausted_def)

lemma listed_skip:
  assumes "listed x s lower upper limit slot ts"
    and "\<And>t. series_slot x s slot t \<Longrightarrow> t < upper \<Longrightarrow> t + sc_duration s \<le> lower"
  shows "listed x s lower upper limit (Suc slot) ts"
  using assms by (fastforce simp: listed_def less_Suc_eq)

lemma generated_fields_Inr:
  "occurrence_fields x s t = Inr f \<Longrightarrow> generated x s \<lparr>original_start = oc_start_time f, generated_fields = f\<rparr> t"
  by (auto simp: generated_def occurrence_fields_def)

context calendar_laws
begin

lemma listed_before:
  assumes ok: "schedule_ok x s" and l: "listed x s lower upper limit slot ts" and u: "u \<in> set ts"
    and n: "series_slot x s n t" "slot \<le> n"
  shows "u < t"
proof -
  from l u obtain m where "m < slot" "series_slot x s m u" by (auto simp: listed_def)
  with n slot_time_order [OF ok, of m u n t] show ?thesis by (simp add: series_slot_def)
qed

lemma listed_append:
  assumes ok: "schedule_ok x s" and l: "listed x s lower upper limit slot ts"
    and n: "series_slot x s slot t" and win: "t < upper" "lower < t + sc_duration s" and len: "length ts \<noteq> limit"
  shows "listed x s lower upper limit (Suc slot) (ts @ [t])"
proof -
  have "series_slot x s slot u \<longleftrightarrow> u = t" for u using n by (auto simp: series_slot_def)
  with l win len listed_before [OF ok l _ n] show ?thesis
    by (auto simp: listed_def sorted_wrt_append less_Suc_eq)
qed

lemma listed_more:
  assumes ok: "schedule_ok x s" and l: "listed x s lower upper limit slot ts"
    and n: "series_slot x s slot t" and win: "t < upper" "lower < t + sc_duration s" and len: "length ts = limit"
  shows "lists_window (window x s lower upper) limit ts True"
proof -
  have later: "slot \<le> n" if "series_slot x s n v" "v \<in> window x s lower upper - set ts" for n v
    using that l by (auto simp: listed_def window_def not_less [symmetric])
  have "t \<in> window x s lower upper" using n win by (auto simp: window_def series_def)
  moreover have "t \<notin> set ts" using listed_before [OF ok l _ n] by blast
  moreover have "u < v" if "v \<in> window x s lower upper - set ts" "u \<in> set ts" for u v
  proof -
    from that(1) obtain n where "series_slot x s n v" by (auto simp: window_def series_def)
    with later [OF this that(1)] listed_before [OF ok l that(2)] show ?thesis by blast
  qed
  moreover have "set ts \<subseteq> window x s lower upper" "sorted_wrt (<) ts"
    using l by (auto simp: listed_def window_def series_def)
  ultimately show ?thesis unfolding lists_window_def using len by (simp only: if_True order_refl) blast
qed

lemma beyond_window:
  assumes ok: "schedule_ok x s" and cand: "candidate x s m = Inr cand" and le: "m \<le> n"
    and far: "cand_floor cand - date_naive upper > 2" and n: "series_slot x s n t"
  shows "upper \<le> t"
proof -
  from n obtain c' d where c': "candidate x s n = Inr c'" "cand_date c' = Some d" "at_date x s d = Inr (Some t)"
    by (auto simp: series_slot_def slot_time_Some)
  have "cand_floor cand \<le> d"
    using le cand c' candidate_order(1) [OF ok cand c'(1)] candidate_key(2) [OF c'(1,2)] by (cases "m = n") auto
  then have "(date_naive upper + 1) * NANOS_PER_DAY \<le> (d - 1) * NANOS_PER_DAY"
    using far NANOS_PER_DAY_pos(1) by (intro mult_right_mono) auto
  then show ?thesis
    using wall_date_bounds(1) [OF at_date_wall(1) [OF ok c'(3)]] midnight_date_naive(2) [of upper]
    unfolding midnight_def by linarith
qed

lemma live_series_slot:
  assumes "cursor_ok x s c" and "\<not> count_reached s c" and "slot_time x s (cu_slot c) = Some t"
  shows "series_slot x s (cu_slot c) t"
  using assms
  by (cases "rule_count (sc_rule s)") (auto simp: series_slot_def cursor_ok_def ordinal_ok_def count_reached_def)

lemma later_position:
  assumes "schedule_ok x s" and "series_slot x s m t" and "m \<le> n" and "series_slot x s n u"
  shows "t \<le> u"
  using assms slot_time_order [of s m t n u] by (cases "m = n") (auto simp: series_slot_def)

text \<open>What an iteration does with a position.\<close>

lemma expand_loop_position:
  assumes run: "expand_loop x s lower upper limit found c b = Inr r" and live: "\<not> (cu_done c \<or> count_reached s c)"
    and cand: "candidate x s (cu_slot c) = Inr cand"
    and inside: "\<not> (cand_floor cand - date_naive upper > 2 \<or> past_until_date s (cand_floor cand))"
    and step: "cursor_step x s c b = Inr (Some (i, t), c', b')"
  obtains (beyond) "upper \<le> t" "r = \<lparr>occurrences = found, has_more = False\<rparr>"
    | (full) "t < upper" "lower < t + sc_duration s" "length found = limit" "r = \<lparr>occurrences = found, has_more = True\<rparr>"
    | (found) f where "t < upper" "lower < t + sc_duration s" "length found \<noteq> limit" "occurrence_fields x s t = Inr f"
        "expand_loop x s lower upper limit (found @ [\<lparr>original_start = oc_start_time f, generated_fields = f\<rparr>]) c' b' = Inr r"
    | (outside) "t + sc_duration s \<le> lower" "expand_loop x s lower upper limit found c' b' = Inr r"
proof -
  note unfolded = run [unfolded expand_loop.simps [of x s lower upper limit found c b]]
  show thesis
  proof (cases "upper \<le> t")
    case True
    with unfolded live cand inside step show thesis by (intro beyond) simp_all
  next
    case within: False
    with unfolded live cand inside step have "time_checked_add x t (sc_duration s) = Some (t + sc_duration s)"
      by (simp add: time_checked_add_def split: if_splits)
    note unfolded = unfolded [simplified live cand inside step within this if_False if_True sum.case option.case prod.case]
    show thesis
    proof (cases "lower < t + sc_duration s")
      case True
      with unfolded within show thesis
        by (cases "length found = limit"; cases "occurrence_fields x s t") (auto intro: full found)
    next
      case False
      with unfolded show thesis by (intro outside) simp_all
    qed
  qed
qed

lemma expand_loop_lists:
  assumes ok: "schedule_ok x s"
    and "cursor_ok x s c" and "listed x s lower upper limit (cu_slot c) ts" and "list_all2 (generated x s) found ts"
    and "expand_loop x s lower upper limit found c b = Inr r"
  shows "\<exists>ts'. list_all2 (generated x s) (occurrences r) ts' \<and> lists_window (window x s lower upper) limit ts' (has_more r)"
  using assms(2-)
proof (induction "work_left c b" arbitrary: c b ts found rule: less_induct)
  case less
  note unfolded = less.prems(4) [unfolded expand_loop.simps [of x s lower upper limit found c b]]
  have stop: ?case
    if "r = \<lparr>occurrences = found, has_more = truncated\<rparr>" "lists_window (window x s lower upper) limit ts truncated" for truncated
    using that less.prems(3) by auto
  show ?case
  proof (cases "cu_done c \<or> count_reached s c")
    case True
    with unfolded have "r = \<lparr>occurrences = found, has_more = False\<rparr>" by simp
    from stop [OF this listed_exhausted [OF less.prems(2) finished_exhausted [OF less.prems(1) True]]] show ?thesis .
  next
    case live: False
    with unfolded obtain cand where cand: "candidate x s (cu_slot c) = Inr cand" by (auto split: sum.splits)
    show ?thesis
    proof (cases "cand_floor cand - date_naive upper > 2 \<or> past_until_date s (cand_floor cand)")
      case True
      have "upper \<le> t" if "cu_slot c \<le> n" "series_slot x s n t" for n t
        using True that beyond_window [OF ok cand that(1)] past_until_no_position [OF ok cand _ that(1)]
        by (auto simp: series_slot_def)
      note finish = listed_finish [OF less.prems(2) this]
      from unfolded live cand True have "r = \<lparr>occurrences = found, has_more = False\<rparr>" by simp
      from stop [OF this finish] show ?thesis .
    next
      case inside: False
      with unfolded live cand obtain v c' b' where step: "cursor_step x s c b = Inr (v, c', b')"
        by (auto split: sum.splits)
      have l: "\<not> cu_done c" "\<not> count_reached s c" using live by auto
      note slot = cursor_step_slot [OF ok step l]
      note IH = less.hyps [OF cursor_step_work [OF step l(1)] cursor_step_ok [OF ok less.prems(1) step]]
      show ?thesis
      proof (cases v)
        case None
        with slot(1) have "listed x s lower upper limit (cu_slot c') ts"
          unfolding slot(2) by (intro listed_skip [OF less.prems(2)]) (simp add: series_slot_def)
        with unfolded live cand inside step None show ?thesis by (intro IH [OF _ less.prems(3)]) simp_all
      next
        case (Some it)
        obtain i t where it: "it = (i, t)" by fastforce
        have pos: "series_slot x s (cu_slot c) t"
          using slot(1) Some it by (intro live_series_slot [OF less.prems(1) l(2)]) simp
        show ?thesis
        proof (rule expand_loop_position [OF less.prems(4) live cand inside step [unfolded Some it]])
          assume beyond: "upper \<le> t" and r: "r = \<lparr>occurrences = found, has_more = False\<rparr>"
          from r show ?thesis
            by (rule stop) (rule listed_finish [OF less.prems(2)], use beyond later_position [OF ok pos] order_trans in blast)
        next
          assume "t < upper" "lower < t + sc_duration s" "length found = limit" "r = \<lparr>occurrences = found, has_more = True\<rparr>"
          then show ?thesis
            using stop listed_more [OF ok less.prems(2) pos] list_all2_lengthD [OF less.prems(3)] by simp
        next
          fix f
          assume f: "t < upper" "lower < t + sc_duration s" "length found \<noteq> limit" "occurrence_fields x s t = Inr f"
            and rest: "expand_loop x s lower upper limit (found @ [\<lparr>original_start = oc_start_time f, generated_fields = f\<rparr>])
              c' b' = Inr r"
          from f less.prems(3) generated_fields_Inr [OF f(4)] show ?thesis
            by (intro IH [OF _ _ rest, of "ts @ [t]"])
              (auto simp: slot(2) list_all2_lengthD list_all2_append intro: listed_append [OF ok less.prems(2) pos])
        next
          assume "t + sc_duration s \<le> lower" "expand_loop x s lower upper limit found c' b' = Inr r"
          with pos show ?thesis
            by (intro IH [OF _ less.prems(3)]) (auto simp: slot(2) series_slot_def intro!: listed_skip [OF less.prems(2)])
        qed
      qed
    qed
  qed
qed

end

section \<open>Expansion\<close>

context calendar_laws
begin

lemma first_candidate:
  assumes ok: "schedule_ok x s" and c: "candidate x s 0 = Inr c" "cand_date c = Some d"
  shows "d = fst (sc_local_start s)"
proof (cases "by_months s")
  case False
  with candidate_key(2) [OF c] slot_key_start [OF ok False] show ?thesis by (simp add: date_key_def)
next
  case True
  let ?start = "fst (sc_local_start s)"
  from c obtain y m where "from_ymd_opt x y m (day_of x ?start) = Some d"
    using True by (auto simp: candidate_def Let_def by_months_def i64_checked_def i64_ok_def split: if_splits)
  note civil = ymd_civil [OF this]
  have key: "month_index x d = month_index x ?start"
    using candidate_key(2) [OF c] True by (auto simp: date_key_def slot_key_def by_months_def)
  have "year_of x d = year_of x ?start" using key by (simp add: year_of_month_index)
  moreover from key this have "month_of x d = month_of x ?start"
    using month_range by (simp add: month_index_def)
  moreover have "day_of x d = day_of x ?start" using civil by (simp add: day_of_def)
  moreover have "civil_date x e = (year_of x e, month_of x e, day_of x e)" for e
    by (simp add: year_of_def month_of_def day_of_def split: prod.split)
  ultimately have "civil_date x d = civil_date x ?start" by metis
  then show ?thesis by (rule civil_inject)
qed

lemma no_position_before_start:
  assumes ok: "schedule_ok x s" and n: "slot_time x s n = Some t"
  shows "sc_start s \<le> t"
proof -
  from n obtain c d where c: "candidate x s n = Inr c" "cand_date c = Some d" "at_date x s d = Inr (Some t)"
    by (auto simp: slot_time_Some)
  have start: "wall x s (sc_start s) = (fst (sc_local_start s), snd (sc_local_start s))"
    using ok by (simp add: schedule_ok_def)
  have "fst (sc_local_start s) \<le> d"
  proof (cases "n = 0")
    case True
    with first_candidate [OF ok] c show ?thesis by auto
  next
    case False
    have "date_key x s (fst (sc_local_start s)) = slot_key x s 0"
      using slot_key_start [OF ok] by (auto simp: date_key_def by_months_def slot_key_def)
    also have "\<dots> < date_key x s d" using slot_key_mono [OF ok, of 0 n] False candidate_key(2) [OF c(1,2)] by simp
    finally show ?thesis using date_key_mono [of d "fst (sc_local_start s)" s] by fastforce
  qed
  then consider "d = fst (sc_local_start s)" | "fst (sc_local_start s) < d" by linarith
  then show ?thesis
  proof cases
    case 1
    with c(3) show ?thesis by (auto simp: at_date_def)
  next
    case 2
    from wall_mono [OF start at_date_wall(1) [OF ok c(3)] this] show ?thesis by simp
  qed
qed

text \<open>A slot that \<^verbatim>\<open>expand\<close> skips ends before the window.\<close>

lemma skipped_slot:
  assumes ok: "schedule_ok x s" and n: "slot_time x s n = Some t"
    and less: "n < seek x s (date_naive (lower - sc_duration s - 2 * NANOS_PER_DAY))"
  shows "t + sc_duration s \<le> lower"
proof -
  let ?e = "date_naive (lower - sc_duration s - 2 * NANOS_PER_DAY)"
  from n obtain c d where c: "candidate x s n = Inr c" "cand_date c = Some d" "at_date x s d = Inr (Some t)"
    by (auto simp: slot_time_Some)
  have "(d + 2) * NANOS_PER_DAY \<le> (?e + 1) * NANOS_PER_DAY"
    using candidate_before_seek [OF ok c(1,2) less] by (intro mult_right_mono) auto
  moreover have "t < (d + 2) * NANOS_PER_DAY"
    using wall_date_bounds(2) [OF at_date_wall(1) [OF ok c(3)]] by (simp add: midnight_def)
  moreover have "?e * NANOS_PER_DAY \<le> lower - sc_duration s - 2 * NANOS_PER_DAY"
    using midnight_date_naive(1) [of "lower - sc_duration s - 2 * NANOS_PER_DAY"] by (simp add: midnight_def)
  ultimately show ?thesis using NANOS_PER_DAY_pos(1) unfolding distrib_right by linarith
qed

lemma expand_lists:
  assumes "expand x e ws we limit = Inr r"
  obtains s lower upper ts where "from_event x e = Inr s" "boundary x ws = Inr lower" "boundary x we = Inr upper"
    "lower < upper" "list_all2 (generated x s) (occurrences r) ts"
    "lists_window (window x s lower upper) limit ts (has_more r)"
proof -
  from assms obtain s lower upper where s: "from_event x e = Inr s" and bounds: "boundary x ws = Inr lower"
    "boundary x we = Inr upper" "lower < upper"
    by (auto simp: expand_def split: if_splits)
  have ok: "schedule_ok x s" using s new_schedule_ok [OF compact_formats_axioms] by (auto simp: from_event_def)
  show thesis
  proof (cases "upper \<le> sc_start s")
    case True
    have "window x s lower upper = {}"
      using True no_position_before_start [OF ok] by (force simp: window_def series_def series_slot_def)
    moreover have "r = \<lparr>occurrences = [], has_more = False\<rparr>"
      using assms s bounds True by (auto simp: expand_def split: if_splits)
    ultimately show thesis using that [OF s bounds, of "[]"] by (simp add: lists_window_def)
  next
    case False
    let ?e = "date_naive (lower - sc_duration s - 2 * NANOS_PER_DAY)"
    from assms s bounds False obtain c b where at: "at_slot x s (seek x s ?e) False 0 = Inr (c, b)"
      and loop: "expand_loop x s lower upper limit [] c b = Inr r"
      by (auto simp: expand_def time_checked_add_def split: if_splits)
    from at_slot_ok [OF ok at] have c: "cursor_ok x s c" "cu_slot c \<le> seek x s ?e" by auto
    have "listed x s lower upper limit (cu_slot c) []"
    proof -
      have "t + sc_duration s \<le> lower" if "n < cu_slot c" "series_slot x s n t" for n t
        using skipped_slot [OF ok, of n t lower] c(2) that by (auto simp: series_slot_def)
      then show ?thesis by (force simp: listed_def)
    qed
    from expand_loop_lists [OF ok c(1) this _ loop] that [OF s bounds] show thesis by auto
  qed
qed

end

end
