(* ===== verification/Gregorian.thy ===== *)
theory Gregorian
  imports Recurrence_Series
begin

text \<open>
  A concrete calendar: proleptic Gregorian dates, the fixed-width formats of \<^verbatim>\<open>chrono\<close> and three time
  zones (UTC, one whose clock is set back an hour and one whose clock is set forward), with the proof
  that it has the laws the generator relies on. Concrete inputs of the recurrence theorems run on it.
\<close>

section \<open>Years\<close>

definition leap :: "int \<Rightarrow> bool" where
  "leap y \<longleftrightarrow> y mod 4 = 0 \<and> (y mod 100 \<noteq> 0 \<or> y mod 400 = 0)"

definition days_before :: "int \<Rightarrow> int" where
  "days_before y = 365 * (y - 1) + (y - 1) div 4 - (y - 1) div 100 + (y - 1) div 400"

text \<open>The year of a day, through cycles of 400, 100, 4 and 1 years.\<close>

definition greg_year :: "int \<Rightarrow> int" where
  "greg_year d =
     (let c = d div 146097; r = d mod 146097;
          a = min 3 (r div 36524); r = r - a * 36524;
          b = r div 1461; r = r mod 1461;
          e = min 3 (r div 365)
      in 400 * c + 100 * a + 4 * b + e + 1)"

lemma days_before_parts:
  assumes "0 \<le> a" "a \<le> 3" "0 \<le> b" "b \<le> 24" "0 \<le> e" "e \<le> 3"
  shows "days_before (400 * c + 100 * a + 4 * b + e + 1) = 146097 * c + 36524 * a + 1461 * b + 365 * e"
proof -
  have "(400 * c + 100 * a + 4 * b + e) div 4 = 100 * c + 25 * a + b" using assms by linarith
  moreover have "(400 * c + 100 * a + 4 * b + e) div 100 = 4 * c + a" using assms by linarith
  moreover have "(400 * c + 100 * a + 4 * b + e) div 400 = c" using assms by linarith
  ultimately show ?thesis by (simp add: days_before_def)
qed

lemma days_before_Suc: "days_before (y + 1) = days_before y + (if leap y then 366 else 365)"
proof -
  have step: "(y - 1) div k = y div k - (if k dvd y then 1 else 0)" if "1 \<le> k" for k :: int
  proof (cases "k dvd y")
    case True
    then have "y - 1 = k * (y div k - 1) + (k - 1)" by (simp add: right_diff_distrib)
    with that True show ?thesis by (intro int_div_pos_eq) auto
  next
    case False
    have eq: "y - 1 = k * (y div k) + (y mod k - 1)" by simp
    have "0 < y mod k" "y mod k < k"
      using that False pos_mod_sign [of k y] pos_mod_bound [of k y] by (auto simp: dvd_eq_mod_eq_0 order_less_le simp del: pos_mod_sign)
    then have "(y - 1) div k = y div k" by (intro int_div_pos_eq [OF eq]) auto
    with False show ?thesis by simp
  qed
  have "4 dvd y" if "100 dvd y" using that by (rule dvd_trans [rotated]) simp
  moreover have "100 dvd y" if "400 dvd y" using that by (rule dvd_trans [rotated]) simp
  ultimately show ?thesis
    by (auto simp: days_before_def leap_def step dvd_eq_mod_eq_0 [symmetric])
qed

lemma greg_year_bounds: "days_before (greg_year d) \<le> d" "d < days_before (greg_year d + 1)"
proof -
  define c r where "c = d div 146097" and "r = d mod 146097"
  define a where "a = min 3 (r div 36524)"
  define q where "q = r - a * 36524"
  define b p where "b = q div 1461" and "p = q mod 1461"
  define e where "e = min 3 (p div 365)"
  have year: "greg_year d = 400 * c + 100 * a + 4 * b + e + 1"
    by (simp add: greg_year_def Let_def c_def r_def a_def q_def b_def p_def e_def)
  have d: "d = 146097 * c + r" and r: "0 \<le> r" "r < 146097" by (simp_all add: c_def r_def)
  have a: "0 \<le> a" "a \<le> 3" "a * 36524 \<le> r" "a < 3 \<Longrightarrow> r < (a + 1) * 36524"
    using r by (auto simp: a_def min_def)
  have q: "q = 1461 * b + p" "0 \<le> p" "p < 1461" by (simp_all add: b_def p_def)
  have "q \<le> 36524" using a r by (cases "a < 3") (auto simp: q_def)
  moreover have "0 \<le> q" using a(3) by (simp add: q_def)
  ultimately have b: "0 \<le> b" "b \<le> 24" unfolding b_def by linarith+
  have e: "0 \<le> e" "e \<le> 3" "e * 365 \<le> p" "e < 3 \<Longrightarrow> p < (e + 1) * 365" using q by (auto simp: e_def min_def)
  have q_r: "r = a * 36524 + q" by (simp add: q_def)
  show "days_before (greg_year d) \<le> d"
    unfolding year using days_before_parts [OF a(1,2) b e(1,2), of c] e(3) d q(1) q_r by linarith
  consider "e < 3" | "e = 3" "b < 24" | "e = 3" "b = 24" "a < 3" | "e = 3" "b = 24" "a = 3"
    using a(2) b(2) e(2) by linarith
  then show "d < days_before (greg_year d + 1)"
  proof cases
    case 1
    then show ?thesis unfolding year using days_before_parts [of a b "e + 1" c] a b e d q q_r by (simp add: algebra_simps)
  next
    case 2
    then show ?thesis unfolding year using days_before_parts [of a "b + 1" 0 c] a b e d q q_r by (simp add: algebra_simps)
  next
    case 3
    then show ?thesis unfolding year using days_before_parts [of "a + 1" 0 0 c] a b e d q q_r by (simp add: algebra_simps)
  next
    case 4
    then show ?thesis unfolding year using days_before_parts [of 0 0 0 "c + 1"] a b e d q q_r r by (simp add: algebra_simps)
  qed
qed

lemma days_before_mono: "y < z \<Longrightarrow> days_before y < days_before z"
proof (induction "nat (z - y)" arbitrary: z)
  case (Suc n)
  have step: "days_before (z - 1) < days_before z" using days_before_Suc [of "z - 1"] by (simp split: if_splits)
  show ?case
  proof (cases "y = z - 1")
    case False
    with Suc have "days_before y < days_before (z - 1)" by (intro Suc.hyps) auto
    with step show ?thesis by simp
  qed (use step in simp)
qed simp

lemma days_before_le: "y \<le> z \<Longrightarrow> days_before y \<le> days_before z"
  using days_before_mono [of y z] by (cases "y = z") auto

lemma greg_year_unique: "days_before y \<le> d \<Longrightarrow> d < days_before (y + 1) \<Longrightarrow> greg_year d = y"
  using greg_year_bounds [of d] days_before_le [of "y + 1" "greg_year d"] days_before_le [of "greg_year d + 1" y]
  by linarith

lemma greg_year_mono: "d \<le> e \<Longrightarrow> greg_year d \<le> greg_year e"
  using greg_year_bounds [of d] greg_year_bounds [of e] days_before_le [of "greg_year e + 1" "greg_year d"] by linarith

section \<open>Months\<close>

definition month_lengths :: "int \<Rightarrow> nat list" where
  "month_lengths y = [31, if leap y then 29 else 28, 31, 30, 31, 30, 31, 31, 30, 31, 30, 31]"

fun month_day :: "nat list \<Rightarrow> nat \<Rightarrow> nat \<times> nat" where
  "month_day [] n = (0, n)"
| "month_day (l # ls) n = (if n < l then (0, n) else (case month_day ls (n - l) of (m, k) \<Rightarrow> (Suc m, k)))"

lemma month_day_total:
  "month_day ls n = (m, k) \<Longrightarrow> n = sum_list (take m ls) + k \<and> (n < sum_list ls \<longrightarrow> m < length ls \<and> k < ls ! m)"
  by (induction ls n arbitrary: m k rule: month_day.induct) (auto split: if_splits prod.splits)

lemma month_day_of: "m < length ls \<Longrightarrow> k < ls ! m \<Longrightarrow> month_day ls (sum_list (take m ls) + k) = (m, k)"
proof (induction ls arbitrary: m)
  case (Cons l ls)
  then show ?case by (cases m) auto
qed simp

lemma month_day_mono: "n \<le> n' \<Longrightarrow> fst (month_day ls n) \<le> fst (month_day ls n')"
proof (induction ls n arbitrary: n' rule: month_day.induct)
  case (2 l ls n)
  have "fst (month_day ls (n - l)) \<le> fst (month_day ls (n' - l))" if "\<not> n < l"
    using "2.prems" by (intro "2.IH" that diff_le_mono)
  with "2.prems" show ?case by (auto split: prod.splits)
qed simp

lemma month_lengths_facts:
  "length (month_lengths y) = 12" "sum_list (month_lengths y) = (if leap y then 366 else 365)"
  by (simp_all add: month_lengths_def)

definition day_number :: "int \<Rightarrow> nat \<Rightarrow> nat \<Rightarrow> int" where
  "day_number y m k = days_before y + int (sum_list (take (m - 1) (month_lengths y))) + int k - 1"

definition greg_civil :: "int \<Rightarrow> int \<times> nat \<times> nat" where
  "greg_civil d =
     (let y = greg_year d
      in case month_day (month_lengths y) (nat (d - days_before y)) of (m, k) \<Rightarrow> (y, Suc m, Suc k))"

definition valid_ymd :: "int \<Rightarrow> nat \<Rightarrow> nat \<Rightarrow> bool" where
  "valid_ymd y m k \<longleftrightarrow> 1 \<le> m \<and> m \<le> 12 \<and> 1 \<le> k \<and> k \<le> month_lengths y ! (m - 1)"

lemma greg_civil_day_number:
  assumes "greg_civil d = (y, m, k)"
  shows "y = greg_year d" and "valid_ymd y m k" and "day_number y m k = d"
proof -
  let ?n = "nat (d - days_before (greg_year d))"
  obtain m' k' where mk: "month_day (month_lengths (greg_year d)) ?n = (m', k')" by fastforce
  with assms have eq: "y = greg_year d" "m = Suc m'" "k = Suc k'" by (auto simp: greg_civil_def)
  have n: "int ?n = d - days_before (greg_year d)" "?n < sum_list (month_lengths (greg_year d))"
    using greg_year_bounds [of d] days_before_Suc [of "greg_year d"] by (auto simp: month_lengths_facts)
  show "y = greg_year d" by (fact eq(1))
  have "m' < 12 \<and> k' < month_lengths (greg_year d) ! m'"
    using month_day_total [OF mk, THEN conjunct2] n(2) by (simp add: month_lengths_facts(1))
  then show "valid_ymd y m k" by (simp add: valid_ymd_def eq)
  show "day_number y m k = d" using month_day_total [OF mk] n(1) by (simp add: day_number_def eq)
qed

lemma day_number_civil:
  assumes "valid_ymd y m k"
  shows "greg_civil (day_number y m k) = (y, m, k)"
proof -
  let ?ls = "month_lengths y"
  have mk: "m - 1 < length ?ls" "k - 1 < ?ls ! (m - 1)" using assms by (auto simp: valid_ymd_def month_lengths_facts)
  have n: "day_number y m k = days_before y + int (sum_list (take (m - 1) ?ls) + (k - 1))"
    using assms by (simp add: day_number_def valid_ymd_def)
  have "sum_list (take (m - 1) ?ls) + (k - 1) < sum_list (take (m - 1) ?ls) + ?ls ! (m - 1)" using mk by simp
  also have "\<dots> = sum_list (take (Suc (m - 1)) ?ls)" using mk(1) by (simp add: take_Suc_conv_app_nth)
  also have "\<dots> \<le> sum_list ?ls" by (metis append_take_drop_id le_add1 sum_list_append)
  finally have "greg_year (day_number y m k) = y"
    using days_before_Suc [of y] by (intro greg_year_unique) (auto simp: n month_lengths_facts split: if_splits)
  moreover have "nat (day_number y m k - days_before y) = sum_list (take (m - 1) ?ls) + (k - 1)" by (simp only: n)
  ultimately show ?thesis using month_day_of [OF mk] assms by (simp add: greg_civil_def valid_ymd_def)
qed

section \<open>Formats\<close>

definition two :: "int \<Rightarrow> string" where
  "two n = [digit_char (nat (n div 10 mod 10)), digit_char (nat (n mod 10))]"

definition four :: "int \<Rightarrow> string" where
  "four n = two (n div 100) @ two (n mod 100)"

definition number :: "string \<Rightarrow> int" where
  "number s = foldl (\<lambda>acc c. 10 * acc + int (char_code c - 48)) 0 s"

lemma number_append: "number (s @ t) = number s * 10 ^ length t + number t"
proof -
  have "foldl (\<lambda>acc c. 10 * acc + int (char_code c - 48)) i s = i * 10 ^ length s + number s" for i s
  proof (induction s arbitrary: i rule: rev_induct)
    case (snoc c s)
    have "number (s @ [c]) = 10 * number s + int (char_code c - 48)" by (simp add: number_def)
    with snoc show ?case by (simp add: distrib_left)
  qed (simp add: number_def)
  from this [of "number s" t] show ?thesis by (simp add: number_def [of "s @ t"] number_def [of s])
qed

lemma length_two [simp]: "length (two n) = 2" "length (four n) = 4"
  by (simp_all add: two_def four_def)

lemma mod_10_digit: "nat (n mod 10) < 10"
  by (simp add: nat_less_iff)

lemma digits_two [simp]: "list_all is_ascii_digit (two n)" "list_all is_ascii_digit (four n)"
  by (simp_all add: two_def four_def mod_10_digit)

lemma number_two [simp]: "0 \<le> n \<Longrightarrow> n < 100 \<Longrightarrow> number (two n) = n"
  using pos_imp_zdiv_nonneg_iff [of 10 n] by (simp add: number_def two_def mod_10_digit)

lemma number_nonneg [simp]: "0 \<le> number s"
  by (induction s rule: rev_induct) (simp_all add: number_def)

lemma number_four [simp]: "0 \<le> n \<Longrightarrow> n < 10000 \<Longrightarrow> number (four n) = n"
  by (simp add: four_def number_append)

definition greg_from_ymd :: "int \<Rightarrow> nat \<Rightarrow> nat \<Rightarrow> date option" where
  "greg_from_ymd y m k =
     (if valid_ymd y m k \<and> - 262143 \<le> y \<and> y \<le> 262142 then Some (day_number y m k) else None)"

definition greg_compact_date :: "date \<Rightarrow> string" where
  "greg_compact_date d = (case greg_civil d of (y, m, k) \<Rightarrow> four y @ two (int m) @ two (int k))"

definition greg_parse_compact_date :: "string \<Rightarrow> date option" where
  "greg_parse_compact_date s =
     (if length s = 8 \<and> list_all is_ascii_digit s
      then greg_from_ymd (number (take 4 s)) (nat (number (take 2 (drop 4 s)))) (nat (number (drop 6 s)))
      else None)"

definition greg_iso_date :: "date \<Rightarrow> string" where
  "greg_iso_date d = (case greg_civil d of (y, m, k) \<Rightarrow> four y @ ''-'' @ two (int m) @ ''-'' @ two (int k))"

definition greg_parse_iso_date :: "string \<Rightarrow> date option" where
  "greg_parse_iso_date s =
     (if length s = 10 \<and> s ! 4 = CHR ''-'' \<and> s ! 7 = CHR ''-''
      then greg_parse_compact_date (take 4 s @ take 2 (drop 5 s) @ drop 8 s) else None)"

text \<open>The time of day in seconds as hours, minutes and seconds; a sixtieth second is a leap second.\<close>

definition clock_value :: "string \<Rightarrow> string \<Rightarrow> string \<Rightarrow> (int \<times> int) option" where
  "clock_value h m s =
     (if list_all is_ascii_digit (h @ m @ s) \<and> number h < 24 \<and> number m < 60 \<and> number s \<le> 60
      then Some (number h * 3600 + number m * 60 + min 59 (number s), if number s = 60 then 1000000000 else 0)
      else None)"

definition greg_compact_stamp :: "instant \<Rightarrow> string" where
  "greg_compact_stamp t =
     (let n = t div 1000000000 mod 86400
      in greg_compact_date (date_naive t) @ ''T'' @ two (n div 3600) @ two (n div 60 mod 60) @ two (n mod 60)
         @ ''Z'')"

definition greg_parse_compact_stamp :: "string \<Rightarrow> (int \<times> int) option" where
  "greg_parse_compact_stamp s =
     (if length s = 16 \<and> s ! 8 = CHR ''T'' \<and> s ! 15 = CHR ''Z''
      then (case greg_parse_compact_date (take 8 s) of
              None \<Rightarrow> None
            | Some d \<Rightarrow> map_option (\<lambda>(secs, nanos). (d * 86400 + secs, nanos))
                (clock_value (take 2 (drop 9 s)) (take 2 (drop 11 s)) (take 2 (drop 13 s))))
      else None)"

lemma greg_supported_civil:
  assumes "greg_civil d = (y, m, k)" and "1 \<le> y" "y \<le> 9999"
  shows "m < 100" "k < 100" "y < 10000" "greg_from_ymd y m k = Some d"
proof -
  have v: "valid_ymd y m k" "day_number y m k = d" using greg_civil_day_number [OF assms(1)] by auto
  have "list_all (\<lambda>l. l < 100) (month_lengths y)" by (simp add: month_lengths_def)
  then have "month_lengths y ! (m - 1) < 100" using v(1) by (auto simp: valid_ymd_def list_all_length month_lengths_facts)
  with v(1) show "m < 100" "k < 100" by (auto simp: valid_ymd_def)
  show "y < 10000" using assms(3) by simp
  show "greg_from_ymd y m k = Some d" using v assms(2,3) by (simp add: greg_from_ymd_def)
qed

lemma compact_date_facts:
  assumes "1 \<le> greg_year d" "greg_year d \<le> 9999"
  shows "length (greg_compact_date d) = 8" "list_all is_ascii_digit (greg_compact_date d)"
    "greg_parse_compact_date (greg_compact_date d) = Some d"
proof -
  obtain y m k where c: "greg_civil d = (y, m, k)" by (metis prod_cases3)
  with assms have y: "1 \<le> y" "y \<le> 9999" using greg_civil_day_number(1) by auto
  note facts = greg_supported_civil [OF c y]
  show "length (greg_compact_date d) = 8" "list_all is_ascii_digit (greg_compact_date d)"
    by (simp_all add: greg_compact_date_def c)
  then show "greg_parse_compact_date (greg_compact_date d) = Some d"
    using facts y by (simp add: greg_parse_compact_date_def greg_compact_date_def c)
qed

lemma clock_value_two:
  assumes "0 \<le> n" "n < 86400"
  shows "clock_value (two (n div 3600)) (two (n div 60 mod 60)) (two (n mod 60)) = Some (n, 0)"
proof -
  have b: "0 \<le> n div 3600" "n div 3600 < 24" "0 \<le> n div 60 mod 60" "n div 60 mod 60 < 60" "0 \<le> n mod 60" "n mod 60 < 60"
    using assms by auto
  have "n div 3600 = n div 60 div 60" using zdiv_zmult2_eq [of 60 n 60] by simp
  moreover have "n div 60 = n div 60 div 60 * 60 + n div 60 mod 60" by simp
  moreover have "n = n div 60 * 60 + n mod 60" by simp
  ultimately have "n = n div 3600 * 3600 + n div 60 mod 60 * 60 + n mod 60" by linarith
  moreover have "clock_value (two h) (two m) (two s) = Some (h * 3600 + m * 60 + s, 0)"
    if "0 \<le> h" "h < 24" "0 \<le> m" "m < 60" "0 \<le> s" "s < 60" for h m s
    using that by (simp add: clock_value_def)
  note this [OF b]
  ultimately show ?thesis by simp
qed

lemma compact_stamp_facts:
  fixes secs :: int
  assumes "1 \<le> greg_year (secs div 86400)" "greg_year (secs div 86400) \<le> 9999"
  shows "length (greg_compact_stamp (secs * 1000000000)) = 16" "shaped stamp_char (greg_compact_stamp (secs * 1000000000))"
    "greg_parse_compact_stamp (greg_compact_stamp (secs * 1000000000)) = Some (secs, 0)"
proof -
  define D where "D = greg_compact_date (secs div 86400)"
  define n where "n = secs mod 86400"
  note date = compact_date_facts [OF assms, folded D_def]
  have stamp: "greg_compact_stamp (secs * 1000000000)
      = D @ ''T'' @ two (n div 3600) @ two (n div 60 mod 60) @ two (n mod 60) @ ''Z''"
    by (simp add: greg_compact_stamp_def Let_def D_def n_def date_naive_def NANOS_PER_DAY_def)
  show len: "length (greg_compact_stamp (secs * 1000000000)) = 16" using date(1) by (simp add: stamp)
  show "greg_parse_compact_stamp (greg_compact_stamp (secs * 1000000000)) = Some (secs, 0)"
    using date len clock_value_two [of n] by (simp add: greg_parse_compact_stamp_def stamp nth_append n_def)
  have "stamp_char i (greg_compact_stamp (secs * 1000000000) ! i)" if lt: "i < 16" for i
  proof -
    consider "i < 8" | "i = 8" | "9 \<le> i" "i < 15" | "i = 15" using lt by linarith
    then show ?thesis
    proof cases
      case 1
      with date show ?thesis by (auto simp: stamp stamp_char_def nth_append list_all_length)
    next
      case 3
      have "list_all is_ascii_digit (two (n div 3600) @ two (n div 60 mod 60) @ two (n mod 60))" by simp
      with 3 have "is_ascii_digit ((two (n div 3600) @ two (n div 60 mod 60) @ two (n mod 60)) ! (i - 9))"
        by (simp add: list_all_length del: list_all_append)
      with 3 date(1) show ?thesis
        by (auto simp: stamp stamp_char_def nth_append nth_Cons' split: if_splits)
    qed (use date(1) in \<open>simp_all add: stamp stamp_char_def nth_append\<close>)
  qed
  with len show "shaped stamp_char (greg_compact_stamp (secs * 1000000000))" by (simp add: shaped_set)
qed

lemma greg_iso_date_facts:
  assumes "1 \<le> greg_year d" "greg_year d \<le> 9999"
  shows "length (greg_iso_date d) = 10" "shaped iso_char (greg_iso_date d)"
    "greg_parse_iso_date (greg_iso_date d) = Some d"
proof -
  obtain y m k where c: "greg_civil d = (y, m, k)" by (metis prod_cases3)
  have compact: "greg_compact_date d = four y @ two (int m) @ two (int k)" by (simp add: greg_compact_date_def c)
  show len: "length (greg_iso_date d) = 10" by (simp add: greg_iso_date_def c)
  have "iso_char i (greg_iso_date d ! i)" if lt: "i < 10" for i
  proof -
    consider "i < 4" | "i = 4" | "5 \<le> i" "i < 7" | "i = 7" | "8 \<le> i" using lt by linarith
    then show ?thesis
      using lt digits_two(2) [of y] digits_two(1) [of "int m"] digits_two(1) [of "int k"]
      by cases (auto simp: greg_iso_date_def c iso_char_def nth_append nth_Cons' list_all_length simp del: digits_two)
  qed
  with len show "shaped iso_char (greg_iso_date d)" by (simp add: shaped_set)
  show "greg_parse_iso_date (greg_iso_date d) = Some d"
    using compact_date_facts(3) [OF assms] len
    by (simp add: greg_parse_iso_date_def greg_iso_date_def c compact nth_append)
qed

text \<open>RFC 3339 in UTC, with nine digits of nanoseconds when there are any.\<close>

definition nine :: "int \<Rightarrow> string" where
  "nine n = tl (two (n div 100000000)) @ four (n div 10000 mod 10000) @ four (n mod 10000)"

lemma nine_facts:
  "length (nine n) = 9" "list_all is_ascii_digit (nine n)" "0 \<le> n \<Longrightarrow> n < 1000000000 \<Longrightarrow> number (nine n) = n"
proof -
  show "length (nine n) = 9" by (simp add: nine_def)
  show "list_all is_ascii_digit (nine n)" using digits_two by (simp add: nine_def two_def mod_10_digit)
  assume n: "0 \<le> n" "n < 1000000000"
  have "0 \<le> n div 100000000" "n div 100000000 < 10" using n by auto
  then have "number (tl (two (n div 100000000))) = n div 100000000" by (simp add: number_def two_def mod_10_digit)
  moreover have "n div 100000000 = n div 10000 div 10000" using zdiv_zmult2_eq [of 10000 n 10000] by simp
  moreover have "n div 10000 = n div 10000 div 10000 * 10000 + n div 10000 mod 10000" by simp
  moreover have "n = n div 10000 * 10000 + n mod 10000" by simp
  ultimately have "n div 100000000 * 100000000 + n div 10000 mod 10000 * 10000 + n mod 10000 = n"
    and "number (tl (two (n div 100000000))) = n div 100000000" by linarith+
  then show "number (nine n) = n" by (simp add: nine_def number_append)
qed

definition greg_rfc3339 :: "instant \<Rightarrow> string" where
  "greg_rfc3339 t =
     (let n = t div 1000000000 mod 86400; nanos = t mod 1000000000
      in greg_iso_date (date_naive t) @ ''T'' @ two (n div 3600) @ '':'' @ two (n div 60 mod 60) @ '':'' @ two (n mod 60)
         @ (if nanos = 0 then [] else CHR ''.'' # nine nanos) @ ''Z'')"

definition greg_parse_rfc3339 :: "string \<Rightarrow> (int \<times> int) option" where
  "greg_parse_rfc3339 s =
     (let fraction = drop 19 s in
      if length s \<ge> 20 \<and> s ! 10 = CHR ''T'' \<and> s ! 13 = CHR '':'' \<and> s ! 16 = CHR '':''
         \<and> (fraction = ''Z'' \<or> length fraction = 11 \<and> hd fraction = CHR ''.'' \<and> last fraction = CHR ''Z''
              \<and> list_all is_ascii_digit (take 9 (tl fraction)))
      then (case (greg_parse_iso_date (take 10 s), clock_value (take 2 (drop 11 s)) (take 2 (drop 14 s)) (take 2 (drop 17 s))) of
              (Some d, Some (secs, leap_nanos)) \<Rightarrow>
                Some (d * 86400 + secs, leap_nanos + (if fraction = ''Z'' then 0 else number (take 9 (tl fraction))))
            | _ \<Rightarrow> None)
      else None)"

lemma greg_rfc3339_facts:
  assumes "1 \<le> greg_year (date_naive t)" "greg_year (date_naive t) \<le> 9999"
  shows "str_len (greg_rfc3339 t) \<le> 64" "greg_parse_rfc3339 (greg_rfc3339 t) = Some (t div 1000000000, t mod 1000000000)"
proof -
  define D where "D = greg_iso_date (date_naive t)"
  define n where "n = t div 1000000000 mod 86400"
  define r where "r = t mod 1000000000"
  note date = greg_iso_date_facts [OF assms, folded D_def]
  have r: "0 \<le> r" "r < 1000000000" by (simp_all add: r_def)
  have secs: "date_naive t * 86400 + n = t div 1000000000"
  proof -
    have "t div (1000000000 * 86400) = t div 1000000000 div 86400" by (rule zdiv_zmult2_eq) simp
    then show ?thesis by (simp add: date_naive_def NANOS_PER_DAY_def n_def)
  qed
  have shape: "greg_rfc3339 t = D @ ''T'' @ two (n div 3600) @ '':'' @ two (n div 60 mod 60) @ '':'' @ two (n mod 60)
         @ (if r = 0 then [] else CHR ''.'' # nine r) @ ''Z''"
    by (simp add: greg_rfc3339_def Let_def D_def n_def r_def)
  have clock: "clock_value (two (n div 3600)) (two (n div 60 mod 60)) (two (n mod 60)) = Some (n, 0)"
    by (rule clock_value_two) (simp_all add: n_def)
  have "length (greg_rfc3339 t) \<le> 30" using date(1) by (simp add: shape nine_facts)
  moreover have "str_len s \<le> 2 * length s" for s by (induction s) (auto simp: str_len_def utf8_len_def)
  ultimately have "str_len (greg_rfc3339 t) \<le> 2 * 30" by (meson le_trans mult_le_mono2)
  then show "str_len (greg_rfc3339 t) \<le> 64" by simp
  show "greg_parse_rfc3339 (greg_rfc3339 t) = Some (t div 1000000000, t mod 1000000000)"
    using date clock secs r nine_facts [of r]
    by (cases "r = 0") (simp_all add: greg_parse_rfc3339_def shape Let_def nth_append flip: r_def)
qed

section \<open>Time zones\<close>

datatype tz = UtcZone | AutumnZone | SpringZone

definition HOUR :: int where
  "HOUR = 3600 * 1000000000"

definition autumn :: instant where
  "autumn = midnight (day_number 2026 10 25) + HOUR"

definition spring :: instant where
  "spring = midnight (day_number 2026 3 29) + HOUR"

fun zone_offset :: "tz \<Rightarrow> instant \<Rightarrow> int" where
  "zone_offset UtcZone t = 0"
| "zone_offset AutumnZone t = (if t < autumn then 2 * HOUR else HOUR)"
| "zone_offset SpringZone t = (if t < spring then HOUR else 2 * HOUR)"

fun zone_offsets :: "tz \<Rightarrow> int list" where
  "zone_offsets UtcZone = [0]"
| "zone_offsets _ = [2 * HOUR, HOUR]"

definition greg_local :: "tz \<Rightarrow> instant \<Rightarrow> date \<times> int" where
  "greg_local z t = (let l = t + zone_offset z t in (date_naive l, l mod NANOS_PER_DAY))"

definition greg_instant :: "tz \<Rightarrow> date \<times> int \<Rightarrow> local_result" where
  "greg_instant z l =
     (let n = midnight (fst l) + snd l
      in case filter (\<lambda>off. zone_offset z (n - off) = off) (zone_offsets z) of
           [] \<Rightarrow> NoTime
         | [off] \<Rightarrow> if 0 \<le> snd l \<and> snd l < NANOS_PER_DAY then Single (n - off) else NoTime
         | off # off' # _ \<Rightarrow> if 0 \<le> snd l \<and> snd l < NANOS_PER_DAY then Ambiguous (n - off) (n - off') else NoTime)"

definition greg_parse_zone :: "string \<Rightarrow> tz option" where
  "greg_parse_zone s =
     (if s = ''UTC'' then Some UtcZone else if s = ''Test/Autumn'' then Some AutumnZone
      else if s = ''Test/Spring'' then Some SpringZone else None)"

definition gregorian :: "tz chrono" where
  "gregorian =
     \<lparr>civil_date = greg_civil, from_ymd_opt = greg_from_ymd,
      date_min = days_before (- 262143), date_max = days_before 262143 - 1,
      time_min = midnight (days_before (- 262143)), time_max = midnight (days_before 262143) - 1,
      parse_iso_date = greg_parse_iso_date, parse_compact_date = greg_parse_compact_date,
      parse_compact_stamp = greg_parse_compact_stamp, parse_rfc3339 = greg_parse_rfc3339,
      show_iso_date = greg_iso_date, show_compact_date = greg_compact_date, show_compact_stamp = greg_compact_stamp,
      show_rfc3339 = greg_rfc3339, parse_zone = greg_parse_zone, zone_utc = UtcZone, zone_local = greg_local,
      zone_instant = greg_instant\<rparr>"

lemma local_value:
  assumes "greg_local z t = (d, w)"
  shows "midnight d + w = t + zone_offset z t" and "0 \<le> w" and "w < NANOS_PER_DAY"
  using assms by (auto simp: greg_local_def Let_def midnight_def date_naive_def)

lemma zone_offset_bounds: "0 \<le> zone_offset z t" "zone_offset z t \<le> 2 * HOUR"
  by (cases z; simp add: HOUR_def)+

lemma offset_day: "2 * HOUR < NANOS_PER_DAY"
  by (simp add: HOUR_def NANOS_PER_DAY_def)

lemma greg_local_of:
  assumes "zone_offset z (midnight d + w - off) = off" and "0 \<le> w" and "w < NANOS_PER_DAY"
  shows "greg_local z (midnight d + w - off) = (d, w)"
  using assms by (simp add: greg_local_def date_naive_def midnight_def)

lemma gregorian_year: "year_of gregorian d = greg_year d"
  by (simp add: year_of_def gregorian_def greg_civil_def Let_def split: prod.split)

lemma gregorian_supported: "supported gregorian d \<longleftrightarrow> 1 \<le> greg_year d \<and> greg_year d \<le> 9999"
  by (simp add: supported_def gregorian_year)

lemma gregorian_month_index_mono:
  assumes "d \<le> e"
  shows "month_index gregorian d \<le> month_index gregorian e"
proof -
  have civil: "greg_civil d = (greg_year d, Suc (fst (month_day (month_lengths (greg_year d)) (nat (d - days_before (greg_year d))))),
      Suc (snd (month_day (month_lengths (greg_year d)) (nat (d - days_before (greg_year d))))))" for d
    by (simp add: greg_civil_def Let_def split: prod.split)
  have range: "fst (month_day (month_lengths (greg_year d)) (nat (d - days_before (greg_year d)))) < 12" for d
    using greg_civil_day_number(2) [OF civil [of d]] by (simp add: valid_ymd_def less_Suc_eq_le [of _ 11, simplified])
  consider "greg_year d < greg_year e" | "greg_year d = greg_year e" using greg_year_mono [OF assms] by linarith
  then show ?thesis
  proof cases
    case 1
    with range [of d] range [of e] show ?thesis
      by (simp add: month_index_def year_of_def month_of_def gregorian_def civil)
  next
    case 2
    have "nat (d - days_before (greg_year d)) \<le> nat (e - days_before (greg_year e))" using assms 2 by simp
    from month_day_mono [OF this] 2 show ?thesis
      by (simp add: month_index_def year_of_def month_of_def gregorian_def civil)
  qed
qed

interpretation greg: compact_formats gregorian
proof
  show "length (show_compact_date gregorian d) = 8 \<and> list_all is_ascii_digit (show_compact_date gregorian d)
      \<and> parse_compact_date gregorian (show_compact_date gregorian d) = Some d" if "supported gregorian d" for d
    using compact_date_facts [of d] that by (simp add: gregorian_supported) (simp add: gregorian_def)
  show "length (show_compact_stamp gregorian (secs * 1000000000)) = 16
      \<and> shaped stamp_char (show_compact_stamp gregorian (secs * 1000000000))
      \<and> parse_compact_stamp gregorian (show_compact_stamp gregorian (secs * 1000000000)) = Some (secs, 0)"
    if "supported gregorian (secs div 86400)" for secs
    using compact_stamp_facts [of secs] that by (simp add: gregorian_supported) (simp add: gregorian_def)
  show "nanos = 0 \<or> 1000000000 \<le> nanos" if "parse_compact_stamp gregorian s = Some (secs, nanos)" for s secs nanos
    using that by (auto simp: gregorian_def greg_parse_compact_stamp_def clock_value_def split: if_splits option.splits)
qed

interpretation greg: civil_calendar gregorian
proof
  show "civil_date gregorian d = (y, m, k)" if "from_ymd_opt gregorian y m k = Some d" for y m k d
    using that day_number_civil [of y m k] by (auto simp: gregorian_def greg_from_ymd_def split: if_splits)
  show "month_index gregorian d \<le> month_index gregorian e" if "d \<le> e" for d e
    using that by (rule gregorian_month_index_mono)
  show "1 \<le> month_of gregorian d \<and> month_of gregorian d \<le> 12" for d
    using greg_civil_day_number(2) [of d] by (cases "greg_civil d") (auto simp: month_of_def gregorian_def valid_ymd_def)
  show "f \<le> d" if "from_ymd_opt gregorian y m k = Some d" "from_ymd_opt gregorian y m 1 = Some f" for y m k d f
    using that by (auto simp: gregorian_def greg_from_ymd_def valid_ymd_def day_number_def split: if_splits)
  show "d = e" if "civil_date gregorian d = civil_date gregorian e" for d e
    using that greg_civil_day_number(3) [of d] greg_civil_day_number(3) [of e]
    by (cases "greg_civil e") (auto simp: gregorian_def)
  show "date_min gregorian \<le> d \<and> d \<le> date_max gregorian" if "supported gregorian d" for d
  proof -
    have "1 \<le> greg_year d" "greg_year d \<le> 9999" using that by (simp_all add: gregorian_supported)
    then show ?thesis
      using greg_year_bounds [of d] days_before_le [of "- 262143" "greg_year d"] days_before_le [of "greg_year d + 1" 262143]
      by (simp add: gregorian_def)
  qed
qed

lemma greg_instant_cases:
  "greg_instant z (d, w) = Single t \<Longrightarrow> greg_local z t = (d, w)"
  "greg_instant z (d, w) = Ambiguous t u \<Longrightarrow> greg_local z t = (d, w) \<and> greg_local z u = (d, w)"
proof -
  define fs where "fs = filter (\<lambda>off. zone_offset z (midnight d + w - off) = off) (zone_offsets z)"
  have fits: "zone_offset z (midnight d + w - off) = off" if "off \<in> set fs" for off using that by (simp add: fs_def)
  have unfolded: "greg_instant z (d, w) = (case fs of [] \<Rightarrow> NoTime
      | [off] \<Rightarrow> if 0 \<le> w \<and> w < NANOS_PER_DAY then Single (midnight d + w - off) else NoTime
      | off # off' # _ \<Rightarrow> if 0 \<le> w \<and> w < NANOS_PER_DAY
          then Ambiguous (midnight d + w - off) (midnight d + w - off') else NoTime)"
    by (simp only: greg_instant_def fs_def Let_def fst_conv snd_conv)
  have shows_local: "greg_local z (midnight d + w - off) = (d, w)" if "off \<in> set fs" "0 \<le> w" "w < NANOS_PER_DAY" for off
    using fits that by (simp add: greg_local_of)
  show "greg_local z t = (d, w)" if "greg_instant z (d, w) = Single t"
    using that shows_local unfolding unfolded by (auto split: list.splits if_splits)
  show "greg_local z t = (d, w) \<and> greg_local z u = (d, w)" if "greg_instant z (d, w) = Ambiguous t u"
    using that shows_local unfolding unfolded by (auto split: list.splits if_splits)
qed

interpretation greg: time_zones gregorian
proof
  show "0 \<le> w \<and> w < NANOS_PER_DAY" if "zone_local gregorian z t = (d, w)" for z t d w
    using that local_value by (auto simp: gregorian_def)
  show "\<bar>midnight d + w - t\<bar> < NANOS_PER_DAY" if "zone_local gregorian z t = (d, w)" for z t d w
    using that local_value(1) [of z t d w] zone_offset_bounds [of z t] offset_day by (auto simp: gregorian_def)
  show "midnight d + w < midnight d' + w' + NANOS_PER_DAY"
    if "t < u" "zone_local gregorian z t = (d, w)" "zone_local gregorian z u = (d', w')" for t u z d w d' w'
    using that local_value(1) [of z t d w] local_value(1) [of z u d' w'] zone_offset_bounds [of z t] zone_offset_bounds [of z u]
      offset_day by (auto simp: gregorian_def)
  show "zone_local gregorian z t = l" if "zone_instant gregorian z l = Single t" for z l t
    using that greg_instant_cases(1) [of z "fst l" "snd l" t] by (simp add: gregorian_def)
  show "zone_local gregorian z a = l \<and> zone_local gregorian z b = l" if "zone_instant gregorian z l = Ambiguous a b" for z l a b
    using that greg_instant_cases(2) [of z "fst l" "snd l" a b] by (simp add: gregorian_def)
  show "zone_instant gregorian (zone_utc gregorian) (d, w) = Single (midnight d + w)"
    if "0 \<le> w" "w < NANOS_PER_DAY" for w d
    using that by (simp add: gregorian_def greg_instant_def)
qed

interpretation greg: text_formats gregorian
proof
  show "length (show_iso_date gregorian d) = 10 \<and> shaped iso_char (show_iso_date gregorian d)
      \<and> parse_iso_date gregorian (show_iso_date gregorian d) = Some d" if "supported gregorian d" for d
    using greg_iso_date_facts [of d] that by (simp add: gregorian_supported) (simp add: gregorian_def)
  show "str_len (show_rfc3339 gregorian t) \<le> 64
      \<and> parse_rfc3339 gregorian (show_rfc3339 gregorian t) = Some (t div 1000000000, t mod 1000000000)"
    if "supported gregorian (date_naive t)" for t
    using greg_rfc3339_facts [of t] that by (simp add: gregorian_supported) (simp add: gregorian_def)
  show "0 \<le> nanos" if "parse_rfc3339 gregorian v = Some (secs, nanos)" for v secs nanos
    using that by (auto simp: gregorian_def greg_parse_rfc3339_def clock_value_def Let_def split: if_splits option.splits)
qed

interpretation greg: calendar_laws gregorian
  by unfold_locales

end
