(* ===== verification/Recurrence_Index.thy ===== *)
theory Recurrence_Index
  imports Recurrence_Expand Gregorian
begin

text \<open>
  The theorems on recurrence rules: normalisation is stable, an expansion is exactly the window, the
  two directions between positions and their indices are inverse, and the candidate budget bounds
  every walk. Their concrete inputs run on the Gregorian calendar.
\<close>

section \<open>Finding the slot of a position\<close>

lemma find_slot_finds:
  assumes "k \<le> n" and "n < k + attempts" and "candidate x s n = Inr c" and "cand_date c = Some d"
    and "at_date x s d = Inr (Some t)" and "within_until s t d"
    and "\<And>j. k \<le> j \<Longrightarrow> j < n \<Longrightarrow> \<exists>c. candidate x s j = Inr c \<and> cand_date c \<noteq> Some d \<and> cand_floor c \<le> d"
  shows "find_slot x s d t k attempts = Inr (n, t)"
  using assms
proof (induction attempts arbitrary: k)
  case (Suc attempts)
  show ?case
  proof (cases "k = n")
    case True
    with Suc.prems show ?thesis by simp
  next
    case False
    with Suc.prems(1) Suc.prems(7) [of k] obtain c' where
      "candidate x s k = Inr c'" "cand_date c' \<noteq> Some d" "cand_floor c' \<le> d" by auto
    with Suc.IH [of "Suc k"] Suc.prems False show ?thesis by simp
  qed
qed simp

lemma week_div:
  assumes "0 < l" and "week_and_day s n = (week, day)" and "l = length (sc_week_days s)" and "week \<noteq> 0"
  shows "n < length (sc_first_week_days s) + (week - 1) * l + l"
proof (cases "n < length (sc_first_week_days s)")
  case True
  then show ?thesis using assms by (simp add: week_and_day_def)
next
  case False
  define r where "r = n - length (sc_first_week_days s)"
  have "week - 1 = r div l" using False assms by (auto simp: week_and_day_def Let_def r_def)
  moreover have "r < r div l * l + l" using assms(1) by (metis add.commute div_mult_mod_eq mod_less_divisor add_less_cancel_left)
  ultimately show ?thesis using False by (simp add: r_def)
qed

context calendar_laws
begin

lemma slot_near_seek:
  assumes ok: "schedule_ok x s" and c: "candidate x s n = Inr c" "cand_date c = Some d"
  shows "n < seek x s d + (if frequency (sc_rule s) = Weekly then length (sc_week_days s) else 1)"
proof (cases "d \<le> fst (sc_local_start s)")
  case True
  have "date_key x s d \<le> slot_key x s 0"
    using date_key_mono [OF True, of s] slot_key_start [OF ok] by (auto simp: date_key_def by_months_def slot_key_def)
  then have "n = 0" using slot_key_mono [OF ok, of 0 n] candidate_key(2) [OF c] by fastforce
  moreover have "sc_week_days s \<noteq> []" using ok by (auto simp: schedule_ok_def)
  ultimately show ?thesis by simp
next
  case after: False
  let ?start = "fst (sc_local_start s)" and ?i = "int (interval (sc_rule s))"
  have i: "1 \<le> ?i" using ok by (simp add: schedule_ok_def)
  note key = candidate_key(2) [OF c, THEN conjunct1]
  show ?thesis
  proof (cases "frequency (sc_rule s)")
    case Daily
    with key have "d - ?start = int n * ?i" by (simp add: date_key_def by_months_def slot_key_def)
    with Daily after i show ?thesis by (simp add: seek_def)
  next
    case Monthly
    with key have "month_index x d - month_index x ?start = int n * ?i"
      by (simp add: date_key_def by_months_def slot_key_def)
    then have "(year_of x d - year_of x ?start) * 12 + int (month_of x d) - int (month_of x ?start) = int n * ?i"
      by (simp add: month_index_def left_diff_distrib)
    with Monthly after i show ?thesis by (simp add: seek_def)
  next
    case Yearly
    with key have "month_index x d = month_index x ?start + int n * ?i * 12"
      by (simp add: date_key_def by_months_def slot_key_def)
    then have "year_of x d - year_of x ?start = int n * ?i" by (simp add: year_of_month_index)
    with Yearly after i show ?thesis by (simp add: seek_def)
  next
    case Weekly
    obtain week day where wd: "week_and_day s n = (week, day)" by fastforce
    have day: "int day < 7 * ?i" using week_and_day_bounds(2) [OF ok wd] i by linarith
    from Weekly key have "d - sc_week_anchor s = int week * (7 * ?i) + int day"
      by (simp add: date_key_def by_months_def slot_key_def week_days_before_def wd mult.commute mult.left_commute)
    then have cycle: "(d - sc_week_anchor s) div (7 * ?i) = int week" using day i by simp
    have len: "length (sc_first_week_days s) \<le> length (sc_week_days s)" "0 < length (sc_week_days s)"
      using ok by (auto simp: schedule_ok_def)
    show ?thesis
    proof (cases "week = 0")
      case True
      then have "n < length (sc_first_week_days s)" using wd by (auto simp: week_and_day_def Let_def split: if_splits)
      with True Weekly after cycle len show ?thesis by (simp add: seek_def)
    next
      case False
      with Weekly after cycle week_div [OF len(2) wd refl False] show ?thesis by (simp add: seek_def)
    qed
  qed
qed

lemma find_slot_of_position:
  assumes ok: "schedule_ok x s" and c: "candidate x s n = Inr c" "cand_date c = Some d"
    and t: "at_date x s d = Inr (Some t)" "within_until s t d"
  shows "find_slot x s d t (seek x s d) (if frequency (sc_rule s) = Weekly then length (sc_week_days s) else 1) = Inr (n, t)"
proof (rule find_slot_finds [OF _ slot_near_seek [OF ok c] c t])
  show "seek x s d \<le> n" using candidate_before_seek [OF ok c, of d] by (meson linorder_not_less order_less_irrefl)
  fix j
  assume j: "seek x s d \<le> j" "j < n"
  have weekly: "frequency (sc_rule s) = Weekly" using slot_near_seek [OF ok c] j by (auto split: if_splits)
  then have days: "\<not> by_months s" by (simp add: by_months_def)
  have "d = slot_key x s n" "supported x d" using candidate_key(2) [OF c] days at_date_wall(2) [OF ok t(1)]
    by (auto simp: date_key_def)
  with supported_range [of d] have "candidate x s j = Inr \<lparr>cand_floor = slot_key x s j, cand_date = Some (slot_key x s j)\<rparr>"
    using j by (intro earlier_candidate [OF ok days _ c(1)]) auto
  with slot_key_mono [OF ok j(2)] \<open>d = slot_key x s n\<close>
  show "\<exists>c. candidate x s j = Inr c \<and> cand_date c \<noteq> Some d \<and> cand_floor c \<le> d" by simp
qed

end

section \<open>Reading a position back\<close>

context calendar_laws
begin

lemma parse_instant_supported:
  assumes "parse_instant x v = Inr t"
  shows "supported x (date_naive t)"
proof -
  from assms obtain secs nanos where parsed: "parse_rfc3339 x v = Some (secs, nanos)" "supported x (secs div 86400)"
    "nanos < 1000000000" "t = secs * 1000000000 + nanos"
    by (auto simp: parse_instant_def split: if_splits)
  have "t div 1000000000 = secs" using parsed(3,4) rfc3339_nanos [OF parsed(1)] by simp
  moreover have "t div (1000000000 * 86400) = t div 1000000000 div 86400" by (rule zdiv_zmult2_eq) simp
  ultimately have "date_naive t = secs div 86400" by (simp add: date_naive_def NANOS_PER_DAY_def)
  with parsed(2) show ?thesis by simp
qed

lemma schedule_start_supported:
  assumes "new_schedule x e v = Inr s"
  shows "supported x (date_naive (sc_start s))" and "sc_event s = e"
proof -
  obtain zone end_time local_start where "event_times x e zone = Inr (sc_start s, end_time, local_start)" "sc_event s = e"
    by (rule new_schedule_cases [OF assms]) auto
  then show "supported x (date_naive (sc_start s))" "sc_event s = e"
    using date_naive_midnight
    by (auto simp: event_times_def parse_date_value_def split: if_splits dest: parse_instant_supported dest!: sym [of "midnight _"])
qed

lemma slot_time_supported:
  assumes ok: "schedule_ok x s" and start: "supported x (date_naive (sc_start s))" and n: "slot_time x s n = Some t"
  shows "supported x (date_naive t)"
  using n start by (auto simp: slot_time_Some at_date_def Let_def split: if_splits local_result.splits)

lemma parse_shown_instant: "supported x (date_naive t) \<Longrightarrow> parse_instant x (show_rfc3339 x t) = Inr t"
proof -
  assume s: "supported x (date_naive t)"
  have "t div (1000000000 * 86400) = t div 1000000000 div 86400" by (rule zdiv_zmult2_eq) simp
  with s have "supported x (t div 1000000000 div 86400)" by (simp add: date_naive_def NANOS_PER_DAY_def)
  then have "check_date x (t div 1000000000 div 86400) = Inr (t div 1000000000 div 86400)" by simp
  moreover have "t mod 1000000000 < 1000000000" by simp
  ultimately show ?thesis using rfc3339 [OF s] by (simp add: parse_instant_def not_less [symmetric])
qed

lemma parse_shown_date: "supported x d \<Longrightarrow> parse_date_value x (show_iso_date x d) = Inr d"
proof -
  assume s: "supported x d"
  have "list_all is_ascii (show_iso_date x d)"
  proof -
    have "is_ascii (show_iso_date x d ! i)" if "i < length (show_iso_date x d)" for i
      using iso_date [OF s] that by (auto simp: shaped_set iso_char_def is_ascii_digit_def is_ascii_def char_code_def Let_def split: if_splits)
    then show ?thesis by (simp add: list_all_length)
  qed
  moreover have "check_date x d = Inr d" using s by simp
  ultimately show ?thesis using iso_date [OF s] by (simp add: parse_date_value_def str_len_ascii)
qed

lemma target_slot_of_position:
  assumes ok: "schedule_ok x s" and start: "supported x (date_naive (sc_start s))" and n: "slot_time x s n = Some t"
  shows "target_slot x s (format_time x (sc_event s) t) = Inr (n, t)"
proof -
  from n obtain c d where c: "candidate x s n = Inr c" "cand_date c = Some d" and t: "at_date x s d = Inr (Some t)"
    "within_until s t d" by (auto simp: slot_time_Some)
  note find = find_slot_of_position [OF ok c t]
  have le: "\<not> t < sc_start s" using no_position_before_start [OF ok n] by simp
  note wall = at_date_wall(1) [OF ok t(1)]
  show ?thesis
  proof (cases "ev_all_day (sc_event s)")
    case True
    with wall ok have d: "date_naive t = d" "t mod NANOS_PER_DAY = 0" by (auto simp: wall_def schedule_ok_def)
    then have "midnight d = t" by (auto simp: midnight_def date_naive_def)
    moreover have "parse_date_value x (show_iso_date x d) = Inr d"
      using slot_time_supported [OF ok start n] d(1) by (intro parse_shown_date) simp
    ultimately show ?thesis using True le find d(1) by (simp add: target_slot_def format_time_def Let_def)
  next
    case False
    with wall have "fst (zone_local x (sc_zone s) t) = d" by (simp add: wall_def)
    with False le find parse_shown_instant [OF slot_time_supported [OF ok start n]] show ?thesis
      by (simp add: target_slot_def format_time_def Let_def)
  qed
qed

lemma position_loop_walk:
  assumes ok: "schedule_ok x s" and "position_loop x s index c b = Inr t"
  shows "\<exists>n c1 b1 c2 b2. cu_slot c \<le> n \<and> advance x s n c b = Inr (c1, b1) \<and> cu_slot c1 = n
    \<and> cursor_step x s c1 b1 = Inr (Some (index, t), c2, b2)"
  using assms(2)
proof (induction "work_left c b" arbitrary: c b rule: less_induct)
  case less
  note unfolded = less.prems [unfolded position_loop.simps [of x s index c b]]
  then have live: "\<not> cu_done c" by (auto split: if_splits)
  with unfolded obtain v c' b' where step: "cursor_step x s c b = Inr (v, c', b')" by (auto split: sum.splits)
  show ?case
  proof (cases "v = Some (index, t)")
    case True
    have "advance x s (cu_slot c) c b = Inr (c, b)" by (simp add: advance.simps)
    with True step show ?thesis by blast
  next
    case False
    with unfolded live step have rest: "position_loop x s index c' b' = Inr t" by (auto split: option.splits if_splits)
    have "\<not> cu_done c'" using rest by (subst (asm) position_loop.simps) (auto split: if_splits)
    then have "\<not> count_reached s c" using step by (auto simp: cursor_step_finished)
    note slot = cursor_step_slot(2) [OF ok step live this]
    from less.hyps [OF cursor_step_work [OF step live] rest] obtain n c1 b1 c2 b2 where
      walk: "cu_slot c' \<le> n" "advance x s n c' b' = Inr (c1, b1)" "cu_slot c1 = n"
        "cursor_step x s c1 b1 = Inr (Some (index, t), c2, b2)" by blast
    have "advance x s n c b = advance x s n c' b'" using walk(1) slot live step by (subst advance.simps) simp
    moreover have "cu_slot c \<le> n" using walk(1) slot by simp
    ultimately show ?thesis using walk(2-) by metis
  qed
qed

end

context calendar_laws
begin

lemma from_event_ok:
  assumes "from_event x e = Inr s"
  shows "schedule_ok x s" "supported x (date_naive (sc_start s))" "sc_event s = e"
  using assms new_schedule_ok [OF compact_formats_axioms] schedule_start_supported by (auto simp: from_event_def)

lemma walk_is_at_slot:
  assumes ok: "schedule_ok x s"
    and init: "(if arithmetic_count x s then at_slot x s index True 0 else Inr (default_cursor, 0)) = Inr (c, b)"
    and walk: "cu_slot c \<le> n" "advance x s n c b = Inr (c1, b1)" "cu_slot c1 = n"
    and ordinal: "cu_ordinal c1 = index" and n: "slot_time x s n \<noteq> None"
  shows "at_slot x s n True 0 = Inr (c1, b1)"
proof (cases "arithmetic_count x s")
  case False
  with init walk(2) show ?thesis by (simp add: at_slot_def)
next
  case True
  with init have c: "c = \<lparr>cu_slot = index, cu_ordinal = index, cu_done = False\<rparr>" "b = 0" by (auto simp: at_slot_def)
  have "ordinal_ok x s c" "cursor_ok x s c" using at_slot_ok [OF ok, of index True 0 c b] init True by auto
  with advance_ok [OF ok _ walk(1,2)] have "ordinal_ok x s c1" by blast
  with n walk(3) ordinal have "rank x s n = index" unfolding ordinal_ok_def by blast
  moreover have "rank x s n = n" using arithmetic_positions [OF ok True n] by (intro rank_full) simp
  ultimately have "n = index" by simp
  with walk(2) c True show ?thesis by (auto simp: at_slot_def advance.simps)
qed

lemma occurrence_index_of_position:
  assumes at: "position_at x e index = Inr p" and u32: "index < 2 ^ 32"
  shows "occurrence_index x e p = Inr index"
proof -
  from at obtain s c b t where s: "from_event x e = Inr s"
    and init: "(if arithmetic_count x s then at_slot x s index True 0 else Inr (default_cursor, 0)) = Inr (c, b)"
    and loop: "position_loop x s index c b = Inr t" and p: "p = format_time x e t"
    by (auto simp: position_at_def split: if_splits)
  note facts = from_event_ok [OF s]
  from position_loop_walk [OF facts(1) loop] obtain n c1 b1 c2 b2 where
    walk: "cu_slot c \<le> n" "advance x s n c b = Inr (c1, b1)" "cu_slot c1 = n"
    and step: "cursor_step x s c1 b1 = Inr (Some (index, t), c2, b2)" by blast
  have live: "\<not> cu_done c1" "\<not> count_reached s c1" using step by (auto simp: cursor_step_finished)
  have n: "slot_time x s n = Some t" "cu_ordinal c1 = index"
    using cursor_step_slot(1,4) [OF facts(1) step live] walk(3) by auto
  have "at_slot x s n True 0 = Inr (c1, b1)" using n by (intro walk_is_at_slot [OF facts(1) init walk]) auto
  with s step u32 target_slot_of_position [OF facts(1,2) n(1)] facts(3) show ?thesis by (simp add: occurrence_index_def p)
qed

end

section \<open>Theorems\<close>

text \<open>C22: Normalisation is stable: the canonical text of a rule is accepted with the same event, builds the
  same schedule as the text it came from, and is its own canonical text.\<close>

theorem normalize_rule_stable:
  assumes "calendar_laws x" and "normalize_rule x v e = Inr r"
  shows "new_schedule x e r = new_schedule x e v \<and> normalize_rule x r e = Inr r"
proof -
  note formats = calendar_laws.axioms(1) [OF assms(1)]
  from assms(2) obtain s where s: "new_schedule x e v = Inr s" and r: "r = serialize_rule x (sc_rule s)"
    by (auto simp: normalize_rule_def)
  obtain rule where rule: "parse_rule x v = Inr rule" "sc_rule s = rule" by (rule new_schedule_cases [OF s]) auto
  have "parse_rule x r = Inr rule"
    unfolding r rule(2) by (rule parse_serialize_rule [OF formats parse_rule_ok [OF formats rule(1)]])
  then have "new_schedule x e r = new_schedule x e v" by (simp add: new_schedule_def rule(1))
  with s show ?thesis by (simp add: normalize_rule_def r)
qed

text \<open>C5: An expansion is exact: a successful expansion of a window lists, in increasing order and with
  their fields, positions of the series that overlap the window, at most as many as the limit; every
  overlapping position it leaves out comes later than all of them; and it leaves none out unless it
  reports that there are more, which it does only at the limit.\<close>

theorem expand_exact:
  assumes "calendar_laws x" and "expand x e ws we limit = Inr r"
  shows "\<exists>s lower upper ts. from_event x e = Inr s \<and> boundary x ws = Inr lower \<and> boundary x we = Inr upper
    \<and> list_all2 (generated x s) (occurrences r) ts
    \<and> lists_window (window x s lower upper) limit ts (has_more r)"
  by (rule calendar_laws.expand_lists [OF assms]) blast

text \<open>C9: The index of the position at an index is that index.\<close>

theorem position_index_inverse:
  assumes "calendar_laws x" and "position_at x e index = Inr p" and "index < 2 ^ 32"
  shows "occurrence_index x e p = Inr index"
  by (rule calendar_laws.occurrence_index_of_position [OF assms])

section \<open>The candidate budget\<close>

definition budget_error :: error where
  "budget_error = invalid ''candidate work budget exceeded (200000 positions)''"

lemma and_then_Inl: "and_then r f = Inl e \<longleftrightarrow> r = Inl e \<or> (\<exists>a. r = Inr a \<and> f a = Inl e)"
  by (cases r) auto

lemma ok_or_Inl: "ok_or e v = Inl e' \<longleftrightarrow> v = None \<and> e' = e"
  by (cases v) auto

lemma check_date_Inl: "check_date x d = Inl e \<Longrightarrow> e = range_error"
  by (simp add: check_date_def split: if_splits)

lemma candidate_Inl: "candidate x s n = Inl e \<Longrightarrow> e = range_error"
  by (cases "frequency (sc_rule s)")
    (auto simp: candidate_def Let_def and_then_Inl ok_or_Inl add_days_def year_and_month_def split: if_splits prod.splits)

lemma at_date_Inl: "at_date x s d = Inl e \<Longrightarrow> e = range_error"
  by (auto simp: at_date_def Let_def and_then_Inl dest: check_date_Inl split: if_splits local_result.splits)

lemma cursor_step_Inl:
  assumes "cursor_step x s c b = Inl e"
  shows "e = range_error \<or> e = budget_error \<and> CANDIDATE_BUDGET \<le> b"
  using assms
  by (auto simp: cursor_step_def Let_def and_then_Inl spend_def budget_error_def [symmetric] dest: candidate_Inl at_date_Inl
      split: if_splits option.splits)

lemma advance_budget:
  assumes "b \<le> CANDIDATE_BUDGET"
  shows "case advance x s slot c b of
      Inr (c', b') \<Rightarrow> (cu_done c' \<or> slot \<le> cu_slot c') \<and> b' \<le> CANDIDATE_BUDGET \<and> cu_slot c' = cu_slot c + (b' - b) \<and> b \<le> b'
    | Inl e \<Rightarrow> e = range_error \<or> e = budget_error \<and> CANDIDATE_BUDGET < b + (slot - cu_slot c)"
  using assms
proof (induction "work_left c b" arbitrary: c b rule: less_induct)
  case less
  show ?case
  proof (cases "cu_slot c < slot \<and> \<not> cu_done c")
    case False
    with less.prems show ?thesis by (subst advance.simps) auto
  next
    case live: True
    show ?thesis
    proof (cases "cursor_step x s c b")
      case (Inl e)
      with live less.prems cursor_step_Inl [OF Inl] show ?thesis by (subst advance.simps) auto
    next
      case (Inr r)
      obtain v c1 b1 where r: "r = (v, c1, b1)" by (cases r)
      note step = Inr [unfolded r]
      have unfolded: "advance x s slot c b = advance x s slot c1 b1" using live step by (subst advance.simps) simp
      show ?thesis
      proof (cases "count_reached s c")
        case True
        with step have "c1 = c\<lparr>cu_done := True\<rparr>" "b1 = b" by (auto simp: cursor_step_finished)
        with less.prems show ?thesis unfolding unfolded by (subst advance.simps) simp
      next
        case False
        have moved: "b < CANDIDATE_BUDGET" "b1 = b + 1" "cu_slot c1 = cu_slot c + 1"
          by (rule cursor_step_cases [OF step _ False]; use live in auto)+
        with less.hyps [of c1 b1] cursor_step_work [OF step] live show ?thesis
          unfolding unfolded by (auto split: sum.splits)
      qed
    qed
  qed
qed

text \<open>C23: Every walk of a cursor ends within the budget: it stops at its target slot or at the end of the
  series, having spent one unit of the budget for each slot it inspected and never more than 200000
  in all. It fails only outside the supported dates, or for the budget when the target is further
  away than what is left of it.\<close>

theorem walk_within_budget:
  assumes "b \<le> CANDIDATE_BUDGET"
  shows "case advance x s slot c b of
      Inr (c', b') \<Rightarrow> (cu_done c' \<or> slot \<le> cu_slot c') \<and> b' \<le> CANDIDATE_BUDGET \<and> cu_slot c' = cu_slot c + (b' - b) \<and> b \<le> b'
    | Inl e \<Rightarrow> e = range_error \<or> e = budget_error \<and> CANDIDATE_BUDGET < b + (slot - cu_slot c)"
  by (rule advance_budget [OF assms])

section \<open>Concrete series\<close>

text \<open>A meeting on Mondays and Wednesdays, four times, and a monthly one on the 31st, which skips the
  shorter months.\<close>

definition sample_event :: CalendarEvent where
  "sample_event =
     \<lparr>ev_id = ''e'', ev_account_id = ''a'', ev_calendar_id = ''c'', ev_uid = None, ev_title = ''Planning'',
      ev_description = None, ev_location = None, ev_start_time = ''2026-09-14'', ev_end_time = ''2026-09-15'',
      ev_all_day = True, ev_timezone = None, ev_recurrence_rule = Some ''FREQ=WEEKLY;BYDAY=MO,WE;COUNT=4'',
      ev_recurrence_kind = SeriesKind, ev_organizer_email = None, ev_attendees_json = None, ev_my_status = None,
      ev_source_message_id = None, ev_ical_data = None, ev_remote_id = None, ev_etag = None\<rparr>"

definition monthly_event :: CalendarEvent where
  "monthly_event = sample_event\<lparr>ev_start_time := ''2026-08-31'', ev_end_time := ''2026-09-01'',
     ev_recurrence_rule := Some ''FREQ=MONTHLY''\<rparr>"

definition starts_of :: "Expansion result \<Rightarrow> (string list \<times> bool) option" where
  "starts_of r = (case r of Inl _ \<Rightarrow> None | Inr e \<Rightarrow> Some (map original_start (occurrences e), has_more e))"

lemma starts_ofD: "starts_of r = Some (ps, m) \<Longrightarrow> \<exists>e. r = Inr e \<and> map original_start (occurrences e) = ps \<and> has_more e = m"
  by (auto simp: starts_of_def split: sum.splits)

lemma sample_expand:
  "starts_of (expand gregorian sample_event ''2026-09-15'' ''2026-09-23'' 10) = Some ([''2026-09-16'', ''2026-09-21''], False)"
  by code_simp

lemma sample_normalize:
  "normalize_rule gregorian ''count=4;byday=we,mo;freq=weekly'' sample_event = Inr ''FREQ=WEEKLY;BYDAY=MO,WE;COUNT=4''"
  by code_simp

lemma monthly_position: "position_at gregorian monthly_event 1 = Inr ''2026-10-31''"
  by code_simp

theorem normalize_rule_stable_witness:
  "normalize_rule gregorian ''count=4;byday=we,mo;freq=weekly'' sample_event = Inr ''FREQ=WEEKLY;BYDAY=MO,WE;COUNT=4''
   \<and> normalize_rule gregorian ''FREQ=WEEKLY;BYDAY=MO,WE;COUNT=4'' sample_event = Inr ''FREQ=WEEKLY;BYDAY=MO,WE;COUNT=4''"
  using sample_normalize normalize_rule_stable [OF greg.calendar_laws_axioms sample_normalize] by blast

theorem expand_exact_witness:
  "\<exists>r s lower upper ts. expand gregorian sample_event ''2026-09-15'' ''2026-09-23'' 10 = Inr r
    \<and> map original_start (occurrences r) = [''2026-09-16'', ''2026-09-21''] \<and> has_more r = False
    \<and> from_event gregorian sample_event = Inr s \<and> list_all2 (generated gregorian s) (occurrences r) ts
    \<and> set ts = window gregorian s lower upper"
proof -
  obtain r where r: "expand gregorian sample_event ''2026-09-15'' ''2026-09-23'' 10 = Inr r"
    "map original_start (occurrences r) = [''2026-09-16'', ''2026-09-21'']" "has_more r = False"
    using starts_ofD [OF sample_expand] by (elim exE conjE)
  from expand_exact [OF greg.calendar_laws_axioms r(1)] obtain s lower upper ts where
    "from_event gregorian sample_event = Inr s" "list_all2 (generated gregorian s) (occurrences r) ts"
    "lists_window (window gregorian s lower upper) 10 ts (has_more r)" by blast
  moreover from this(3) r(3) have "set ts = window gregorian s lower upper" by (simp add: lists_window_def)
  ultimately show ?thesis using r by (intro exI conjI)
qed

theorem position_index_inverse_witness:
  "position_at gregorian monthly_event 1 = Inr ''2026-10-31''
   \<and> occurrence_index gregorian monthly_event ''2026-10-31'' = Inr 1"
  using monthly_position position_index_inverse [OF greg.calendar_laws_axioms monthly_position] by simp

lemma sample_schedule: "\<exists>s. from_event gregorian sample_event = Inr s"
proof -
  have "\<exists>s. from_event x e = Inr s" if "expand x e ws we limit = Inr r" for x :: "'z chrono" and e ws we limit r
    using that by (auto simp: expand_def split: if_splits)
  then show ?thesis using starts_ofD [OF sample_expand] by (elim exE conjE)
qed

theorem walk_within_budget_witness:
  "\<exists>s. from_event gregorian sample_event = Inr s
    \<and> (case advance gregorian s 3 default_cursor 0 of
         Inr (c', b') \<Rightarrow> (cu_done c' \<or> 3 \<le> cu_slot c') \<and> b' \<le> CANDIDATE_BUDGET \<and> cu_slot c' = b'
       | Inl e \<Rightarrow> e = range_error)"
proof -
  obtain s where s: "from_event gregorian sample_event = Inr s" using sample_schedule by blast
  have "case advance gregorian s 3 default_cursor 0 of
         Inr (c', b') \<Rightarrow> (cu_done c' \<or> 3 \<le> cu_slot c') \<and> b' \<le> CANDIDATE_BUDGET \<and> cu_slot c' = b'
       | Inl e \<Rightarrow> e = range_error"
    using walk_within_budget [where b = 0 and x = gregorian and s = s and slot = 3 and c = default_cursor]
    by (auto simp: CANDIDATE_BUDGET_def default_cursor_def split: sum.splits)
  with s show ?thesis by blast
qed

end
