(* ===== verification/Net_Addr.thy ===== *)
theory Net_Addr
  imports Rust_Prelude
begin

text \<open>
  Internet addresses of Rust's standard library, as far as the mailbox parser uses them: the
  \<^verbatim>\<open>FromStr\<close> and \<^verbatim>\<open>Display\<close> implementations of \<^verbatim>\<open>std::net::Ipv4Addr\<close> and \<^verbatim>\<open>Ipv6Addr\<close>. An IPv4
  address is the list of its four octets, an IPv6 address the list of its eight 16-bit
  segments. The reader functions consume a prefix of the text and return the rest; a reader that
  fails leaves the text where it was (\<^verbatim>\<open>read_atomically\<close>). Displaying an address and reading the
  text back gives the same address.
\<close>

section \<open>Reading\<close>

text \<open>\<^verbatim>\<open>char::to_digit\<close>.\<close>

definition to_digit :: "nat \<Rightarrow> char \<Rightarrow> nat option" where
  "to_digit radix c =
     (let n = char_code c;
          d = (if 48 \<le> n \<and> n \<le> 57 then n - 48
               else if 97 \<le> n \<and> n \<le> 122 then n - 87
               else if 65 \<le> n \<and> n \<le> 90 then n - 55
               else radix)
      in if d < radix then Some d else None)"

definition is_digit_in :: "nat \<Rightarrow> char \<Rightarrow> bool" where
  "is_digit_in radix c \<longleftrightarrow> to_digit radix c \<noteq> None"

definition radix_value :: "nat \<Rightarrow> string \<Rightarrow> nat" where
  "radix_value radix ds = foldl (\<lambda>acc c. acc * radix + the (to_digit radix c)) 0 ds"

text \<open>
  A number of at most \<open>max_digits\<close> digits below \<open>bound\<close> (the range of the integer type it is
  read into); more digits are an error, not the end of the number.
\<close>

definition read_number :: "nat \<Rightarrow> nat \<Rightarrow> bool \<Rightarrow> nat \<Rightarrow> string \<Rightarrow> (nat \<times> string) option" where
  "read_number radix max_digits allow_zero_prefix bound s =
     (let ds = takeWhile (is_digit_in radix) s
      in if ds = [] \<or> length ds > max_digits
            \<or> (\<not> allow_zero_prefix \<and> hd ds = CHR ''0'' \<and> length ds > 1)
            \<or> radix_value radix ds \<ge> bound
         then None
         else Some (radix_value radix ds, dropWhile (is_digit_in radix) s))"

definition read_given_char :: "char \<Rightarrow> string \<Rightarrow> string option" where
  "read_given_char c s = (case s of [] \<Rightarrow> None | x # r \<Rightarrow> if x = c then Some r else None)"

text \<open>An element of a list: every one but the first is preceded by the separator.\<close>

definition read_separator ::
    "char \<Rightarrow> nat \<Rightarrow> (string \<Rightarrow> ('a \<times> string) option) \<Rightarrow> string \<Rightarrow> ('a \<times> string) option" where
  "read_separator c index inner s =
     (if index > 0 then Option.bind (read_given_char c s) inner else inner s)"

fun read_octets :: "nat \<Rightarrow> nat \<Rightarrow> string \<Rightarrow> (nat list \<times> string) option" where
  "read_octets i 0 s = Some ([], s)"
| "read_octets i (Suc k) s =
     (case read_separator CHR ''.'' i (read_number 10 3 False 256) s of
        None \<Rightarrow> None
      | Some (octet, r) \<Rightarrow> map_option (\<lambda>(os, r'). (octet # os, r')) (read_octets (Suc i) k r))"

definition read_ipv4_addr :: "string \<Rightarrow> (nat list \<times> string) option" where
  "read_ipv4_addr s = read_octets 0 4 s"

text \<open>The two segments that four octets stand for.\<close>

fun octet_segments :: "nat list \<Rightarrow> nat list" where
  "octet_segments (a # b # os) = (a * 256 + b) # octet_segments os"
| "octet_segments _ = []"

text \<open>
  Segments from position \<open>i\<close> on, at most \<open>k\<close> of them; an embedded IPv4 address takes two and
  ends the list.
\<close>

fun read_groups :: "nat \<Rightarrow> nat \<Rightarrow> string \<Rightarrow> nat list \<times> bool \<times> string" where
  "read_groups i 0 s = ([], False, s)"
| "read_groups i (Suc k) s =
     (case (if k > 0 then read_separator CHR '':'' i read_ipv4_addr s else None) of
        Some (octets, r) \<Rightarrow> (octet_segments octets, True, r)
      | None \<Rightarrow>
          (case read_separator CHR '':'' i (read_number 16 4 True 65536) s of
             None \<Rightarrow> ([], False, s)
           | Some (g, r) \<Rightarrow>
               (let (gs, v4, r') = read_groups (Suc i) k r in (g # gs, v4, r'))))"

definition parse_ipv6 :: "string \<Rightarrow> nat list option" where
  "parse_ipv6 s =
     (let (head, head_ipv4, r) = read_groups 0 8 s
      in if length head = 8 then (if r = [] then Some head else None)
         else if head_ipv4 then None
         else
           (case Option.bind (read_given_char CHR '':'' r) (read_given_char CHR '':'') of
              None \<Rightarrow> None
            | Some r1 \<Rightarrow>
                (let (tail, tail_ipv4, r2) = read_groups 0 (8 - (length head + 1)) r1
                 in if r2 = []
                    then Some (head @ replicate (8 - length head - length tail) 0 @ tail)
                    else None)))"

text \<open>\<^verbatim>\<open>IpAddr::from_str\<close>: an IPv4 address (\<^term>\<open>Inl\<close>) or an IPv6 address.\<close>

definition parse_ip :: "string \<Rightarrow> (nat list + nat list) option" where
  "parse_ip s =
     (case read_ipv4_addr s of
        Some (octets, []) \<Rightarrow> Some (Inl octets)
      | _ \<Rightarrow> map_option Inr (parse_ipv6 s))"

section \<open>Displaying\<close>

definition show_ipv4 :: "nat list \<Rightarrow> string" where
  "show_ipv4 octets = join ''.'' (map show_nat octets)"

definition show_segments :: "nat list \<Rightarrow> string" where
  "show_segments segs = join '':'' (map show_hex segs)"

text \<open>\<^verbatim>\<open>Ipv6Addr::to_ipv4_mapped\<close>.\<close>

definition to_ipv4_mapped :: "nat list \<Rightarrow> nat list option" where
  "to_ipv4_mapped segs =
     (case segs of
        [s0, s1, s2, s3, s4, s5, ab, cd] \<Rightarrow>
          if s0 = 0 \<and> s1 = 0 \<and> s2 = 0 \<and> s3 = 0 \<and> s4 = 0 \<and> s5 = 65535
          then Some [ab div 256, ab mod 256, cd div 256, cd mod 256] else None
      | _ \<Rightarrow> None)"

text \<open>The longest run of zero segments, the first of them on a tie: (start, length).\<close>

fun scan_zeroes :: "nat \<Rightarrow> nat \<times> nat \<Rightarrow> nat \<times> nat \<Rightarrow> nat list \<Rightarrow> nat \<times> nat" where
  "scan_zeroes i current longest [] = longest"
| "scan_zeroes i current longest (seg # segs) =
     (if seg = 0 then
        (let current' = (if snd current = 0 then i else fst current, snd current + 1)
         in scan_zeroes (i + 1) current'
              (if snd current' > snd longest then current' else longest) segs)
      else scan_zeroes (i + 1) (0, 0) longest segs)"

definition show_ipv6 :: "nat list \<Rightarrow> string" where
  "show_ipv6 segs =
     (case to_ipv4_mapped segs of
        Some octets \<Rightarrow> ''::ffff:'' @ show_ipv4 octets
      | None \<Rightarrow>
          (let (start, len) = scan_zeroes 0 (0, 0) (0, 0) segs
           in if len > 1
              then show_segments (take start segs) @ ''::'' @ show_segments (drop (start + len) segs)
              else show_segments segs))"

section \<open>Reading back what was displayed\<close>

lemma char_code_digit: "d < 10 \<Longrightarrow> char_code (digit_char d) = 48 + d"
  by (simp add: char_code_def digit_char_def)

lemma to_digit_digit_char: "d < 10 \<Longrightarrow> d < radix \<Longrightarrow> to_digit radix (digit_char d) = Some d"
  by (simp add: to_digit_def char_code_digit)

lemma to_digit_hex_digit: "d < 16 \<Longrightarrow> to_digit 16 (hex_digit d) = Some d"
  by (simp add: to_digit_def hex_digit_def char_code_def)

lemma is_digit_in_digits:
  "d < 10 \<Longrightarrow> is_digit_in 10 (digit_char d)" "d < 16 \<Longrightarrow> is_digit_in 16 (hex_digit d)"
  by (simp_all add: is_digit_in_def to_digit_digit_char to_digit_hex_digit)

lemma radix_value_single: "radix_value r [c] = the (to_digit r c)"
  by (simp add: radix_value_def)

lemma radix_value_snoc:
  "radix_value r (s @ [c]) = radix_value r s * r + the (to_digit r c)"
  by (simp add: radix_value_def)

lemma show_nat_radix:
  "list_all (is_digit_in 10) (show_nat n) \<and> radix_value 10 (show_nat n) = n"
proof (induction n rule: show_nat.induct)
  case (1 n)
  then show ?case
    by (subst (1 2) show_nat.simps)
      (auto simp: is_digit_in_digits to_digit_digit_char radix_value_snoc radix_value_single)
qed

lemma show_hex_radix:
  "list_all (is_digit_in 16) (show_hex n) \<and> radix_value 16 (show_hex n) = n"
proof (induction n rule: show_hex.induct)
  case (1 n)
  then show ?case
    by (subst (1 2) show_hex.simps)
      (auto simp: is_digit_in_digits to_digit_hex_digit radix_value_snoc radix_value_single)
qed

lemma show_hex_nonempty [simp]: "show_hex n \<noteq> []"
  by (subst show_hex.simps) simp

lemma length_show_hex: "n < 16 ^ Suc k \<Longrightarrow> length (show_hex n) \<le> Suc k"
proof (induction k arbitrary: n)
  case 0
  then show ?case by (subst show_hex.simps) simp
next
  case (Suc k)
  then have "n div 16 < 16 ^ Suc k" by (simp add: less_mult_imp_div_less)
  from Suc.IH [OF this] show ?case by (subst show_hex.simps) simp
qed

text \<open>What follows a number must not continue it.\<close>

definition stops :: "nat \<Rightarrow> string \<Rightarrow> bool" where
  "stops radix s \<longleftrightarrow> s = [] \<or> \<not> is_digit_in radix (hd s)"

lemma take_digits:
  assumes "list_all (is_digit_in r) ds" "stops r rest"
  shows "takeWhile (is_digit_in r) (ds @ rest) = ds" "dropWhile (is_digit_in r) (ds @ rest) = rest"
  using assms by (induction ds) (cases rest; auto simp: stops_def)+

lemma read_number_hex:
  assumes "n < 65536" "stops 16 rest"
  shows "read_number 16 4 True 65536 (show_hex n @ rest) = Some (n, rest)"
  using assms show_hex_radix [of n] length_show_hex [of n 3]
  by (simp add: read_number_def take_digits)

lemma show_nat_leading_zero: "show_nat n = CHR ''0'' # ds \<Longrightarrow> ds \<noteq> [] \<Longrightarrow> False"
proof (induction n arbitrary: ds rule: show_nat.induct)
  case (1 n)
  show ?case
  proof (cases "n < 10")
    case True
    with 1 show ?thesis by (simp add: show_nat.simps [of n])
  next
    case False
    then have split: "show_nat (n div 10) @ [digit_char (n mod 10)] = CHR ''0'' # ds"
      using 1(2) by (simp add: show_nat.simps [of n])
    then obtain ds' where ds': "show_nat (n div 10) = CHR ''0'' # ds'"
      by (cases "show_nat (n div 10)") auto
    with 1(1) False have "show_nat (n div 10) = ''0''" by blast
    then have "radix_value 10 (show_nat (n div 10)) = radix_value 10 ''0''" by simp
    then have "n div 10 = 0"
      using show_nat_radix [of "n div 10"] by (simp add: radix_value_def to_digit_def char_code_def)
    with False show ?thesis by simp
  qed
qed

lemma read_number_dec:
  assumes "n < 256" "stops 10 rest"
  shows "read_number 10 3 False 256 (show_nat n @ rest) = Some (n, rest)"
proof -
  have "\<not> (hd (show_nat n) = CHR ''0'' \<and> 1 < length (show_nat n))"
    using show_nat_leading_zero [of n "tl (show_nat n)"] by (cases "show_nat n") auto
  moreover have "length (show_nat n) \<le> 3" using length_show_nat [of n 2] assms(1) by simp
  ultimately show ?thesis
    using assms show_nat_radix [of n] by (auto simp: read_number_def take_digits)
qed


subsection \<open>Octets\<close>

lemma stops_dot [simp]: "stops 10 (CHR ''.'' # s)"
  by (simp add: stops_def is_digit_in_def to_digit_def char_code_def)

lemma stops_colon [simp]: "stops 16 (CHR '':'' # s)" "stops 10 (CHR '':'' # s)"
  by (simp_all add: stops_def is_digit_in_def to_digit_def char_code_def)

lemma stops_Nil [simp]: "stops r []"
  by (simp add: stops_def)

lemma read_ipv4_unfold: "read_ipv4_addr s = read_octets 0 (Suc (Suc (Suc (Suc 0)))) s"
  by (simp add: read_ipv4_addr_def numeral_eq_Suc)

lemma read_ipv4_show:
  assumes "a < 256" "b < 256" "c < 256" "d < 256" "stops 10 rest"
  shows "read_ipv4_addr (show_ipv4 [a, b, c, d] @ rest) = Some ([a, b, c, d], rest)"
  using assms
  by (simp add: read_ipv4_unfold show_ipv4_def read_separator_def read_given_char_def
      read_number_dec)

text \<open>Without a dot after its first number a text is no IPv4 address.\<close>

lemma read_ipv4_no_dot:
  assumes "\<not> (\<exists>t. dropWhile (is_digit_in 10) s = CHR ''.'' # t)"
  shows "read_ipv4_addr s = None"
  using assms
  by (auto simp: read_ipv4_unfold read_separator_def read_given_char_def
      read_number_def Let_def split: option.split list.split)

lemma not_digit_dot: "\<not> is_digit_in 16 CHR ''.''"
  by (simp add: is_digit_in_def to_digit_def char_code_def)

text \<open>What follows a segment: the end of the text or a colon.\<close>

definition group_end :: "string \<Rightarrow> bool" where
  "group_end s \<longleftrightarrow> s = [] \<or> hd s = CHR '':''"

lemma group_end_simps [simp]: "group_end []" "group_end (CHR '':'' # s)"
  by (simp_all add: group_end_def)

lemma group_end_stops: "group_end s \<Longrightarrow> stops 16 s"
  by (cases s) (auto simp: group_end_def)

text \<open>A run of segments is read up to a rest that cannot continue it.\<close>

definition groups_end :: "string \<Rightarrow> bool" where
  "groups_end s \<longleftrightarrow> s = [] \<or> (\<exists>t. s = CHR '':'' # CHR '':'' # t)"

lemma read_ipv4_groups:
  assumes "list_all (is_digit_in 16) ds" "group_end rest"
  shows "read_ipv4_addr (ds @ rest) = None"
proof (rule read_ipv4_no_dot)
  show "\<not> (\<exists>t. dropWhile (is_digit_in 10) (ds @ rest) = CHR ''.'' # t)"
    using assms(1)
  proof (induction ds)
    case Nil
    have "stops 10 rest" using assms(2) by (cases rest) (auto simp: group_end_def)
    with assms(2) show ?case by (cases rest) (auto simp: stops_def group_end_def)
  next
    case (Cons d ds)
    then show ?case using not_digit_dot by auto
  qed
qed

lemma read_group:
  assumes "g < 65536" "group_end rest"
  shows "read_groups 0 (Suc k) (show_hex g @ rest)
       = (let (gs, v4, r) = read_groups (Suc 0) k rest in (g # gs, v4, r))"
    and "read_groups (Suc i) (Suc k) (CHR '':'' # show_hex g @ rest)
       = (let (gs, v4, r) = read_groups (Suc (Suc i)) k rest in (g # gs, v4, r))"
proof -
  have none: "read_ipv4_addr (show_hex g @ rest) = None"
    using read_ipv4_groups show_hex_radix assms(2) by blast
  have some: "read_number 16 4 True 65536 (show_hex g @ rest) = Some (g, rest)"
    using read_number_hex assms group_end_stops by blast
  show "read_groups 0 (Suc k) (show_hex g @ rest)
       = (let (gs, v4, r) = read_groups (Suc 0) k rest in (g # gs, v4, r))"
    by (simp add: read_separator_def none some)
  show "read_groups (Suc i) (Suc k) (CHR '':'' # show_hex g @ rest)
       = (let (gs, v4, r) = read_groups (Suc (Suc i)) k rest in (g # gs, v4, r))"
    by (simp add: read_separator_def read_given_char_def none some)
qed

lemma read_no_group:
  assumes "groups_end s"
  shows "read_groups i k s = ([], False, s)"
proof -
  have "read_ipv4_addr (CHR '':'' # t) = None" for t
    by (rule read_ipv4_groups [of "[]", simplified]) simp
  moreover have "read_number 16 4 True 65536 (CHR '':'' # t) = None" for t
    by (simp add: read_number_def is_digit_in_def to_digit_def char_code_def)
  moreover have "read_ipv4_addr [] = None" "read_number 16 4 True 65536 [] = None"
    using read_ipv4_groups [of "[]" "[]"] by (simp_all add: read_number_def)
  ultimately show ?thesis using assms
    by (cases k) (auto simp: groups_end_def read_separator_def read_given_char_def)
qed

fun segments_after :: "nat list \<Rightarrow> string" where
  "segments_after [] = []"
| "segments_after (g # gs) = CHR '':'' # show_hex g @ segments_after gs"

lemma show_segments_Cons: "show_segments (g # gs) = show_hex g @ segments_after gs"
proof (induction gs arbitrary: g)
  case Nil
  then show ?case by (simp add: show_segments_def)
next
  case (Cons h gs)
  then show ?case by (simp add: show_segments_def)
qed

lemma group_end_after: "groups_end rest \<Longrightarrow> group_end (segments_after gs @ rest)"
  by (cases gs) (auto simp: groups_end_def)

lemma read_segments_after:
  assumes "\<forall>g \<in> set gs. g < 65536" "length gs \<le> k" "groups_end rest"
  shows "read_groups (Suc i) k (segments_after gs @ rest) = (gs, False, rest)"
  using assms(1,2)
proof (induction gs arbitrary: i k)
  case Nil
  then show ?case using read_no_group [OF assms(3)] by simp
next
  case (Cons g gs)
  then obtain k' where "k = Suc k'" by (cases k) auto
  with Cons show ?case
    using read_group(2) [of g "segments_after gs @ rest" i k'] group_end_after [OF assms(3)] by simp
qed

lemma read_segments:
  assumes "\<forall>g \<in> set gs. g < 65536" "length gs \<le> k" "groups_end rest"
  shows "read_groups 0 k (show_segments gs @ rest) = (gs, False, rest)"
proof (cases gs)
  case Nil
  with read_no_group [OF assms(3)] show ?thesis by (simp add: show_segments_def)
next
  case (Cons g gs')
  with assms obtain k' where "k = Suc k'" by (cases k) auto
  with Cons assms show ?thesis
    using read_group(1) [of g "segments_after gs' @ rest" k'] group_end_after [OF assms(3)]
      read_segments_after [of gs' k' rest 0]
    by (simp add: show_segments_Cons)
qed


subsection \<open>Zero runs\<close>

definition zero_run :: "nat list \<Rightarrow> nat \<times> nat \<Rightarrow> bool" where
  "zero_run segs sp \<longleftrightarrow> fst sp + snd sp \<le> length segs
     \<and> (\<forall>j. fst sp \<le> j \<and> j < fst sp + snd sp \<longrightarrow> segs ! j = 0)"

lemma zero_run_grow:
  assumes "zero_run full current" "snd current > 0 \<longrightarrow> fst current + snd current = i"
    "i < length full" "full ! i = 0"
  shows "zero_run full (if snd current = 0 then i else fst current, snd current + 1)"
  using assms by (auto simp: zero_run_def less_Suc_eq)

lemma scan_zeroes_run:
  assumes "full = pre @ segs" "i = length pre" "zero_run full current" "zero_run full longest"
    "snd current > 0 \<longrightarrow> fst current + snd current = i"
  shows "zero_run full (scan_zeroes i current longest segs)"
  using assms
proof (induction i current longest segs arbitrary: pre rule: scan_zeroes.induct)
  case (1 i current longest)
  then show ?case by simp
next
  case (2 i current longest seg segs)
  let ?next = "(if snd current = 0 then i else fst current, snd current + 1)"
  have pre: "full = (pre @ [seg]) @ segs" "i + 1 = length (pre @ [seg])" using 2 by simp_all
  show ?case
  proof (cases "seg = 0")
    case True
    have "full ! i = 0" "i < length full" using 2 True by (simp_all add: nth_append)
    then have grown: "zero_run full ?next" using zero_run_grow [OF 2(5,7)] by blast
    show ?thesis
      using 2(1) [OF True refl pre grown] 2(6,7) grown True by (auto simp: Let_def)
  next
    case False
    have "zero_run full (0, 0)" by (simp add: zero_run_def)
    with 2(2) [OF False pre] 2(6) False show ?thesis by simp
  qed
qed

lemma zero_run_split:
  assumes "zero_run segs (st, n)"
  shows "take st segs @ replicate n 0 @ drop (st + n) segs = segs"
proof -
  have "take n (drop st segs) = replicate n 0"
    using assms by (intro nth_equalityI) (auto simp: zero_run_def)
  then show ?thesis
    by (metis append_take_drop_id drop_drop add.commute)
qed

subsection \<open>The round trip\<close>

lemma show_mapped:
  assumes "to_ipv4_mapped segs = Some octets" "\<forall>g \<in> set segs. g < 65536"
  obtains ab cd where "segs = [0, 0, 0, 0, 0, 65535, ab, cd]"
    "octets = [ab div 256, ab mod 256, cd div 256, cd mod 256]" "ab < 65536" "cd < 65536"
  using assms by (auto simp: to_ipv4_mapped_def split: list.splits if_splits)

lemma show_hex_ffff: "''ffff'' = show_hex 65535"
  by (simp add: show_hex.simps hex_digit_def char_of_def bit_0)

theorem parse_show_ipv6:
  assumes len: "length segs = 8" and range: "\<forall>g \<in> set segs. g < 65536"
  shows "parse_ipv6 (show_ipv6 segs) = Some segs"
proof (cases "to_ipv4_mapped segs")
  case (Some octets)
  then obtain ab cd where segs: "segs = [0, 0, 0, 0, 0, 65535, ab, cd]"
    and octets: "octets = [ab div 256, ab mod 256, cd div 256, cd mod 256]"
    and small: "ab < 65536" "cd < 65536"
    using show_mapped range by blast
  have v4: "read_ipv4_addr (show_ipv4 octets) = Some (octets, [])"
    using read_ipv4_show [of "ab div 256" "ab mod 256" "cd div 256" "cd mod 256" "[]"] small
    by (simp add: octets less_mult_imp_div_less)
  have "read_groups (Suc 0) (Suc (Suc k)) (CHR '':'' # show_ipv4 octets) = ([ab, cd], True, [])" for k
    using v4 by (simp add: read_separator_def read_given_char_def) (simp add: octets)
  from this [of 4] have tail: "read_groups 0 7 (show_hex 65535 @ CHR '':'' # show_ipv4 octets)
      = ([65535, ab, cd], True, [])"
    using read_group(1) [of 65535 "CHR '':'' # show_ipv4 octets" "Suc (Suc 4)"] by simp
  have "groups_end (''::'' @ show_hex 65535 @ CHR '':'' # show_ipv4 octets)"
    by (simp add: groups_end_def)
  from read_no_group [OF this, of 0 8] tail
  have "parse_ipv6 (''::ffff:'' @ show_ipv4 octets) = Some (replicate 5 0 @ [65535, ab, cd])"
    by (simp add: parse_ipv6_def show_hex_ffff [symmetric] read_given_char_def)
  moreover have "replicate 5 (0 :: nat) = [0, 0, 0, 0, 0]" by (simp add: numeral_eq_Suc)
  ultimately show ?thesis by (simp add: show_ipv6_def Some) (simp add: segs)
next
  case None
  obtain st n where span: "scan_zeroes 0 (0, 0) (0, 0) segs = (st, n)" by fastforce
  have run: "zero_run segs (st, n)"
    using scan_zeroes_run [of segs "[]" segs 0 "(0, 0)" "(0, 0)"] span by (simp add: zero_run_def)
  let ?head = "take st segs" and ?tail = "drop (st + n) segs"
  show ?thesis
  proof (cases "n > 1")
    case True
    have fits: "st + n \<le> 8" using run len by (simp add: zero_run_def)
    have ranges: "\<forall>g \<in> set ?head. g < 65536" "\<forall>g \<in> set ?tail. g < 65536"
      using range in_set_takeD in_set_dropD by fast+
    have "read_groups 0 8 (show_segments ?head @ CHR '':'' # CHR '':'' # show_segments ?tail)
        = (?head, False, CHR '':'' # CHR '':'' # show_segments ?tail)"
      using read_segments [OF ranges(1)] len by (simp add: groups_end_def)
    moreover have "read_groups 0 (7 - st) (show_segments ?tail) = (?tail, False, [])"
      using read_segments [OF ranges(2), of "7 - st" "[]"] len True by (simp add: groups_end_def)
    ultimately show ?thesis
      using zero_run_split [OF run] fits True len
      by (simp add: show_ipv6_def None span parse_ipv6_def read_given_char_def)
  next
    case False
    then show ?thesis
      using read_segments [OF range, of 8 "[]"] len
      by (simp add: show_ipv6_def None span parse_ipv6_def groups_end_def)
  qed
qed


subsection \<open>Shape of addresses and of their text\<close>

lemma read_number_bound: "read_number radix m z bound s = Some (n, r) \<Longrightarrow> n < bound"
  by (auto simp: read_number_def Let_def split: if_splits)

lemma read_separator_Some:
  "read_separator c i inner s = Some v \<Longrightarrow> \<exists>t. inner t = Some v"
  by (auto simp: read_separator_def split: if_splits bind_splits)

lemma read_octets_shape:
  "read_octets i k s = Some (os, r) \<Longrightarrow> length os = k \<and> (\<forall>n \<in> set os. n < 256)"
proof (induction i k s arbitrary: os r rule: read_octets.induct)
  case (2 i k s)
  then show ?case
    by (auto split: option.splits dest!: read_separator_Some dest: read_number_bound)
qed simp

lemma octet_segments_shape:
  "length os = Suc (Suc (Suc (Suc 0))) \<Longrightarrow> \<forall>n \<in> set os. n < 256 \<Longrightarrow>
     length (octet_segments os) = 2 \<and> (\<forall>g \<in> set (octet_segments os). g < 65536)"
  by (auto simp: length_Suc_conv)

lemma read_groups_shape:
  "read_groups i k s = (gs, v4, r) \<Longrightarrow> length gs \<le> k \<and> (\<forall>g \<in> set gs. g < 65536)"
proof (induction i k s arbitrary: gs v4 r rule: read_groups.induct)
  case (2 i k s)
  show ?case
  proof (cases "if k > 0 then read_separator CHR '':'' i read_ipv4_addr s else None")
    case None
    note v4_none = this
    show ?thesis
    proof (cases "read_separator CHR '':'' i (read_number 16 4 True 65536) s")
      case None
      with v4_none 2 show ?thesis by simp
    next
      case (Some p)
      obtain g r1 where p: "p = (g, r1)" by fastforce
      have "g < 65536" using Some read_separator_Some read_number_bound p by blast
      moreover obtain gs' v r2 where "read_groups (Suc i) k r1 = (gs', v, r2)"
        using prod_cases3 by blast
      ultimately show ?thesis
        using 2(1) [OF v4_none Some p [symmetric]] 2(2) v4_none Some p by (auto simp del: if_split_asm)
    qed
  next
    case (Some p)
    then have "k > 0" by (auto split: if_splits)
    moreover obtain os r1 where p: "p = (os, r1)" by fastforce
    have "length os = Suc (Suc (Suc (Suc 0))) \<and> (\<forall>n \<in> set os. n < 256)"
      using Some read_separator_Some read_octets_shape unfolding p read_ipv4_unfold
      by (metis option.distinct(1))
    ultimately show ?thesis using octet_segments_shape [of os] 2(2) Some p by auto
  qed
qed simp

theorem parse_ipv6_shape:
  "parse_ipv6 s = Some segs \<Longrightarrow> length segs = 8 \<and> (\<forall>g \<in> set segs. g < 65536)"
proof -
  assume parsed: "parse_ipv6 s = Some segs"
  obtain head v4 r where head: "read_groups 0 8 s = (head, v4, r)" using prod_cases3 by blast
  obtain tail w4 q where tail:
    "read_groups 0 (8 - (length head + 1)) (tl (tl r)) = (tail, w4, q)" using prod_cases3 by blast
  from read_groups_shape [OF head] read_groups_shape [OF tail] parsed head tail show ?thesis
    by (auto simp: parse_ipv6_def read_given_char_def Let_def
        split: if_splits bind_splits option.splits list.splits)
qed

definition ipv6_char :: "char \<Rightarrow> bool" where
  "ipv6_char c \<longleftrightarrow> is_digit_in 16 c \<or> c = CHR '':'' \<or> c = CHR ''.''"

lemma is_digit_in_hex: "is_digit_in 10 c \<Longrightarrow> is_digit_in 16 c"
  by (auto simp: is_digit_in_def to_digit_def Let_def split: if_splits)

lemma digits_ipv6_chars: "\<forall>c \<in> set (show_hex n). ipv6_char c" "\<forall>c \<in> set (show_nat n). ipv6_char c"
  using show_hex_radix [of n] show_nat_radix [of n]
  by (auto simp: ipv6_char_def list_all_iff is_digit_in_hex)

lemma join_chars:
  "\<forall>p \<in> set ps. \<forall>c \<in> set p. P c \<Longrightarrow> \<forall>c \<in> set sep. P c \<Longrightarrow> \<forall>c \<in> set (join sep ps). P c"
  using set_join [of sep ps] by fast

lemma show_ipv4_chars: "\<forall>c \<in> set (show_ipv4 octets). ipv6_char c"
  unfolding show_ipv4_def
  by (rule join_chars) (auto simp: digits_ipv6_chars, simp add: ipv6_char_def)

lemma show_segments_chars: "\<forall>c \<in> set (show_segments segs). ipv6_char c"
  unfolding show_segments_def
  by (rule join_chars) (auto simp: digits_ipv6_chars, simp add: ipv6_char_def)

lemma show_ipv6_chars: "\<forall>c \<in> set (show_ipv6 segs). ipv6_char c"
proof -
  have prefix: "\<forall>c \<in> set ''::ffff:''. ipv6_char c"
    by (simp add: ipv6_char_def is_digit_in_def to_digit_def char_code_def)
  obtain st n where "scan_zeroes 0 (0, 0) (0, 0) segs = (st, n)" by fastforce
  with prefix show_ipv4_chars show_segments_chars show ?thesis
    by (auto simp: show_ipv6_def split: option.split) 
qed

end
