(* ===== verification/Mailbox.thy ===== *)
theory Mailbox
  imports Net_Addr Error_Model
begin

text \<open>
  The outbound mailbox parser (\<^verbatim>\<open>mail/mailbox.rs\<close>): one RFC 5322 mailbox with comments, folding
  white space, quoted strings, display names and domain literals, checked down to what SMTP and
  JMAP submission can carry.

  The \<^verbatim>\<open>Parser\<close> is the text it has not read yet, so each of its methods is a function from that
  text to what it returns and the text left; \<^term>\<open>None\<close> is the method's \<^verbatim>\<open>None\<close>. The loops are
  recursive functions whose termination is proved from the text they consume. IDNA processing
  (the \<^verbatim>\<open>idna\<close> crate) is a parameter; the \<^verbatim>\<open>lettre\<close> mailbox is the carrier of a display name and
  an address of two parts.
\<close>

section \<open>Data\<close>

record idna =
  uts46_to_ascii :: "string \<Rightarrow> string option"
  domain_to_unicode :: "string \<Rightarrow> string"

record Address =
  address_user :: string
  address_domain :: string

record Mailbox =
  mailbox_name :: "string option"
  mailbox_email :: Address

record ParsedMailbox =
  mailbox :: Mailbox
  local_part :: string
  domain_key :: string
  quoted_local_part :: bool

text \<open>The address as it is written: the two parts joined by an at sign.\<close>

definition address_to_string :: "Address \<Rightarrow> string" where
  "address_to_string a = address_user a @ ''@'' @ address_domain a"

definition invalid_mailbox :: error where
  "invalid_mailbox = Other ''Expected one valid outbound mailbox (groups and lists are unsupported)''"

section \<open>Characters\<close>

definition is_wsp :: "char \<Rightarrow> bool" where
  "is_wsp ch \<longleftrightarrow> ch = CHR '' '' \<or> ch = CHR 0x09"

definition is_atext :: "char \<Rightarrow> bool" where
  "is_atext ch \<longleftrightarrow> is_ascii_alphanumeric ch
     \<or> ch \<in> set (''!#$%&'' @ [CHR 0x27] @ ''*+-/=?^_'' @ [CHR 0x60] @ ''{|}~'')
     \<or> \<not> is_ascii ch"

text \<open>The arm \<^verbatim>\<open>ch if ch.is_ascii_graphic() || !ch.is_ascii()\<close> of the two quoting loops.\<close>

definition is_text_char :: "char \<Rightarrow> bool" where
  "is_text_char ch \<longleftrightarrow> is_ascii_graphic ch \<or> \<not> is_ascii ch"

definition is_dot_atom :: "string \<Rightarrow> bool" where
  "is_dot_atom s \<longleftrightarrow> list_all (\<lambda>atom. atom \<noteq> [] \<and> list_all is_atext atom) (split_on CHR ''.'' s)"

section \<open>The parser\<close>

definition peek :: "string \<Rightarrow> char option" where
  "peek s = (case s of [] \<Rightarrow> None | c # r \<Rightarrow> Some c)"

definition is_some_and :: "('a \<Rightarrow> bool) \<Rightarrow> 'a option \<Rightarrow> bool" where
  "is_some_and p v \<longleftrightarrow> (case v of None \<Rightarrow> False | Some a \<Rightarrow> p a)"

definition expect :: "char \<Rightarrow> string \<Rightarrow> string option" where
  "expect c s = (case s of [] \<Rightarrow> None | x # r \<Rightarrow> if x = c then Some r else None)"

definition take_while :: "(char \<Rightarrow> bool) \<Rightarrow> string \<Rightarrow> string \<times> string" where
  "take_while p s = (takeWhile p s, dropWhile p s)"

lemma expect_Some [simp]: "expect c s = Some r \<longleftrightarrow> s = c # r"
  by (cases s) (auto simp: expect_def)

lemma expect_Cons [simp]: "expect c (x # r) = (if x = c then Some r else None)" "expect c [] = None"
  by (simp_all add: expect_def)

lemma peek_simps [simp]: "peek [] = None" "peek (c # r) = Some c"
  by (simp_all add: peek_def)

function fws :: "string \<Rightarrow> (string \<times> string) option" where
  "fws s =
     (let (spaces, r) = take_while is_wsp s
      in if peek r \<noteq> Some CHR 0x0D then Some (spaces, r)
         else
           (case Option.bind (expect CHR 0x0D r) (expect CHR 0x0A) of
              None \<Rightarrow> None
            | Some r2 \<Rightarrow>
                if \<not> is_some_and is_wsp (peek r2) then None
                else map_option (\<lambda>(more_spaces, t). (spaces @ more_spaces, t)) (fws r2)))"
  by auto
termination
proof (relation "measure length")
  fix s x spaces r r2
  assume "x = take_while is_wsp s" "(spaces, r) = x"
    "Option.bind (expect CHR 0x0D r) (expect CHR 0x0A) = Some r2"
  moreover have "length (dropWhile is_wsp s) \<le> length s" by (rule length_dropWhile_le)
  ultimately show "(r2, s) \<in> measure length"
    by (auto simp: take_while_def split: bind_splits)
qed simp

declare fws.simps [simp del]

text \<open>Folding white space never gives text back.\<close>

lemma fws_cases:
  assumes "fws s = Some (spaces, r)"
  obtains
    (plain) "spaces = takeWhile is_wsp s" "r = dropWhile is_wsp s" "peek r \<noteq> Some CHR 0x0D"
  | (fold) r2 spaces2 where "dropWhile is_wsp s = CHR 0x0D # CHR 0x0A # r2"
      "is_some_and is_wsp (peek r2)" "fws r2 = Some (spaces2, r)"
      "spaces = takeWhile is_wsp s @ spaces2" "length r2 < length s"
proof (cases "peek (dropWhile is_wsp s) = Some CHR 0x0D")
  case False
  with assms show ?thesis by (intro plain) (auto simp: fws.simps [of s] take_while_def)
next
  case True
  with assms obtain r2 spaces2 where r2: "dropWhile is_wsp s = CHR 0x0D # CHR 0x0A # r2"
    "is_some_and is_wsp (peek r2)" "fws r2 = Some (spaces2, r)"
    "spaces = takeWhile is_wsp s @ spaces2"
    by (auto simp: fws.simps [of s] take_while_def split: bind_splits option.splits if_splits)
  moreover have "length r2 < length s" using length_dropWhile_le [of is_wsp s] r2(1) by simp
  ultimately show ?thesis by (rule fold)
qed

lemma fws_length: "fws s = Some (spaces, r) \<Longrightarrow> length r \<le> length s"
proof (induction s arbitrary: spaces rule: length_induct)
  case (1 s)
  from 1(2) show ?case
  proof (cases rule: fws_cases)
    case plain
    then show ?thesis by (simp add: length_dropWhile_le)
  next
    case (fold r2 spaces2)
    with 1(1) show ?thesis by fastforce
  qed
qed

definition quoted_pair :: "string \<Rightarrow> (char \<times> string) option" where
  "quoted_pair s =
     (case s of [] \<Rightarrow> None | c # r \<Rightarrow> if is_ascii_graphic c \<or> is_wsp c then Some (c, r) else None)"

lemma quoted_pair_Some [simp]:
  "quoted_pair s = Some (c, r) \<longleftrightarrow> s = c # r \<and> (is_ascii_graphic c \<or> is_wsp c)"
  by (cases s) (auto simp: quoted_pair_def)

text \<open>
  The body of the comment loop, \<open>depth\<close> open parentheses; each one took a character of the text,
  so the counter stays below the length of the text and cannot overflow.
\<close>

function comment_loop :: "nat \<Rightarrow> string \<Rightarrow> string option" where
  "comment_loop depth s =
     (if depth = 0 then Some s
      else
        (case fws s of
           None \<Rightarrow> None
         | Some (spaces, r) \<Rightarrow>
             (case r of
                [] \<Rightarrow> None
              | ch # r1 \<Rightarrow>
                  if ch = CHR ''('' then comment_loop (depth + 1) r1
                  else if ch = CHR '')'' then comment_loop (depth - 1) r1
                  else if ch = CHR 0x5C then
                    (case quoted_pair r1 of
                       None \<Rightarrow> None
                     | Some (q, r2) \<Rightarrow> comment_loop depth r2)
                  else if is_text_char ch then comment_loop depth r1
                  else None)))"
  by auto
termination
  by (relation "measure (\<lambda>(depth, s). length s)") (auto dest: fws_length)

declare comment_loop.simps [simp del]

definition comment :: "string \<Rightarrow> string option" where
  "comment s = Option.bind (expect CHR ''('' s) (comment_loop 1)"

lemma comment_loop_cases:
  assumes "comment_loop depth s = Some r"
  obtains
    (finished) "depth = 0" "r = s"
  | (opened) spaces r1 where "depth > 0" "fws s = Some (spaces, CHR ''('' # r1)"
      "comment_loop (depth + 1) r1 = Some r"
  | (closed) spaces r1 where "depth > 0" "fws s = Some (spaces, CHR '')'' # r1)"
      "comment_loop (depth - 1) r1 = Some r"
  | (pair) spaces q r1 where "depth > 0" "fws s = Some (spaces, CHR 0x5C # q # r1)"
      "is_ascii_graphic q \<or> is_wsp q" "comment_loop depth r1 = Some r"
  | (plain) spaces ch r1 where "depth > 0" "fws s = Some (spaces, ch # r1)"
      "ch \<noteq> CHR ''(''" "ch \<noteq> CHR '')''" "ch \<noteq> CHR 0x5C" "is_text_char ch"
      "comment_loop depth r1 = Some r"
  using assms
  by (subst (asm) comment_loop.simps) (auto split: if_splits option.splits list.splits)

lemma comment_loop_length: "comment_loop depth s = Some r \<Longrightarrow> length r \<le> length s"
proof (induction s arbitrary: depth rule: length_induct)
  case (1 s)
  have step: "length r \<le> length s"
    if "fws s = Some (spaces, q)" "comment_loop d t = Some r" "length t < length q" for spaces q d t
    using 1(1) [rule_format, of t d] fws_length [OF that(1)] that(2,3) by simp
  from 1(2) show ?case
    by (cases rule: comment_loop_cases) (simp, (erule step, assumption, simp)+)
qed

lemma comment_length: "comment s = Some r \<Longrightarrow> length r < length s"
  by (auto simp: comment_def dest!: comment_loop_length split: bind_splits)

function cfws_loop :: "bool \<Rightarrow> string \<Rightarrow> (bool \<times> string) option" where
  "cfws_loop consumed s =
     (case fws s of
        None \<Rightarrow> None
      | Some (spaces, r) \<Rightarrow>
          if peek r \<noteq> Some CHR ''('' then Some (consumed \<or> spaces \<noteq> [], r)
          else (case comment r of None \<Rightarrow> None | Some r1 \<Rightarrow> cfws_loop True r1))"
  by auto
termination
  by (relation "measure (\<lambda>(consumed, s). length s)") (auto dest!: fws_length comment_length)

declare cfws_loop.simps [simp del]

definition cfws :: "string \<Rightarrow> (bool \<times> string) option" where
  "cfws s = cfws_loop False s"

function quoted_loop :: "string \<Rightarrow> (string \<times> string) option" where
  "quoted_loop s =
     (case fws s of
        None \<Rightarrow> None
      | Some (spaces, r) \<Rightarrow>
          (case r of
             [] \<Rightarrow> None
           | ch # r1 \<Rightarrow>
               if ch = CHR 0x22 then Some (spaces, r1)
               else if ch = CHR 0x5C then
                 (case quoted_pair r1 of
                    None \<Rightarrow> None
                  | Some (q, r2) \<Rightarrow> map_option (\<lambda>(v, t). (spaces @ q # v, t)) (quoted_loop r2))
               else if is_text_char ch
               then map_option (\<lambda>(v, t). (spaces @ ch # v, t)) (quoted_loop r1)
               else None))"
  by auto
termination
  by (relation "measure length") (auto dest: fws_length)

declare quoted_loop.simps [simp del]

definition quoted_string :: "string \<Rightarrow> (string \<times> string) option" where
  "quoted_string s = Option.bind (expect CHR 0x22 s) quoted_loop"


lemma cfws_loop_cases:
  assumes "cfws_loop consumed s = Some (c, r)"
  obtains
    (finished) spaces where "fws s = Some (spaces, r)" "peek r \<noteq> Some CHR ''(''"
      "c = (consumed \<or> spaces \<noteq> [])"
  | (comment) spaces t r1 where "fws s = Some (spaces, t)" "peek t = Some CHR ''(''"
      "comment t = Some r1" "cfws_loop True r1 = Some (c, r)"
  using assms by (subst (asm) cfws_loop.simps) (auto split: if_splits option.splits)

lemma cfws_loop_length: "cfws_loop consumed s = Some (c, r) \<Longrightarrow> length r \<le> length s"
proof (induction s arbitrary: consumed rule: length_induct)
  case (1 s)
  from 1(2) show ?case
  proof (cases rule: cfws_loop_cases)
    case (finished spaces)
    then show ?thesis by (simp add: fws_length)
  next
    case (comment spaces t r1)
    then have "length r1 < length s" using fws_length comment_length by fastforce
    with 1(1) comment show ?thesis by fastforce
  qed
qed

lemma cfws_length: "cfws s = Some (c, r) \<Longrightarrow> length r \<le> length s"
  using cfws_loop_length by (simp add: cfws_def)

lemma quoted_loop_cases:
  assumes "quoted_loop s = Some (v, r)"
  obtains
    (finished) "fws s = Some (v, CHR 0x22 # r)"
  | (pair) spaces q r1 w where "fws s = Some (spaces, CHR 0x5C # q # r1)"
      "is_ascii_graphic q \<or> is_wsp q" "quoted_loop r1 = Some (w, r)" "v = spaces @ q # w"
  | (plain) spaces ch r1 w where "fws s = Some (spaces, ch # r1)" "ch \<noteq> CHR 0x22" "ch \<noteq> CHR 0x5C"
      "is_text_char ch" "quoted_loop r1 = Some (w, r)" "v = spaces @ ch # w"
  using assms
  by (subst (asm) quoted_loop.simps) (auto split: if_splits option.splits list.splits)

lemma quoted_loop_length: "quoted_loop s = Some (v, r) \<Longrightarrow> length r < length s"
proof (induction s arbitrary: v rule: length_induct)
  case (1 s)
  have step: "length r < length s"
    if "fws s = Some (spaces, q)" "quoted_loop t = Some (w, r)" "length t < length q" for spaces q w t
    using 1(1) [rule_format, of t w] fws_length [OF that(1)] that(2,3) by simp
  from 1(2) show ?case
    by (cases rule: quoted_loop_cases) (drule fws_length, simp, (erule step, assumption, simp)+)
qed

lemma quoted_string_length: "quoted_string s = Some (v, r) \<Longrightarrow> length r < length s"
  by (auto simp: quoted_string_def dest!: quoted_loop_length split: bind_splits)

text \<open>One word of a display name: the \<^verbatim>\<open>match self.peek()?\<close> of \<^verbatim>\<open>phrase\<close>.\<close>

definition phrase_word :: "bool \<Rightarrow> string \<Rightarrow> (string \<times> string) option" where
  "phrase_word first s =
     (case peek s of
        None \<Rightarrow> None
      | Some ch \<Rightarrow>
          if ch = CHR 0x22 then quoted_string s
          else if ch = CHR ''.'' \<and> \<not> first then Some (take_while (\<lambda>c. c = CHR ''.'') s)
          else (let (word, r) = take_while is_atext s in if word = [] then None else Some (word, r)))"

lemma take_while_shorter:
  "take_while p s = (w, r) \<Longrightarrow> w \<noteq> [] \<Longrightarrow> length r < length s"
  by (cases s) (auto simp: take_while_def le_imp_less_Suc length_dropWhile_le split: if_splits)

lemma phrase_word_length: "phrase_word first s = Some (w, r) \<Longrightarrow> length r < length s"
proof -
  assume word: "phrase_word first s = Some (w, r)"
  then obtain ch where ch: "peek s = Some ch" by (auto simp: phrase_word_def split: option.splits)
  then have dots: "take_while (\<lambda>c. c = CHR ''.'') s = (w, r) \<Longrightarrow> ch = CHR ''.'' \<Longrightarrow> length r < length s"
    by (cases s) (auto simp: take_while_def le_imp_less_Suc length_dropWhile_le)
  obtain a t where atoms: "take_while is_atext s = (a, t)" by fastforce
  from word ch dots take_while_shorter [OF atoms] show ?thesis
    by (auto simp: phrase_word_def atoms split: if_splits dest: quoted_string_length)
qed

function phrase_loop :: "bool \<Rightarrow> string \<Rightarrow> string \<Rightarrow> (string \<times> string) option" where
  "phrase_loop first name s =
     (case phrase_word first s of
        None \<Rightarrow> None
      | Some (word, r) \<Rightarrow>
          (case cfws r of
             None \<Rightarrow> None
           | Some (separated, r1) \<Rightarrow>
               if peek r1 = Some CHR ''<'' then Some (name @ word, r1)
               else phrase_loop False (name @ word @ (if separated then '' '' else [])) r1))"
  by auto
termination
  by (relation "measure (\<lambda>(first, name, s). length s)")
    (auto dest!: phrase_word_length cfws_length)

declare phrase_loop.simps [simp del]

definition phrase :: "string \<Rightarrow> (string \<times> string) option" where
  "phrase s = phrase_loop True [] s"

section \<open>Domains and the wire form\<close>

definition minimal_local_part :: "string \<Rightarrow> string" where
  "minimal_local_part loc =
     (if is_dot_atom loc then loc
      else [CHR 0x22]
        @ concat (map (\<lambda>ch. if ch = CHR 0x22 \<or> ch = CHR 0x5C then [CHR 0x5C, ch] else [ch]) loc)
        @ [CHR 0x22])"

definition strip_suffix_char :: "char \<Rightarrow> string \<Rightarrow> string option" where
  "strip_suffix_char c s = (if s \<noteq> [] \<and> last s = c then Some (butlast s) else None)"

definition ascii_domain :: "idna \<Rightarrow> string \<Rightarrow> string option" where
  "ascii_domain x d = uts46_to_ascii x d"

text \<open>One octet of an address literal: up to three digits that fit \<^verbatim>\<open>u8\<close>, zero padding allowed.\<close>

definition literal_octet :: "string \<Rightarrow> nat option" where
  "literal_octet part =
     (if str_len part \<le> 3 \<and> list_all is_ascii_digit part then parse_unsigned 8 part else None)"

definition validated_literal :: "string \<Rightarrow> string option" where
  "validated_literal literal =
     (case split_once CHR '':'' literal of
        Some (tag, address) \<Rightarrow>
          if \<not> eq_ignore_ascii_case tag ''IPv6'' then None
          else map_option (\<lambda>segs. ''[IPv6:'' @ show_ipv6 segs @ '']'') (parse_ipv6 address)
      | None \<Rightarrow>
          (case collect_options (map literal_octet (split_on CHR ''.'' literal)) of
             None \<Rightarrow> None
           | Some parts \<Rightarrow>
               if length parts = 4 then Some (''['' @ show_ipv4 parts @ '']'') else None))"

definition validated_domain :: "idna \<Rightarrow> string \<Rightarrow> (string \<times> string) option" where
  "validated_domain x d =
     (case Option.bind (strip_prefix ''['' d) (strip_suffix_char CHR '']'') of
        Some literal \<Rightarrow> map_option (\<lambda>canonical. (canonical, canonical)) (validated_literal literal)
      | None \<Rightarrow>
          map_option
            (\<lambda>ascii. (if list_all is_ascii d then d else domain_to_unicode x ascii,
                      to_ascii_lowercase ascii))
            (ascii_domain x d))"

section \<open>Addresses and mailboxes\<close>

definition is_domain_char :: "char \<Rightarrow> bool" where
  "is_domain_char ch \<longleftrightarrow> is_atext ch \<or> ch = CHR ''.''"

definition local_part_of :: "string \<Rightarrow> (string \<times> string) option" where
  "local_part_of s =
     (if peek s = Some CHR 0x22 then quoted_string s
      else (let (loc, r) = take_while is_domain_char s
            in if is_dot_atom loc then Some (loc, r) else None))"

definition domain_of :: "string \<Rightarrow> (string \<times> string) option" where
  "domain_of s =
     (if peek s = Some CHR ''['' then
        (case expect CHR ''['' s of
           None \<Rightarrow> None
         | Some r \<Rightarrow>
             (let (literal, r1) = take_while (\<lambda>ch. ch \<noteq> CHR '']'') r
              in map_option (\<lambda>r2. (''['' @ literal @ '']'', r2)) (expect CHR '']'' r1)))
      else Some (take_while is_domain_char s))"

text \<open>The last checks of \<^verbatim>\<open>addr_spec\<close>, after the text has been read.\<close>

definition build_mailbox :: "idna \<Rightarrow> bool \<Rightarrow> string \<Rightarrow> string \<Rightarrow> ParsedMailbox option" where
  "build_mailbox x quoted loc d =
     (if list_ex (\<lambda>ch. is_ascii ch \<and> \<not> (32 \<le> char_code ch \<and> char_code ch \<le> 126)) loc then None
      else map_option
        (\<lambda>(wire, key).
           \<lparr>mailbox = \<lparr>mailbox_name = None,
                       mailbox_email = \<lparr>address_user = minimal_local_part loc, address_domain = wire\<rparr>\<rparr>,
            local_part = loc, domain_key = key, quoted_local_part = quoted\<rparr>)
        (validated_domain x d))"

definition addr_spec :: "idna \<Rightarrow> string \<Rightarrow> (ParsedMailbox \<times> string) option" where
  "addr_spec x s0 =
     Option.bind (cfws s0) (\<lambda>(_, s1).
     Option.bind (local_part_of s1) (\<lambda>(loc, s2).
     Option.bind (cfws s2) (\<lambda>(_, s3).
     Option.bind (expect CHR ''@'' s3) (\<lambda>s4.
     Option.bind (cfws s4) (\<lambda>(_, s5).
     Option.bind (domain_of s5) (\<lambda>(d, s6).
     Option.bind (cfws s6) (\<lambda>(_, s7).
     map_option (\<lambda>p. (p, s7)) (build_mailbox x (peek s1 = Some CHR 0x22) loc d))))))))"

text \<open>The address alone, with nothing after it: the attempt on the cloned parser.\<close>

definition parse_bare :: "idna \<Rightarrow> string \<Rightarrow> ParsedMailbox option" where
  "parse_bare x s =
     (case addr_spec x s of
        None \<Rightarrow> None
      | Some (parsed, r) \<Rightarrow>
          (case cfws r of None \<Rightarrow> None | Some (_, t) \<Rightarrow> if peek t = None then Some parsed else None))"

text \<open>The address in angle brackets, after an optional display name.\<close>

definition parse_named :: "idna \<Rightarrow> string \<Rightarrow> ParsedMailbox option" where
  "parse_named x s =
     Option.bind (if peek s = Some CHR ''<'' then Some (None, s)
                  else map_option (\<lambda>(name, r). (Some name, r)) (phrase s)) (\<lambda>(name, s1).
     Option.bind (expect CHR ''<'' s1) (\<lambda>s2.
     Option.bind (addr_spec x s2) (\<lambda>(parsed, s3).
     Option.bind (expect CHR ''>'' s3) (\<lambda>s4.
     Option.bind (cfws s4) (\<lambda>(_, s5).
     if peek s5 \<noteq> None then None
     else Some (parsed\<lparr>mailbox := (mailbox parsed)\<lparr>mailbox_name := name\<rparr>\<rparr>))))))"

definition parse :: "idna \<Rightarrow> string \<Rightarrow> error + ParsedMailbox" where
  "parse x value =
     (case cfws value of
        None \<Rightarrow> Inl invalid_mailbox
      | Some (_, s) \<Rightarrow>
          (case parse_bare x s of
             Some parsed \<Rightarrow> Inr parsed
           | None \<Rightarrow> ok_or invalid_mailbox (parse_named x s)))"

definition parse_mailbox :: "idna \<Rightarrow> string \<Rightarrow> error + Mailbox" where
  "parse_mailbox x value = map_sum id mailbox (parse x value)"

end
