(* ===== verification/Mailbox_Wire.thy ===== *)
theory Mailbox_Wire
  imports Mailbox
begin

text \<open>
  What the outbound mailbox parser guarantees: the iterative comment scanner accepts exactly the
  nested comments of the RFC 5322 grammar; the wire form of an accepted mailbox is free of
  control characters; and reading the wire form again gives the same address back.
\<close>

section \<open>White space\<close>

lemma fws_none: "\<not> is_some_and is_wsp (peek s) \<Longrightarrow> peek s \<noteq> Some CHR 0x0D \<Longrightarrow> fws s = Some ([], s)"
  by (cases s) (auto simp: fws.simps take_while_def is_some_and_def)

lemma not_wsp_cr [simp]: "\<not> is_wsp CHR 0x0D"
  by (simp add: is_wsp_def)

lemma fws_wsp:
  assumes "is_wsp c"
  shows "fws (c # s) = map_option (\<lambda>(v, t). (c # v, t)) (fws s)"
proof -
  have drop: "take_while is_wsp (c # s) = (c # takeWhile is_wsp s, dropWhile is_wsp s)"
    using assms by (simp add: take_while_def)
  show ?thesis
    by (subst (1 2) fws.simps, simp only: drop)
      (auto simp: take_while_def option.map_comp comp_def prod.case_distrib split: option.split bind_splits)
qed

lemma fws_fold:
  assumes "is_wsp c"
  shows "fws (CHR 0x0D # CHR 0x0A # c # s) = fws (c # s)"
  using assms
  by (subst fws.simps) (simp add: take_while_def is_some_and_def map_option_case case_prod_unfold split: option.split)

text \<open>The text that folding white space consumes.\<close>

inductive folding :: "string \<Rightarrow> bool" where
  folding_empty: "folding []"
| folding_wsp: "is_wsp c \<Longrightarrow> folding w \<Longrightarrow> folding (c # w)"
| folding_crlf: "is_wsp c \<Longrightarrow> folding w \<Longrightarrow> folding (CHR 0x0D # CHR 0x0A # c # w)"

lemma folding_append: "folding v \<Longrightarrow> folding w \<Longrightarrow> folding (v @ w)"
  by (induction v rule: folding.induct) (auto intro: folding.intros)

lemma folding_spaces: "\<forall>c \<in> set w. is_wsp c \<Longrightarrow> folding w"
  by (induction w) (auto intro: folding.intros)

inductive_cases folding_ConsE: "folding (c # w)"

lemma fws_folding:
  "fws s = Some (spaces, r) \<Longrightarrow> \<exists>w. folding w \<and> s = w @ r \<and> (is_some_and is_wsp (peek s) \<longrightarrow> w \<noteq> [])"
proof (induction s arbitrary: spaces rule: length_induct)
  case (1 s)
  have spaces: "folding (takeWhile is_wsp s)" by (rule folding_spaces) (auto dest: set_takeWhileD)
  have starts: "is_some_and is_wsp (peek s) \<longrightarrow> takeWhile is_wsp s \<noteq> []"
    by (cases s) (auto simp: is_some_and_def)
  from 1(2) show ?case
  proof (cases rule: fws_cases)
    case plain
    with spaces starts show ?thesis using takeWhile_dropWhile_id by metis
  next
    case (fold r2 spaces2)
    with 1(1) obtain w where w: "folding w" "r2 = w @ r" "w \<noteq> []" by blast
    then obtain c v where c: "w = c # v" by (cases w) auto
    with fold(2) w(2) have "is_wsp c" by (simp add: is_some_and_def)
    with w(1) c have "folding (CHR 0x0D # CHR 0x0A # w)"
      by (auto elim!: folding_ConsE intro: folding_crlf)
    then have "folding (takeWhile is_wsp s @ CHR 0x0D # CHR 0x0A # w)"
      using folding_append spaces by blast
    moreover have "s = (takeWhile is_wsp s @ CHR 0x0D # CHR 0x0A # w) @ r"
      using takeWhile_dropWhile_id [of is_wsp s] fold(1) w(2) by simp
    ultimately show ?thesis by blast
  qed
qed

section \<open>Comments\<close>

text \<open>
  The comments of RFC 5322 (section 3.2.2) as a grammar: the text between the parentheses is made of
  folding white space, plain characters, quoted pairs and comments.
\<close>

inductive comment_body :: "string \<Rightarrow> bool" where
  body_empty: "comment_body []"
| body_wsp: "is_wsp c \<Longrightarrow> comment_body b \<Longrightarrow> comment_body (c # b)"
| body_fold: "is_wsp c \<Longrightarrow> comment_body b \<Longrightarrow> comment_body (CHR 0x0D # CHR 0x0A # c # b)"
| body_plain: "is_text_char c \<Longrightarrow> c \<noteq> CHR ''('' \<Longrightarrow> c \<noteq> CHR '')'' \<Longrightarrow> c \<noteq> CHR 0x5C \<Longrightarrow>
     comment_body b \<Longrightarrow> comment_body (c # b)"
| body_pair: "is_ascii_graphic c \<or> is_wsp c \<Longrightarrow> comment_body b \<Longrightarrow> comment_body (CHR 0x5C # c # b)"
| body_nested: "comment_body a \<Longrightarrow> comment_body b \<Longrightarrow> comment_body (CHR ''('' # a @ CHR '')'' # b)"

lemma folding_body: "folding w \<Longrightarrow> comment_body b \<Longrightarrow> comment_body (w @ b)"
  by (induction w rule: folding.induct) (auto intro: comment_body.intros)

lemma comment_loop_wsp: "is_wsp c \<Longrightarrow> comment_loop (Suc d) (c # s) = comment_loop (Suc d) s"
  by (subst (1 2) comment_loop.simps) (auto simp: fws_wsp split: option.split list.split)

lemma text_char_fws: "is_text_char c \<Longrightarrow> fws (c # s) = Some ([], c # s)"
  by (rule fws_none) (auto simp: is_some_and_def is_text_char_def is_wsp_def is_ascii_graphic_def
      is_ascii_def char_code_def)

lemma special_text_chars [simp]:
  "is_text_char CHR ''(''" "is_text_char CHR '')''" "is_text_char CHR 0x5C" "is_text_char CHR 0x22"
  "is_text_char CHR ''@''" "is_text_char CHR ''[''"
  by (simp_all add: is_text_char_def is_ascii_graphic_def char_code_def)

lemma comment_loop_body:
  "comment_body b \<Longrightarrow> comment_loop (Suc d) (b @ s) = comment_loop (Suc d) s"
proof (induction b arbitrary: d s rule: comment_body.induct)
  case (body_wsp c b)
  then show ?case by (simp add: comment_loop_wsp)
next
  case (body_fold c b)
  have "comment_loop (Suc d) (CHR 0x0D # CHR 0x0A # c # b @ s) = comment_loop (Suc d) (c # b @ s)"
    using body_fold(1) by (subst (1 2) comment_loop.simps) (simp add: fws_fold)
  with body_fold show ?case by (simp add: comment_loop_wsp)
next
  case (body_plain c b)
  then show ?case by (simp add: comment_loop.simps [of "Suc d" "c # b @ s"] text_char_fws)
next
  case (body_pair c b)
  then show ?case
    by (simp add: comment_loop.simps [of "Suc d" "CHR 0x5C # c # b @ s"] text_char_fws quoted_pair_def)
next
  case (body_nested a b)
  then show ?case
    by (simp add: comment_loop.simps [of "Suc d" "CHR ''('' # a @ CHR '')'' # b @ s"]
        comment_loop.simps [of "Suc (Suc d)" "CHR '')'' # b @ s"] text_char_fws)
qed simp

text \<open>The scanner with \<open>depth\<close> open parentheses has that many bodies still to close.\<close>

definition closed_bodies :: "string list \<Rightarrow> string" where
  "closed_bodies bs = concat (map (\<lambda>b. b @ '')'') bs)"

lemma comment_loop_bodies:
  "comment_loop depth s = Some r \<Longrightarrow>
     \<exists>bs. length bs = depth \<and> list_all comment_body bs \<and> s = closed_bodies bs @ r"
proof (induction s arbitrary: depth rule: length_induct)
  case (1 s)
  have step: "\<exists>bs. length bs = d \<and> list_all comment_body bs \<and> t = closed_bodies bs @ r"
    if "fws s = Some (spaces, q)" "comment_loop d t = Some r" "length t < length q" for spaces q d t
    using 1(1) [rule_format, of t d] fws_length [OF that(1)] that(2,3) by simp
  have extend: "\<exists>bs. length bs = depth \<and> list_all comment_body bs \<and> s = closed_bodies bs @ r"
    if "fws s = Some (spaces, q)" "q = x @ closed_bodies (b # bs) @ r" "length bs = depth - 1"
      "depth > 0" "comment_body (x @ b)" "list_all comment_body bs" for spaces q x b bs
  proof -
    from fws_folding [OF that(1)] obtain w where "folding w" "s = w @ q" by blast
    with that have "s = closed_bodies ((w @ x @ b) # bs) @ r" "comment_body (w @ x @ b)"
      by (simp_all add: closed_bodies_def folding_body)
    with that show ?thesis by (intro exI [of _ "(w @ x @ b) # bs"]) simp
  qed
  from 1(2) show ?case
  proof (cases rule: comment_loop_cases)
    case finished
    then show ?thesis by (simp add: closed_bodies_def)
  next
    case (opened spaces r1)
    then obtain a b bs where bs: "length bs = depth - 1" "list_all comment_body (a # b # bs)"
      "r1 = closed_bodies (a # b # bs) @ r"
      using step [OF opened(2,3)] by (cases depth) (auto simp: length_Suc_conv)
    show ?thesis
      by (rule extend [OF opened(2), of "CHR ''('' # a @ '')''" b bs])
        (use bs opened(1) body_nested [of a b] in \<open>simp_all add: closed_bodies_def\<close>)
  next
    case (closed spaces r1)
    then obtain bs where bs: "length bs = depth - 1" "list_all comment_body bs" "r1 = closed_bodies bs @ r"
      using step [OF closed(2,3)] by auto
    obtain w where w: "folding w" "s = w @ CHR '')'' # r1" using fws_folding [OF closed(2)] by blast
    with bs closed(1) folding_body [OF w(1) body_empty] show ?thesis
      by (intro exI [of _ "w # bs"]) (simp add: closed_bodies_def)
  next
    case (pair spaces q r1)
    then obtain b bs where bs: "length bs = depth - 1" "list_all comment_body (b # bs)"
      "r1 = closed_bodies (b # bs) @ r"
      using step [OF pair(2,4)] by (cases depth) (auto simp: length_Suc_conv)
    show ?thesis
      by (rule extend [OF pair(2), of "[CHR 0x5C, q]" b bs])
        (use bs pair body_pair [of q b] in \<open>simp_all add: closed_bodies_def\<close>)
  next
    case (plain spaces ch r1)
    then obtain b bs where bs: "length bs = depth - 1" "list_all comment_body (b # bs)"
      "r1 = closed_bodies (b # bs) @ r"
      using step [OF plain(2,7)] by (cases depth) (auto simp: length_Suc_conv)
    show ?thesis
      by (rule extend [OF plain(2), of "[ch]" b bs])
        (use bs plain body_plain [of ch b] in \<open>simp_all add: closed_bodies_def\<close>)
  qed
qed


text \<open>C28: the comment scanner, which counts open parentheses instead of recursing, accepts exactly the
  nested comments of the grammar, and what it leaves is the text after the closing parenthesis.
\<close>

theorem comment_exact:
  "comment s = Some r \<longleftrightarrow> (\<exists>b. comment_body b \<and> s = CHR ''('' # b @ CHR '')'' # r)"
proof
  assume "comment s = Some r"
  then obtain t where t: "s = CHR ''('' # t" "comment_loop (Suc 0) t = Some r"
    by (auto simp: comment_def split: bind_splits)
  with comment_loop_bodies [OF t(2)] show "\<exists>b. comment_body b \<and> s = CHR ''('' # b @ CHR '')'' # r"
    by (auto simp: length_Suc_conv closed_bodies_def)
next
  assume "\<exists>b. comment_body b \<and> s = CHR ''('' # b @ CHR '')'' # r"
  then obtain b where b: "comment_body b" "s = CHR ''('' # b @ CHR '')'' # r" by blast
  have "comment_loop (Suc 0) (CHR '')'' # r) = Some r"
    by (simp add: comment_loop.simps [of "Suc 0"] comment_loop.simps [of 0] text_char_fws)
  with b show "comment s = Some r" by (simp add: comment_def comment_loop_body)
qed

section \<open>What a mailbox is built from\<close>

definition unnamed :: "ParsedMailbox \<Rightarrow> ParsedMailbox" where
  "unnamed p = p\<lparr>mailbox := (mailbox p)\<lparr>mailbox_name := None\<rparr>\<rparr>"

text \<open>A domain as the parser reads it: a run of domain characters, or a bracketed literal.\<close>

definition read_domain :: "string \<Rightarrow> bool" where
  "read_domain d \<longleftrightarrow> list_all is_domain_char d
     \<or> (\<exists>literal. d = ''['' @ literal @ '']'' \<and> CHR '']'' \<notin> set literal)"

lemma domain_of_read: "domain_of s = Some (d, r) \<Longrightarrow> read_domain d"
proof (cases "peek s = Some CHR ''[''")
  case True
  assume "domain_of s = Some (d, r)"
  with True show ?thesis
    by (auto simp: domain_of_def read_domain_def take_while_def dest: set_takeWhileD split: option.splits)
next
  case False
  assume "domain_of s = Some (d, r)"
  with False show ?thesis
    by (auto simp: domain_of_def read_domain_def take_while_def list_all_iff dest: set_takeWhileD)
qed

lemma addr_spec_built:
  assumes "addr_spec x s = Some (p, r)"
  shows "\<exists>quoted loc d. read_domain d \<and> build_mailbox x quoted loc d = Some p"
  using assms by (auto simp: addr_spec_def split: bind_splits dest!: domain_of_read) blast

lemma build_unnamed: "build_mailbox x quoted loc d = Some p \<Longrightarrow> unnamed p = p"
  by (auto simp: build_mailbox_def unnamed_def split: if_splits)

lemma parse_built:
  assumes "parse x text = Inr p"
  shows "\<exists>quoted loc d. read_domain d \<and> build_mailbox x quoted loc d = Some (unnamed p)"
proof -
  obtain c s where s: "cfws text = Some (c, s)"
    using assms by (auto simp: parse_def split: option.splits)
  show ?thesis
  proof (cases "parse_bare x s")
    case (Some q)
    then obtain r where "addr_spec x s = Some (q, r)"
      by (auto simp: parse_bare_def split: option.splits if_splits)
    then obtain quoted loc d where built: "read_domain d" "build_mailbox x quoted loc d = Some q"
      using addr_spec_built by blast
    moreover have "p = q" using Some assms s by (simp add: parse_def)
    ultimately show ?thesis using build_unnamed [OF built(2)] by force
  next
    case None
    then have "parse_named x s = Some p" using assms s by (simp add: parse_def)
    then obtain q t r name where q: "addr_spec x t = Some (q, r)"
      and p: "p = q\<lparr>mailbox := (mailbox q)\<lparr>mailbox_name := name\<rparr>\<rparr>"
      by (auto simp: parse_named_def split: bind_splits if_splits)
    from addr_spec_built [OF q] obtain quoted loc d where
      built: "read_domain d" "build_mailbox x quoted loc d = Some q" by blast
    moreover have "unnamed p = q" using build_unnamed [OF built(2)] p by (simp add: unnamed_def)
    ultimately show ?thesis by blast
  qed
qed

section \<open>No control characters\<close>

definition is_wire_char :: "char \<Rightarrow> bool" where
  "is_wire_char ch \<longleftrightarrow> \<not> is_ascii ch \<or> (32 \<le> char_code ch \<and> char_code ch \<le> 126)"

definition is_wire_domain_char :: "char \<Rightarrow> bool" where
  "is_wire_domain_char ch \<longleftrightarrow> is_domain_char ch \<or> ch \<in> set ''[]:''"

text \<open>
  What is relied on of IDNA processing, for a domain with characters outside ASCII that it accepts:
  the Unicode form of its result is made of domain characters and is processed to the same result.
\<close>

definition idna_stable :: "idna \<Rightarrow> bool" where
  "idna_stable x \<longleftrightarrow> (\<forall>d a. \<not> list_all is_ascii d \<and> uts46_to_ascii x d = Some a \<longrightarrow>
     list_all is_domain_char (domain_to_unicode x a)
     \<and> uts46_to_ascii x (domain_to_unicode x a) = Some a)"

lemma build_mailbox_Some:
  assumes "build_mailbox x quoted loc d = Some p"
  obtains wire key where "validated_domain x d = Some (wire, key)" "list_all is_wire_char loc"
    "p = \<lparr>mailbox = \<lparr>mailbox_name = None,
            mailbox_email = \<lparr>address_user = minimal_local_part loc, address_domain = wire\<rparr>\<rparr>,
          local_part = loc, domain_key = key, quoted_local_part = quoted\<rparr>"
  using assms by (fastforce simp: build_mailbox_def is_wire_char_def list_all_iff list_ex_iff split: if_splits)

lemma minimal_local_part_wire: "list_all is_wire_char loc \<Longrightarrow> list_all is_wire_char (minimal_local_part loc)"
  by (auto simp: minimal_local_part_def list_all_iff is_wire_char_def char_code_def split: if_splits)

lemma alphanumeric_domain_char: "is_ascii_alphanumeric c \<Longrightarrow> is_wire_domain_char c"
  by (simp add: is_wire_domain_char_def is_domain_char_def is_atext_def)

lemma ipv6_char_wire: "ipv6_char c \<Longrightarrow> is_wire_domain_char c"
  by (auto simp: ipv6_char_def is_digit_in_def to_digit_def Let_def is_wire_domain_char_def is_domain_char_def
      is_atext_def is_ascii_alphanumeric_def split: if_splits)

lemma literal_octet_bound: "literal_octet part = Some n \<Longrightarrow> n < 256"
  by (auto simp: literal_octet_def parse_unsigned_def Let_def split: if_splits)

lemma validated_literal_shape:
  assumes "validated_literal literal = Some canonical"
  obtains (v6) segs where "canonical = ''[IPv6:'' @ show_ipv6 segs @ '']''" "length segs = 8"
      "\<forall>g \<in> set segs. g < 65536"
  | (v4) octets where "canonical = ''['' @ show_ipv4 octets @ '']''" "length octets = 4"
      "\<forall>n \<in> set octets. n < 256"
proof (cases "split_once CHR '':'' literal")
  case (Some p)
  with assms obtain segs where "canonical = ''[IPv6:'' @ show_ipv6 segs @ '']''"
    "parse_ipv6 (snd p) = Some segs"
    by (auto simp: validated_literal_def split: prod.splits if_splits)
  then show ?thesis using parse_ipv6_shape by (intro v6) auto
next
  case None
  with assms obtain octets where octets:
    "collect_options (map literal_octet (split_on CHR ''.'' literal)) = Some octets"
    "length octets = 4" "canonical = ''['' @ show_ipv4 octets @ '']''"
    by (auto simp: validated_literal_def split: option.splits if_splits)
  have "n < 256" if "n \<in> set octets" for n
    using collect_options_SomeD [OF octets(1)] that literal_octet_bound
    unfolding list_all2_conv_all_nth in_set_conv_nth by metis
  with octets show ?thesis by (intro v4) blast+
qed

lemma show_ipv4_wire: "\<forall>c \<in> set (show_ipv4 octets). is_wire_domain_char c"
  using show_ipv4_chars ipv6_char_wire by blast

lemma show_ipv6_wire: "\<forall>c \<in> set (show_ipv6 segs). is_wire_domain_char c"
  using show_ipv6_chars ipv6_char_wire by blast

lemma ipv6_tag_wire: "\<forall>c \<in> set ''[IPv6:]''. is_wire_domain_char c"
  by (simp add: is_wire_domain_char_def is_domain_char_def is_atext_def is_ascii_alphanumeric_def char_code_def)

lemma validated_literal_wire:
  "validated_literal literal = Some canonical \<Longrightarrow> list_all is_wire_domain_char canonical"
  by (erule validated_literal_shape)
    (use show_ipv4_wire show_ipv6_wire ipv6_tag_wire in \<open>auto simp: list_all_iff\<close>)

text \<open>The two kinds of domain the validation tells apart.\<close>

lemma domain_chars_no_literal:
  "list_all is_domain_char d \<Longrightarrow> Option.bind (strip_prefix ''['' d) f = None"
  by (auto simp: strip_prefix_Some is_domain_char_def is_atext_def is_ascii_alphanumeric_def is_ascii_def
      char_code_def split: bind_splits)

lemma bracketed_literal:
  "Option.bind (strip_prefix ''['' (''['' @ literal @ '']'')) (strip_suffix_char CHR '']'') = Some literal"
  by (simp add: strip_prefix_def strip_suffix_char_def)

lemma validated_domain_wire:
  assumes "read_domain d" "idna_stable x" "validated_domain x d = Some (wire, key)"
  shows "list_all is_wire_domain_char wire"
proof (cases "list_all is_domain_char d")
  case True
  with assms(2,3) show ?thesis
    by (auto simp: validated_domain_def domain_chars_no_literal ascii_domain_def idna_stable_def
        list_all_iff is_wire_domain_char_def split: if_splits)
next
  case False
  with assms(1) obtain literal where "d = ''['' @ literal @ '']''" by (auto simp: read_domain_def)
  with assms(3) show ?thesis
    using bracketed_literal validated_literal_wire by (auto simp: validated_domain_def)
qed


text \<open>C24: no accepted mailbox can smuggle a line break or any other ASCII control character into a
  header or an SMTP command: neither its local part, nor the spelling of it that is sent, nor its
  domain contains one, and the domain contains no space, angle bracket, quote or at sign either.
\<close>

theorem mailbox_wire_safe:
  assumes "idna_stable x" "parse x text = Inr p"
  shows "list_all is_wire_char (local_part p)
       \<and> list_all is_wire_char (address_user (mailbox_email (mailbox p)))
       \<and> list_all is_wire_domain_char (address_domain (mailbox_email (mailbox p)))"
proof -
  from parse_built [OF assms(2)] obtain quoted loc d where
    d: "read_domain d" and built: "build_mailbox x quoted loc d = Some (unnamed p)" by blast
  from built obtain wire key where wire: "validated_domain x d = Some (wire, key)"
    and loc: "list_all is_wire_char loc" and p: "local_part (unnamed p) = loc"
    "mailbox_email (mailbox (unnamed p)) = \<lparr>address_user = minimal_local_part loc, address_domain = wire\<rparr>"
    by (auto elim: build_mailbox_Some)
  have "local_part (unnamed p) = local_part p"
    "mailbox_email (mailbox (unnamed p)) = mailbox_email (mailbox p)"
    by (simp_all add: unnamed_def)
  with p loc validated_domain_wire [OF d assms(1) wire] minimal_local_part_wire [OF loc]
  show ?thesis by simp
qed

section \<open>Reading the wire form again\<close>

lemma cfws_none:
  assumes "\<not> is_some_and is_wsp (peek s)" "peek s \<noteq> Some CHR 0x0D" "peek s \<noteq> Some CHR ''(''"
  shows "cfws s = Some (False, s)"
  using fws_none [OF assms(1,2)] assms(3) by (simp add: cfws_def cfws_loop.simps)

lemma cfws_domain_char: "is_wire_domain_char c \<Longrightarrow> cfws (c # s) = Some (False, c # s)"
  by (rule cfws_none)
    (auto simp: is_some_and_def is_wsp_def is_wire_domain_char_def is_domain_char_def is_atext_def
      is_ascii_alphanumeric_def is_ascii_def char_code_def)

lemma cfws_Nil: "cfws [] = Some (False, [])"
  by (rule cfws_none) (simp_all add: is_some_and_def)

lemma cfws_quote: "cfws (CHR 0x22 # s) = Some (False, CHR 0x22 # s)"
  and cfws_at: "cfws (CHR ''@'' # s) = Some (False, CHR ''@'' # s)"
  by (rule cfws_none; simp add: is_some_and_def is_wsp_def)+

lemma quoted_loop_wsp:
  "is_wsp c \<Longrightarrow> quoted_loop (c # s) = map_option (\<lambda>(v, t). (c # v, t)) (quoted_loop s)"
  by (subst (1 2) quoted_loop.simps)
    (auto simp: fws_wsp option.map_comp comp_def prod.case_distrib split: option.split list.split)

lemma char_code_eq: "char_code c = char_code d \<longleftrightarrow> c = d"
  by (simp add: char_code_def)

lemma quoted_loop_escaped:
  "list_all is_wire_char loc \<Longrightarrow>
     quoted_loop (concat (map (\<lambda>ch. if ch = CHR 0x22 \<or> ch = CHR 0x5C then [CHR 0x5C, ch] else [ch]) loc)
       @ CHR 0x22 # s) = Some (loc, s)"
proof (induction loc)
  case Nil
  then show ?case by (simp add: quoted_loop.simps text_char_fws)
next
  case (Cons c loc)
  consider "c = CHR 0x22 \<or> c = CHR 0x5C" | "is_wsp c"
    | "c \<noteq> CHR 0x22" "c \<noteq> CHR 0x5C" "is_text_char c"
    using Cons(2) char_code_eq [of c "CHR '' ''"]
    by (force simp: is_wire_char_def is_text_char_def is_wsp_def is_ascii_graphic_def char_code_def)
  then show ?case
  proof cases
    case 1
    then have "is_ascii_graphic c" by (auto simp: is_ascii_graphic_def char_code_def)
    with 1 Cons show ?thesis
      by (subst quoted_loop.simps) (auto simp: text_char_fws quoted_pair_def)
  next
    case 2
    with Cons show ?thesis by (auto simp: quoted_loop_wsp is_wsp_def)
  next
    case 3
    with Cons show ?thesis by (subst quoted_loop.simps) (auto simp: text_char_fws)
  qed
qed

lemma split_on_chars:
  "\<forall>a \<in> set (split_on c s). list_all p a \<Longrightarrow> list_all (\<lambda>x. p x \<or> x = c) s"
  by (induction s) (auto split: if_splits list.splits)

lemma dot_atom_chars: "is_dot_atom loc \<Longrightarrow> list_all is_domain_char loc"
  using split_on_chars [of "CHR ''.''" loc is_atext]
  by (auto simp: is_dot_atom_def is_domain_char_def list_all_iff)

lemma dot_atom_starts: "is_dot_atom loc \<Longrightarrow> \<exists>c t. loc = c # t \<and> is_atext c"
  by (cases loc) (auto simp: is_dot_atom_def split: if_splits list.splits)

lemma take_while_domain:
  "list_all is_domain_char d \<Longrightarrow> s = [] \<or> \<not> is_domain_char (hd s) \<Longrightarrow>
     take_while is_domain_char (d @ s) = (d, s)"
  by (cases s) (auto simp: take_while_def list_all_iff takeWhile_append dropWhile_append)

lemma not_domain_chars [simp]:
  "\<not> is_domain_char CHR ''@''" "\<not> is_domain_char CHR ''[''" "\<not> is_domain_char CHR 0x22"
  by (simp_all add: is_domain_char_def is_atext_def is_ascii_alphanumeric_def is_ascii_def char_code_def)

lemma local_part_wire:
  assumes "list_all is_wire_char loc"
  shows "local_part_of (minimal_local_part loc @ CHR ''@'' # s) = Some (loc, CHR ''@'' # s)"
    and "cfws (minimal_local_part loc @ CHR ''@'' # s) = Some (False, minimal_local_part loc @ CHR ''@'' # s)"
    and "peek (minimal_local_part loc @ CHR ''@'' # s) = Some CHR 0x22 \<longleftrightarrow> \<not> is_dot_atom loc"
proof -
  have "local_part_of (minimal_local_part loc @ CHR ''@'' # s) = Some (loc, CHR ''@'' # s)
      \<and> cfws (minimal_local_part loc @ CHR ''@'' # s) = Some (False, minimal_local_part loc @ CHR ''@'' # s)
      \<and> (peek (minimal_local_part loc @ CHR ''@'' # s) = Some CHR 0x22 \<longleftrightarrow> \<not> is_dot_atom loc)"
  proof (cases "is_dot_atom loc")
    case True
    obtain c t where c: "loc = c # t" "is_atext c" using dot_atom_starts [OF True] by blast
    then have "is_wire_domain_char c" "c \<noteq> CHR 0x22"
      using not_domain_chars(3) by (auto simp: is_wire_domain_char_def is_domain_char_def)
    with True c take_while_domain [OF dot_atom_chars [OF True], of "CHR ''@'' # s"] show ?thesis
      by (auto simp: minimal_local_part_def local_part_of_def cfws_domain_char)
  next
    case False
    with quoted_loop_escaped [OF assms, of "CHR ''@'' # s"] show ?thesis
      by (simp add: minimal_local_part_def local_part_of_def quoted_string_def cfws_quote)
  qed
  then show "local_part_of (minimal_local_part loc @ CHR ''@'' # s) = Some (loc, CHR ''@'' # s)"
    "cfws (minimal_local_part loc @ CHR ''@'' # s) = Some (False, minimal_local_part loc @ CHR ''@'' # s)"
    "peek (minimal_local_part loc @ CHR ''@'' # s) = Some CHR 0x22 \<longleftrightarrow> \<not> is_dot_atom loc"
    by blast+
qed


text \<open>A validated domain is its own validation.\<close>

lemma split_once_none: "c \<notin> set s \<Longrightarrow> split_once c s = None"
  by (induction s) auto

lemma str_len_digits: "list_all is_ascii_digit s \<Longrightarrow> str_len s = length s"
  by (induction s)
    (auto simp: str_len_def utf8_len_def is_ascii_def is_ascii_digit_def Let_def)

lemma literal_octet_show: "n < 256 \<Longrightarrow> literal_octet (show_nat n) = Some n"
proof -
  assume n: "n < 256"
  have "length (show_nat n) \<le> 3" using length_show_nat [of n 2] n by simp
  then have "str_len (show_nat n) \<le> 3" using str_len_digits [OF show_nat_digits] by simp
  with n show ?thesis using show_nat_digits parse_unsigned_show_nat [of n 8] by (simp add: literal_octet_def)
qed

lemma validated_literal_stable:
  assumes "validated_literal literal = Some canonical"
  obtains inner where "canonical = ''['' @ inner @ '']''" "CHR '']'' \<notin> set inner"
    "validated_literal inner = Some canonical"
  using assms
proof (cases rule: validated_literal_shape)
  case (v6 segs)
  let ?inner = "''IPv6:'' @ show_ipv6 segs"
  have "split_once CHR '':'' ?inner = Some (''IPv6'', show_ipv6 segs)" by simp
  then have "validated_literal ?inner = Some canonical"
    using v6 parse_show_ipv6 by (simp add: validated_literal_def eq_ignore_ascii_case_def)
  moreover have "CHR '']'' \<notin> set ?inner"
    using show_ipv6_chars [of segs] by (auto simp: ipv6_char_def is_digit_in_def to_digit_def char_code_def)
  ultimately show ?thesis using that [of ?inner] v6 by simp
next
  case (v4 octets)
  let ?inner = "show_ipv4 octets"
  have digits: "\<forall>n. \<forall>c \<in> set (show_nat n). is_ascii_digit c"
    using show_nat_digits by (simp add: list_all_iff)
  have special: "\<not> is_ascii_digit CHR ''.''" "\<not> is_ascii_digit CHR '':''" "\<not> is_ascii_digit CHR '']''"
    by (simp_all add: is_ascii_digit_def char_code_def)
  have dots: "split_on CHR ''.'' ?inner = map show_nat octets"
    unfolding show_ipv4_def using v4(2) digits special by (intro split_on_join) auto
  have chars: "\<forall>c \<in> set ?inner. is_ascii_digit c \<or> c = CHR ''.''"
    unfolding show_ipv4_def using digits by (intro join_chars) auto
  then have none: "split_once CHR '':'' ?inner = None"
    using special by (intro split_once_none) auto
  have "collect_options (map literal_octet (map show_nat octets)) = Some octets"
    by (rule collect_options_inverse) (simp add: v4 literal_octet_show)
  with none dots v4 have "validated_literal ?inner = Some canonical" by (simp add: validated_literal_def)
  moreover have "CHR '']'' \<notin> set ?inner" using chars special by auto
  ultimately show ?thesis using that [of ?inner] v4 by simp
qed

lemma validated_domain_stable:
  assumes "read_domain d" "idna_stable x" "validated_domain x d = Some (wire, key)"
  shows "read_domain wire \<and> validated_domain x wire = Some (wire, key)"
proof (cases "list_all is_domain_char d")
  case True
  with assms(3) obtain a where a: "uts46_to_ascii x d = Some a" "key = to_ascii_lowercase a"
    "wire = (if list_all is_ascii d then d else domain_to_unicode x a)"
    by (auto simp: validated_domain_def domain_chars_no_literal ascii_domain_def)
  have wire: "list_all is_domain_char wire \<and> uts46_to_ascii x wire = Some a
      \<and> (list_all is_ascii wire \<or> wire = domain_to_unicode x a)"
  proof (cases "list_all is_ascii d")
    case True
    with a \<open>list_all is_domain_char d\<close> show ?thesis by simp
  next
    case False
    with a assms(2) show ?thesis by (simp add: idna_stable_def)
  qed
  then have "validated_domain x wire
      = Some (if list_all is_ascii wire then wire else domain_to_unicode x a, key)"
    by (simp add: validated_domain_def domain_chars_no_literal ascii_domain_def a(2))
  with wire show ?thesis by (auto simp: read_domain_def)
next
  case False
  with assms(1) obtain literal where "d = ''['' @ literal @ '']''" by (auto simp: read_domain_def)
  then have "validated_literal literal = Some wire" "key = wire"
    using assms(3) bracketed_literal [of literal] by (auto simp: validated_domain_def)
  then obtain inner where "wire = ''['' @ inner @ '']''" "CHR '']'' \<notin> set inner"
    "validated_literal inner = Some wire" by (blast elim: validated_literal_stable)
  with \<open>key = wire\<close> show ?thesis
    using bracketed_literal [of inner] by (auto simp: validated_domain_def read_domain_def)
qed

lemma domain_of_wire:
  assumes "read_domain d"
  shows "domain_of d = Some (d, [])" "cfws d = Some (False, d)"
proof -
  have "domain_of d = Some (d, []) \<and> cfws d = Some (False, d)"
  proof (cases "list_all is_domain_char d")
    case True
    then have "peek d \<noteq> Some CHR ''[''" by (cases d) auto
    with True take_while_domain [OF True, of "[]"] show ?thesis
      by (cases d) (auto simp: domain_of_def cfws_Nil cfws_domain_char is_wire_domain_char_def)
  next
    case False
    with assms obtain literal where d: "d = ''['' @ literal @ '']''" "CHR '']'' \<notin> set literal"
      by (auto simp: read_domain_def)
    have "take_while (\<lambda>ch. ch \<noteq> CHR '']'') (literal @ '']'') = (literal, '']'')"
      using d(2) by (auto simp: take_while_def takeWhile_append dropWhile_append)
    with d show ?thesis by (simp add: domain_of_def cfws_domain_char is_wire_domain_char_def)
  qed
  then show "domain_of d = Some (d, [])" "cfws d = Some (False, d)" by blast+
qed

definition wire_address :: "ParsedMailbox \<Rightarrow> string" where
  "wire_address p = address_to_string (mailbox_email (mailbox p))"

text \<open>C7: the spelling that is sent means what was parsed. Reading \<open>local@domain\<close> of an accepted
  mailbox again succeeds and gives the same local part, the same domain and the same comparison
  key; only the display name is gone, and the local part is quoted exactly when it has to be.
\<close>

theorem mailbox_reparse:
  assumes "idna_stable x" "parse x text = Inr p"
  shows "parse x (wire_address p)
       = Inr ((unnamed p)\<lparr>quoted_local_part := \<not> is_dot_atom (local_part p)\<rparr>)"
proof -
  from parse_built [OF assms(2)] obtain quoted loc d where
    d: "read_domain d" and built: "build_mailbox x quoted loc d = Some (unnamed p)" by blast
  from built obtain wire key where wire: "validated_domain x d = Some (wire, key)"
    and loc: "list_all is_wire_char loc" and p: "unnamed p =
      \<lparr>mailbox = \<lparr>mailbox_name = None,
            mailbox_email = \<lparr>address_user = minimal_local_part loc, address_domain = wire\<rparr>\<rparr>,
          local_part = loc, domain_key = key, quoted_local_part = quoted\<rparr>"
    by (elim build_mailbox_Some)
  have same: "wire_address p = wire_address (unnamed p)" "local_part p = local_part (unnamed p)"
    by (simp_all add: wire_address_def unnamed_def)
  have stable: "read_domain wire" "validated_domain x wire = Some (wire, key)"
    using validated_domain_stable [OF d assms(1) wire] by blast+
  have rebuilt: "build_mailbox x q loc wire = Some ((unnamed p)\<lparr>quoted_local_part := q\<rparr>)" for q
    using stable(2) loc
    by (auto simp: build_mailbox_def p list_ex_iff list_all_iff is_wire_char_def)
  let ?s = "minimal_local_part loc @ CHR ''@'' # wire"
  have "addr_spec x ?s = Some ((unnamed p)\<lparr>quoted_local_part := \<not> is_dot_atom loc\<rparr>, [])"
    by (simp add: addr_spec_def local_part_wire [OF loc] cfws_at domain_of_wire [OF stable(1)] cfws_Nil rebuilt)
  then have "parse x ?s = Inr ((unnamed p)\<lparr>quoted_local_part := \<not> is_dot_atom loc\<rparr>)"
    by (simp add: parse_def local_part_wire [OF loc] parse_bare_def cfws_Nil)
  then show ?thesis by (simp add: same) (simp add: p wire_address_def address_to_string_def)
qed

section \<open>A mailbox with a quoted local part and an international domain\<close>

definition buecher :: string where "buecher = [CHR ''b'', CHR 0xFC] @ ''cher.de''"
definition sample_idna :: idna where
  "sample_idna = \<lparr>
     uts46_to_ascii = (\<lambda>d. if d = [] then None
        else if list_all is_ascii d then Some d
        else if d = buecher then Some ''xn--bcher-kva.de'' else None),
     domain_to_unicode = (\<lambda>a. if a = ''xn--bcher-kva.de'' then buecher else a)\<rparr>"

lemma buecher_chars: "\<not> list_all is_ascii buecher" "list_all is_domain_char buecher"
  by code_simp+

lemma sample_idna_stable: "idna_stable sample_idna"
  using buecher_chars by (auto simp: idna_stable_def sample_idna_def buecher_def)

definition sample_input :: string where
  "sample_input = ''Name (note (x)) <'' @ [CHR 0x22] @ ''a>b'' @ [CHR 0x22] @ ''@'' @ buecher @ ''>''"

definition sample_mailbox :: ParsedMailbox where
  "sample_mailbox = \<lparr>mailbox = \<lparr>mailbox_name = Some ''Name'',
      mailbox_email = \<lparr>address_user = [CHR 0x22] @ ''a>b'' @ [CHR 0x22], address_domain = buecher\<rparr>\<rparr>,
    local_part = ''a>b'', domain_key = ''xn--bcher-kva.de'', quoted_local_part = True\<rparr>"

lemma sample_parsed: "parse sample_idna sample_input = Inr sample_mailbox"
  by code_simp

theorem mailbox_wire_safe_witness:
  "parse sample_idna sample_input = Inr sample_mailbox
   \<and> list_all is_wire_char (local_part sample_mailbox)"
  using sample_parsed mailbox_wire_safe [OF sample_idna_stable sample_parsed] by blast

theorem mailbox_reparse_witness:
  "wire_address sample_mailbox = [CHR 0x22] @ ''a>b'' @ [CHR 0x22] @ ''@'' @ buecher
   \<and> parse sample_idna (wire_address sample_mailbox) = Inr (unnamed sample_mailbox)"
proof -
  have "\<not> is_dot_atom (local_part sample_mailbox)" by code_simp
  then show ?thesis
    using mailbox_reparse [OF sample_idna_stable sample_parsed]
    by (simp add: sample_mailbox_def wire_address_def address_to_string_def unnamed_def)
qed
end
