(* ===== verification/Jmap_Net.thy ===== *)
theory Jmap_Net
  imports Error_Model Json_Value Net_Addr
begin

text \<open>
  The transport core of the JMAP client (\<^verbatim>\<open>mail/jmap/mod.rs\<close>): the session a connection is built
  from, the rewriting of internal URLs, and \<^verbatim>\<open>api_request\<close>, which every operation goes through.

  A server is a function from all the requests handed to the HTTP client so far to the reply to
  the last of them, so it may depend on the whole history; an operation takes the list of
  requests made and returns its result with that list extended. HTTP, TLS and JSON text are the
  client library's: a reply says how its status is classified and gives its decoded body.
\<close>

section \<open>Requests and replies\<close>

datatype http_request =
    ApiPost json
  | UploadPost string "8 word list"
  | SubmissionPost json

datatype failure_kind = BuildFailure | ConnectFailure | ExecutionFailure

datatype status_class = Success | ClientError | OtherStatus

text \<open>
  A request failed with an error of the client, or was answered: the class of the status, the
  status as it is displayed, and the body, or the error of decoding it.
\<close>

datatype reply =
    Failed failure_kind string
  | Answered status_class string "string + json"

type_synonym trace = "http_request list"
type_synonym server = "trace \<Rightarrow> reply"
type_synonym 'a net = "trace \<Rightarrow> 'a result \<times> trace"

definition net_bind :: "'a net \<Rightarrow> ('a \<Rightarrow> 'b net) \<Rightarrow> 'b net" where
  "net_bind m f tr = (case m tr of (Inl e, tr') \<Rightarrow> (Inl e, tr') | (Inr a, tr') \<Rightarrow> f a tr')"

definition net_lift :: "'a result \<Rightarrow> 'a net" where
  "net_lift r tr = (r, tr)"

lemma net_bind_Inr:
  "net_bind m f tr = (Inr b, tr') \<longleftrightarrow> (\<exists>a tr1. m tr = (Inr a, tr1) \<and> f a tr1 = (Inr b, tr'))"
  by (auto simp: net_bind_def split: prod.splits sum.splits)

lemma net_bind_Inl:
  "net_bind m f tr = (Inl e, tr') \<longleftrightarrow>
     m tr = (Inl e, tr') \<or> (\<exists>a tr1. m tr = (Inr a, tr1) \<and> f a tr1 = (Inl e, tr'))"
  by (auto simp: net_bind_def split: prod.splits sum.splits)

section \<open>Sessions and connections\<close>

definition CORE_CAPABILITY :: string where "CORE_CAPABILITY = ''urn:ietf:params:jmap:core''"
definition MAIL_CAPABILITY :: string where "MAIL_CAPABILITY = ''urn:ietf:params:jmap:mail''"
definition SUBMISSION_CAPABILITY :: string where
  "SUBMISSION_CAPABILITY = ''urn:ietf:params:jmap:submission''"
definition CONTACTS_CAPABILITY :: string where
  "CONTACTS_CAPABILITY = ''urn:ietf:params:jmap:contacts''"
definition DEFAULT_MAX_OBJECTS :: nat where "DEFAULT_MAX_OBJECTS = 500"

text \<open>Maps of the session document are association lists in the map's iteration order.\<close>

record JmapCoreCapability =
  core_max_objects_in_get :: "nat option"
  core_max_objects_in_set :: "nat option"

record JmapAccountCapability =
  capability_submission_extensions :: "(string \<times> string list) list"

record JmapAccount =
  account_capabilities :: "(string \<times> JmapAccountCapability) list"

record JmapSession =
  session_api_url :: string
  session_download_url :: string
  session_upload_url :: string
  session_event_source_url :: "string option"
  primary_accounts :: "(string \<times> string) list"
  session_capabilities :: "(string \<times> JmapCoreCapability) list"
  session_accounts :: "(string \<times> JmapAccount) list"

record JmapConnection =
  api_url :: string
  download_url_template :: string
  upload_url_template :: string
  event_source_url_template :: "string option"
  jmap_account_id :: string
  contacts_account :: "string option"
  max_objects_in_get :: nat
  max_objects_in_set :: nat
  submission_extensions :: "(string \<times> string list) list"

definition session_max_get :: "JmapSession \<Rightarrow> nat" where
  "session_max_get s =
     (case Option.bind (map_of (session_capabilities s) CORE_CAPABILITY) core_max_objects_in_get of
        None \<Rightarrow> DEFAULT_MAX_OBJECTS | Some n \<Rightarrow> n)"

definition session_max_set :: "JmapSession \<Rightarrow> nat" where
  "session_max_set s =
     (case Option.bind (map_of (session_capabilities s) CORE_CAPABILITY) core_max_objects_in_set of
        None \<Rightarrow> DEFAULT_MAX_OBJECTS | Some limit \<Rightarrow> if limit > 0 then limit else DEFAULT_MAX_OBJECTS)"

definition has_contacts :: "JmapAccount \<Rightarrow> bool" where
  "has_contacts account \<longleftrightarrow> CONTACTS_CAPABILITY \<in> fst ` set (account_capabilities account)"

definition advertises_contacts :: "JmapSession \<Rightarrow> string \<Rightarrow> bool" where
  "advertises_contacts s account_id \<longleftrightarrow>
     (case map_of (session_accounts s) account_id of None \<Rightarrow> False | Some a \<Rightarrow> has_contacts a)"

text \<open>The provider's own choice first, then the mail account, then the only account there is.\<close>

definition contacts_account_id :: "JmapSession \<Rightarrow> string \<Rightarrow> string option" where
  "contacts_account_id s mail_account_id =
     (case map_of (primary_accounts s) CONTACTS_CAPABILITY of
        Some account_id \<Rightarrow>
          if advertises_contacts s account_id then Some account_id
          else if advertises_contacts s mail_account_id then Some mail_account_id
          else (case filter (\<lambda>(i, a). has_contacts a) (session_accounts s) of [(i, a)] \<Rightarrow> Some i | _ \<Rightarrow> None)
      | None \<Rightarrow>
          if advertises_contacts s mail_account_id then Some mail_account_id
          else (case filter (\<lambda>(i, a). has_contacts a) (session_accounts s) of [(i, a)] \<Rightarrow> Some i | _ \<Rightarrow> None))"

definition session_submission_extensions :: "JmapSession \<Rightarrow> string \<Rightarrow> (string \<times> string list) list" where
  "session_submission_extensions s account_id =
     (case Option.bind (map_of (session_accounts s) account_id)
             (\<lambda>account. map_of (account_capabilities account) SUBMISSION_CAPABILITY) of
        None \<Rightarrow> [] | Some c \<Rightarrow> capability_submission_extensions c)"

definition supports_submission_extension :: "JmapConnection \<Rightarrow> string \<Rightarrow> bool" where
  "supports_submission_extension conn extension \<longleftrightarrow>
     list_ex (\<lambda>(advertised, _). eq_ignore_ascii_case advertised extension) (submission_extensions conn)"

section \<open>URLs\<close>

text \<open>
  What the \<^verbatim>\<open>url\<close> crate gives for a URL it can parse: the explicit port, and the host as
  \<^verbatim>\<open>host_str\<close> returns it, an IPv6 address between brackets.
\<close>

record parsed_url =
  url_port :: "nat option"
  url_host_str :: "string option"

type_synonym url_parser = "string \<Rightarrow> parsed_url option"

definition ipv4_internal :: "nat list \<Rightarrow> bool" where
  "ipv4_internal o4 \<longleftrightarrow>
     o4 ! 0 = 127
   \<or> o4 ! 0 = 10 \<or> (o4 ! 0 = 172 \<and> 16 \<le> o4 ! 1 \<and> o4 ! 1 \<le> 31) \<or> (o4 ! 0 = 192 \<and> o4 ! 1 = 168)
   \<or> (o4 ! 0 = 169 \<and> o4 ! 1 = 254)"

definition ipv6_internal :: "nat list \<Rightarrow> bool" where
  "ipv6_internal segs \<longleftrightarrow>
     segs = [0, 0, 0, 0, 0, 0, 0, 1]
   \<or> (segs ! 0) div 64 * 64 = 65152
   \<or> (segs ! 0) div 512 * 512 = 64512"

definition is_internal_host :: "string \<Rightarrow> bool" where
  "is_internal_host host \<longleftrightarrow>
     (if eq_ignore_ascii_case host ''localhost'' then True
      else
        (case parse_ip host of
           None \<Rightarrow> False
         | Some (Inl octets) \<Rightarrow> ipv4_internal octets
         | Some (Inr segs) \<Rightarrow> ipv6_internal segs))"

definition is_internal_url :: "url_parser \<Rightarrow> string \<Rightarrow> bool" where
  "is_internal_url up url =
     (case up url of
        None \<Rightarrow> False
      | Some parsed \<Rightarrow>
          if url_port parsed \<noteq> None then True
          else (case url_host_str parsed of None \<Rightarrow> False | Some host \<Rightarrow> is_internal_host host))"

definition rewrite_url :: "url_parser \<Rightarrow> string \<Rightarrow> string \<Rightarrow> string" where
  "rewrite_url up internal_url base_url =
     (if \<not> is_internal_url up internal_url then internal_url
      else
        (case str_find ''://'' internal_url of
           None \<Rightarrow> internal_url
         | Some scheme_end \<Rightarrow>
             (let after_scheme = drop (scheme_end + 3) internal_url
              in case str_find ''/'' after_scheme of
                   None \<Rightarrow> internal_url
                 | Some path_start \<Rightarrow> trim_end_char CHR ''/'' base_url @ drop path_start after_scheme)))"

text \<open>The last part of \<^verbatim>\<open>connect_with_clients\<close>, once the session document has been read.\<close>

definition session_connection :: "url_parser \<Rightarrow> string \<Rightarrow> JmapSession \<Rightarrow> JmapConnection result" where
  "session_connection up base_url s =
     (case map_of (primary_accounts s) MAIL_CAPABILITY of
        None \<Rightarrow> Inl (Other ''No primary account in JMAP session'')
      | Some account_id \<Rightarrow>
          Inr \<lparr>api_url = rewrite_url up (session_api_url s) base_url,
               download_url_template = rewrite_url up (session_download_url s) base_url,
               upload_url_template = rewrite_url up (session_upload_url s) base_url,
               event_source_url_template =
                 map_option (\<lambda>u. rewrite_url up u base_url) (session_event_source_url s),
               jmap_account_id = account_id,
               contacts_account = contacts_account_id s account_id,
               max_objects_in_get = session_max_get s,
               max_objects_in_set = session_max_set s,
               submission_extensions = session_submission_extensions s account_id\<rparr>)"

definition event_source_url :: "JmapConnection \<Rightarrow> string \<Rightarrow> nat \<Rightarrow> string option" where
  "event_source_url conn types ping =
     map_option
       (\<lambda>tpl. str_replace ''{ping}'' (show_nat ping)
                (str_replace ''{closeafter}'' ''no'' (str_replace ''{types}'' types tpl)))
       (event_source_url_template conn)"

section \<open>API requests\<close>

definition api_request :: "server \<Rightarrow> json \<Rightarrow> json net" where
  "api_request srv body tr =
     (let tr' = tr @ [ApiPost body]
      in (case srv tr' of
            Failed kind e \<Rightarrow> Inl (Other (''JMAP request failed: '' @ e))
          | Answered Success status (Inr v) \<Rightarrow> Inr v
          | Answered Success status (Inl e) \<Rightarrow> Inl (Other (''JMAP response parse error: '' @ e))
          | Answered _ status _ \<Rightarrow> Inl (Other (''JMAP API error: '' @ status)),
          tr'))"

lemma api_request_trace: "snd (api_request srv body tr) = tr @ [ApiPost body]"
  by (simp add: api_request_def Let_def)

lemma api_request_Inr:
  "api_request srv body tr = (Inr v, tr') \<longleftrightarrow>
     tr' = tr @ [ApiPost body] \<and> (\<exists>status. srv tr' = Answered Success status (Inr v))"
  by (auto simp: api_request_def Let_def split: reply.splits status_class.splits sum.splits)

lemma api_request_Inl: "api_request srv body tr = (Inl e, tr') \<Longrightarrow> tr' = tr @ [ApiPost body] \<and> (\<exists>s. e = Other s)"
  by (auto simp: api_request_def Let_def split: reply.splits status_class.splits sum.splits)

text \<open>Error types a server sent are repeated only when they are short plain tokens.\<close>

definition bounded_jmap_error_type :: "json \<Rightarrow> string option" where
  "bounded_jmap_error_type v =
     (case Option.bind (jget ''type'' v) as_str of
        None \<Rightarrow> None
      | Some t \<Rightarrow>
          if t \<noteq> [] \<and> str_len t \<le> 64
             \<and> list_all (\<lambda>c. is_ascii_alphanumeric c \<or> c \<in> set ''-_.'') t
          then Some t else None)"

definition safe_jmap_error_type :: "json \<Rightarrow> string" where
  "safe_jmap_error_type v = (case bounded_jmap_error_type v of None \<Rightarrow> ''unknown'' | Some t \<Rightarrow> t)"


section \<open>IPv6 hosts\<close>

text \<open>
  \<^verbatim>\<open>host_str\<close> gives an IPv6 address between brackets, and a text that starts with a bracket is no
  address, so a URL on an internal IPv6 address without a port is taken for a public one.
\<close>

lemma bracketed_no_address: "parse_ip (CHR ''['' # s) = None"
proof -
  have digit: "\<not> is_digit_in 10 CHR ''[''" "\<not> is_digit_in 16 CHR ''[''"
    by (simp_all add: is_digit_in_def to_digit_def char_code_def)
  have v4: "read_ipv4_addr (CHR ''['' # s) = None"
    by (rule read_ipv4_no_dot) (simp add: digit)
  have groups: "read_groups 0 (Suc k) (CHR ''['' # s) = ([], False, CHR ''['' # s)" for k
    using v4 digit by (simp add: read_separator_def read_number_def)
  have "read_groups 0 8 (CHR ''['' # s) = ([], False, CHR ''['' # s)"
    using groups [of 7] by (simp del: read_groups.simps)
  then show ?thesis by (simp add: parse_ip_def v4 parse_ipv6_def read_given_char_def)
qed

lemma bracketed_host_public:
  assumes "up url = Some \<lparr>url_port = None, url_host_str = Some (CHR ''['' # s)\<rparr>"
  shows "\<not> is_internal_url up url" "rewrite_url up url base = url"
proof -
  have "\<not> eq_ignore_ascii_case (CHR ''['' # s) ''localhost''"
    by (simp add: eq_ignore_ascii_case_def to_ascii_lowercase_def char_to_ascii_lowercase_def char_code_def)
  then show "\<not> is_internal_url up url"
    using assms by (simp add: is_internal_url_def is_internal_host_def bracketed_no_address)
  then show "rewrite_url up url base = url" by (simp add: rewrite_url_def)
qed

end
