(* ===== verification/Jmap_Envelope.thy ===== *)
theory Jmap_Envelope
  imports Mailbox_Wire Jmap_Net
begin

text \<open>
  The JMAP submission envelope (\<^verbatim>\<open>mail/jmap/mail.rs\<close>) and the choice of the sending identity
  (\<^verbatim>\<open>mail/jmap/identities.rs\<close>): addresses are parsed by the outbound mailbox parser, recipients are
  deduplicated by their meaning rather than their spelling, and the identity that permits the
  sender is the first exact one, or the first wildcard of its domain.
\<close>

section \<open>Envelopes\<close>

record MailboxKey =
  key_local :: string
  key_domain :: string

text \<open>The \<^verbatim>\<open>ParsedMailbox\<close> of \<^verbatim>\<open>mail.rs\<close>.\<close>

record SubmissionMailbox =
  addr_spec_text :: string
  mailbox_key :: MailboxKey
  unquoted_wildcard :: bool

record JmapEnvelopeAddress =
  envelope_email :: string
  envelope_parameters :: "(string \<times> string option) list option"

record JmapSubmissionEnvelope =
  mail_from :: JmapEnvelopeAddress
  rcpt_to :: "JmapEnvelopeAddress list"
  mail_from_mailbox :: SubmissionMailbox

definition mailbox_matches :: "SubmissionMailbox \<Rightarrow> SubmissionMailbox \<Rightarrow> bool" where
  "mailbox_matches m other \<longleftrightarrow> mailbox_key m = mailbox_key other"

definition is_wildcard_for :: "SubmissionMailbox \<Rightarrow> SubmissionMailbox \<Rightarrow> bool" where
  "is_wildcard_for m other \<longleftrightarrow>
     unquoted_wildcard m \<and> key_domain (mailbox_key m) = key_domain (mailbox_key other)"

definition parse_rfc5321_addr_spec :: "idna \<Rightarrow> string \<Rightarrow> SubmissionMailbox option" where
  "parse_rfc5321_addr_spec x text =
     (case parse x text of
        Inl _ \<Rightarrow> None
      | Inr parsed \<Rightarrow>
          Some \<lparr>addr_spec_text = address_to_string (mailbox_email (mailbox parsed)),
                mailbox_key = \<lparr>key_local = local_part parsed, key_domain = domain_key parsed\<rparr>,
                unquoted_wildcard = (\<not> quoted_local_part parsed \<and> local_part parsed = ''*'')\<rparr>)"

definition invalid_mail_from :: error where
  "invalid_mail_from = Other ''Invalid JMAP submission mail-from address''"

definition invalid_recipient :: "nat \<Rightarrow> error" where
  "invalid_recipient position =
     Other (''Invalid JMAP submission recipient at position '' @ show_nat position)"

definition no_recipients :: error where
  "no_recipients = Other ''JMAP submission envelope has no recipients''"

definition plain_address :: "string \<Rightarrow> JmapEnvelopeAddress" where
  "plain_address email = \<lparr>envelope_email = email, envelope_parameters = None\<rparr>"

text \<open>The recipient loop, from \<open>index\<close> on: the keys seen, whether SMTPUTF8 is needed, the recipients.\<close>

fun recipient_loop ::
    "idna \<Rightarrow> nat \<Rightarrow> string list \<Rightarrow> MailboxKey list \<Rightarrow> bool \<Rightarrow> JmapEnvelopeAddress list
     \<Rightarrow> (bool \<times> JmapEnvelopeAddress list) result" where
  "recipient_loop x index [] seen utf8 rcpt = Inr (utf8, rcpt)"
| "recipient_loop x index (v # vs) seen utf8 rcpt =
     (case parse_rfc5321_addr_spec x v of
        None \<Rightarrow> Inl (invalid_recipient (index + 1))
      | Some address \<Rightarrow>
          if mailbox_key address \<in> set seen
          then recipient_loop x (index + 1) vs seen utf8 rcpt
          else recipient_loop x (index + 1) vs (mailbox_key address # seen)
                 (utf8 \<or> \<not> list_all is_ascii (addr_spec_text address))
                 (rcpt @ [plain_address (addr_spec_text address)]))"

definition new_envelope ::
    "idna \<Rightarrow> string \<Rightarrow> string list \<Rightarrow> string list \<Rightarrow> string list \<Rightarrow> JmapSubmissionEnvelope result" where
  "new_envelope x from_text to_list cc bcc =
     (case parse_rfc5321_addr_spec x from_text of
        None \<Rightarrow> Inl invalid_mail_from
      | Some sender \<Rightarrow>
          (case recipient_loop x 0 (to_list @ cc @ bcc) [] (\<not> list_all is_ascii (addr_spec_text sender)) [] of
             Inl e \<Rightarrow> Inl e
           | Inr (utf8, rcpt) \<Rightarrow>
               if rcpt = [] then Inl no_recipients
               else Inr \<lparr>mail_from = \<lparr>envelope_email = addr_spec_text sender,
                           envelope_parameters = (if utf8 then Some [(''SMTPUTF8'', None)] else None)\<rparr>,
                         rcpt_to = rcpt,
                         mail_from_mailbox = sender\<rparr>))"

definition requires_smtputf8 :: "JmapSubmissionEnvelope \<Rightarrow> bool" where
  "requires_smtputf8 env \<longleftrightarrow> envelope_parameters (mail_from env) \<noteq> None"

subsection \<open>The wire value\<close>

text \<open>\<^verbatim>\<open>windows(n).position(|w| w == pattern)\<close>.\<close>

fun find_bytes :: "8 word list \<Rightarrow> 8 word list \<Rightarrow> nat option" where
  "find_bytes pat [] = None"
| "find_bytes pat (b # bs) =
     (if take (length pat) (b # bs) = pat then Some 0 else map_option Suc (find_bytes pat bs))"

definition raw_headers_contain_non_ascii :: "8 word list \<Rightarrow> bool" where
  "raw_headers_contain_non_ascii raw =
     (let header_end =
        (case find_bytes [13, 10, 13, 10] raw of
           Some n \<Rightarrow> n
         | None \<Rightarrow> (case find_bytes [10, 10] raw of Some n \<Rightarrow> n | None \<Rightarrow> length raw))
      in \<not> list_all (\<lambda>b. b < 128) (take header_end raw))"

definition requires_smtputf8_for_message :: "JmapSubmissionEnvelope \<Rightarrow> 8 word list \<Rightarrow> bool" where
  "requires_smtputf8_for_message env raw \<longleftrightarrow>
     requires_smtputf8 env \<or> raw_headers_contain_non_ascii raw"

fun option_json :: "string option \<Rightarrow> json" where
  "option_json None = JNull"
| "option_json (Some s) = JStr s"

definition address_json :: "JmapEnvelopeAddress \<Rightarrow> json" where
  "address_json a =
     jobj [(''email'', JStr (envelope_email a)),
           (''parameters'',
              (case envelope_parameters a of
                 None \<Rightarrow> JNull
               | Some ps \<Rightarrow> jobj (map (\<lambda>(k, v). (k, option_json v)) ps)))]"

definition wire_value :: "JmapSubmissionEnvelope \<Rightarrow> 8 word list \<Rightarrow> json" where
  "wire_value env raw =
     (let from_address =
        (if requires_smtputf8_for_message env raw
         then (mail_from env)\<lparr>envelope_parameters := Some [(''SMTPUTF8'', None)]\<rparr>
         else mail_from env)
      in jobj [(''mailFrom'', address_json from_address),
               (''rcptTo'', JArr (map address_json (rcpt_to env)))])"

section \<open>Identities\<close>

definition identity_call_id :: string where "identity_call_id = ''id1''"

definition identity_method_response :: "json \<Rightarrow> string \<Rightarrow> (string \<times> json) result" where
  "identity_method_response response expected_account_id =
     (case Option.bind (jget ''methodResponses'' response) as_array of
        None \<Rightarrow> Inl (Other ''Malformed JMAP Identity/get response'')
      | Some responses \<Rightarrow>
          if length responses \<noteq> 1 then Inl (Other ''Malformed JMAP Identity/get response count'')
          else
            (case as_array (responses ! 0) of
               Some [m, body, call_id] \<Rightarrow>
                 if as_str call_id \<noteq> Some identity_call_id
                 then Inl (Other ''Mismatched JMAP Identity/get response call id'')
                 else
                   (case as_str m of
                      None \<Rightarrow> Inl (Other ''Malformed JMAP Identity/get method'')
                    | Some method \<Rightarrow>
                        if method = ''Identity/get''
                           \<and> Option.bind (jget ''accountId'' body) as_str \<noteq> Some expected_account_id
                        then Inl (Other ''JMAP Identity/get returned an unexpected account id'')
                        else Inr (method, body))
             | _ \<Rightarrow> Inl (Other ''Malformed JMAP Identity/get response tuple'')))"

definition identity_id :: "json \<Rightarrow> string option" where
  "identity_id identity =
     (case Option.bind (jget ''id'' identity) as_str of
        None \<Rightarrow> None | Some i \<Rightarrow> if i \<noteq> [] then Some i else None)"

definition identity_mailbox :: "idna \<Rightarrow> json \<Rightarrow> SubmissionMailbox option" where
  "identity_mailbox x identity =
     Option.bind (Option.bind (jget ''email'' identity) as_str) (parse_rfc5321_addr_spec x)"

definition no_identity :: error where
  "no_identity = Other ''No JMAP identity permits the submission mail-from address''"

fun select_identity_loop ::
    "idna \<Rightarrow> SubmissionMailbox \<Rightarrow> string option \<Rightarrow> json list \<Rightarrow> string result" where
  "select_identity_loop x sender wildcard_id [] = ok_or no_identity wildcard_id"
| "select_identity_loop x sender wildcard_id (identity # identities) =
     (case identity_id identity of
        None \<Rightarrow> select_identity_loop x sender wildcard_id identities
      | Some i \<Rightarrow>
          (case identity_mailbox x identity of
             None \<Rightarrow> select_identity_loop x sender wildcard_id identities
           | Some email \<Rightarrow>
               if mailbox_matches email sender then Inr i
               else select_identity_loop x sender
                      (if wildcard_id = None \<and> is_wildcard_for email sender then Some i else wildcard_id)
                      identities))"

definition select_identity_id :: "idna \<Rightarrow> json list \<Rightarrow> SubmissionMailbox \<Rightarrow> string result" where
  "select_identity_id x identities sender = select_identity_loop x sender None identities"

definition identity_request :: "JmapConnection \<Rightarrow> json" where
  "identity_request conn =
     jobj [(''using'', json_strings [CORE_CAPABILITY, SUBMISSION_CAPABILITY]),
           (''methodCalls'',
              JArr [JArr [JStr ''Identity/get'',
                          jobj [(''accountId'', JStr (jmap_account_id conn)),
                                (''properties'', json_strings [''id'', ''email''])],
                          JStr identity_call_id]])]"

definition identity_of_response :: "idna \<Rightarrow> JmapConnection \<Rightarrow> SubmissionMailbox \<Rightarrow> json \<Rightarrow> string result" where
  "identity_of_response x conn sender resp =
     and_then (identity_method_response resp (jmap_account_id conn)) (\<lambda>(method, body).
       if method = ''error''
       then Inl (Other (''JMAP Identity/get failed (type='' @ safe_jmap_error_type body @ '')''))
       else if method \<noteq> ''Identity/get''
       then Inl (Other ''JMAP Identity/get returned an unexpected method'')
       else
         and_then (ok_or (Other ''Malformed JMAP Identity/get response'')
                     (Option.bind (jget ''list'' body) as_array))
           (\<lambda>identities. select_identity_id x identities sender))"

definition find_identity_id ::
    "idna \<Rightarrow> server \<Rightarrow> JmapConnection \<Rightarrow> JmapSubmissionEnvelope \<Rightarrow> string net" where
  "find_identity_id x srv conn env =
     net_bind (api_request srv (identity_request conn))
       (\<lambda>resp. net_lift (identity_of_response x conn (mail_from_mailbox env) resp))"


section \<open>Recipients\<close>

text \<open>The first element of every key, in order.\<close>

fun first_by :: "('a \<Rightarrow> 'k) \<Rightarrow> 'a list \<Rightarrow> 'a list" where
  "first_by f [] = []"
| "first_by f (x # xs) = x # filter (\<lambda>y. f y \<noteq> f x) (first_by f xs)"

lemma first_by_keys: "f ` set (first_by f xs) = f ` set xs"
proof (induction xs)
  case (Cons x xs)
  have "f ` set (filter (\<lambda>y. f y \<noteq> f x) (first_by f xs)) = f ` set (first_by f xs) - {f x}" by auto
  with Cons show ?case by auto
qed simp

lemma first_by_distinct: "distinct (map f (first_by f xs))"
proof (induction xs)
  case (Cons x xs)
  then have "distinct (map f (filter (\<lambda>y. f y \<noteq> f x) (first_by f xs)))"
    by (rule distinct_map_filter)
  then show ?case by auto
qed simp

lemma first_by_nonempty: "first_by f xs = [] \<longleftrightarrow> xs = []"
  by (cases xs) auto

lemma somes_map_the: "None \<notin> set ms \<Longrightarrow> somes ms = map the ms"
  by (induction ms rule: somes.induct) auto

text \<open>The loop with the keys already seen drops exactly those and the later duplicates.\<close>

lemma recipient_loop_spec:
  fixes x :: idna
  defines "parsed \<equiv> \<lambda>vs. map (parse_rfc5321_addr_spec x) vs"
  defines "fresh \<equiv> \<lambda>seen vs. filter (\<lambda>m. mailbox_key m \<notin> set seen) (first_by mailbox_key (somes (parsed vs)))"
  shows "recipient_loop x index vs seen utf8 rcpt =
    (if None \<in> set (parsed vs)
     then Inl (invalid_recipient (Suc (index + length (takeWhile (\<lambda>m. m \<noteq> None) (parsed vs)))))
     else Inr (utf8 \<or> list_ex (\<lambda>m. \<not> list_all is_ascii (addr_spec_text m)) (fresh seen vs),
               rcpt @ map (plain_address \<circ> addr_spec_text) (fresh seen vs)))"
proof (induction vs arbitrary: index seen utf8 rcpt)
  case Nil
  show ?case by (simp add: parsed_def fresh_def)
next
  case (Cons v vs)
  show ?case
  proof (cases "parse_rfc5321_addr_spec x v")
    case None
    then show ?thesis by (simp add: parsed_def)
  next
    case (Some m)
    have parsed: "parsed (v # vs) = Some m # parsed vs" by (simp add: parsed_def Some)
    show ?thesis
    proof (cases "mailbox_key m \<in> set seen")
      case True
      have "fresh seen (v # vs) = fresh seen vs"
        using True by (auto simp: fresh_def parsed intro!: filter_cong)
      with True Some Cons [of "index + 1" seen utf8 rcpt] show ?thesis by (simp add: parsed)
    next
      case False
      have "fresh seen (v # vs) = m # fresh (mailbox_key m # seen) vs"
        using False by (auto simp: fresh_def parsed intro!: filter_cong)
      with False Some Cons [of "index + 1" "mailbox_key m # seen"
          "utf8 \<or> \<not> list_all is_ascii (addr_spec_text m)" "rcpt @ [plain_address (addr_spec_text m)]"]
      show ?thesis by (simp add: parsed disj_assoc)
    qed
  qed
qed

text \<open>C27: an envelope is built exactly when the sender and every recipient parse and there is a
  recipient; it lists the first spelling of every recipient, compared by semantic local part and
  canonical domain, in the order of To, Cc and Bcc; it asks for SMTPUTF8 exactly when an address
  it carries is not ASCII; and an invalid recipient is reported by its position only.
\<close>

theorem new_envelope_spec:
  "new_envelope x from_text to_list cc bcc =
     (case parse_rfc5321_addr_spec x from_text of
        None \<Rightarrow> Inl invalid_mail_from
      | Some sender \<Rightarrow>
          (let parsed = map (parse_rfc5321_addr_spec x) (to_list @ cc @ bcc);
               kept = first_by mailbox_key (somes parsed)
           in if None \<in> set parsed
              then Inl (invalid_recipient (Suc (length (takeWhile (\<lambda>m. m \<noteq> None) parsed))))
              else if kept = [] then Inl no_recipients
              else Inr \<lparr>mail_from = \<lparr>envelope_email = addr_spec_text sender,
                          envelope_parameters =
                            (if list_ex (\<lambda>m. \<not> list_all is_ascii (addr_spec_text m)) (sender # kept)
                             then Some [(''SMTPUTF8'', None)] else None)\<rparr>,
                        rcpt_to = map (plain_address \<circ> addr_spec_text) kept,
                        mail_from_mailbox = sender\<rparr>))"
proof (cases "parse_rfc5321_addr_spec x from_text")
  case None
  then show ?thesis by (simp add: new_envelope_def)
next
  case (Some sender)
  then show ?thesis
    by (simp add: new_envelope_def recipient_loop_spec Let_def del: map_append set_map list.set_map)
qed

section \<open>The identity chosen\<close>

text \<open>The identities that have an id and an address the parser accepts.\<close>

definition usable_identity :: "idna \<Rightarrow> json \<Rightarrow> (string \<times> SubmissionMailbox) option" where
  "usable_identity x identity =
     (case (identity_id identity, identity_mailbox x identity) of
        (Some i, Some m) \<Rightarrow> Some (i, m) | _ \<Rightarrow> None)"

lemma select_identity_loop_spec:
  "select_identity_loop x sender wildcard_id identities =
     (case find (\<lambda>(i, m). mailbox_matches m sender) (somes (map (usable_identity x) identities)) of
        Some (i, m) \<Rightarrow> Inr i
      | None \<Rightarrow>
          (case wildcard_id of
             Some i \<Rightarrow> Inr i
           | None \<Rightarrow>
               (case find (\<lambda>(i, m). is_wildcard_for m sender) (somes (map (usable_identity x) identities)) of
                  Some (i, m) \<Rightarrow> Inr i | None \<Rightarrow> Inl no_identity)))"
  by (induction identities arbitrary: wildcard_id)
    (auto simp: usable_identity_def split: option.split)

text \<open>The identity of a submission is the first one whose address means the sender's address;
  only when there is none is it the first unquoted wildcard of the sender's domain; without either
  the submission is refused. Identities without an id or with an unreadable address are ignored.
\<close>

theorem select_identity_spec:
  "select_identity_id x identities sender =
     (let usable = somes (map (usable_identity x) identities)
      in case find (\<lambda>(i, m). mailbox_matches m sender) usable of
           Some (i, m) \<Rightarrow> Inr i
         | None \<Rightarrow>
             (case find (\<lambda>(i, m). is_wildcard_for m sender) usable of
                Some (i, m) \<Rightarrow> Inr i | None \<Rightarrow> Inl no_identity))"
  by (simp add: select_identity_id_def select_identity_loop_spec Let_def split: option.split)

end
