(* ===== verification/Jmap_Mailboxes.thy ===== *)
theory Jmap_Mailboxes
  imports Jmap_Net
begin

text \<open>
  Mailboxes over JMAP (\<^verbatim>\<open>mail/jmap/mailboxes.rs\<close>): listing folders, finding the mailbox of a role,
  creating and destroying mailboxes.
\<close>

text \<open>A request of one method call over the core and mail capabilities.\<close>

definition mail_call :: "string \<Rightarrow> json \<Rightarrow> string \<Rightarrow> json" where
  "mail_call method args call_id =
     jobj [(''using'', json_strings [CORE_CAPABILITY, MAIL_CAPABILITY]),
           (''methodCalls'', JArr [JArr [JStr method, args, JStr call_id]])]"

definition mailbox_get_body :: "json \<Rightarrow> string \<Rightarrow> string \<Rightarrow> json result" where
  "mailbox_get_body response call_id expected_account_id =
     (case Option.bind (jget ''methodResponses'' response) as_array of
        Some [answer] \<Rightarrow>
          (case as_array answer of
             Some [m, body, answered_id] \<Rightarrow>
               if as_str answered_id \<noteq> Some call_id
               then Inl (Other ''JMAP Mailbox/get returned an unexpected call id'')
               else
                 (case as_str m of
                    None \<Rightarrow> Inl (Other ''Malformed JMAP Mailbox/get method'')
                  | Some method \<Rightarrow>
                      if method = ''error''
                      then Inl (Other (''JMAP Mailbox/get failed (type='' @ safe_jmap_error_type body @ '')''))
                      else if method \<noteq> ''Mailbox/get''
                      then Inl (Other ''JMAP Mailbox/get returned an unexpected method'')
                      else if Option.bind (jget ''accountId'' body) as_str \<noteq> Some expected_account_id
                      then Inl (Other ''JMAP Mailbox/get returned an unexpected account id'')
                      else Inr body)
           | _ \<Rightarrow> Inl (Other ''Malformed JMAP Mailbox/get response tuple''))
      | _ \<Rightarrow> Inl (Other ''Malformed JMAP Mailbox/get response count''))"

section \<open>Roles\<close>

fun is_object :: "json \<Rightarrow> bool" where
  "is_object (JObj _) = True"
| "is_object _ = False"

fun is_null_or_string :: "json \<Rightarrow> bool" where
  "is_null_or_string JNull = True"
| "is_null_or_string (JStr _) = True"
| "is_null_or_string _ = False"

fun role_loop :: "string \<Rightarrow> json list \<Rightarrow> string option result" where
  "role_loop role [] = Inr None"
| "role_loop role (mb # mbs) =
     (if \<not> is_object mb then Inl (Other ''JMAP Mailbox/get returned a malformed mailbox'')
      else
        (case Option.bind (jget ''id'' mb) as_str of
           None \<Rightarrow> Inl (Other ''JMAP Mailbox/get returned a mailbox without an id'')
         | Some i \<Rightarrow>
             if i = [] then Inl (Other ''JMAP Mailbox/get returned a mailbox without an id'')
             else
               (case jget ''role'' mb of
                  None \<Rightarrow> Inl (Other ''JMAP Mailbox/get omitted a requested role'')
                | Some r \<Rightarrow>
                    if \<not> is_null_or_string r
                    then Inl (Other ''JMAP Mailbox/get returned a malformed role'')
                    else if as_str r = Some role then Inr (Some i)
                    else role_loop role mbs)))"

definition mailbox_id_by_role :: "json \<Rightarrow> string \<Rightarrow> string \<Rightarrow> string option result" where
  "mailbox_id_by_role response role expected_account_id =
     and_then (mailbox_get_body response ''r1'' expected_account_id) (\<lambda>body.
     and_then (ok_or (Other ''JMAP Mailbox/get returned no mailbox list'')
                 (Option.bind (jget ''list'' body) as_array)) (\<lambda>mailboxes.
     role_loop role mailboxes))"

definition find_mailbox_by_role :: "server \<Rightarrow> JmapConnection \<Rightarrow> string \<Rightarrow> string option net" where
  "find_mailbox_by_role srv conn role =
     net_bind
       (api_request srv
          (mail_call ''Mailbox/get''
             (jobj [(''accountId'', JStr (jmap_account_id conn)),
                    (''properties'', json_strings [''id'', ''role''])]) ''r1''))
       (\<lambda>resp. net_lift (mailbox_id_by_role resp role (jmap_account_id conn)))"

section \<open>Folders\<close>

text \<open>Name, id, folder type, parent.\<close>

definition folder_type :: "string option \<Rightarrow> string option" where
  "folder_type role =
     (case role of
        None \<Rightarrow> None
      | Some r \<Rightarrow>
          if r \<in> {''inbox'', ''drafts'', ''sent'', ''trash'', ''junk'', ''archive''} then Some r else None)"

definition folder_row :: "json \<Rightarrow> string \<times> string \<times> string option \<times> string option" where
  "folder_row mb =
     (or_default ''Unknown'' (as_str (jfield ''name'' mb)), or_default [] (as_str (jfield ''id'' mb)),
      folder_type (as_str (jfield ''role'' mb)), as_str (jfield ''parentId'' mb))"

definition list_folders ::
    "server \<Rightarrow> JmapConnection \<Rightarrow> (string \<times> string \<times> string option \<times> string option) list net" where
  "list_folders srv conn =
     net_bind
       (api_request srv
          (mail_call ''Mailbox/get''
             (jobj [(''accountId'', JStr (jmap_account_id conn)),
                    (''properties'',
                       json_strings [''id'', ''name'', ''role'', ''totalEmails'', ''unreadEmails'', ''parentId''])])
             ''m1''))
       (\<lambda>resp. net_lift
          (and_then (mailbox_get_body resp ''m1'' (jmap_account_id conn)) (\<lambda>body.
           map_sum id (map folder_row)
             (ok_or (Other ''Invalid Mailbox/get response'') (Option.bind (jget ''list'' body) as_array)))))"

section \<open>Creating and destroying\<close>

definition first_answer :: "nat \<Rightarrow> json \<Rightarrow> json" where
  "first_answer i resp = jelem i (jelem 0 (jfield ''methodResponses'' resp))"

definition create_mailbox ::
    "server \<Rightarrow> JmapConnection \<Rightarrow> string \<Rightarrow> string option \<Rightarrow> string net" where
  "create_mailbox srv conn name parent_id =
     (let mb = jobj ((''name'', JStr name) #
                 (case parent_id of None \<Rightarrow> [] | Some pid \<Rightarrow> [(''parentId'', JStr pid)]))
      in net_bind
        (api_request srv
           (mail_call ''Mailbox/set''
              (jobj [(''accountId'', JStr (jmap_account_id conn)),
                     (''create'', jobj [(''new-folder'', mb)])]) ''c1''))
        (\<lambda>resp. net_lift
           (let body = first_answer 1 resp;
                created_id = or_default []
                  (as_str (jfield ''id'' (jfield ''new-folder'' (jfield ''created'' body))))
            in if created_id = []
               then Inl (Other (''JMAP Mailbox/set create failed: '' @
                 or_default ''Unknown error''
                   (as_str (jfield ''description'' (jfield ''new-folder'' (jfield ''notCreated'' body))))))
               else Inr created_id)))"

definition destroy_mailbox :: "server \<Rightarrow> JmapConnection \<Rightarrow> string \<Rightarrow> bool \<Rightarrow> unit net" where
  "destroy_mailbox srv conn mailbox_id remove_messages =
     net_bind
       (api_request srv
          (mail_call ''Mailbox/set''
             (jobj [(''accountId'', JStr (jmap_account_id conn)),
                    (''onDestroyRemoveEmails'', JBool remove_messages),
                    (''destroy'', json_strings [mailbox_id])]) ''d1''))
       (\<lambda>resp. net_lift
          (let method_name = or_default ''<unknown>'' (as_str (first_answer 0 resp));
               body = first_answer 1 resp;
               destroyed = (case as_array (jfield ''destroyed'' body) of
                              None \<Rightarrow> False | Some vs \<Rightarrow> list_ex (\<lambda>v. as_str v = Some mailbox_id) vs)
           in if method_name \<noteq> ''Mailbox/set''
              then Inl (Other (''Unexpected JMAP response to mailbox destroy: '' @ method_name))
              else if \<not> destroyed
              then Inl (Other (''JMAP Mailbox/set destroy failed: '' @
                or_default ''Unknown error''
                  (as_str (jfield ''description'' (jfield mailbox_id (jfield ''notDestroyed'' body))))))
              else Inr ()))"

section \<open>Lemmas\<close>

lemma find_mailbox_trace:
  "find_mailbox_by_role srv conn role tr = (r, tr') \<Longrightarrow> \<exists>body. tr' = tr @ [ApiPost body]"
  using api_request_trace [of srv _ tr]
  by (auto simp: find_mailbox_by_role_def net_bind_def net_lift_def split: prod.splits sum.splits)
    (metis snd_conv)+

end
