(* ===== verification/Jmap_Submission.thy ===== *)
theory Jmap_Submission
  imports Jmap_Envelope Jmap_Mailboxes
begin

text \<open>
  Sending over JMAP (\<^verbatim>\<open>mail/jmap/mail.rs\<close>): \<^verbatim>\<open>send_email\<close> with every request it makes, the classification
  of the server's answer, and the uploads of drafts and imported messages. An outcome that does
  not prove whether the message was accepted is \<^verbatim>\<open>IndeterminateDelivery\<close>, which the outbox never
  retries by itself.
\<close>

section \<open>Answers\<close>

datatype 'a creation_outcome = Created 'a | Rejected error | Indeterminate

record SubmissionResponseFailure =
  imported_email_id :: "string option"
  failure_error :: error

text \<open>\<^verbatim>\<open>Value::pointer\<close> for a path of member names that are not numbers.\<close>

fun json_pointer :: "string list \<Rightarrow> json \<Rightarrow> json option" where
  "json_pointer [] v = Some v"
| "json_pointer (k # ks) v = Option.bind (jget k v) (json_pointer ks)"

definition non_empty_str :: "json \<Rightarrow> string option" where
  "non_empty_str v = Option.bind (as_str v) (\<lambda>s. if s = [] then None else Some s)"

definition has_expected_account_id :: "json \<Rightarrow> string \<Rightarrow> bool" where
  "has_expected_account_id body expected_account_id \<longleftrightarrow>
     Option.bind (jget ''accountId'' body) as_str = Some expected_account_id"

definition typed_error :: "string \<Rightarrow> string \<Rightarrow> error" where
  "typed_error ctxt error_type = Other (ctxt @ '' (type='' @ error_type @ '')'')"

definition bounded_rejection :: "string \<Rightarrow> json \<Rightarrow> error option" where
  "bounded_rejection ctxt e = map_option (typed_error ctxt) (bounded_jmap_error_type e)"

definition classify_method_error :: "string \<Rightarrow> json \<Rightarrow> 'a creation_outcome" where
  "classify_method_error ctxt e =
     (case bounded_jmap_error_type e of
        None \<Rightarrow> Indeterminate
      | Some error_type \<Rightarrow>
          if error_type = ''serverPartialFail'' then Indeterminate
          else Rejected (typed_error ctxt error_type))"

text \<open>The one response of a call; any repetition or malformed tuple of the call spoils it.\<close>

fun matching_loop :: "string \<Rightarrow> (string \<times> json) option \<Rightarrow> json list \<Rightarrow> (string \<times> json) option" where
  "matching_loop call_id matched [] = matched"
| "matching_loop call_id matched (response # responses) =
     (case as_array response of
        None \<Rightarrow> matching_loop call_id matched responses
      | Some tuple \<Rightarrow>
          if (if length tuple > 2 then as_str (tuple ! 2) else None) \<noteq> Some call_id
          then matching_loop call_id matched responses
          else if length tuple \<noteq> 3 \<or> matched \<noteq> None then None
          else
            (case as_str (tuple ! 0) of
               None \<Rightarrow> None
             | Some method \<Rightarrow> matching_loop call_id (Some (method, tuple ! 1)) responses))"

definition matching_method_response :: "json \<Rightarrow> string \<Rightarrow> (string \<times> json) option" where
  "matching_method_response response call_id =
     Option.bind (Option.bind (jget ''methodResponses'' response) as_array) (matching_loop call_id None)"

definition creation_answer ::
    "string \<Rightarrow> string \<Rightarrow> string option \<Rightarrow> json option \<Rightarrow> string creation_outcome" where
  "creation_answer ctxt kind created rejected =
     (case (created, rejected) of
        (Some i, None) \<Rightarrow> Created i
      | (None, Some e) \<Rightarrow>
          (case bounded_rejection (ctxt @ '' rejected '' @ kind) e of
             None \<Rightarrow> Indeterminate | Some err \<Rightarrow> Rejected err)
      | _ \<Rightarrow> Indeterminate)"

definition classify_import_response :: "json \<Rightarrow> string \<Rightarrow> string creation_outcome" where
  "classify_import_response response expected_account_id =
     (case matching_method_response response ''i1'' of
        None \<Rightarrow> Indeterminate
      | Some (method, body) \<Rightarrow>
          if method = ''error'' then classify_method_error ''JMAP Email/import failed'' body
          else if method \<noteq> ''Email/import'' then Indeterminate
          else if \<not> has_expected_account_id body expected_account_id then Indeterminate
          else creation_answer ''JMAP Email/import'' ''draft''
                 (Option.bind (json_pointer [''created'', ''draft'', ''id''] body) non_empty_str)
                 (json_pointer [''notCreated'', ''draft''] body))"

fun outcome_unit :: "'a creation_outcome \<Rightarrow> unit creation_outcome" where
  "outcome_unit (Created a) = Created ()"
| "outcome_unit (Rejected e) = Rejected e"
| "outcome_unit Indeterminate = Indeterminate"

definition classify_email_submission_response :: "json \<Rightarrow> string \<Rightarrow> unit creation_outcome" where
  "classify_email_submission_response response expected_account_id =
     (case matching_method_response response ''s1'' of
        None \<Rightarrow> Indeterminate
      | Some (method, body) \<Rightarrow>
          if method = ''error'' then classify_method_error ''JMAP EmailSubmission/set failed'' body
          else if method \<noteq> ''EmailSubmission/set'' then Indeterminate
          else if \<not> has_expected_account_id body expected_account_id then Indeterminate
          else outcome_unit
                 (creation_answer ''JMAP EmailSubmission/set'' ''submission''
                   (Option.bind (json_pointer [''created'', ''sub1'', ''id''] body) non_empty_str)
                   (json_pointer [''notCreated'', ''sub1''] body)))"

definition validate_submission_response ::
    "json \<Rightarrow> string \<Rightarrow> SubmissionResponseFailure + unit" where
  "validate_submission_response response expected_account_id =
     (case (classify_import_response response expected_account_id,
            classify_email_submission_response response expected_account_id) of
        (Created _, Created _) \<Rightarrow> Inr ()
      | (Created email_id, Rejected e) \<Rightarrow>
          Inl \<lparr>imported_email_id = Some email_id, failure_error = e\<rparr>
      | (Rejected e, Rejected _) \<Rightarrow> Inl \<lparr>imported_email_id = None, failure_error = e\<rparr>
      | (Rejected e, Indeterminate) \<Rightarrow> Inl \<lparr>imported_email_id = None, failure_error = e\<rparr>
      | (Indeterminate, Rejected e) \<Rightarrow> Inl \<lparr>imported_email_id = None, failure_error = e\<rparr>
      | _ \<Rightarrow> Inl \<lparr>imported_email_id = None, failure_error = IndeterminateDelivery\<rparr>)"

definition validate_draft_import_response :: "json \<Rightarrow> string \<Rightarrow> unit result" where
  "validate_draft_import_response response expected_account_id =
     (case classify_import_response response expected_account_id of
        Created _ \<Rightarrow> Inr ()
      | Rejected e \<Rightarrow> Inl e
      | Indeterminate \<Rightarrow> Inl (Other ''Malformed JMAP draft import response''))"

definition submission_upload_blob_id :: "json \<Rightarrow> string \<Rightarrow> string result" where
  "submission_upload_blob_id response expected_account_id =
     (if Option.bind (jget ''accountId'' response) as_str \<noteq> Some expected_account_id
      then Inl (Other ''JMAP upload response did not match the requested account'')
      else ok_or (Other ''No blobId in upload response'')
             (Option.bind (jget ''blobId'' response) non_empty_str))"

section \<open>Requests\<close>

definition submission_api_request :: "server \<Rightarrow> json \<Rightarrow> json net" where
  "submission_api_request srv request tr =
     (let tr' = tr @ [SubmissionPost request]
      in (case srv tr' of
            Failed BuildFailure _ \<Rightarrow> Inl (Other ''JMAP submission request failed before execution'')
          | Failed ConnectFailure _ \<Rightarrow> Inl (Other ''JMAP submission request failed before execution'')
          | Failed ExecutionFailure _ \<Rightarrow> Inl IndeterminateDelivery
          | Answered Success status (Inr v) \<Rightarrow> Inr v
          | Answered Success status (Inl _) \<Rightarrow> Inl IndeterminateDelivery
          | Answered ClientError status _ \<Rightarrow>
              Inl (Other (''JMAP submission request rejected with HTTP status '' @ status))
          | Answered OtherStatus status _ \<Rightarrow> Inl IndeterminateDelivery,
          tr'))"

text \<open>The upload of a message; \<open>what\<close> names it in the errors.\<close>

definition upload_message :: "server \<Rightarrow> JmapConnection \<Rightarrow> string \<Rightarrow> 8 word list \<Rightarrow> json net" where
  "upload_message srv conn what raw tr =
     (let tr' = tr @ [UploadPost (str_replace ''{accountId}'' (jmap_account_id conn) (upload_url_template conn)) raw]
      in (case srv tr' of
            Failed _ e \<Rightarrow> Inl (Other (''JMAP '' @ what @ '' failed: '' @ e))
          | Answered Success status (Inr v) \<Rightarrow> Inr v
          | Answered Success status (Inl e) \<Rightarrow> Inl (Other (''JMAP '' @ what @ '' response parse error: '' @ e))
          | Answered _ status _ \<Rightarrow> Inl (Other (''JMAP '' @ what @ '' error: '' @ status)),
          tr'))"

definition import_call :: "JmapConnection \<Rightarrow> string \<Rightarrow> string \<Rightarrow> string \<Rightarrow> (string \<times> json) list \<Rightarrow> json" where
  "import_call conn creation_id blob_id mailbox_id keywords =
     JArr [JStr ''Email/import'',
           jobj [(''accountId'', JStr (jmap_account_id conn)),
                 (''emails'',
                    jobj [(creation_id,
                       jobj [(''blobId'', JStr blob_id),
                             (''mailboxIds'', jobj [(mailbox_id, JBool True)]),
                             (''keywords'', jobj keywords)])])],
           JStr ''i1'']"

definition submission_request :: "JmapConnection \<Rightarrow> string \<Rightarrow> string \<Rightarrow> string \<Rightarrow> json \<Rightarrow> json" where
  "submission_request conn blob_id sent_mailbox_id identity wire_envelope =
     jobj [(''using'', json_strings [CORE_CAPABILITY, MAIL_CAPABILITY, SUBMISSION_CAPABILITY]),
           (''methodCalls'',
              JArr [import_call conn ''draft'' blob_id sent_mailbox_id [(''$seen'', JBool True)],
                    JArr [JStr ''EmailSubmission/set'',
                          jobj [(''accountId'', JStr (jmap_account_id conn)),
                                (''create'',
                                   jobj [(''sub1'',
                                      jobj [(''emailId'', JStr ''#draft''),
                                            (''identityId'', JStr identity),
                                            (''envelope'', wire_envelope)])])],
                          JStr ''s1'']])]"

definition cleanup_request :: "JmapConnection \<Rightarrow> string \<Rightarrow> json" where
  "cleanup_request conn email_id =
     mail_call ''Email/set''
       (jobj [(''accountId'', JStr (jmap_account_id conn)), (''destroy'', json_strings [email_id])])
       ''cleanup''"

text \<open>What follows the submission: an imported message is removed only after an explicit rejection.\<close>

definition finish_submission :: "server \<Rightarrow> JmapConnection \<Rightarrow> json \<Rightarrow> unit net" where
  "finish_submission srv conn resp tr =
     (case validate_submission_response resp (jmap_account_id conn) of
        Inr _ \<Rightarrow> (Inr (), tr)
      | Inl failure \<Rightarrow>
          (Inl (failure_error failure),
           case imported_email_id failure of
             None \<Rightarrow> tr
           | Some email_id \<Rightarrow> snd (api_request srv (cleanup_request conn email_id) tr)))"

definition sent_mailbox :: "server \<Rightarrow> JmapConnection \<Rightarrow> string net" where
  "sent_mailbox srv conn =
     net_bind (find_mailbox_by_role srv conn ''sent'') (\<lambda>found.
       case found of
         Some mailbox_id \<Rightarrow> net_lift (Inr mailbox_id)
       | None \<Rightarrow>
           net_bind (find_mailbox_by_role srv conn ''inbox'') (\<lambda>inbox.
             net_lift (ok_or (Other ''No Sent or Inbox mailbox found'') inbox)))"

definition send_email ::
    "idna \<Rightarrow> server \<Rightarrow> JmapConnection \<Rightarrow> 8 word list \<Rightarrow> JmapSubmissionEnvelope \<Rightarrow> unit net" where
  "send_email x srv conn raw env =
     (if requires_smtputf8_for_message env raw \<and> \<not> supports_submission_extension conn ''SMTPUTF8''
      then net_lift (Inl (Other ''JMAP submission requires unsupported SMTPUTF8 extension''))
      else
        net_bind (find_identity_id x srv conn env) (\<lambda>identity.
        net_bind (sent_mailbox srv conn) (\<lambda>sent_mailbox_id.
        net_bind (upload_message srv conn ''upload'' raw) (\<lambda>upload_resp.
        net_bind (net_lift (submission_upload_blob_id upload_resp (jmap_account_id conn))) (\<lambda>blob_id.
        net_bind (submission_api_request srv
                    (submission_request conn blob_id sent_mailbox_id identity (wire_value env raw)))
          (finish_submission srv conn))))))"

definition save_draft :: "server \<Rightarrow> JmapConnection \<Rightarrow> 8 word list \<Rightarrow> unit net" where
  "save_draft srv conn raw =
     net_bind (upload_message srv conn ''draft upload'' raw) (\<lambda>upload_resp.
     net_bind (net_lift (submission_upload_blob_id upload_resp (jmap_account_id conn))) (\<lambda>blob_id.
     net_bind (find_mailbox_by_role srv conn ''drafts'') (\<lambda>found.
     net_bind (net_lift (ok_or (Other ''No Drafts mailbox found'') found)) (\<lambda>drafts_mailbox_id.
     net_bind (api_request srv
                 (jobj [(''using'', json_strings [CORE_CAPABILITY, MAIL_CAPABILITY]),
                        (''methodCalls'',
                           JArr [import_call conn ''draft'' blob_id drafts_mailbox_id
                                   [(''$seen'', JBool True), (''$draft'', JBool True)]])]))
       (\<lambda>resp. net_lift (validate_draft_import_response resp (jmap_account_id conn)))))))"

definition import_email_to_mailbox ::
    "server \<Rightarrow> JmapConnection \<Rightarrow> 8 word list \<Rightarrow> string \<Rightarrow> bool \<Rightarrow> unit net" where
  "import_email_to_mailbox srv conn raw mailbox_id seen =
     net_bind (upload_message srv conn ''upload'' raw) (\<lambda>upload_resp.
     net_bind (net_lift (ok_or (Other ''No blobId in upload response'')
                           (as_str (jfield ''blobId'' upload_resp)))) (\<lambda>blob_id.
     net_bind (api_request srv
                 (jobj [(''using'', json_strings [CORE_CAPABILITY, MAIL_CAPABILITY]),
                        (''methodCalls'',
                           JArr [import_call conn ''e1'' blob_id mailbox_id
                                   (if seen then [(''$seen'', JBool True)] else [])])]))
       (\<lambda>resp. net_lift (Inr ()))))"

end
