(* ===== verification/Jmap_Delivery.thy ===== *)
theory Jmap_Delivery
  imports Jmap_Submission
begin

text \<open>
  What the result of a JMAP submission says about delivery. The server is any function of the
  requests made; of it only the meaning RFC 8620 and RFC 8621 give to its answers is assumed. Then
  a success means the message was accepted, an error other than the indeterminate one means this
  attempt was not, and a submission is attempted at most once, after everything else succeeded.
\<close>

section \<open>The requests of a submission\<close>

fun is_api_post :: "http_request \<Rightarrow> bool" where
  "is_api_post (ApiPost _) = True"
| "is_api_post _ = False"

fun is_submission_post :: "http_request \<Rightarrow> bool" where
  "is_submission_post (SubmissionPost _) = True"
| "is_submission_post _ = False"

lemma net_lift_eq [simp]: "net_lift r tr = (r', tr') \<longleftrightarrow> r = r' \<and> tr = tr'"
  by (auto simp: net_lift_def)

lemma api_bind_trace:
  assumes "net_bind (api_request srv body) (\<lambda>v. net_lift (f v)) tr = (r, tr')"
  shows "tr' = tr @ [ApiPost body]"
proof -
  obtain q tr1 where api: "api_request srv body tr = (q, tr1)" by fastforce
  then have "tr1 = tr @ [ApiPost body]" using api_request_trace [of srv body tr] by simp
  with assms api show ?thesis by (cases q) (auto simp: net_bind_def)
qed

lemma find_identity_trace:
  "find_identity_id x srv conn env tr = (r, tr') \<Longrightarrow> tr' = tr @ [ApiPost (identity_request conn)]"
  unfolding find_identity_id_def by (rule api_bind_trace)

lemma sent_mailbox_trace:
  assumes "sent_mailbox srv conn tr = (r, tr')"
  shows "\<exists>apis. tr' = tr @ apis \<and> list_all is_api_post apis \<and> length apis \<le> 2"
proof -
  obtain q tr1 where sent: "find_mailbox_by_role srv conn ''sent'' tr = (q, tr1)" by fastforce
  obtain b1 where b1: "tr1 = tr @ [ApiPost b1]" using find_mailbox_trace [OF sent] by blast
  obtain q2 tr2 where inbox: "find_mailbox_by_role srv conn ''inbox'' tr1 = (q2, tr2)" by fastforce
  obtain b2 where b2: "tr2 = tr1 @ [ApiPost b2]" using find_mailbox_trace [OF inbox] by blast
  from assms sent inbox have "tr' = tr1 \<or> tr' = tr2"
    by (auto simp: sent_mailbox_def net_bind_def split: sum.splits option.splits)
  with b1 b2 show ?thesis by (auto intro: exI [of _ "[ApiPost b1]"] exI [of _ "[ApiPost b1, ApiPost b2]"])
qed

definition upload_request :: "JmapConnection \<Rightarrow> 8 word list \<Rightarrow> http_request" where
  "upload_request conn raw =
     UploadPost (str_replace ''{accountId}'' (jmap_account_id conn) (upload_url_template conn)) raw"

lemma upload_trace: "upload_message srv conn what raw tr = (r, tr') \<Longrightarrow> tr' = tr @ [upload_request conn raw]"
  by (auto simp: upload_message_def upload_request_def Let_def)

lemma send_email_cases:
  assumes "send_email x srv conn raw env tr = (r, tr')"
  obtains
    (refused) apis e where "tr' = tr @ apis" "list_all is_api_post apis" "length apis \<le> 3" "r = Inl e"
  | (not_uploaded) apis e where "tr' = tr @ apis @ [upload_request conn raw]"
      "list_all is_api_post apis" "length apis \<le> 3" "r = Inl e"
  | (submitted) apis j q tr1 where "list_all is_api_post apis" "length apis \<le> 3"
      "\<exists>blob_id mailbox_id identity. j = submission_request conn blob_id mailbox_id identity (wire_value env raw)"
      "submission_api_request srv j (tr @ apis @ [upload_request conn raw]) = (q, tr1)"
      "(case q of Inl e \<Rightarrow> r = Inl e \<and> tr' = tr1 | Inr resp \<Rightarrow> finish_submission srv conn resp tr1 = (r, tr'))"
proof (cases "requires_smtputf8_for_message env raw \<and> \<not> supports_submission_extension conn ''SMTPUTF8''")
  case True
  with assms show ?thesis by (intro refused [of "[]"]) (auto simp: send_email_def)
next
  case False
  obtain q1 tr1 where ident: "find_identity_id x srv conn env tr = (q1, tr1)" by fastforce
  note tr1 = find_identity_trace [OF ident]
  obtain q2 tr2 where sent: "sent_mailbox srv conn tr1 = (q2, tr2)" by fastforce
  obtain boxes where boxes: "tr2 = tr1 @ boxes" "list_all is_api_post boxes" "length boxes \<le> 2"
    using sent_mailbox_trace [OF sent] by blast
  obtain q3 tr3 where upload: "upload_message srv conn ''upload'' raw tr2 = (q3, tr3)" by fastforce
  note tr3 = upload_trace [OF upload]
  let ?apis = "ApiPost (identity_request conn) # boxes"
  have apis: "list_all is_api_post ?apis" "length ?apis \<le> 3" "tr2 = tr @ ?apis"
    "tr3 = tr @ ?apis @ [upload_request conn raw]"
    using boxes tr1 tr3 by simp_all
  show ?thesis
  proof (cases q1)
    case (Inl e)
    with assms False ident have "r = Inl e" "tr' = tr1" by (auto simp: send_email_def net_bind_def)
    with tr1 show ?thesis by (intro refused [of "[ApiPost (identity_request conn)]"]) auto
  next
    case q1: (Inr identity)
    show ?thesis
    proof (cases q2)
      case (Inl e)
      with assms False ident q1 sent have "r = Inl e" "tr' = tr2"
        by (auto simp: send_email_def net_bind_def)
      with apis show ?thesis by (intro refused [of ?apis]) auto
    next
      case q2: (Inr mailbox_id)
      show ?thesis
      proof (cases "and_then q3 (\<lambda>v. submission_upload_blob_id v (jmap_account_id conn))")
        case (Inl e)
        with assms False ident q1 sent q2 upload have "r = Inl e" "tr' = tr3"
          by (auto simp: send_email_def net_bind_def net_lift_def and_then_def split: sum.splits)
        with apis show ?thesis by (intro not_uploaded [of ?apis]) auto
      next
        case (Inr blob_id)
        let ?j = "submission_request conn blob_id mailbox_id identity (wire_value env raw)"
        obtain q4 tr4 where post: "submission_api_request srv ?j tr3 = (q4, tr4)" by fastforce
        with assms False ident q1 sent q2 upload Inr
        have "(case q4 of Inl e \<Rightarrow> r = Inl e \<and> tr' = tr4 | Inr resp \<Rightarrow> finish_submission srv conn resp tr4 = (r, tr'))"
          by (auto simp: send_email_def net_bind_def net_lift_def split: sum.splits)
        with apis post show ?thesis by (intro submitted [of ?apis ?j q4 tr4]) auto
      qed
    qed
  qed
qed

lemma submission_trace:
  "submission_api_request srv j tr = (q, tr1) \<Longrightarrow> tr1 = tr @ [SubmissionPost j]"
  by (auto simp: submission_api_request_def Let_def)

lemma validate_failure_imported:
  assumes "validate_submission_response resp account = Inl failure" "imported_email_id failure = Some i"
  shows "failure_error failure \<noteq> IndeterminateDelivery"
proof -
  have "classify_email_submission_response resp account = Rejected (failure_error failure)"
    using assms by (auto simp: validate_submission_response_def split: creation_outcome.splits)
  then show ?thesis
    by (auto simp: classify_email_submission_response_def classify_method_error_def creation_answer_def
        bounded_rejection_def typed_error_def
        split: option.splits if_splits prod.splits creation_outcome.splits)
qed


section \<open>What a server means by its answers\<close>

text \<open>A response to the call \<open>cid\<close>: method \<open>m\<close> with arguments \<open>args\<close>.\<close>

definition reports :: "json \<Rightarrow> string \<Rightarrow> string \<Rightarrow> json \<Rightarrow> bool" where
  "reports resp cid m args \<longleftrightarrow>
     (\<exists>rs. jget ''methodResponses'' resp = Some (JArr rs) \<and> JArr [JStr m, args, JStr cid] \<in> set rs)"

text \<open>A method error other than a partial failure says that the call changed nothing.\<close>

definition reports_failure :: "json \<Rightarrow> string \<Rightarrow> bool" where
  "reports_failure resp cid \<longleftrightarrow>
     (\<exists>args t. reports resp cid ''error'' args \<and> jget ''type'' args = Some (JStr t) \<and> t \<noteq> ''serverPartialFail'')"

definition reports_rejection :: "json \<Rightarrow> bool" where
  "reports_rejection resp \<longleftrightarrow>
     reports_failure resp ''s1'' \<or> reports_failure resp ''i1''
   \<or> (\<exists>args e. reports resp ''s1'' ''EmailSubmission/set'' args \<and> json_pointer [''notCreated'', ''sub1''] args = Some e)
   \<or> (\<exists>args e. reports resp ''i1'' ''Email/import'' args \<and> json_pointer [''notCreated'', ''draft''] args = Some e)"

definition reports_creation :: "json \<Rightarrow> bool" where
  "reports_creation resp \<longleftrightarrow>
     (\<exists>args i. reports resp ''s1'' ''EmailSubmission/set'' args
        \<and> json_pointer [''created'', ''sub1'', ''id''] args = Some (JStr i))"

text \<open>
  \<open>accepted tr\<close> says that the server has accepted a submission after the requests \<open>tr\<close>. Only a
  submission request can change that. One that was never sent or was refused with a client error
  does not; of a successful answer the responses say whether it did. Nothing is assumed of the
  other answers.
\<close>

definition honours_jmap :: "server \<Rightarrow> (trace \<Rightarrow> bool) \<Rightarrow> bool" where
  "honours_jmap srv accepted \<longleftrightarrow>
     (\<forall>tr req. \<not> is_submission_post req \<longrightarrow> accepted (tr @ [req]) = accepted tr) \<and>
     (\<forall>tr j.
        (case srv (tr @ [SubmissionPost j]) of
           Failed kind _ \<Rightarrow> kind \<noteq> ExecutionFailure \<longrightarrow> accepted (tr @ [SubmissionPost j]) = accepted tr
         | Answered ClientError _ _ \<Rightarrow> accepted (tr @ [SubmissionPost j]) = accepted tr
         | Answered Success _ (Inr resp) \<Rightarrow>
             (reports_rejection resp \<longrightarrow> accepted (tr @ [SubmissionPost j]) = accepted tr)
             \<and> (reports_creation resp \<longrightarrow> accepted (tr @ [SubmissionPost j]))
         | _ \<Rightarrow> True))"

lemma accepted_quiet:
  assumes "honours_jmap srv accepted" "list_all (\<lambda>r. \<not> is_submission_post r) rs"
  shows "accepted (tr @ rs) = accepted tr"
  using assms(2)
proof (induction rs rule: rev_induct)
  case (snoc r rs)
  then show ?case using assms(1) by (simp add: honours_jmap_def flip: append_assoc)
qed simp

lemma matching_loop_Some:
  "matching_loop cid matched rs = Some (m, body) \<Longrightarrow>
     matched = Some (m, body) \<or> JArr [JStr m, body, JStr cid] \<in> set rs"
proof (induction rs arbitrary: matched)
  case (Cons v rs)
  show ?case
  proof (cases "\<exists>t. as_array v = Some t \<and> (if length t > 2 then as_str (t ! 2) else None) = Some cid")
    case False
    then have "matching_loop cid matched (v # rs) = matching_loop cid matched rs"
      by (auto split: option.split)
    with Cons show ?thesis by auto
  next
    case True
    then obtain t where t: "as_array v = Some t" "length t > 2" "as_str (t ! 2) = Some cid"
      by (auto split: if_splits)
    with Cons.prems have "length t = 3" "matched = None" by (cases matched; auto split: if_splits)+
    then obtain a b c where abc: "t = [a, b, c]" by (auto simp: numeral_eq_Suc length_Suc_conv)
    with t have v: "v = JArr [a, b, JStr cid]"
      by (cases v; cases c) auto
    with Cons.prems t abc \<open>matched = None\<close> obtain n where n: "as_str a = Some n"
      "matching_loop cid (Some (n, b)) rs = Some (m, body)"
      by (auto split: option.splits)
    then have "a = JStr n" by (cases a) auto
    with Cons.IH [OF n(2)] v show ?thesis by auto
  qed
qed simp

lemma matching_reports:
  "matching_method_response resp cid = Some (m, body) \<Longrightarrow> reports resp cid m body"
proof -
  assume match: "matching_method_response resp cid = Some (m, body)"
  then obtain v rs where v: "jget ''methodResponses'' resp = Some v" "as_array v = Some rs"
    "matching_loop cid None rs = Some (m, body)"
    by (auto simp: matching_method_response_def split: bind_splits)
  moreover have "v = JArr rs" using v(2) by (cases v) auto
  ultimately show ?thesis using matching_loop_Some [OF v(3)] by (auto simp: reports_def)
qed

lemma bounded_type_Some: "bounded_jmap_error_type v = Some t \<Longrightarrow> jget ''type'' v = Some (JStr t)"
proof -
  assume t: "bounded_jmap_error_type v = Some t"
  then obtain w where w: "jget ''type'' v = Some w" "as_str w = Some t"
    by (auto simp: bounded_jmap_error_type_def split: option.splits bind_splits if_splits)
  then show ?thesis by (cases w) auto
qed

lemma method_error_reports:
  "matching_method_response resp cid = Some (''error'', body) \<Longrightarrow>
     classify_method_error ctxt body = Rejected e \<Longrightarrow> reports_failure resp cid"
  using matching_reports bounded_type_Some
  by (fastforce simp: classify_method_error_def reports_failure_def split: option.splits if_splits)

lemma creation_answer_simps:
  "creation_answer ctxt kind a b = Rejected e \<Longrightarrow> \<exists>v. b = Some v"
  "creation_answer ctxt kind a b = Created i \<Longrightarrow> a = Some i"
  by (auto simp: creation_answer_def split: option.splits)

lemma outcome_unit_simps:
  "outcome_unit c = Rejected e \<longleftrightarrow> c = Rejected e" "outcome_unit c = Created () \<longleftrightarrow> (\<exists>a. c = Created a)"
  by (cases c; simp)+

lemma rejected_submission_reports:
  assumes "classify_email_submission_response resp account = Rejected e"
  shows "reports_rejection resp"
proof -
  from assms obtain m body where match: "matching_method_response resp ''s1'' = Some (m, body)"
    by (auto simp: classify_email_submission_response_def split: option.splits)
  show ?thesis
  proof (cases "m = ''error''")
    case True
    with assms match show ?thesis
      by (auto simp: classify_email_submission_response_def reports_rejection_def dest: method_error_reports)
  next
    case False
    with assms match have "m = ''EmailSubmission/set''"
      "\<exists>v. json_pointer [''notCreated'', ''sub1''] body = Some v"
      by (auto simp: classify_email_submission_response_def outcome_unit_simps
          simp del: json_pointer.simps dest: creation_answer_simps(1) split: if_splits)
    with matching_reports [OF match] show ?thesis by (auto simp: reports_rejection_def)
  qed
qed

lemma rejected_import_reports:
  assumes "classify_import_response resp account = Rejected e"
  shows "reports_rejection resp"
proof -
  from assms obtain m body where match: "matching_method_response resp ''i1'' = Some (m, body)"
    by (auto simp: classify_import_response_def split: option.splits)
  show ?thesis
  proof (cases "m = ''error''")
    case True
    with assms match show ?thesis
      by (auto simp: classify_import_response_def reports_rejection_def dest: method_error_reports)
  next
    case False
    with assms match have "m = ''Email/import''"
      "\<exists>v. json_pointer [''notCreated'', ''draft''] body = Some v"
      by (auto simp: classify_import_response_def simp del: json_pointer.simps
          dest: creation_answer_simps(1) split: if_splits)
    with matching_reports [OF match] show ?thesis by (auto simp: reports_rejection_def)
  qed
qed

lemma created_submission_reports:
  assumes "classify_email_submission_response resp account = Created ()"
  shows "reports_creation resp"
proof -
  from assms obtain m body where match: "matching_method_response resp ''s1'' = Some (m, body)"
    by (auto simp: classify_email_submission_response_def split: option.splits)
  with assms have m: "m = ''EmailSubmission/set''"
    and "\<exists>i. Option.bind (json_pointer [''created'', ''sub1'', ''id''] body) non_empty_str = Some i"
    by (auto simp: classify_email_submission_response_def outcome_unit_simps classify_method_error_def
        simp del: json_pointer.simps dest: creation_answer_simps(2) split: if_splits option.splits)
  then obtain i v where v: "json_pointer [''created'', ''sub1'', ''id''] body = Some v" "as_str v = Some i"
    by (auto simp: non_empty_str_def simp del: json_pointer.simps split: bind_splits)
  then have "v = JStr i" by (cases v) auto
  with v(1) matching_reports [OF match] m show ?thesis unfolding reports_creation_def by blast
qed

lemma validate_meaning:
  "validate_submission_response resp account = Inr () \<Longrightarrow> reports_creation resp"
  "validate_submission_response resp account = Inl failure \<Longrightarrow>
     failure_error failure = IndeterminateDelivery \<or> reports_rejection resp"
  using created_submission_reports rejected_submission_reports rejected_import_reports
  by (auto simp: validate_submission_response_def split: creation_outcome.splits)

text \<open>C3: the result of a send can be trusted. Against any server whose answers mean what the JMAP
  specifications say, a successful send was accepted, and a send that failed with any error but
  the indeterminate one was not accepted by this attempt, so the outbox may repeat it.
\<close>

theorem send_email_definite:
  assumes "honours_jmap srv accepted" "send_email x srv conn raw env tr = (r, tr')"
  shows "(case r of Inr _ \<Rightarrow> accepted tr'
          | Inl e \<Rightarrow> e = IndeterminateDelivery \<or> accepted tr' = accepted tr)"
  using assms(2)
proof (cases rule: send_email_cases)
  case (refused apis e)
  have "list_all (\<lambda>r. \<not> is_submission_post r) apis"
    using refused(2) by (auto simp: list_all_iff elim!: is_api_post.elims)
  with refused accepted_quiet [OF assms(1)] show ?thesis by simp
next
  case (not_uploaded apis e)
  have "list_all (\<lambda>r. \<not> is_submission_post r) (apis @ [upload_request conn raw])"
    using not_uploaded(2) by (auto simp: list_all_iff upload_request_def elim!: is_api_post.elims)
  with not_uploaded accepted_quiet [OF assms(1)] show ?thesis by simp
next
  case (submitted apis j q tr1)
  let ?tr0 = "tr @ apis @ [upload_request conn raw]"
  have "list_all (\<lambda>r. \<not> is_submission_post r) (apis @ [upload_request conn raw])"
    using submitted(1) by (auto simp: list_all_iff upload_request_def elim!: is_api_post.elims)
  then have before: "accepted ?tr0 = accepted tr" by (rule accepted_quiet [OF assms(1)])
  have tr1: "tr1 = ?tr0 @ [SubmissionPost j]" by (rule submission_trace [OF submitted(4)])
  have contract: "case srv tr1 of
       Failed kind _ \<Rightarrow> kind \<noteq> ExecutionFailure \<longrightarrow> accepted tr1 = accepted ?tr0
     | Answered ClientError _ _ \<Rightarrow> accepted tr1 = accepted ?tr0
     | Answered Success _ (Inr resp) \<Rightarrow>
         (reports_rejection resp \<longrightarrow> accepted tr1 = accepted ?tr0) \<and> (reports_creation resp \<longrightarrow> accepted tr1)
     | _ \<Rightarrow> True"
    using assms(1) unfolding honours_jmap_def tr1 by blast
  show ?thesis
  proof (cases q)
    case (Inl e)
    with submitted(4) contract have "e = IndeterminateDelivery \<or> accepted tr1 = accepted ?tr0"
      by (auto simp: submission_api_request_def Let_def tr1
          split: reply.splits failure_kind.splits status_class.splits sum.splits)
    with Inl submitted(5) before show ?thesis by simp
  next
    case (Inr resp)
    with submitted(4) contract have meaning: "reports_rejection resp \<longrightarrow> accepted tr1 = accepted ?tr0"
      "reports_creation resp \<longrightarrow> accepted tr1"
      by (auto simp: submission_api_request_def Let_def tr1
          split: reply.splits failure_kind.splits status_class.splits sum.splits)
    show ?thesis
    proof (cases "validate_submission_response resp (jmap_account_id conn)")
      case r: (Inr u)
      with Inr submitted(5) meaning(2) validate_meaning(1) [of resp "jmap_account_id conn"] show ?thesis
        by (auto simp: finish_submission_def)
    next
      case r: (Inl failure)
      have "accepted tr' = accepted tr1" "r = Inl (failure_error failure)"
        using Inr submitted(5) r accepted_quiet [OF assms(1), of "[ApiPost (cleanup_request conn i)]" tr1 for i]
        by (auto simp: finish_submission_def api_request_trace split: option.splits)
      with meaning(1) validate_meaning(2) [OF r] before show ?thesis by auto
    qed
  qed
qed

section \<open>A session\<close>

definition sample_jmap_conn :: JmapConnection where
  "sample_jmap_conn = \<lparr>api_url = ''https://m.test/api'', download_url_template = [],
     upload_url_template = ''https://m.test/up/{accountId}'', event_source_url_template = None,
     jmap_account_id = ''a'', contacts_account = None, max_objects_in_get = 500,
     max_objects_in_set = 2, submission_extensions = []\<rparr>"

definition sample_answer :: "string \<Rightarrow> (string \<times> json) list \<Rightarrow> string \<Rightarrow> json" where
  "sample_answer m args cid = JArr [JStr m, JObj ((''accountId'', JStr ''a'') # args), JStr cid]"

definition sample_responses :: "json list \<Rightarrow> reply" where
  "sample_responses rs = Answered Success ''200 OK'' (Inr (JObj [(''methodResponses'', JArr rs)]))"

text \<open>A server with one identity and a Sent mailbox that accepts every submission.\<close>

definition sample_created :: "json list" where
  "sample_created =
     [sample_answer ''Email/import''
        [(''created'', JObj [(''draft'', JObj [(''id'', JStr ''e1'')])])] ''i1'',
      sample_answer ''EmailSubmission/set''
        [(''created'', JObj [(''sub1'', JObj [(''id'', JStr ''s9'')])])] ''s1'']"

definition sample_server :: server where
  "sample_server tr =
     (case last tr of
        UploadPost _ _ \<Rightarrow>
          Answered Success ''200 OK'' (Inr (JObj [(''accountId'', JStr ''a''), (''blobId'', JStr ''b'')]))
      | SubmissionPost _ \<Rightarrow> sample_responses sample_created
      | ApiPost _ \<Rightarrow>
          if length tr = 1
          then sample_responses [sample_answer ''Identity/get''
                 [(''list'', JArr [JObj [(''id'', JStr ''i''), (''email'', JStr ''*@example.com'')]])] ''id1'']
          else sample_responses [sample_answer ''Mailbox/get''
                 [(''list'', JArr [JObj [(''id'', JStr ''m''), (''role'', JStr ''sent'')]])] ''r1''])"

definition sample_envelope :: JmapSubmissionEnvelope where
  "sample_envelope =
     \<lparr>mail_from = plain_address ''alice@example.com'', rcpt_to = [plain_address ''bob@example.com''],
      mail_from_mailbox = \<lparr>addr_spec_text = ''alice@example.com'',
        mailbox_key = \<lparr>key_local = ''alice'', key_domain = ''example.com''\<rparr>, unquoted_wildcard = False\<rparr>\<rparr>"

definition sample_run :: "unit result \<times> trace" where
  "sample_run = send_email sample_idna sample_server sample_jmap_conn [72, 105] sample_envelope []"

lemma sample_run_sent: "fst sample_run = Inr ()" "length (snd sample_run) = 4"
  by code_simp+

lemma sample_run_eq:
  "send_email sample_idna sample_server sample_jmap_conn [72, 105] sample_envelope [] = (Inr (), snd sample_run)"
  using sample_run_sent(1) by (simp add: sample_run_def prod_eq_iff)

lemma sample_honours: "honours_jmap sample_server (list_ex is_submission_post)"
proof -
  have "\<not> reports_rejection (JObj [(''methodResponses'', JArr sample_created)])"
    by (auto simp: reports_rejection_def reports_failure_def reports_def sample_created_def sample_answer_def)
  then show ?thesis by (simp add: honours_jmap_def sample_server_def sample_responses_def)
qed


theorem send_email_definite_witness:
  "fst sample_run = Inr () \<and> list_ex is_submission_post (snd sample_run)"
  using send_email_definite [OF sample_honours sample_run_eq] sample_run_sent(1) by simp

section \<open>Imports are not checked\<close>

text \<open>Importing a message into a mailbox of another account succeeds whatever the server answers
  to \<^verbatim>\<open>Email/import\<close>, an explicit rejection included; the cross-account move that relies on it goes
  on to delete the original.
\<close>

theorem import_ignores_rejection:
  assumes "upload_message srv conn ''upload'' raw tr = (Inr v, tr1)"
    and "jget ''blobId'' v = Some (JStr blob_id)"
    and "\<And>body. srv (tr1 @ [ApiPost body]) = Answered Success status (Inr answer)"
  shows "fst (import_email_to_mailbox srv conn raw mailbox_id seen tr) = Inr ()"
  using assms
  by (simp add: import_email_to_mailbox_def net_bind_def net_lift_def jfield_def api_request_def Let_def)

text \<open>The same server, refusing every import.\<close>

definition refusing_server :: server where
  "refusing_server tr =
     (case last tr of
        ApiPost _ \<Rightarrow> sample_responses [sample_answer ''Email/import''
          [(''notCreated'', JObj [(''e1'', JObj [(''type'', JStr ''overQuota'')])])] ''i1'']
      | _ \<Rightarrow> sample_server tr)"

theorem import_ignores_rejection_witness:
  "fst (import_email_to_mailbox refusing_server sample_jmap_conn [72, 105] ''m'' False []) = Inr ()"
proof -
  let ?v = "JObj [(''accountId'', JStr ''a''), (''blobId'', JStr ''b'')]"
  have "upload_message refusing_server sample_jmap_conn ''upload'' [72, 105] []
      = (Inr ?v, [upload_request sample_jmap_conn [72, 105]])"
    by (simp add: upload_message_def refusing_server_def sample_server_def upload_request_def Let_def)
  then show ?thesis
    by (rule import_ignores_rejection)
      (simp_all add: refusing_server_def sample_responses_def)
qed

end
