(* ===== verification/Jmap_Mailops.thy ===== *)
theory Jmap_Mailops
  imports Jmap_Submission Queue
begin

text \<open>
  Mail operations over JMAP: changing flags, deleting, moving and copying messages
  (\<^verbatim>\<open>mail/jmap/mail.rs\<close>) with the validation of what the server answers, and the executor that
  runs the operations of the queue (\<^verbatim>\<open>backend/mail/jmap.rs\<close>).
\<close>

section \<open>Validation of \<^verbatim>\<open>Email/set\<close> answers\<close>

definition object_member :: "string \<Rightarrow> json \<Rightarrow> (string \<times> json) list" where
  "object_member k v = or_default [] (Option.bind (jget k v) as_object)"

text \<open>The arguments of the first response, which has to be an \<^verbatim>\<open>Email/set\<close>.\<close>

definition set_response_body :: "string \<Rightarrow> json \<Rightarrow> json result" where
  "set_response_body operation response =
     (case Option.bind (Option.bind (jget ''methodResponses'' response) as_array)
             (\<lambda>rs. case rs of [] \<Rightarrow> None | r # _ \<Rightarrow> as_array r) of
        None \<Rightarrow> Inl (Other (''JMAP '' @ operation @ '' returned no method response''))
      | Some method_response \<Rightarrow>
          (let method_name = (case method_response of [] \<Rightarrow> [] | m # _ \<Rightarrow> or_default [] (as_str m));
               body = (if length method_response > 1 then method_response ! 1 else JNull)
           in if method_name = ''error''
              then Inl (Other (''JMAP '' @ operation @ '' failed: '' @
                or_default ''unknown method error''
                  (Option.bind (case jget ''description'' body of None \<Rightarrow> jget ''type'' body | Some d \<Rightarrow> Some d)
                     as_str)))
              else if method_name \<noteq> ''Email/set''
              then Inl (Other (''JMAP '' @ operation @ '' returned unexpected method response '' @
                [CHR 0x27] @ method_name @ [CHR 0x27]))
              else Inr body))"

definition rejected_messages :: "externals \<Rightarrow> string \<Rightarrow> (string \<times> json) list \<Rightarrow> error" where
  "rejected_messages x operation failures =
     Other (''JMAP '' @ operation @ '' rejected '' @ show_nat (length failures) @ '' message(s): '' @
       json_text x (JObj failures))"

definition omitted_messages :: "string \<Rightarrow> nat \<Rightarrow> error" where
  "omitted_messages operation n =
     Other (''JMAP '' @ operation @ '' omitted '' @ show_nat n @ '' message(s) from its response'')"

text \<open>A message the server does not know is no failure.\<close>

definition set_failures :: "(string \<times> json) list \<Rightarrow> (string \<times> json) list" where
  "set_failures rejected =
     filter (\<lambda>(i, e). Option.bind (jget ''type'' e) as_str \<noteq> Some ''notFound'') rejected"

definition validate_set_flags_response :: "externals \<Rightarrow> json \<Rightarrow> unit result" where
  "validate_set_flags_response x response =
     and_then (set_response_body ''set_flags'' response) (\<lambda>body.
       let not_updated = object_member ''notUpdated'' body
       in if not_updated \<noteq> [] then Inl (rejected_messages x ''set_flags'' not_updated) else Inr ())"

definition validate_delete_response :: "externals \<Rightarrow> json \<Rightarrow> string list \<Rightarrow> unit result" where
  "validate_delete_response x response email_ids =
     and_then (set_response_body ''delete'' response) (\<lambda>body.
       let destroyed = or_default [] (Option.bind (jget ''destroyed'' body) as_array);
           not_destroyed = object_member ''notDestroyed'' body;
           failures = set_failures not_destroyed;
           unreported = filter (\<lambda>i. \<not> list_ex (\<lambda>d. as_str d = Some i) destroyed
                                     \<and> \<not> contains_key i not_destroyed) email_ids
       in if failures \<noteq> [] then Inl (rejected_messages x ''delete'' failures)
          else if unreported \<noteq> [] then Inl (omitted_messages ''delete'' (length unreported))
          else Inr ())"

definition validate_email_update_response ::
    "externals \<Rightarrow> json \<Rightarrow> string list \<Rightarrow> string \<Rightarrow> unit result" where
  "validate_email_update_response x response email_ids operation =
     and_then (set_response_body operation response) (\<lambda>body.
       let updated = object_member ''updated'' body;
           not_updated = object_member ''notUpdated'' body;
           failures = set_failures not_updated;
           unreported = filter (\<lambda>i. \<not> contains_key i updated \<and> \<not> contains_key i not_updated) email_ids
       in if failures \<noteq> [] then Inl (rejected_messages x operation failures)
          else if unreported \<noteq> [] then Inl (omitted_messages operation (length unreported))
          else Inr ())"

definition validate_move_response :: "externals \<Rightarrow> json \<Rightarrow> string list \<Rightarrow> unit result" where
  "validate_move_response x response email_ids = validate_email_update_response x response email_ids ''move''"

definition validate_copy_response :: "externals \<Rightarrow> json \<Rightarrow> string list \<Rightarrow> unit result" where
  "validate_copy_response x response email_ids = validate_email_update_response x response email_ids ''copy''"

section \<open>Requests\<close>

definition flag_to_keyword :: "string \<Rightarrow> string" where
  "flag_to_keyword flag =
     (if flag = ''seen'' then ''$seen'' else if flag = ''flagged'' then ''$flagged''
      else if flag = ''answered'' then ''$answered'' else if flag = ''draft'' then ''$draft'' else flag)"

definition delete_chunks :: "string list \<Rightarrow> nat \<Rightarrow> string list list" where
  "delete_chunks email_ids limit = chunks (max limit 1) email_ids"

definition set_call :: "JmapConnection \<Rightarrow> string \<Rightarrow> json \<Rightarrow> string \<Rightarrow> json" where
  "set_call conn key v call_id =
     mail_call ''Email/set'' (jobj [(''accountId'', JStr (jmap_account_id conn)), (key, v)]) call_id"

text \<open>A loop over requests that stops at the first error.\<close>

fun net_each :: "('a \<Rightarrow> unit net) \<Rightarrow> 'a list \<Rightarrow> unit net" where
  "net_each f [] = net_lift (Inr ())"
| "net_each f (a # as) = net_bind (f a) (\<lambda>_. net_each f as)"

definition set_flags ::
    "externals \<Rightarrow> server \<Rightarrow> JmapConnection \<Rightarrow> string list \<Rightarrow> string list \<Rightarrow> bool \<Rightarrow> unit net" where
  "set_flags x srv conn email_ids flag_names adding =
     (let patch = inserted_object
            (map (\<lambda>flag. (''keywords/'' @ flag_to_keyword flag, if adding then JBool True else JNull)) flag_names);
          update = inserted_object (map (\<lambda>i. (i, patch)) email_ids)
      in net_bind (api_request srv (set_call conn ''update'' update ''s1''))
           (\<lambda>response. net_lift (validate_set_flags_response x response)))"

definition delete_request :: "JmapConnection \<Rightarrow> nat \<times> string list \<Rightarrow> json" where
  "delete_request conn c = set_call conn ''destroy'' (json_strings (snd c)) (''d'' @ show_nat (fst c + 1))"

definition delete_emails :: "externals \<Rightarrow> server \<Rightarrow> JmapConnection \<Rightarrow> string list \<Rightarrow> unit net" where
  "delete_emails x srv conn email_ids =
     net_each
       (\<lambda>c. net_bind (api_request srv (delete_request conn c))
              (\<lambda>response. net_lift (validate_delete_response x response (snd c))))
       (enumerate 0 (delete_chunks email_ids (max_objects_in_set conn)))"

definition move_request :: "JmapConnection \<Rightarrow> string \<Rightarrow> string \<Rightarrow> nat \<times> string list \<Rightarrow> json" where
  "move_request conn from_mailbox to_mailbox c =
     set_call conn ''update''
       (inserted_object (map (\<lambda>i. (i, inserted_object
          [(''mailboxIds/'' @ from_mailbox, JNull), (''mailboxIds/'' @ to_mailbox, JBool True)])) (snd c)))
       (''mv'' @ show_nat (fst c + 1))"

definition move_emails ::
    "externals \<Rightarrow> server \<Rightarrow> JmapConnection \<Rightarrow> string list \<Rightarrow> string \<Rightarrow> string \<Rightarrow> unit net" where
  "move_emails x srv conn email_ids from_mailbox to_mailbox =
     net_each
       (\<lambda>c. net_bind (api_request srv (move_request conn from_mailbox to_mailbox c))
              (\<lambda>response. net_lift (validate_move_response x response (snd c))))
       (enumerate 0 (delete_chunks email_ids (max_objects_in_set conn)))"

definition copy_updates :: "string list \<Rightarrow> string \<Rightarrow> json" where
  "copy_updates email_ids to_mailbox =
     (let mailbox_token = str_replace ''/'' ''~1'' (str_replace ''~'' ''~0'' to_mailbox)
      in inserted_object
           (map (\<lambda>i. (i, inserted_object [(''mailboxIds/'' @ mailbox_token, JBool True)])) email_ids))"

definition copy_request :: "JmapConnection \<Rightarrow> string \<Rightarrow> nat \<times> string list \<Rightarrow> json" where
  "copy_request conn to_mailbox c =
     set_call conn ''update'' (copy_updates (snd c) to_mailbox) (''cp'' @ show_nat (fst c + 1))"

definition copy_emails ::
    "externals \<Rightarrow> server \<Rightarrow> JmapConnection \<Rightarrow> string list \<Rightarrow> string \<Rightarrow> unit net" where
  "copy_emails x srv conn email_ids to_mailbox =
     net_each
       (\<lambda>c. net_bind (api_request srv (copy_request conn to_mailbox c))
              (\<lambda>response. net_lift (validate_copy_response x response (snd c))))
       (enumerate 0 (delete_chunks email_ids (max_objects_in_set conn)))"

section \<open>The executor\<close>

definition non_jmap_reference :: error where
  "non_jmap_reference = Other ''JMAP executor received a non-JMAP message reference''"

definition collect_email_ids :: "BackendMessageRef list \<Rightarrow> string list result" where
  "collect_email_ids refs = ok_or non_jmap_reference (collect_options (map into_jmap_email_id refs))"

definition unique_ids :: "string list \<Rightarrow> string list" where
  "unique_ids ids = foldl (\<lambda>unique i. if i \<in> set unique then unique else unique @ [i]) [] ids"

text \<open>Email ids by source mailbox, without repetitions; the map as an association list.\<close>

fun add_email :: "(string \<times> string list) list \<Rightarrow> string \<Rightarrow> string \<Rightarrow> (string \<times> string list) list" where
  "add_email [] mb i = [(mb, [i])]"
| "add_email ((k, ids) # m) mb i =
     (if k = mb then (k, if i \<in> set ids then ids else ids @ [i]) # m else (k, ids) # add_email m mb i)"

fun group_by_mailbox ::
    "(string \<times> string list) list \<Rightarrow> BackendMessageRef list \<Rightarrow> (string \<times> string list) list result" where
  "group_by_mailbox m [] = Inr m"
| "group_by_mailbox m (Jmap mb i # refs) = group_by_mailbox (add_email m mb i) refs"
| "group_by_mailbox m (_ # refs) = Inl non_jmap_reference"

definition prepare_flags :: "FlagMutation \<Rightarrow> (string list \<times> string list \<times> bool) result" where
  "prepare_flags mutation =
     (case target mutation of
        Messages refs \<Rightarrow>
          map_sum id (\<lambda>ids. (ids, flags mutation, add mutation)) (collect_email_ids refs)
      | AllMessagesInFolders _ _ \<Rightarrow> Inl (Other ''JMAP executor received an IMAP bulk flag target''))"

fun prepare_all :: "FlagMutation list \<Rightarrow> (string list \<times> string list \<times> bool) list result" where
  "prepare_all [] = Inr []"
| "prepare_all (m # ms) =
     and_then (prepare_flags m) (\<lambda>p. and_then (prepare_all ms) (\<lambda>ps. Inr (p # ps)))"

text \<open>
  \<open>connected\<close> is the result of reading the account and connecting to its server, \<open>order\<close> the
  iteration order of the map of source mailboxes.
\<close>

definition jmap_execute ::
    "externals \<Rightarrow> idna \<Rightarrow> server \<Rightarrow> JmapConnection result
     \<Rightarrow> ((string \<times> string list) list \<Rightarrow> (string \<times> string list) list) \<Rightarrow> MailOp \<Rightarrow> unit net" where
  "jmap_execute x idn srv connected order mop =
     (case mop of
        CopyMessages refs target_folder \<Rightarrow>
          net_bind (net_lift (collect_email_ids refs)) (\<lambda>ids.
          net_bind (net_lift connected) (\<lambda>conn.
          copy_emails x srv conn (unique_ids ids) target_folder))
      | MoveMessages refs target_folder \<Rightarrow>
          net_bind (net_lift (group_by_mailbox [] refs)) (\<lambda>by_mailbox.
          net_bind (net_lift connected) (\<lambda>conn.
          net_each (\<lambda>(source_mailbox, ids). move_emails x srv conn ids source_mailbox target_folder)
            (order by_mailbox)))
      | DeleteMessages refs \<Rightarrow>
          net_bind (net_lift (collect_email_ids refs)) (\<lambda>ids.
          net_bind (net_lift connected) (\<lambda>conn.
          delete_emails x srv conn (unique_ids ids)))
      | SetFlags mutations \<Rightarrow>
          net_bind (net_lift (prepare_all mutations)) (\<lambda>prepared.
          net_bind (net_lift connected) (\<lambda>conn.
          net_each (\<lambda>(ids, flag_names, adding). set_flags x srv conn ids flag_names adding) prepared))
      | SendRaw raw from_text to_list cc bcc message_id \<Rightarrow>
          net_bind (net_lift (new_envelope idn from_text to_list cc bcc)) (\<lambda>env.
          net_bind (net_lift connected) (\<lambda>conn.
          send_email idn srv conn raw env))
      | _ \<Rightarrow> net_lift (Inr ()))"

end
