(* ===== verification/Jmap_Effects.thy ===== *)
theory Jmap_Effects
  imports Jmap_Delivery Jmap_Mailops
begin

text \<open>
  What the mail operations over JMAP achieve: references of another provider stop an operation
  before anything is sent, deletions are split into requests the server's limit allows, and a
  deletion that succeeded left none of its messages on the server.
\<close>

section \<open>Loops of requests\<close>

lemma net_bind_step: "m tr = (Inr a, tr1) \<Longrightarrow> net_bind m f tr = f a tr1"
  by (simp add: net_bind_def)

lemma net_each_requests:
  assumes "\<And>a tr. snd (f a tr) = tr @ [ApiPost (g a)]"
  shows "net_each f as tr = (r, tr') \<Longrightarrow>
    \<exists>n \<le> length as. tr' = tr @ map (\<lambda>a. ApiPost (g a)) (take n as) \<and> (r = Inr () \<longrightarrow> n = length as)"
proof (induction as arbitrary: tr)
  case Nil
  then show ?case by simp
next
  case (Cons a as)
  obtain q tr1 where step: "f a tr = (q, tr1)" by fastforce
  then have tr1: "tr1 = tr @ [ApiPost (g a)]" using assms [of a tr] by simp
  show ?case
  proof (cases q)
    case (Inl e)
    with Cons.prems step tr1 show ?thesis by (intro exI [of _ 1]) (auto simp: net_bind_def)
  next
    case (Inr u)
    with Cons.prems step have "net_each f as tr1 = (r, tr')" by (simp add: net_bind_def)
    then obtain n where "n \<le> length as" "tr' = tr1 @ map (\<lambda>a. ApiPost (g a)) (take n as)"
      "r = Inr () \<longrightarrow> n = length as" using Cons.IH by blast
    with tr1 show ?thesis by (intro exI [of _ "Suc n"]) simp
  qed
qed

lemma post_and_check_trace:
  "snd (net_bind (api_request srv body) (\<lambda>v. net_lift (h v)) tr) = tr @ [ApiPost body]"
  using api_bind_trace by (metis prod.collapse)

text \<open>C29: a deletion is sent in consecutive requests of at most the number of objects the server
  accepts at once, at least one; together they name the given messages in order, each request is
  sent only after the ones before it succeeded, and a success has sent them all.
\<close>

theorem delete_requests_bounded:
  assumes "delete_emails x srv conn email_ids tr = (r, tr')"
  shows "\<exists>css n. concat css = email_ids
     \<and> list_all (\<lambda>c. c \<noteq> [] \<and> length c \<le> max (max_objects_in_set conn) 1) css
     \<and> tr' = tr @ map (\<lambda>c. ApiPost (delete_request conn c)) (take n (enumerate 0 css))
     \<and> (r \<noteq> Inr () \<or> n = length css)"
proof -
  let ?css = "delete_chunks email_ids (max_objects_in_set conn)"
  obtain n where "tr' = tr @ map (\<lambda>c. ApiPost (delete_request conn c)) (take n (enumerate 0 ?css))"
    "r = Inr () \<longrightarrow> n = length (enumerate 0 ?css)"
    using net_each_requests [OF post_and_check_trace assms [unfolded delete_emails_def]] by blast
  moreover have "concat ?css = email_ids" by (simp add: delete_chunks_def concat_chunks)
  moreover have "list_all (\<lambda>c. c \<noteq> [] \<and> length c \<le> max (max_objects_in_set conn) 1) ?css"
    by (auto simp: list_all_iff delete_chunks_def dest: chunks_size)
  ultimately show ?thesis by (intro exI [of _ ?css] exI [of _ n]) auto
qed

text \<open>Flags are set in a single request, whatever the server's limit.\<close>

lemma set_flags_one_request:
  "snd (set_flags x srv conn email_ids flag_names adding tr) =
     tr @ [ApiPost (set_call conn ''update''
       (inserted_object (map (\<lambda>i. (i, inserted_object
          (map (\<lambda>flag. (''keywords/'' @ flag_to_keyword flag, if adding then JBool True else JNull))
             flag_names))) email_ids)) ''s1'')]"
  by (simp add: set_flags_def Let_def post_and_check_trace)

section \<open>Deletions\<close>

text \<open>The first response is an \<^verbatim>\<open>Email/set\<close> that destroyed the message or does not know it.\<close>

definition reports_gone :: "json \<Rightarrow> string \<Rightarrow> bool" where
  "reports_gone resp i \<longleftrightarrow>
     (\<exists>args rest rs. jget ''methodResponses'' resp = Some (JArr (JArr (JStr ''Email/set'' # args # rest) # rs)) \<and>
        ((\<exists>ds. jget ''destroyed'' args = Some (JArr ds) \<and> JStr i \<in> set ds)
         \<or> (\<exists>nd e. jget ''notDestroyed'' args = Some (JObj nd) \<and> (i, e) \<in> set nd
                 \<and> jget ''type'' e = Some (JStr ''notFound''))))"

text \<open>
  \<open>mails tr\<close> are the messages on the server after the requests \<open>tr\<close>: a destroy request adds none,
  and a message that its answer reports destroyed or unknown is not among them.
\<close>

definition honours_destroy :: "server \<Rightarrow> (trace \<Rightarrow> string set) \<Rightarrow> bool" where
  "honours_destroy srv mails \<longleftrightarrow>
     (\<forall>tr conn c. let tr' = tr @ [ApiPost (delete_request conn c)] in
        mails tr' \<subseteq> mails tr
        \<and> (case srv tr' of
             Answered Success _ (Inr resp) \<Rightarrow> \<forall>i \<in> set (snd c). reports_gone resp i \<longrightarrow> i \<notin> mails tr'
           | _ \<Rightarrow> True))"

lemma as_str_Some [simp]: "as_str v = Some s \<longleftrightarrow> v = JStr s"
  by (cases v) auto

lemma as_array_Some [simp]: "as_array v = Some vs \<longleftrightarrow> v = JArr vs"
  by (cases v) auto

lemma Some_as_array [simp]: "Some vs = as_array v \<longleftrightarrow> v = JArr vs"
  by (cases v) auto

lemma as_object_Some [simp]: "as_object v = Some ms \<longleftrightarrow> v = JObj ms"
  by (cases v) auto

lemma Some_as_object [simp]: "Some ms = as_object v \<longleftrightarrow> v = JObj ms"
  by (cases v) auto

lemma set_response_body_Inr:
  assumes "set_response_body operation resp = Inr body"
  shows "\<exists>rest rs. jget ''methodResponses'' resp = Some (JArr (JArr rest # rs))
    \<and> (body = JNull \<or> (\<exists>rest'. rest = JStr ''Email/set'' # body # rest'))"
proof -
  from assms obtain mr where mr:
    "Option.bind (Option.bind (jget ''methodResponses'' resp) as_array)
       (\<lambda>rs. case rs of [] \<Rightarrow> None | r # _ \<Rightarrow> as_array r) = Some mr"
    by (auto simp: set_response_body_def split: option.splits)
  then obtain rs where rs: "jget ''methodResponses'' resp = Some (JArr (JArr mr # rs))"
    by (auto split: bind_splits list.splits)
  have "or_default [] (as_str m) = ''Email/set'' \<Longrightarrow> m = JStr ''Email/set''" for m
    by (cases m) (simp_all add: or_default_def)
  with assms mr have "body = JNull \<or> (\<exists>rest'. mr = JStr ''Email/set'' # body # rest')"
    by (cases mr; cases "tl mr")
      (auto simp: set_response_body_def Let_def split: if_splits)
  with rs show ?thesis by blast
qed

lemma validate_delete_gone:
  assumes "validate_delete_response x resp ids = Inr ()" "i \<in> set ids"
  shows "reports_gone resp i"
proof -
  from assms(1) obtain body where body: "set_response_body ''delete'' resp = Inr body"
    and none: "set_failures (object_member ''notDestroyed'' body) = []"
    and all: "filter (\<lambda>i. \<not> list_ex (\<lambda>d. as_str d = Some i) (or_default [] (Option.bind (jget ''destroyed'' body) as_array))
        \<and> \<not> contains_key i (object_member ''notDestroyed'' body)) ids = []"
    by (auto simp: validate_delete_response_def Let_def simp del: filter_False split: if_splits)
  from all assms(2) have "JStr i \<in> set (or_default [] (Option.bind (jget ''destroyed'' body) as_array))
      \<or> contains_key i (object_member ''notDestroyed'' body)"
    by (auto simp: filter_empty_conv list_ex_iff)
  then have reported: "(\<exists>ds. jget ''destroyed'' body = Some (JArr ds) \<and> JStr i \<in> set ds)
      \<or> (\<exists>nd e. jget ''notDestroyed'' body = Some (JObj nd) \<and> (i, e) \<in> set nd
                 \<and> jget ''type'' e = Some (JStr ''notFound''))"
  proof
    assume "JStr i \<in> set (or_default [] (Option.bind (jget ''destroyed'' body) as_array))"
    then show ?thesis by (auto simp: or_default_def split: option.splits bind_splits)
  next
    assume "contains_key i (object_member ''notDestroyed'' body)"
    then obtain nd e where "jget ''notDestroyed'' body = Some (JObj nd)" "(i, e) \<in> set nd"
      "object_member ''notDestroyed'' body = nd"
      by (auto simp: contains_key_def object_member_def or_default_def split: option.splits bind_splits)
    moreover from this none have "jget ''type'' e = Some (JStr ''notFound'')"
      by (fastforce simp: set_failures_def filter_empty_conv split: bind_splits)
    ultimately show ?thesis by blast
  qed
  then have "body \<noteq> JNull" by auto
  with set_response_body_Inr [OF body] reported show ?thesis unfolding reports_gone_def by blast
qed

lemma delete_chunk_gone:
  assumes "honours_destroy srv mails"
    "net_bind (api_request srv (delete_request conn c))
       (\<lambda>response. net_lift (validate_delete_response x response (snd c))) tr = (r, tr')"
  shows "mails tr' \<subseteq> mails tr" "r = Inr () \<Longrightarrow> set (snd c) \<inter> mails tr' = {}"
proof -
  have tr': "tr' = tr @ [ApiPost (delete_request conn c)]" using api_bind_trace [OF assms(2)] .
  from assms(1) have contract: "mails tr' \<subseteq> mails tr"
    "case srv tr' of
       Answered Success _ (Inr resp) \<Rightarrow> \<forall>i \<in> set (snd c). reports_gone resp i \<longrightarrow> i \<notin> mails tr'
     | _ \<Rightarrow> True"
    unfolding honours_destroy_def tr' Let_def by blast+
  then show "mails tr' \<subseteq> mails tr" by blast
  assume "r = Inr ()"
  with assms(2) obtain resp status where "srv tr' = Answered Success status (Inr resp)"
    "validate_delete_response x resp (snd c) = Inr ()"
    by (auto simp: net_bind_Inr api_request_Inr)
  with contract(2) validate_delete_gone show "set (snd c) \<inter> mails tr' = {}" by fastforce
qed

lemma delete_each_gone:
  assumes "honours_destroy srv mails"
  shows "net_each (\<lambda>c. net_bind (api_request srv (delete_request conn c))
       (\<lambda>response. net_lift (validate_delete_response x response (snd c)))) cs tr = (r, tr') \<Longrightarrow>
     mails tr' \<subseteq> mails tr \<and> (r = Inr () \<longrightarrow> (\<Union>c \<in> set cs. set (snd c)) \<inter> mails tr' = {})"
proof (induction cs arbitrary: tr)
  case Nil
  then show ?case by simp
next
  case (Cons c cs)
  let ?f = "\<lambda>c. net_bind (api_request srv (delete_request conn c))
       (\<lambda>response. net_lift (validate_delete_response x response (snd c)))"
  obtain q tr1 where step: "?f c tr = (q, tr1)" by fastforce
  note gone = delete_chunk_gone [OF assms step]
  show ?case
  proof (cases q)
    case (Inl e)
    with Cons.prems step have "r = Inl e" "tr' = tr1" by (simp_all add: net_bind_def)
    with gone show ?thesis by simp
  next
    case (Inr u)
    with step have "net_each ?f (c # cs) tr = net_each ?f cs tr1" by (simp only: net_each.simps net_bind_step)
    with Cons.prems have "net_each ?f cs tr1 = (r, tr')" by simp
    from Cons.IH [OF this] gone Inr show ?thesis by fastforce
  qed
qed

lemma set_unique_ids: "set (unique_ids ids) = set ids"
proof -
  have "set (foldl (\<lambda>unique i. if i \<in> set unique then unique else unique @ [i]) acc ids) = set acc \<union> set ids" for acc
    by (induction ids arbitrary: acc) auto
  from this [of "[]"] show ?thesis by (simp add: unique_ids_def)
qed

lemma enumerate_ids: "(\<Union>c \<in> set (enumerate n css). set (snd c)) = set (concat css)"
  by (induction css arbitrary: n) auto

text \<open>C26: when the executor reports a deletion done, none of its messages is left on the server and no
  other message appeared, against any server whose answers to a destroy request mean what the
  JMAP specification says. Repeating a deletion is harmless: unknown messages count as deleted.
\<close>

theorem executed_delete_effective:
  assumes "honours_destroy srv mails"
    and "jmap_execute x idn srv connected order (DeleteMessages refs) tr = (Inr (), tr')"
  shows "into_jmap_email_id ` set refs \<inter> Some ` mails tr' = {} \<and> mails tr' \<subseteq> mails tr"
proof -
  from assms(2) obtain ids conn where ids: "collect_options (map into_jmap_email_id refs) = Some ids"
    and del: "delete_emails x srv conn (unique_ids ids) tr = (Inr (), tr')"
    by (auto simp: jmap_execute_def net_bind_Inr collect_email_ids_def)
  have refs: "into_jmap_email_id ` set refs = Some ` set ids"
    using collect_options_SomeD [OF ids] by (induction rule: list_all2_induct) auto
  let ?css = "delete_chunks (unique_ids ids) (max_objects_in_set conn)"
  have "concat ?css = unique_ids ids" by (simp add: delete_chunks_def concat_chunks)
  with delete_each_gone [OF assms(1) del [unfolded delete_emails_def]] refs show ?thesis
    by (auto simp: enumerate_ids set_unique_ids)
qed

section \<open>References of other providers\<close>

text \<open>The operation refers to JMAP messages only.\<close>

fun jmap_ready :: "MailOp \<Rightarrow> bool" where
  "jmap_ready (CopyMessages refs _) \<longleftrightarrow> list_all is_jmap_ref refs"
| "jmap_ready (MoveMessages refs _) \<longleftrightarrow> list_all is_jmap_ref refs"
| "jmap_ready (DeleteMessages refs) \<longleftrightarrow> list_all is_jmap_ref refs"
| "jmap_ready (SetFlags mutations) \<longleftrightarrow>
     list_all (\<lambda>m. case target m of Messages refs \<Rightarrow> list_all is_jmap_ref refs | _ \<Rightarrow> False) mutations"
| "jmap_ready _ \<longleftrightarrow> True"

lemma collect_email_ids_ready: "(\<exists>ids. collect_email_ids refs = Inr ids) \<longleftrightarrow> list_all is_jmap_ref refs"
proof (induction refs)
  case (Cons r refs)
  then show ?case by (cases r) (auto simp: collect_email_ids_def)
qed (simp add: collect_email_ids_def)

lemma group_ready: "(\<exists>m'. group_by_mailbox m refs = Inr m') \<longleftrightarrow> list_all is_jmap_ref refs"
  by (induction m refs rule: group_by_mailbox.induct) auto

lemma not_Inr: "\<not> (\<exists>a. r = Inr a) \<Longrightarrow> \<exists>e. r = Inl e"
  by (cases r) auto

lemma prepare_flags_ready:
  "(\<exists>p. prepare_flags m = Inr p) \<longleftrightarrow>
     (case target m of Messages refs \<Rightarrow> list_all is_jmap_ref refs | _ \<Rightarrow> False)"
proof (cases "target m")
  case (Messages refs)
  then show ?thesis
    using collect_email_ids_ready [of refs] by (cases "collect_email_ids refs") (auto simp: prepare_flags_def)
qed (simp add: prepare_flags_def)

lemma prepare_all_ready:
  "(\<exists>ps. prepare_all ms = Inr ps) \<longleftrightarrow>
     list_all (\<lambda>m. case target m of Messages refs \<Rightarrow> list_all is_jmap_ref refs | _ \<Rightarrow> False) ms"
proof (induction ms)
  case (Cons m ms)
  then show ?case using prepare_flags_ready [of m] by auto
qed simp

text \<open>An operation that refers to a message of another provider, or to whole IMAP folders, fails
  before a connection is made or any request is sent: it is never executed in part.
\<close>

theorem foreign_operation_not_sent:
  assumes "\<not> jmap_ready mop"
  shows "\<exists>e. jmap_execute x idn srv connected order mop tr = (Inl e, tr)"
  using assms
proof (cases mop)
  case (CopyMessages refs target_folder)
  with assms collect_email_ids_ready [of refs] obtain e where "collect_email_ids refs = Inl e"
    using not_Inr [of "collect_email_ids refs"] by auto
  then show ?thesis by (simp add: CopyMessages jmap_execute_def net_bind_def net_lift_def)
next
  case (MoveMessages refs target_folder)
  with assms group_ready [of "[]" refs] obtain e where "group_by_mailbox [] refs = Inl e"
    using not_Inr [of "group_by_mailbox [] refs"] by auto
  then show ?thesis by (simp add: MoveMessages jmap_execute_def net_bind_def net_lift_def)
next
  case (DeleteMessages refs)
  with assms collect_email_ids_ready [of refs] obtain e where "collect_email_ids refs = Inl e"
    using not_Inr [of "collect_email_ids refs"] by auto
  then show ?thesis by (simp add: DeleteMessages jmap_execute_def net_bind_def net_lift_def)
next
  case (SetFlags mutations)
  with assms prepare_all_ready [of mutations] obtain e where "prepare_all mutations = Inl e"
    using not_Inr [of "prepare_all mutations"] by auto
  then show ?thesis by (simp add: SetFlags jmap_execute_def net_bind_def net_lift_def)
qed simp_all


section \<open>A mailbox that is emptied\<close>

text \<open>A server that destroys the three messages it has with the first request.\<close>

definition emptied_mails :: "trace \<Rightarrow> string set" where
  "emptied_mails tr = (if tr = [] then {''1'', ''2'', ''3''} else {})"

definition emptying_server :: server where
  "emptying_server tr =
     sample_responses [sample_answer ''Email/set''
       [(''destroyed'', json_strings [''1'', ''2'', ''3''])] ''d1'']"

definition emptying_refs :: "BackendMessageRef list" where
  "emptying_refs = map (Jmap ''inbox'') [''1'', ''2'', ''3'', ''1'']"

definition no_externals :: externals where
  "no_externals = \<lparr>json_text = (\<lambda>_. []), json_parse = (\<lambda>_. None), b64_encode = (\<lambda>_. []),
     b64_decode = (\<lambda>_. None), hash_iter = id\<rparr>"

definition emptying_run :: "unit result \<times> trace" where
  "emptying_run = jmap_execute no_externals sample_idna emptying_server (Inr sample_jmap_conn) id
     (DeleteMessages emptying_refs) []"

lemma emptying_run_done: "fst emptying_run = Inr ()" "length (snd emptying_run) = 2"
  by code_simp+

theorem executed_delete_effective_witness:
  "into_jmap_email_id ` set emptying_refs \<inter> Some ` emptied_mails (snd emptying_run) = {}
   \<and> length (snd emptying_run) = 2"
proof -
  have "honours_destroy emptying_server emptied_mails"
    by (simp add: honours_destroy_def emptied_mails_def Let_def emptying_server_def sample_responses_def)
  moreover have "jmap_execute no_externals sample_idna emptying_server (Inr sample_jmap_conn) id
      (DeleteMessages emptying_refs) [] = (Inr (), snd emptying_run)"
    using emptying_run_done(1) by (simp add: emptying_run_def prod_eq_iff)
  ultimately show ?thesis using executed_delete_effective emptying_run_done(2) by blast
qed

theorem delete_requests_bounded_witness:
  "\<exists>css n. concat css = [''1'', ''2'', ''3''] \<and> list_all (\<lambda>c. c \<noteq> [] \<and> length c \<le> 2) css
     \<and> snd (delete_emails no_externals emptying_server sample_jmap_conn [''1'', ''2'', ''3''] [])
       = map (\<lambda>c. ApiPost (delete_request sample_jmap_conn c)) (take n (enumerate 0 css))"
proof -
  have "delete_emails no_externals emptying_server sample_jmap_conn [''1'', ''2'', ''3''] []
    = (fst (delete_emails no_externals emptying_server sample_jmap_conn [''1'', ''2'', ''3''] []),
       snd (delete_emails no_externals emptying_server sample_jmap_conn [''1'', ''2'', ''3''] []))" by simp
  from delete_requests_bounded [OF this]
  have "\<exists>css n. concat css = [''1'', ''2'', ''3'']
     \<and> list_all (\<lambda>c. c \<noteq> [] \<and> length c \<le> max (max_objects_in_set sample_jmap_conn) 1) css
     \<and> snd (delete_emails no_externals emptying_server sample_jmap_conn [''1'', ''2'', ''3''] [])
       = map (\<lambda>c. ApiPost (delete_request sample_jmap_conn c)) (take n (enumerate 0 css))"
    unfolding append_Nil by blast
  moreover have "max_objects_in_set sample_jmap_conn = 2" by (simp add: sample_jmap_conn_def)
  ultimately show ?thesis by (simp add: numeral_2_eq_2)
qed

theorem foreign_operation_not_sent_witness:
  "\<exists>e. jmap_execute no_externals sample_idna emptying_server (Inr sample_jmap_conn) id
     (DeleteMessages [Jmap ''inbox'' ''1'', Graph ''g'']) [] = (Inl e, [])"
  by (rule foreign_operation_not_sent) simp

end
