(* ===== verification/Mail_Search.thy ===== *)
theory Mail_Search
  imports Message Json_Value
begin

text \<open>
  Server-side mail search (\<^verbatim>\<open>mail/search.rs\<close>): the encoding of a query as an IMAP search argument,
  as a JMAP filter and as a Graph search expression. What the server understands is stated by a
  reader of the IMAP search grammar (RFC 3501) and an evaluation of JMAP filters (RFC 8620, RFC
  8621); the theorems compare it with the query.
\<close>

section \<open>Queries and the clock\<close>

record SearchQuery =
  query_text :: string
  query_fields :: SearchFields
  query_has_attachment :: "bool option"
  query_since_days :: "nat option"

text \<open>
  The date some days before now, as \<^verbatim>\<open>chrono\<close> formats it; there is none when the subtraction
  leaves the range of \<^verbatim>\<open>chrono\<close>'s dates, where the code panics. The encoders therefore return
  \<^term>\<open>None\<close> for a panic and the encoder's own option otherwise.
\<close>

type_synonym date_before = "nat \<Rightarrow> string option"

section \<open>IMAP\<close>

definition imap_escape :: "string \<Rightarrow> string" where
  "imap_escape cleaned =
     concat (map (\<lambda>c. if c = CHR 0x22 then [CHR 0x5C, CHR 0x22] else [c])
       (concat (map (\<lambda>c. if c = CHR 0x5C then [CHR 0x5C, CHR 0x5C] else [c]) cleaned)))"

definition quoted_key :: "string \<Rightarrow> string \<Rightarrow> string" where
  "quoted_key key escaped = key @ '' '' @ [CHR 0x22] @ escaped @ [CHR 0x22]"

definition imap_keys :: "SearchFields \<Rightarrow> string \<Rightarrow> string list" where
  "imap_keys f escaped =
     (if search_subject f then [quoted_key ''SUBJECT'' escaped] else [])
   @ (if search_from f then [quoted_key ''FROM'' escaped] else [])
   @ (if search_to f then [quoted_key ''TO'' escaped] else [])
   @ (if search_body f then [quoted_key ''BODY'' escaped] else [])"

text \<open>The keys are combined from the last one backwards.\<close>

fun or_keys :: "string list \<Rightarrow> string" where
  "or_keys [] = []"
| "or_keys [k] = k"
| "or_keys (k # ks) = ''OR '' @ k @ '' '' @ or_keys ks"

definition build_imap_search :: "date_before \<Rightarrow> SearchQuery \<Rightarrow> string option option" where
  "build_imap_search since_date query =
     (let text = trim (query_text query)
      in if text = [] \<or> \<not> any_enabled (query_fields query) then Some None
         else
           (let cleaned = filter (\<lambda>c. \<not> is_control c) text
            in if cleaned = [] then Some None
               else
                 (let full = ''CHARSET UTF-8 '' @ or_keys (imap_keys (query_fields query) (imap_escape cleaned))
                  in case query_since_days query of
                       None \<Rightarrow> Some (Some full)
                     | Some days \<Rightarrow>
                         if days > 0
                         then map_option (\<lambda>d. Some (full @ '' SINCE '' @ d)) (since_date days)
                         else Some (Some full))))"

section \<open>JMAP\<close>

definition field_conditions :: "SearchFields \<Rightarrow> string \<Rightarrow> json list" where
  "field_conditions f text =
     (if search_subject f then [jobj [(''subject'', JStr text)]] else [])
   @ (if search_from f then [jobj [(''from'', JStr text)]] else [])
   @ (if search_to f then [jobj [(''to'', JStr text)]] else [])
   @ (if search_body f then [jobj [(''body'', JStr text)]] else [])"

definition filter_operator :: "string \<Rightarrow> json list \<Rightarrow> json" where
  "filter_operator operator conditions =
     jobj [(''operator'', JStr operator), (''conditions'', JArr conditions)]"

definition text_condition :: "SearchFields \<Rightarrow> string \<Rightarrow> json option" where
  "text_condition f text =
     (if all_enabled f then Some (jobj [(''text'', JStr text)])
      else
        (case field_conditions f text of
           [] \<Rightarrow> None
         | [c] \<Rightarrow> Some c
         | conditions \<Rightarrow> Some (filter_operator ''OR'' conditions)))"

definition build_jmap_filter :: "date_before \<Rightarrow> SearchQuery \<Rightarrow> json option option" where
  "build_jmap_filter after query =
     (let text = trim (query_text query)
      in if text = [] then Some None
         else
           (case text_condition (query_fields query) text of
              None \<Rightarrow> Some None
            | Some c \<Rightarrow>
                (let conditions =
                   c # (case query_has_attachment query of
                          None \<Rightarrow> [] | Some b \<Rightarrow> [jobj [(''hasAttachment'', JBool b)]]);
                   combined = (\<lambda>cs. case cs of [c] \<Rightarrow> c | _ \<Rightarrow> filter_operator ''AND'' cs)
                 in case query_since_days query of
                      None \<Rightarrow> Some (Some (combined conditions))
                    | Some days \<Rightarrow>
                        if days > 0
                        then map_option
                               (\<lambda>d. Some (combined (conditions @ [jobj [(''after'', JStr d)]])))
                               (after days)
                        else Some (Some (combined conditions)))))"

section \<open>Graph\<close>

definition kql_fields :: "SearchFields \<Rightarrow> string \<Rightarrow> string list" where
  "kql_fields f v =
     (if search_subject f then [''subject:'' @ v] else [])
   @ (if search_from f then [''from:'' @ v] else [])
   @ (if search_to f then [''to:'' @ v] else [])
   @ (if search_body f then [''body:'' @ v] else [])"

definition build_graph_kql :: "SearchQuery \<Rightarrow> string option" where
  "build_graph_kql query =
     (let text = trim (query_text query)
      in if text = [] \<or> \<not> any_enabled (query_fields query) then None
         else
           (let safe = filter (\<lambda>c. c \<noteq> CHR 0x22) text
            in if safe = [] then None
               else
                 (let core =
                    (if all_enabled (query_fields query) then safe
                     else join '' OR ''
                       (kql_fields (query_fields query)
                         (if CHR '' '' \<in> set safe then ''('' @ safe @ '')'' else safe)))
                  in case query_has_attachment query of
                       None \<Rightarrow> Some core
                     | Some b \<Rightarrow>
                         Some (''('' @ core @ '') AND hasAttachments:'' @ (if b then ''true'' else ''false'')))))"

section \<open>What an IMAP server reads\<close>

datatype imap_key = FieldKey string string | OrKey imap_key imap_key

text \<open>
  The rest of a quoted string: a backslash quotes a quote or a backslash and nothing else; CR, LF
  and NUL cannot occur.
\<close>

fun read_quoted :: "string \<Rightarrow> (string \<times> string) option" where
  "read_quoted [] = None"
| "read_quoted (c # s) =
     (if c = CHR 0x22 then Some ([], s)
      else if c = CHR 0x5C then
        (case s of
           [] \<Rightarrow> None
         | d # s' \<Rightarrow>
             if d = CHR 0x22 \<or> d = CHR 0x5C
             then map_option (\<lambda>(t, r). (d # t, r)) (read_quoted s')
             else None)
      else if char_code c \<in> {0, 10, 13} then None
      else map_option (\<lambda>(t, r). (c # t, r)) (read_quoted s))"

definition IMAP_FIELDS :: "string list" where
  "IMAP_FIELDS = [''SUBJECT'', ''FROM'', ''TO'', ''BODY'']"

text \<open>A search key of at most the given depth, and what follows it.\<close>

fun read_key :: "nat \<Rightarrow> string \<Rightarrow> (imap_key \<times> string) option" where
  "read_key 0 s = None"
| "read_key (Suc n) s =
     (case strip_prefix ''OR '' s of
        Some r \<Rightarrow>
          (case read_key n r of
             Some (a, r1) \<Rightarrow>
               (case strip_prefix '' '' r1 of
                  Some r2 \<Rightarrow> map_option (\<lambda>(b, r3). (OrKey a b, r3)) (read_key n r2)
                | None \<Rightarrow> None)
           | None \<Rightarrow> None)
      | None \<Rightarrow>
          (case split_once CHR '' '' s of
             Some (name, r) \<Rightarrow>
               if name \<in> set IMAP_FIELDS
               then (case strip_prefix [CHR 0x22] r of
                       Some r1 \<Rightarrow> map_option (\<lambda>(t, r2). (FieldKey name t, r2)) (read_quoted r1)
                     | None \<Rightarrow> None)
               else None
           | None \<Rightarrow> None))"

definition enabled_names :: "SearchFields \<Rightarrow> string list" where
  "enabled_names f =
     (if search_subject f then [''SUBJECT''] else []) @ (if search_from f then [''FROM''] else [])
   @ (if search_to f then [''TO''] else []) @ (if search_body f then [''BODY''] else [])"

fun any_key :: "imap_key list \<Rightarrow> imap_key" where
  "any_key [k] = k"
| "any_key (k # ks) = OrKey k (any_key ks)"
| "any_key [] = FieldKey [] []"

text \<open>Escaping in two passes is escaping each character once.\<close>

lemma imap_escape_Cons:
  "imap_escape (c # cs) = (if c = CHR 0x5C \<or> c = CHR 0x22 then [CHR 0x5C, c] else [c]) @ imap_escape cs"
  by (simp add: imap_escape_def)

lemma read_quoted_escaped:
  "list_all (\<lambda>c. \<not> is_control c) t \<Longrightarrow> read_quoted (imap_escape t @ CHR 0x22 # r) = Some (t, r)"
proof (induction t)
  case Nil
  show ?case by (simp add: imap_escape_def)
next
  case (Cons c t)
  then have "\<not> is_control c" by simp
  then have "char_code c \<notin> {0, 10, 13}" by (auto simp: is_control_def Let_def)
  with Cons show ?case by (auto simp: imap_escape_Cons)
qed

lemma read_key_field:
  assumes "name \<in> set IMAP_FIELDS" "list_all (\<lambda>c. \<not> is_control c) t"
  shows "read_key (Suc n) (quoted_key name (imap_escape t) @ r) = Some (FieldKey name t, r)"
proof -
  have "CHR '' '' \<notin> set name" and "strip_prefix ''OR '' (name @ s) = None" for s
    using assms(1) by (auto simp: IMAP_FIELDS_def strip_prefix_def)
  then show ?thesis
    using assms read_quoted_escaped [of t r] split_once_append [of "CHR '' ''" name]
    by (simp add: quoted_key_def strip_prefix_def)
qed

lemma read_key_or_keys:
  assumes "list_all (\<lambda>c. \<not> is_control c) t"
  shows "names \<noteq> [] \<Longrightarrow> set names \<subseteq> set IMAP_FIELDS \<Longrightarrow> length names \<le> n \<Longrightarrow>
    read_key n (or_keys (map (\<lambda>k. quoted_key k (imap_escape t)) names) @ r) =
      Some (any_key (map (\<lambda>k. FieldKey k t) names), r)"
proof (induction names arbitrary: n)
  case (Cons name names)
  then obtain m where n: "n = Suc m" by (cases n) auto
  show ?case
  proof (cases names)
    case Nil
    with Cons.prems n read_key_field [OF _ assms] show ?thesis by simp
  next
    case (Cons name2 rest)
    let ?tail = "or_keys (map (\<lambda>k. quoted_key k (imap_escape t)) names)"
    from Cons Cons.prems n obtain l where m: "m = Suc l" by (cases m) auto
    have head: "read_key m (quoted_key name (imap_escape t) @ s) = Some (FieldKey name t, s)" for s
      using Cons.prems(2) read_key_field [OF _ assms] by (simp add: m)
    have tail: "read_key m (?tail @ r) = Some (any_key (map (\<lambda>k. FieldKey k t) names), r)"
      using Cons Cons.prems n Cons.IH [of m] by simp
    have "read_key n (''OR '' @ quoted_key name (imap_escape t) @ '' '' @ ?tail @ r) =
        Some (OrKey (FieldKey name t) (any_key (map (\<lambda>k. FieldKey k t) names)), r)"
      by (simp only: n read_key.simps strip_prefix_append head tail option.case prod.case
          option.map)
    then show ?thesis using Cons by simp
  qed
qed simp

lemma imap_keys_names:
  "imap_keys f e = map (\<lambda>k. quoted_key k e) (enabled_names f)"
  by (simp add: imap_keys_def enabled_names_def)

lemma enabled_names:
  "set (enabled_names f) \<subseteq> set IMAP_FIELDS" "length (enabled_names f) \<le> 4"
  "enabled_names f = [] \<longleftrightarrow> \<not> any_enabled f"
  by (auto simp: enabled_names_def IMAP_FIELDS_def any_enabled_def)


section \<open>What a JMAP server selects\<close>

text \<open>
  A message as a filter sees it: the texts its fields contain, whether it has an attachment, and
  whether it was received after a date.
\<close>

record searched_message =
  field_contains :: "string \<Rightarrow> string \<Rightarrow> bool"
  attached :: bool
  received_after :: "string \<Rightarrow> bool"

fun filter_selects :: "searched_message \<Rightarrow> json \<Rightarrow> bool" where
  "filter_selects m (JObj [(k, JStr t)]) =
     (if k = ''after'' then received_after m t
      else if k = ''text'' then list_ex (\<lambda>f. field_contains m f t) [''subject'', ''from'', ''to'', ''body'']
      else field_contains m k t)"
| "filter_selects m (JObj [(k, JBool b)]) \<longleftrightarrow> k = ''hasAttachment'' \<and> attached m = b"
| "filter_selects m (JObj [(k, JArr fs), (l, JStr operator)]) =
     (if operator = ''OR'' then list_ex (filter_selects m) fs else list_all (filter_selects m) fs)"
| "filter_selects m _ = False"

definition enabled_fields :: "SearchFields \<Rightarrow> string list" where
  "enabled_fields f =
     (if search_subject f then [''subject''] else []) @ (if search_from f then [''from''] else [])
   @ (if search_to f then [''to''] else []) @ (if search_body f then [''body''] else [])"

lemma jobj_single [simp]: "jobj [(k, v)] = JObj [(k, v)]"
  by (simp add: jobj_def)

lemma filter_operator_sorted:
  "filter_operator operator cs = JObj [(''conditions'', JArr cs), (''operator'', JStr operator)]"
  by (simp add: filter_operator_def jobj_def less_list_code)

lemma text_condition_selects:
  "text_condition f t = Some c \<Longrightarrow>
     filter_selects m c \<longleftrightarrow> list_ex (\<lambda>k. field_contains m k t) (enabled_fields f)"
  by (cases "search_subject f"; cases "search_from f"; cases "search_to f"; cases "search_body f")
    (auto simp: text_condition_def field_conditions_def enabled_fields_def all_enabled_def
      filter_operator_sorted)


section \<open>The Graph expression\<close>

text \<open>The caller wraps the expression in quotes: no text of the user ends them.\<close>

lemma graph_kql_unquoted:
  assumes "build_graph_kql query = Some kql"
  shows "CHR 0x22 \<notin> set kql"
proof -
  let ?safe = "filter (\<lambda>c. c \<noteq> CHR 0x22) (trim (query_text query))"
  let ?v = "if CHR '' '' \<in> set ?safe then ''('' @ ?safe @ '')'' else ?safe"
  have "CHR 0x22 \<notin> \<Union> (set ` set (kql_fields (query_fields query) ?v))"
    by (auto simp: kql_fields_def)
  then have "CHR 0x22 \<notin> set (join '' OR '' (kql_fields (query_fields query) ?v))"
    using set_join [of "'' OR ''"] by fastforce
  then show ?thesis
    using assms by (auto simp: build_graph_kql_def Let_def split: if_splits option.splits)
qed

section \<open>Concrete inputs\<close>

definition sample_search :: SearchQuery where
  "sample_search =
     \<lparr>query_text = '' a'' @ [CHR 0x22, CHR 0x0D, CHR 0x0A] @ ''b'' @ [CHR 0x5C] @ ''  '',
      query_fields = \<lparr>search_subject = True, search_from = True, search_to = False, search_body = True\<rparr>,
      query_has_attachment = Some True, query_since_days = Some 7\<rparr>"

definition sample_clock :: date_before where
  "sample_clock days = (if days = 7 then Some ''01-Jan-2026'' else None)"

lemma sample_imap_search:
  "build_imap_search sample_clock sample_search =
     Some (Some (''CHARSET UTF-8 OR SUBJECT '' @ [CHR 0x22] @ ''a'' @ [CHR 0x5C, CHR 0x22] @ ''b''
       @ [CHR 0x5C, CHR 0x5C, CHR 0x22] @ '' OR FROM '' @ [CHR 0x22] @ ''a'' @ [CHR 0x5C, CHR 0x22]
       @ ''b'' @ [CHR 0x5C, CHR 0x5C, CHR 0x22] @ '' BODY '' @ [CHR 0x22] @ ''a''
       @ [CHR 0x5C, CHR 0x22] @ ''b'' @ [CHR 0x5C, CHR 0x5C, CHR 0x22] @ '' SINCE 01-Jan-2026''))"
  by code_simp


lemma sample_jmap_filter: "\<exists>f. build_jmap_filter sample_clock sample_search = Some (Some f)"
proof -
  have "(case build_jmap_filter sample_clock sample_search of Some (Some f) \<Rightarrow> True | _ \<Rightarrow> False)"
    by code_simp
  then show ?thesis by (auto split: option.splits)
qed


text \<open>A period beyond the range of dates makes the encoders panic.\<close>

lemma since_days_panics:
  assumes "after days = None" "trim (query_text query) \<noteq> []" "query_since_days query = Some days" "days > 0"
    "any_enabled (query_fields query)"
  shows "build_jmap_filter after query = None"
  using assms
  by (auto simp: build_jmap_filter_def Let_def text_condition_def field_conditions_def any_enabled_def
      all_enabled_def split: option.splits list.splits)

end
