(* ===== verification/Graph_Net.thy ===== *)
theory Graph_Net
  imports Error_Model Json_Value
begin

text \<open>
  The transport of the Microsoft Graph client (\<^verbatim>\<open>mail/graph.rs\<close>): requests that are repeated when
  the service throttles them, and the continuation of paged collections.

  What happens on the wire is a list of events, requests sent and pauses; the service is a
  function from that list to the reply to its last request. An operation maps the events so far to
  its outcome and the events then. Some of them can panic: an error text is cut at a byte position,
  and Rust refuses to cut a string inside a character.
\<close>

section \<open>Events, replies and outcomes\<close>

record graph_request =
  request_method :: string
  request_url :: string
  request_params :: "(string \<times> string) list"
  request_json :: "json option"
  request_headers :: "(string \<times> string) list"

datatype graph_event = Sent graph_request | Slept nat

text \<open>No answer, or the status, the \<^verbatim>\<open>Retry-After\<close> header and the text of the body.\<close>

datatype graph_reply = Unsent string | Replied nat "string option" string

datatype 'a outcome = Panicked | Finished "'a result"

type_synonym graph_trace = "graph_event list"
type_synonym 'a graph = "graph_trace \<Rightarrow> 'a outcome \<times> graph_trace"

definition graph_bind :: "'a graph \<Rightarrow> ('a \<Rightarrow> 'b graph) \<Rightarrow> 'b graph" where
  "graph_bind m f tr =
     (case m tr of
        (Panicked, tr') \<Rightarrow> (Panicked, tr')
      | (Finished (Inl e), tr') \<Rightarrow> (Finished (Inl e), tr')
      | (Finished (Inr a), tr') \<Rightarrow> f a tr')"

definition graph_done :: "'a outcome \<Rightarrow> 'a graph" where
  "graph_done o1 tr = (o1, tr)"

definition graph_ok :: "'a \<Rightarrow> 'a graph" where
  "graph_ok a = graph_done (Finished (Inr a))"

definition graph_fail :: "error \<Rightarrow> 'a graph" where
  "graph_fail e = graph_done (Finished (Inl e))"

lemma graph_bind_cases:
  assumes "graph_bind m f tr = (r, tr')"
  obtains (panic) "m tr = (Panicked, tr')" "r = Panicked"
  | (failed) e where "m tr = (Finished (Inl e), tr')" "r = Finished (Inl e)"
  | (ok) a tr1 where "m tr = (Finished (Inr a), tr1)" "f a tr1 = (r, tr')"
  using assms by (auto simp: graph_bind_def split: prod.splits outcome.splits sum.splits)

text \<open>
  The client: its configured roots, the service, and what is the libraries': the segments of a
  URL's path (or the error of parsing it), its origin, the text of a status, how many seconds an RFC
  2822 date lies ahead, and the error of decoding a body.
\<close>

record url_parts =
  url_has_credentials :: bool
  url_origin :: "string \<times> string option \<times> nat option"
  url_display :: string

record GraphClient =
  v1_api_root :: string
  beta_api_root :: string
  service :: "graph_trace \<Rightarrow> graph_reply"
  url_segments :: "string \<Rightarrow> string + string list"
  url_parse :: "string \<Rightarrow> string + url_parts"
  status_text :: "nat \<Rightarrow> string"
  seconds_until :: "string \<Rightarrow> int option"
  graph_json :: externals
  json_error :: "string \<Rightarrow> string"

definition join_url :: "string \<Rightarrow> string \<Rightarrow> string" where
  "join_url root path = trim_end_char CHR ''/'' root @ ''/'' @ trim_start_matches CHR ''/'' path"

definition v1_url :: "GraphClient \<Rightarrow> string \<Rightarrow> string" where
  "v1_url c path = join_url (v1_api_root c) path"

definition beta_url :: "GraphClient \<Rightarrow> string \<Rightarrow> string" where
  "beta_url c path = join_url (beta_api_root c) path"

section \<open>Cutting texts\<close>

text \<open>The first bytes of a string; there is no such string when the cut falls inside a character.\<close>

fun cut_bytes :: "nat \<Rightarrow> string \<Rightarrow> string option" where
  "cut_bytes n [] = (if n = 0 then Some [] else None)"
| "cut_bytes n (c # s) =
     (if n = 0 then Some []
      else if utf8_len c \<le> n then map_option ((#) c) (cut_bytes (n - utf8_len c) s)
      else None)"

definition truncate_text :: "string \<Rightarrow> nat \<Rightarrow> string option" where
  "truncate_text s limit = (if str_len s \<le> limit then Some s else cut_bytes limit s)"

lemma utf8_len_one_or_two: "utf8_len c = 1 \<or> utf8_len c = 2"
  by (simp add: utf8_len_def)

lemma cut_bytes_ascii:
  "list_all is_ascii s \<Longrightarrow> n \<le> length s \<Longrightarrow> cut_bytes n s = Some (take n s)"
  by (induction n s rule: cut_bytes.induct) (auto simp: utf8_len_def take_Cons')

lemma truncate_ascii: "list_all is_ascii s \<Longrightarrow> truncate_text s limit = Some (take limit s)"
  by (simp add: truncate_text_def str_len_ascii cut_bytes_ascii)

text \<open>A character of two bytes across the limit.\<close>

lemma cut_bytes_inside:
  "list_all is_ascii a \<Longrightarrow> \<not> is_ascii c \<Longrightarrow> cut_bytes (Suc (length a)) (a @ c # s) = None"
  by (induction a) (auto simp: utf8_len_def)

section \<open>Requests\<close>

definition calendar_segments :: "string list" where
  "calendar_segments = [''events'', ''calendars'', ''calendar'', ''calendarView'']"

definition has_header :: "string \<Rightarrow> graph_request \<Rightarrow> bool" where
  "has_header name req \<longleftrightarrow> list_ex (\<lambda>(h, v). eq_ignore_ascii_case h name) (request_headers req)"

text \<open>Requests on calendars ask for immutable ids unless they state a preference of their own.\<close>

definition prepared :: "string list \<Rightarrow> graph_request \<Rightarrow> graph_request" where
  "prepared segments req =
     (if list_ex (\<lambda>s. s \<in> set calendar_segments) segments \<and> \<not> has_header ''Prefer'' req
      then req\<lparr>request_headers := request_headers req @ [(''Prefer'', ''IdType='' @ [CHR 0x22] @ ''ImmutableId'' @ [CHR 0x22])]\<rparr>
      else req)"

definition header_seconds :: "GraphClient \<Rightarrow> string option \<Rightarrow> nat option" where
  "header_seconds c header =
     Option.bind header (\<lambda>v.
       case parse_unsigned 64 v of
         Some n \<Rightarrow> Some n
       | None \<Rightarrow> map_option (\<lambda>s. nat (max s 1)) (seconds_until c v))"

definition MAX_ATTEMPTS :: nat where "MAX_ATTEMPTS = 3"
definition MAX_RETRY_AFTER_SECS :: nat where "MAX_RETRY_AFTER_SECS = 120"

text \<open>The loop with the attempts that are left after the next one: status and body at the end.\<close>

fun send_attempts ::
    "GraphClient \<Rightarrow> graph_request \<Rightarrow> string \<Rightarrow> bool \<Rightarrow> nat \<Rightarrow> (nat \<times> string) graph" where
  "send_attempts c req what retry_transient left tr =
     (case url_segments c (request_url req) of
        Inl e \<Rightarrow> (Finished (Inl (Other (''Graph '' @ what @ '' request failed: '' @ e))), tr)
      | Inr segments \<Rightarrow>
          (let tr' = tr @ [Sent (prepared segments req)]
           in case service c tr' of
                Unsent e \<Rightarrow> (Finished (Inl (Other (''Graph '' @ what @ '' failed: '' @ e))), tr')
              | Replied code header body \<Rightarrow>
                  if (code = 429 \<or> (retry_transient \<and> (code = 503 \<or> code = 504))) \<and> left > 0
                  then
                    (let retry_after = max (or_default 5 (header_seconds c header)) 1
                     in if code = 429 \<and> retry_after > MAX_RETRY_AFTER_SECS
                        then (Finished (Inl (GraphThrottled (word_of_nat retry_after))), tr')
                        else send_attempts c req what retry_transient (left - 1)
                               (tr' @ [Slept (min retry_after MAX_RETRY_AFTER_SECS)]))
                  else if code = 429
                  then (Finished (Inl (GraphThrottled
                          (word_of_nat (max (or_default 120 (header_seconds c header)) 1)))), tr')
                  else (Finished (Inr (code, body)), tr')))"

declare send_attempts.simps [simp del]

definition send_with_retry :: "GraphClient \<Rightarrow> graph_request \<Rightarrow> string \<Rightarrow> bool \<Rightarrow> (nat \<times> string) graph" where
  "send_with_retry c req what retry_transient = send_attempts c req what retry_transient (MAX_ATTEMPTS - 1)"

definition is_success :: "nat \<Rightarrow> bool" where
  "is_success code \<longleftrightarrow> 200 \<le> code \<and> code < 300"

text \<open>An answer of another status, as an error that repeats the beginning of its body.\<close>

definition status_error :: "GraphClient \<Rightarrow> string \<Rightarrow> nat \<Rightarrow> string \<Rightarrow> 'a outcome" where
  "status_error c what code body =
     (case truncate_text body 500 of
        None \<Rightarrow> Panicked
      | Some shown \<Rightarrow>
          Finished (Inl (Other (''Graph '' @ what @ '' returned '' @ status_text c code @ '': '' @ shown))))"

definition parsed_body :: "GraphClient \<Rightarrow> string \<Rightarrow> string \<Rightarrow> json outcome" where
  "parsed_body c what body =
     Finished (ok_or (Other (what @ '' parse failed: '' @ json_error c body)) (json_parse (graph_json c) body))"

definition get_request :: "string \<Rightarrow> (string \<times> string) list \<Rightarrow> graph_request" where
  "get_request url params =
     \<lparr>request_method = ''GET'', request_url = url, request_params = params, request_json = None,
      request_headers = []\<rparr>"

definition graph_get :: "GraphClient \<Rightarrow> string \<Rightarrow> (string \<times> string) list \<Rightarrow> json graph" where
  "graph_get c path params =
     graph_bind (send_with_retry c (get_request (v1_url c path) params) (''GET '' @ path) True)
       (\<lambda>(code, body). graph_done
          (if \<not> is_success code then status_error c (''GET '' @ path) code body
           else parsed_body c ''Graph JSON'' body))"

definition graph_get_beta :: "GraphClient \<Rightarrow> string \<Rightarrow> (string \<times> string) list \<Rightarrow> json graph" where
  "graph_get_beta c path params =
     graph_bind (send_with_retry c (get_request (beta_url c path) params) (''beta GET '' @ path) True)
       (\<lambda>(code, body). graph_done
          (if \<not> is_success code then status_error c (''beta GET '' @ path) code body
           else parsed_body c ''Graph beta JSON'' body))"

definition post_json :: "GraphClient \<Rightarrow> string \<Rightarrow> json \<Rightarrow> json graph" where
  "post_json c path v =
     graph_bind
       (send_with_retry c
          \<lparr>request_method = ''POST'', request_url = v1_url c path, request_params = [],
           request_json = Some v, request_headers = []\<rparr> (''POST '' @ path) False)
       (\<lambda>(code, body). graph_done
          (if \<not> is_success code then status_error c (''POST '' @ path) code body
           else if body = [] then Finished (Inr JNull)
           else parsed_body c ''Graph POST'' body))"

definition patch_json :: "GraphClient \<Rightarrow> string \<Rightarrow> json \<Rightarrow> unit graph" where
  "patch_json c path v =
     graph_bind
       (send_with_retry c
          \<lparr>request_method = ''PATCH'', request_url = v1_url c path, request_params = [],
           request_json = Some v, request_headers = []\<rparr> (''PATCH '' @ path) True)
       (\<lambda>(code, body). graph_done
          (if \<not> is_success code then status_error c (''PATCH '' @ path) code body else Finished (Inr ())))"

definition graph_delete :: "GraphClient \<Rightarrow> string \<Rightarrow> unit graph" where
  "graph_delete c path =
     graph_bind
       (send_with_retry c
          \<lparr>request_method = ''DELETE'', request_url = v1_url c path, request_params = [],
           request_json = None, request_headers = []\<rparr> (''DELETE '' @ path) True)
       (\<lambda>(code, body). graph_done
          (if \<not> is_success code \<and> code \<noteq> 204 then status_error c (''DELETE '' @ path) code body
           else Finished (Inr ())))"

section \<open>Continuations\<close>

text \<open>
  A continuation is followed only to an origin the client is configured with; the roots are tried
  in order, and one that does not parse is an error only when it is reached.
\<close>

fun trusted_origin :: "GraphClient \<Rightarrow> url_parts \<Rightarrow> string list \<Rightarrow> bool result" where
  "trusted_origin c url [] = Inr False"
| "trusted_origin c url (root # roots) =
     (case url_parse c root of
        Inl e \<Rightarrow> Inl (Other (''Invalid configured Graph API root: '' @ e))
      | Inr r \<Rightarrow> if url_origin url = url_origin r then Inr True else trusted_origin c url roots)"

definition get_absolute :: "GraphClient \<Rightarrow> string \<Rightarrow> json graph" where
  "get_absolute c text =
     (case url_parse c text of
        Inl e \<Rightarrow> graph_fail (Other (''Invalid Graph continuation URL: '' @ e))
      | Inr url \<Rightarrow>
          if url_has_credentials url
          then graph_fail (Other ''Graph continuation URL must not contain credentials'')
          else
            (case trusted_origin c url [v1_api_root c, beta_api_root c] of
               Inl e \<Rightarrow> graph_fail e
             | Inr False \<Rightarrow>
                 graph_fail (Other (''Refusing Graph continuation URL with untrusted origin: '' @ url_display url))
             | Inr True \<Rightarrow>
                 graph_bind (send_with_retry c (get_request (url_display url) []) ''GET (absolute)'' True)
                   (\<lambda>(code, body). graph_done
                      (if \<not> is_success code then status_error c (''GET '' @ url_display url) code body
                       else parsed_body c ''Graph JSON'' body))))"

text \<open>
  All pages of a collection. The service decides how many there are, so the loop may never end,
  which is the value \<^term>\<open>None\<close>.
\<close>

definition page_values :: "json \<Rightarrow> json list" where
  "page_values page = or_default [] (as_array (jfield ''value'' page))"

definition next_link :: "json \<Rightarrow> string option" where
  "next_link page = as_str (jfield ''@odata.nextLink'' page)"

partial_function (option) get_pages ::
    "GraphClient \<Rightarrow> json list \<Rightarrow> json \<Rightarrow> graph_trace \<Rightarrow> (json list outcome \<times> graph_trace) option" where
  "get_pages c items page tr =
     (case next_link page of
        None \<Rightarrow> Some (Finished (Inr (items @ page_values page)), tr)
      | Some link \<Rightarrow>
          (case get_absolute c link tr of
             (Panicked, tr') \<Rightarrow> Some (Panicked, tr')
           | (Finished r, tr') \<Rightarrow>
               (case r of
                  Inl e \<Rightarrow> Some (Finished (Inl e), tr')
                | Inr page' \<Rightarrow> get_pages c (items @ page_values page) page' tr')))"

definition get_all ::
    "GraphClient \<Rightarrow> string \<Rightarrow> (string \<times> string) list \<Rightarrow> graph_trace
     \<Rightarrow> (json list outcome \<times> graph_trace) option" where
  "get_all c path params tr =
     (case graph_get c path params tr of
        (Panicked, tr') \<Rightarrow> Some (Panicked, tr')
      | (Finished (Inl e), tr') \<Rightarrow> Some (Finished (Inl e), tr')
      | (Finished (Inr page), tr') \<Rightarrow> get_pages c [] page tr')"

section \<open>What one call sends\<close>

text \<open>
  The events of a call: the prepared request, again after a pause when it was throttled (or met a
  transient failure and may be repeated), three times at most. The last reply decides.
\<close>

definition may_repeat :: "bool \<Rightarrow> graph_reply \<Rightarrow> bool" where
  "may_repeat retry_transient r \<longleftrightarrow>
     (case r of Unsent e \<Rightarrow> False
      | Replied code header body \<Rightarrow> code = 429 \<or> (retry_transient \<and> (code = 503 \<or> code = 504)))"

inductive sends ::
    "GraphClient \<Rightarrow> graph_request \<Rightarrow> bool \<Rightarrow> nat \<Rightarrow> graph_trace \<Rightarrow> graph_trace \<Rightarrow> bool"
  for c req rt where
  once: "sends c req rt (Suc left) tr (tr @ [Sent req])"
| again: "\<lbrakk>may_repeat rt (service c (tr @ [Sent req])); secs \<le> MAX_RETRY_AFTER_SECS;
    sends c req rt left (tr @ [Sent req, Slept secs]) tr'\<rbrakk> \<Longrightarrow> sends c req rt (Suc left) tr tr'"

lemma send_attempts_unbuilt:
  "url_segments c (request_url req) = Inl e \<Longrightarrow>
     send_attempts c req what rt left tr = (Finished (Inl (Other (''Graph '' @ what @ '' request failed: '' @ e))), tr)"
  by (subst send_attempts.simps) simp

lemma send_attempts_sends:
  assumes "url_segments c (request_url req) = Inr segments"
    and "send_attempts c req what rt left tr = (r, tr')"
  shows "sends c (prepared segments req) rt (Suc left) tr tr'"
  using assms(2)
proof (induction left arbitrary: tr)
  case 0
  with assms(1) show ?case
    by (subst (asm) send_attempts.simps)
      (auto simp: Let_def intro: sends.once split: graph_reply.splits if_splits)
next
  case (Suc left)
  let ?req = "prepared segments req"
  show ?case
  proof (cases "tr' = tr @ [Sent ?req]")
    case True
    then show ?thesis by (auto intro: sends.once)
  next
    case False
    from Suc.prems have "\<exists>code header body secs. service c (tr @ [Sent ?req]) = Replied code header body
        \<and> (code = 429 \<or> (rt \<and> (code = 503 \<or> code = 504))) \<and> secs \<le> MAX_RETRY_AFTER_SECS
        \<and> send_attempts c req what rt left (tr @ [Sent ?req, Slept secs]) = (r, tr')"
      by (subst (asm) send_attempts.simps)
        (use False assms(1) in \<open>auto 0 5 simp: Let_def split: graph_reply.splits if_splits intro: min.cobounded2\<close>)
    then obtain code header body secs where
      reply: "service c (tr @ [Sent ?req]) = Replied code header body"
      and retry: "code = 429 \<or> (rt \<and> (code = 503 \<or> code = 504))"
      and secs: "secs \<le> MAX_RETRY_AFTER_SECS"
      and rest: "send_attempts c req what rt left (tr @ [Sent ?req, Slept secs]) = (r, tr')" by blast
    show ?thesis
      by (rule sends.again [OF _ secs Suc.IH [OF rest]]) (simp add: may_repeat_def reply retry)
  qed
qed

end
