(* ===== verification/Graph_Batch.thy ===== *)
theory Graph_Batch
  imports Graph_Net Queue
begin

text \<open>
  Batches of mail operations over Microsoft Graph (\<^verbatim>\<open>mail/graph.rs\<close>) and the executor that runs the
  operations of the queue on them (\<^verbatim>\<open>backend/mail/graph.rs\<close>). A batch carries up to twenty
  sub-requests, each answered on its own; throttled ones are sent again in up to three rounds.
\<close>

section \<open>Sub-responses\<close>

definition BATCH_SIZE :: nat where "BATCH_SIZE = 20"

definition item_index :: "json \<Rightarrow> nat option" where
  "item_index v = Option.bind (as_str (jfield ''id'' v)) (parse_unsigned 64)"

definition item_status :: "json \<Rightarrow> nat" where
  "item_status r = or_default 0 (as_u64 (jfield ''status'' r)) mod 2 ^ 16"

definition batch_item_retry_after :: "json \<Rightarrow> nat option" where
  "batch_item_retry_after r =
     Option.bind (as_object (jfield ''headers'' r)) (\<lambda>headers.
     Option.bind (find (\<lambda>(k, v). eq_ignore_ascii_case k ''retry-after'') headers) (\<lambda>(k, v).
     Option.bind (as_str v) (parse_unsigned 64)))"

text \<open>The loop over the sub-responses; nothing when the text of an error cannot be cut.\<close>

fun apply_items ::
    "GraphClient \<Rightarrow> bool \<Rightarrow> json list \<Rightarrow> unit result list \<Rightarrow> (nat \<times> nat) list
     \<Rightarrow> (unit result list \<times> (nat \<times> nat) list) option" where
  "apply_items c retry_transient [] results retryable = Some (results, retryable)"
| "apply_items c retry_transient (r # rs) results retryable =
     (case item_index r of
        None \<Rightarrow> apply_items c retry_transient rs results retryable
      | Some i \<Rightarrow>
          if i \<ge> length results then apply_items c retry_transient rs results retryable
          else
            (let status = item_status r
             in if 200 \<le> status \<and> status < 300
                then apply_items c retry_transient rs (results[i := Inr ()]) retryable
                else if status = 429 \<or> (retry_transient \<and> (status = 503 \<or> status = 504))
                then apply_items c retry_transient rs results
                       (retryable @ [(i, or_default 5 (batch_item_retry_after r))])
                else
                  (case truncate_text (json_text (graph_json c) (jfield ''body'' r)) 300 of
                     None \<Rightarrow> None
                   | Some shown \<Rightarrow>
                       apply_items c retry_transient rs
                         (results[i := Inl (Other (''Graph $batch item returned '' @ show_nat status @ '': '' @ shown))])
                         retryable)))"

definition batch_responses :: "json \<Rightarrow> json list" where
  "batch_responses resp = or_default [] (as_array (jfield ''responses'' resp))"

definition apply_batch_responses ::
    "GraphClient \<Rightarrow> bool \<Rightarrow> json \<Rightarrow> unit result list \<Rightarrow> (unit result list \<times> (nat \<times> nat) list) option" where
  "apply_batch_responses c retry_transient resp results =
     apply_items c retry_transient (batch_responses resp) results []"

section \<open>Rounds\<close>

definition batch_body :: "json list \<Rightarrow> json" where
  "batch_body requests = jobj [(''requests'', JArr requests)]"

fun post_chunks ::
    "GraphClient \<Rightarrow> bool \<Rightarrow> json list list \<Rightarrow> unit result list \<Rightarrow> (nat \<times> nat) list
     \<Rightarrow> (unit result list \<times> (nat \<times> nat) list) graph" where
  "post_chunks c retry_transient [] results retryable = graph_ok (results, retryable)"
| "post_chunks c retry_transient (chunk # rest) results retryable =
     graph_bind (post_json c ''/$batch'' (batch_body chunk)) (\<lambda>resp.
       case apply_batch_responses c retry_transient resp results of
         None \<Rightarrow> graph_done Panicked
       | Some (results', throttled) \<Rightarrow> post_chunks c retry_transient rest results' (retryable @ throttled))"

definition no_response :: error where
  "no_response = Other ''no $batch response for item''"

definition still_throttled :: error where
  "still_throttled = Other ''Graph $batch item still throttled after retries''"

definition mark_throttled :: "unit result list \<Rightarrow> (nat \<times> nat) list \<Rightarrow> unit result list" where
  "mark_throttled results retryable = foldl (\<lambda>rs (i, d). rs[i := Inl still_throttled]) results retryable"

definition still_pending :: "json list \<Rightarrow> (nat \<times> nat) list \<Rightarrow> json list" where
  "still_pending pending retryable =
     filter (\<lambda>req. case item_index req of None \<Rightarrow> False | Some i \<Rightarrow> i \<in> fst ` set retryable) pending"

definition pause_before :: "json list \<Rightarrow> (nat \<times> nat) list \<Rightarrow> unit graph" where
  "pause_before next retryable tr =
     (Finished (Inr ()),
      if next = [] then tr
      else tr @ [Slept (min (if retryable = [] then 5 else Max (snd ` set retryable)) MAX_RETRY_AFTER_SECS)])"

definition MAX_ROUNDS :: nat where "MAX_ROUNDS = 3"

fun batch_rounds ::
    "GraphClient \<Rightarrow> bool \<Rightarrow> nat \<Rightarrow> json list \<Rightarrow> unit result list \<Rightarrow> unit result list graph" where
  "batch_rounds c retry_transient 0 pending results = graph_ok results"
| "batch_rounds c retry_transient (Suc left) pending results =
     (if pending = [] then graph_ok results
      else
        graph_bind (post_chunks c retry_transient (chunks BATCH_SIZE pending) results []) (\<lambda>(results', retryable).
          if left = 0 then graph_ok (mark_throttled results' retryable)
          else
            (let next = still_pending pending retryable
             in graph_bind (pause_before next retryable) (\<lambda>_.
                batch_rounds c retry_transient left next results'))))"

definition execute_batch_with_retry :: "GraphClient \<Rightarrow> json list \<Rightarrow> bool \<Rightarrow> unit result list graph" where
  "execute_batch_with_retry c requests retry_transient =
     batch_rounds c retry_transient MAX_ROUNDS requests (replicate (length requests) (Inl no_response))"

section \<open>The operations\<close>

definition json_content :: json where
  "json_content = jobj [(''Content-Type'', JStr ''application/json'')]"

definition move_item :: "string \<Rightarrow> nat \<times> string \<Rightarrow> json" where
  "move_item dest m =
     jobj [(''id'', JStr (show_nat (fst m))), (''method'', JStr ''POST''),
           (''url'', JStr (''/me/messages/'' @ snd m @ ''/move'')), (''headers'', json_content),
           (''body'', jobj [(''destinationId'', JStr dest)])]"

definition copy_item :: "string \<Rightarrow> nat \<times> string \<Rightarrow> json" where
  "copy_item dest m =
     jobj [(''id'', JStr (show_nat (fst m))), (''method'', JStr ''POST''),
           (''url'', JStr (''/me/messages/'' @ snd m @ ''/copy'')), (''headers'', json_content),
           (''body'', jobj [(''destinationId'', JStr dest)])]"

definition delete_item :: "nat \<times> string \<Rightarrow> json" where
  "delete_item m =
     jobj [(''id'', JStr (show_nat (fst m))), (''method'', JStr ''DELETE''),
           (''url'', JStr (''/me/messages/'' @ snd m))]"

definition patch_item :: "json \<Rightarrow> nat \<times> string \<Rightarrow> json" where
  "patch_item updates m =
     jobj [(''id'', JStr (show_nat (fst m))), (''method'', JStr ''PATCH''),
           (''url'', JStr (''/me/messages/'' @ snd m)), (''headers'', json_content), (''body'', updates)]"

definition move_messages_batch :: "GraphClient \<Rightarrow> string list \<Rightarrow> string \<Rightarrow> unit result list graph" where
  "move_messages_batch c ids dest = execute_batch_with_retry c (map (move_item dest) (enumerate 0 ids)) True"

definition copy_messages_batch :: "GraphClient \<Rightarrow> string list \<Rightarrow> string \<Rightarrow> unit result list graph" where
  "copy_messages_batch c ids dest = execute_batch_with_retry c (map (copy_item dest) (enumerate 0 ids)) False"

definition delete_messages_batch :: "GraphClient \<Rightarrow> string list \<Rightarrow> unit result list graph" where
  "delete_messages_batch c ids = execute_batch_with_retry c (map delete_item (enumerate 0 ids)) True"

definition set_read_status_batch :: "GraphClient \<Rightarrow> string list \<Rightarrow> bool \<Rightarrow> unit result list graph" where
  "set_read_status_batch c ids is_read =
     execute_batch_with_retry c
       (map (patch_item (jobj [(''isRead'', JBool is_read)])) (enumerate 0 ids)) True"

text \<open>Flags without a counterpart on the service stay local.\<close>

definition flag_update :: "bool \<Rightarrow> string \<Rightarrow> (string \<times> json) option" where
  "flag_update adding flag =
     (if flag = ''seen'' then Some (''isRead'', JBool adding)
      else if flag = ''flagged''
      then Some (''flag'', jobj [(''flagStatus'', JStr (if adding then ''flagged'' else ''notFlagged''))])
      else None)"

definition graph_flag_updates :: "string list \<Rightarrow> bool \<Rightarrow> (string \<times> json) list" where
  "graph_flag_updates flag_names adding =
     foldl map_insert [] (List.map_filter (flag_update adding) flag_names)"

fun first_failure :: "unit result list \<Rightarrow> unit result" where
  "first_failure [] = Inr ()"
| "first_failure (Inr _ # rs) = first_failure rs"
| "first_failure (Inl e # rs) = Inl (Other (''Graph set-flags batch item failed: '' @ error_to_string e))"

definition graph_set_flags :: "GraphClient \<Rightarrow> string list \<Rightarrow> string list \<Rightarrow> bool \<Rightarrow> unit graph" where
  "graph_set_flags c ids flag_names adding =
     (let updates = graph_flag_updates flag_names adding
      in if updates = [] then graph_ok ()
         else graph_bind
           (execute_batch_with_retry c (map (patch_item (jobj updates)) (enumerate 0 ids)) True)
           (\<lambda>outcomes. graph_done (Finished (first_failure outcomes))))"

section \<open>The executor\<close>

definition is_item_not_found :: "error \<Rightarrow> bool" where
  "is_item_not_found e \<longleftrightarrow>
     str_contains ''404'' (error_to_string e) \<and> str_contains ''ErrorItemNotFound'' (error_to_string e)"

definition non_graph_reference :: error where
  "non_graph_reference = Other ''Graph executor received a non-Graph message reference''"

definition collect_item_ids :: "BackendMessageRef list \<Rightarrow> string list result" where
  "collect_item_ids refs = ok_or non_graph_reference (collect_options (map graph_item_id refs))"

text \<open>The failures of a batch, leaving out those that are accepted.\<close>

definition item_failure :: "(error \<Rightarrow> bool) \<Rightarrow> string \<times> unit result \<Rightarrow> string option" where
  "item_failure accepted p =
     (case snd p of
        Inr _ \<Rightarrow> None
      | Inl e \<Rightarrow> if accepted e then None else Some (fst p @ '': '' @ error_to_string e))"

definition report_failures :: "string \<Rightarrow> (error \<Rightarrow> bool) \<Rightarrow> string list \<Rightarrow> unit result list \<Rightarrow> unit result" where
  "report_failures what accepted ids outcomes =
     (let failures = List.map_filter (item_failure accepted) (zip ids outcomes)
      in if failures \<noteq> []
         then Inl (Other (''Graph '' @ what @ '' failed for '' @ show_nat (length failures) @ '' message(s): ''
                @ join ''; '' failures))
         else Inr ())"

definition prepare_item_flags :: "FlagMutation \<Rightarrow> (string list \<times> string list \<times> bool) result" where
  "prepare_item_flags mutation =
     (case target mutation of
        Messages refs \<Rightarrow>
          map_sum id (\<lambda>ids. (ids, flags mutation, add mutation)) (collect_item_ids refs)
      | AllMessagesInFolders _ _ \<Rightarrow> Inl (Other ''Graph executor received an IMAP bulk flag target''))"

fun prepare_all_items :: "FlagMutation list \<Rightarrow> (string list \<times> string list \<times> bool) list result" where
  "prepare_all_items [] = Inr []"
| "prepare_all_items (m # ms) =
     and_then (prepare_item_flags m) (\<lambda>p. and_then (prepare_all_items ms) (\<lambda>ps. Inr (p # ps)))"

fun graph_each :: "('a \<Rightarrow> unit graph) \<Rightarrow> 'a list \<Rightarrow> unit graph" where
  "graph_each f [] = graph_ok ()"
| "graph_each f (a # as) = graph_bind (f a) (\<lambda>_. graph_each f as)"

definition graph_lift :: "'a result \<Rightarrow> 'a graph" where
  "graph_lift r = graph_done (Finished r)"

text \<open>
  \<open>connected\<close> is the client the account's tokens give; delivery goes over SMTP, which is another
  module, given by \<open>send_smtp\<close>.
\<close>

definition graph_execute :: "GraphClient result \<Rightarrow> (MailOp \<Rightarrow> unit graph) \<Rightarrow> MailOp \<Rightarrow> unit graph" where
  "graph_execute connected send_smtp mop =
     (case mop of
        CopyMessages refs target_folder \<Rightarrow>
          graph_bind (graph_lift (collect_item_ids refs)) (\<lambda>ids.
          graph_bind (graph_lift connected) (\<lambda>c.
          graph_bind (copy_messages_batch c ids target_folder) (\<lambda>outcomes.
          graph_lift (report_failures ''copy'' (\<lambda>e. False) ids outcomes))))
      | MoveMessages refs target_folder \<Rightarrow>
          graph_bind (graph_lift (collect_item_ids refs)) (\<lambda>ids.
          graph_bind (graph_lift connected) (\<lambda>c.
          graph_bind (move_messages_batch c ids target_folder) (\<lambda>outcomes.
          graph_lift (report_failures ''move'' is_item_not_found ids outcomes))))
      | DeleteMessages refs \<Rightarrow>
          graph_bind (graph_lift (collect_item_ids refs)) (\<lambda>ids.
          graph_bind (graph_lift connected) (\<lambda>c.
          graph_bind (delete_messages_batch c ids) (\<lambda>outcomes.
          graph_lift (report_failures ''delete'' is_item_not_found ids outcomes))))
      | SetFlags mutations \<Rightarrow>
          graph_bind (graph_lift (prepare_all_items mutations)) (\<lambda>prepared.
          graph_bind (graph_lift connected) (\<lambda>c.
          graph_each (\<lambda>(ids, flag_names, adding). graph_set_flags c ids flag_names adding) prepared))
      | SendRaw raw from_text to_list cc bcc message_id \<Rightarrow> send_smtp mop
      | _ \<Rightarrow> graph_ok ())"

end
