(* ===== verification/Graph_Outcomes.thy ===== *)
theory Graph_Outcomes
  imports Graph_Batch
begin

text \<open>
  What batches over Microsoft Graph achieve: a copy is repeated only after the service refused it
  for certain, an item reported done was confirmed by the service, and an operation that succeeded
  did so for every message. The replies to the posts that carry one item are its log; the proofs
  follow the log through the attempts of a post, the posts of a round and the rounds of a batch.
\<close>

section \<open>The log of an item\<close>

fun sub_requests :: "json \<Rightarrow> json list" where
  "sub_requests body = or_default [] (as_array (jfield ''requests'' body))"

definition carries :: "nat \<Rightarrow> graph_request \<Rightarrow> bool" where
  "carries i req \<longleftrightarrow>
     (case request_json req of
        None \<Rightarrow> False
      | Some body \<Rightarrow> list_ex (\<lambda>q. item_index q = Some i) (sub_requests body))"

fun item_log :: "GraphClient \<Rightarrow> nat \<Rightarrow> graph_trace \<Rightarrow> graph_trace \<Rightarrow> graph_reply list" where
  "item_log c i tr [] = []"
| "item_log c i tr (e # es) =
     (case e of
        Sent req \<Rightarrow> (if carries i req then [service c (tr @ [e])] else [])
      | Slept n \<Rightarrow> []) @ item_log c i (tr @ [e]) es"

lemma item_log_append:
  "item_log c i tr (xs @ ys) = item_log c i tr xs @ item_log c i (tr @ xs) ys"
  by (induction xs arbitrary: tr) auto

text \<open>The service refused the item for certain: the whole post was throttled, or the item was.\<close>

definition refused :: "GraphClient \<Rightarrow> nat \<Rightarrow> graph_reply \<Rightarrow> bool" where
  "refused c i r \<longleftrightarrow>
     (case r of
        Unsent e \<Rightarrow> False
      | Replied code header body \<Rightarrow>
          code = 429
        \<or> (is_success code
            \<and> (case json_parse (graph_json c) body of
                 None \<Rightarrow> False
               | Some v \<Rightarrow> list_all (\<lambda>q. item_index q = Some i \<longrightarrow> item_status q = 429) (batch_responses v))))"

text \<open>
  What Graph documents of a batch: its reply answers sub-requests of that batch only, each of them
  at most once.
\<close>

definition answers_own_items :: "GraphClient \<Rightarrow> bool" where
  "answers_own_items c \<longleftrightarrow>
     (\<forall>tr req code header body v requests.
        service c (tr @ [Sent req]) = Replied code header body
      \<and> is_success code \<and> json_parse (graph_json c) body = Some v
      \<and> request_json req = Some (batch_body requests)
      \<longrightarrow> distinct (List.map_filter item_index (batch_responses v))
        \<and> set (List.map_filter item_index (batch_responses v))
            \<subseteq> set (List.map_filter item_index requests))"

lemma sub_requests_body [simp]: "sub_requests (batch_body requests) = requests"
  by (simp add: batch_body_def jfield_def or_default_def)

lemma carries_batch:
  "carries i \<lparr>request_method = m, request_url = u, request_params = ps,
      request_json = Some (batch_body requests), request_headers = hs\<rparr>
     \<longleftrightarrow> Some i \<in> item_index ` set requests"
  by (auto simp: carries_def list_ex_iff image_iff eq_commute [of "Some i"] simp del: sub_requests.simps)

lemma prepared_json [simp]: "request_json (prepared segments req) = request_json req"
  by (simp add: prepared_def)

lemma carries_prepared [simp]: "carries i (prepared segments req) = carries i req"
  by (simp add: carries_def)

section \<open>One post\<close>

text \<open>Without repetition after transient failures, every reply before the last is a throttling.\<close>

lemma sends_log:
  assumes "sends c req False left tr tr'"
  shows "\<exists>evs rs r. tr' = tr @ evs \<and> evs \<noteq> [] \<and> last evs = Sent req
    \<and> (if carries i req then item_log c i tr evs = rs @ [r] \<and> r = service c tr' \<and> list_all (refused c i) rs
       else item_log c i tr evs = [])"
  using assms
proof (induction rule: sends.induct)
  case (once left tr)
  show ?case by (intro exI [of _ "[Sent req]"] exI [of _ "[]"]) simp
next
  case (again tr secs left tr')
  then obtain evs rs r where IH: "tr' = (tr @ [Sent req, Slept secs]) @ evs" "evs \<noteq> []" "last evs = Sent req"
    "if carries i req then item_log c i (tr @ [Sent req, Slept secs]) evs = rs @ [r] \<and> r = service c tr'
        \<and> list_all (refused c i) rs
     else item_log c i (tr @ [Sent req, Slept secs]) evs = []" by blast
  have "refused c i (service c (tr @ [Sent req]))"
    using again(1) by (auto simp: may_repeat_def refused_def split: graph_reply.splits)
  with IH show ?case
    by (intro exI [of _ "[Sent req, Slept secs] @ evs"]
        exI [of _ "(if carries i req then [service c (tr @ [Sent req])] else []) @ rs"] exI [of _ r])
      (auto simp: split: if_splits)
qed

text \<open>What a post of a batch leaves behind, and how its last reply was read.\<close>

lemma send_attempts_result:
  assumes "url_segments c (request_url req) = Inr segments"
    and "send_attempts c req what rt left tr = (Finished (Inr (code, body)), tr')"
  shows "\<exists>header. service c tr' = Replied code header body"
  using assms(2)
proof (induction left arbitrary: tr)
  case 0
  with assms(1) show ?case
    by (subst (asm) send_attempts.simps) (auto simp: Let_def split: graph_reply.splits if_splits)
next
  case (Suc left)
  from Suc.prems assms(1) show ?case
    by (subst (asm) send_attempts.simps)
      (auto simp: Let_def dest: Suc.IH split: graph_reply.splits if_splits)
qed

lemma post_json_sends:
  assumes "post_json c path v tr = (o1, tr')"
  obtains (unsent) e where "tr' = tr" "o1 = Finished (Inl e)"
  | (sent) req where "request_json req = Some v" "sends c req False 3 tr tr'"
      "\<And>resp. o1 = Finished (Inr resp) \<Longrightarrow>
         \<exists>code header body. service c tr' = Replied code header body \<and> is_success code
           \<and> (body = [] \<and> resp = JNull \<or> json_parse (graph_json c) body = Some resp)"
proof -
  let ?req = "\<lparr>request_method = ''POST'', request_url = v1_url c path, request_params = [],
           request_json = Some v, request_headers = []\<rparr>"
  let ?what = "''POST '' @ path"
  obtain q tr1 where call: "send_with_retry c ?req ?what False tr = (q, tr1)" by fastforce
  have tr': "tr' = tr1" and panic: "q = Panicked \<Longrightarrow> o1 = Panicked"
    and failed: "\<And>e. q = Finished (Inl e) \<Longrightarrow> o1 = Finished (Inl e)"
    using assms call
    by (auto simp: post_json_def graph_bind_def graph_done_def split: outcome.splits sum.splits)
  show thesis
  proof (cases "url_segments c (v1_url c path)")
    case (Inl e)
    with call failed tr' show thesis
      by (intro unsent) (auto simp: send_with_retry_def send_attempts_unbuilt)
  next
    case (Inr segments)
    have three: "Suc (MAX_ATTEMPTS - 1) = 3" by (simp add: MAX_ATTEMPTS_def)
    have run: "send_attempts c ?req ?what False (MAX_ATTEMPTS - 1) tr = (q, tr')"
      using call tr' by (simp add: send_with_retry_def)
    have "sends c (prepared segments ?req) False (Suc (MAX_ATTEMPTS - 1)) tr tr'"
      by (rule send_attempts_sends [OF _ run]) (simp add: Inr)
    then have "sends c (prepared segments ?req) False 3 tr tr'" by (simp only: three)
    moreover have "\<exists>code header body. service c tr' = Replied code header body \<and> is_success code
        \<and> (body = [] \<and> resp = JNull \<or> json_parse (graph_json c) body = Some resp)"
      if ok: "o1 = Finished (Inr resp)" for resp
    proof -
      obtain code body where q: "q = Finished (Inr (code, body))"
        using ok panic failed by (cases q) (metis outcome.distinct(1), metis outcome.inject sum.exhaust surj_pair Inr_not_Inl)
      have "is_success code" "body = [] \<and> resp = JNull \<or> json_parse (graph_json c) body = Some resp"
        using assms call q ok
        by (auto simp: post_json_def graph_bind_def graph_done_def status_error_def parsed_body_def
            split: if_splits option.splits)
      then show ?thesis using send_attempts_result [OF _ run [unfolded q]] Inr by fastforce
    qed
    ultimately show thesis by (intro sent [of "prepared segments ?req"]) simp_all
  qed
qed

section \<open>Reading sub-responses\<close>

lemma apply_items_throttled:
  assumes "apply_items c False rs results retryable = Some (results', retryable')"
    and "i \<in> fst ` set retryable'" "i \<notin> fst ` set retryable"
  shows "\<exists>q \<in> set rs. item_index q = Some i \<and> item_status q = 429"
  using assms
proof (induction rs arbitrary: results retryable)
  case (Cons r rs)
  show ?case
  proof (cases "item_index r = Some i \<and> item_status r = 429")
    case False
    with Cons show ?thesis
      by (auto simp: Let_def split: option.splits if_splits)
  qed simp
qed simp

lemma map_filter_unique:
  "distinct (List.map_filter f xs) \<Longrightarrow> x \<in> set xs \<Longrightarrow> y \<in> set xs \<Longrightarrow> f x = Some k \<Longrightarrow> f y = Some k \<Longrightarrow> x = y"
proof (induction xs)
  case (Cons z xs)
  then show ?case by (cases "f z") (auto simp: set_map_filter)
qed simp

lemma throttled_refused:
  assumes own: "answers_own_items c"
    and reply: "service c (tr @ [Sent req]) = Replied code header body" "is_success code"
      "json_parse (graph_json c) body = Some v" "request_json req = Some (batch_body requests)"
    and q: "q \<in> set (batch_responses v)" "item_index q = Some i"
  shows "i \<in> set (List.map_filter item_index requests)"
    and "item_status q = 429 \<Longrightarrow> refused c i (Replied code header body)"
proof -
  have distinct: "distinct (List.map_filter item_index (batch_responses v))"
    and sub: "set (List.map_filter item_index (batch_responses v)) \<subseteq> set (List.map_filter item_index requests)"
    using own reply unfolding answers_own_items_def by blast+
  show "i \<in> set (List.map_filter item_index requests)"
    using sub q by (auto simp: set_map_filter)
  assume throttled: "item_status q = 429"
  have "item_status q' = 429" if "q' \<in> set (batch_responses v)" "item_index q' = Some i" for q'
    using map_filter_unique [OF distinct q(1) that(1) q(2) that(2)] throttled by simp
  then show "refused c i (Replied code header body)"
    using reply(2,3) by (auto simp: refused_def list_all_iff)
qed

section \<open>A round and the rounds\<close>

definition indices :: "json list \<Rightarrow> nat list" where
  "indices requests = List.map_filter item_index requests"

lemma indices_append [simp]: "indices (a @ b) = indices a @ indices b"
  by (simp add: indices_def List.map_filter_def)

lemma indices_Cons: "indices (q # qs) = (case item_index q of None \<Rightarrow> indices qs | Some i \<Rightarrow> i # indices qs)"
  by (simp add: indices_def List.map_filter_def split: option.split)

lemma batch_responses_null [simp]: "batch_responses JNull = []"
  by (simp add: batch_responses_def jfield_def or_default_def)

lemma in_indices: "i \<in> set (indices requests) \<longleftrightarrow> (\<exists>q \<in> set requests. item_index q = Some i)"
  by (auto simp: indices_def set_map_filter)

text \<open>
  One post of a round: the log of an item it carries is refused up to its last reply, and the item
  is only put aside for the next round when that one refused it as well.
\<close>

lemma batch_post_log:
  assumes own: "answers_own_items c"
    and post: "post_json c path (batch_body requests) tr = (o1, tr')"
  obtains evs where "tr' = tr @ evs"
    "i \<notin> set (indices requests) \<Longrightarrow> item_log c i tr evs = []"
    "list_all (refused c i) (butlast (item_log c i tr evs))"
    "\<And>resp results results' retryable. o1 = Finished (Inr resp) \<Longrightarrow>
       apply_batch_responses c False resp results = Some (results', retryable) \<Longrightarrow>
       i \<in> fst ` set retryable \<Longrightarrow>
       i \<in> set (indices requests) \<and> list_all (refused c i) (item_log c i tr evs)"
  using post
proof (cases rule: post_json_sends)
  case (unsent e)
  then show thesis by (intro that [of "[]"]) auto
next
  case (sent req)
  have carries: "carries i req \<longleftrightarrow> i \<in> set (indices requests)"
    by (auto simp: carries_def sent(1) list_ex_iff in_indices simp del: sub_requests.simps)
  from sends_log [OF sent(2), of i] obtain evs rs r where evs: "tr' = tr @ evs" "evs \<noteq> []" "last evs = Sent req"
    and log: "if carries i req then item_log c i tr evs = rs @ [r] \<and> r = service c tr' \<and> list_all (refused c i) rs
      else item_log c i tr evs = []" by blast
  have tr': "tr' = (tr @ butlast evs) @ [Sent req]"
    using evs by (metis append.assoc append_butlast_last_id)
  show thesis
  proof (rule that [OF evs(1)])
    show "i \<notin> set (indices requests) \<Longrightarrow> item_log c i tr evs = []" using log carries by simp
    show "list_all (refused c i) (butlast (item_log c i tr evs))" using log by (auto split: if_splits)
    fix resp results results' retryable
    assume ok: "o1 = Finished (Inr resp)"
      and read: "apply_batch_responses c False resp results = Some (results', retryable)"
      and i: "i \<in> fst ` set retryable"
    obtain q where q: "q \<in> set (batch_responses resp)" "item_index q = Some i" "item_status q = 429"
      using apply_items_throttled [OF read [unfolded apply_batch_responses_def] i] by auto
    from sent(3) [OF ok] q(1) obtain code header body where
      reply: "service c tr' = Replied code header body" "is_success code" "json_parse (graph_json c) body = Some resp"
      by auto
    from throttled_refused [OF own reply(1) [unfolded tr'] reply(2,3) sent(1) q(1,2)] q(3)
    show "i \<in> set (indices requests) \<and> list_all (refused c i) (item_log c i tr evs)"
      using log carries reply(1) by (auto simp: indices_def)
  qed
qed

lemma post_chunks_log:
  assumes own: "answers_own_items c"
  shows "distinct (indices (concat cks)) \<Longrightarrow> post_chunks c False cks results retryable tr = (o1, tr') \<Longrightarrow>
    \<exists>evs. tr' = tr @ evs
      \<and> (i \<notin> set (indices (concat cks)) \<longrightarrow> item_log c i tr evs = [])
      \<and> list_all (refused c i) (butlast (item_log c i tr evs))
      \<and> (\<forall>res ret. o1 = Finished (Inr (res, ret)) \<and> i \<in> fst ` set ret \<and> i \<notin> fst ` set retryable \<longrightarrow>
           i \<in> set (indices (concat cks)) \<and> list_all (refused c i) (item_log c i tr evs))"
proof (induction cks arbitrary: results retryable tr)
  case Nil
  then show ?case by (auto simp: graph_ok_def graph_done_def)
next
  case (Cons ck cks)
  from Cons.prems(2)
  have run: "graph_bind (post_json c ''/$batch'' (batch_body ck)) (\<lambda>resp.
       case apply_batch_responses c False resp results of
         None \<Rightarrow> graph_done Panicked
       | Some (results', throttled) \<Rightarrow> post_chunks c False cks results' (retryable @ throttled)) tr = (o1, tr')"
    by simp
  then show ?case
  proof (cases rule: graph_bind_cases)
    case panic
    from batch_post_log [OF own panic(1), of i] obtain evs where "tr' = tr @ evs"
      "i \<notin> set (indices ck) \<Longrightarrow> item_log c i tr evs = []"
      "list_all (refused c i) (butlast (item_log c i tr evs))" by blast
    with panic(2) show ?thesis by (intro exI [of _ evs]) auto
  next
    case (failed e)
    from batch_post_log [OF own failed(1), of i] obtain evs where "tr' = tr @ evs"
      "i \<notin> set (indices ck) \<Longrightarrow> item_log c i tr evs = []"
      "list_all (refused c i) (butlast (item_log c i tr evs))" by blast
    with failed(2) show ?thesis by (intro exI [of _ evs]) auto
  next
    case (ok resp tr1)
    obtain evs where evs: "tr1 = tr @ evs"
      "i \<notin> set (indices ck) \<Longrightarrow> item_log c i tr evs = []"
      "list_all (refused c i) (butlast (item_log c i tr evs))"
      and refused: "\<And>results results' throttled. apply_batch_responses c False resp results = Some (results', throttled) \<Longrightarrow>
        i \<in> fst ` set throttled \<Longrightarrow> i \<in> set (indices ck) \<and> list_all (refused c i) (item_log c i tr evs)"
      using batch_post_log [OF own ok(1), of i] by (metis (no_types, lifting))
    show ?thesis
    proof (cases "apply_batch_responses c False resp results")
      case None
      with ok evs show ?thesis by (intro exI [of _ evs]) (auto simp: graph_done_def)
    next
      case (Some p)
      obtain results' throttled where p: "p = (results', throttled)" by (cases p)
      with Some ok(2) have rest: "post_chunks c False cks results' (retryable @ throttled) tr1 = (o1, tr')" by simp
      have disjoint: "distinct (indices (concat cks))" "i \<in> set (indices ck) \<Longrightarrow> i \<notin> set (indices (concat cks))"
        using Cons.prems(1) by auto
      from Cons.IH [OF disjoint(1) rest] obtain evs2 where evs2: "tr' = tr1 @ evs2"
        "i \<notin> set (indices (concat cks)) \<longrightarrow> item_log c i tr1 evs2 = []"
        "list_all (refused c i) (butlast (item_log c i tr1 evs2))"
        "\<forall>res ret. o1 = Finished (Inr (res, ret)) \<and> i \<in> fst ` set ret \<and> i \<notin> fst ` set (retryable @ throttled) \<longrightarrow>
           i \<in> set (indices (concat cks)) \<and> list_all (refused c i) (item_log c i tr1 evs2)" by blast
      have log: "item_log c i tr (evs @ evs2) = item_log c i tr evs @ item_log c i tr1 evs2"
        by (simp add: item_log_append evs(1))
      show ?thesis
      proof (cases "i \<in> set (indices ck)")
        case True
        with disjoint evs2 have "item_log c i tr1 evs2 = []" by simp
        with True log evs evs2 refused [OF Some [unfolded p]] disjoint show ?thesis
          by (intro exI [of _ "evs @ evs2"]) (auto simp: image_Un)
      next
        case False
        with evs have none: "item_log c i tr evs = []" by simp
        from False refused [OF Some [unfolded p]] have kept: "i \<notin> fst ` set throttled" by blast
        have "\<forall>res ret. o1 = Finished (Inr (res, ret)) \<and> i \<in> fst ` set ret \<and> i \<notin> fst ` set retryable \<longrightarrow>
            i \<in> set (indices (concat cks)) \<and> list_all (refused c i) (item_log c i tr (evs @ evs2))"
          using evs2(4) kept by (simp add: image_Un log none)
        with False log none evs evs2(1-3) show ?thesis
          by (intro exI [of _ "evs @ evs2"]) simp
      qed
    qed
  qed
qed

lemma still_pending_indices:
  "distinct (indices pending) \<Longrightarrow> distinct (indices (still_pending pending retryable))"
  "i \<in> set (indices (still_pending pending retryable)) \<Longrightarrow> i \<in> set (indices pending) \<and> i \<in> fst ` set retryable"
proof -
  show "distinct (indices pending) \<Longrightarrow> distinct (indices (still_pending pending retryable))"
  proof (induction pending)
    case (Cons q pending)
    then show ?case
      by (cases "item_index q") (auto simp: indices_Cons still_pending_def in_indices)
  qed (simp add: still_pending_def)
  show "i \<in> set (indices (still_pending pending retryable)) \<Longrightarrow> i \<in> set (indices pending) \<and> i \<in> fst ` set retryable"
    by (auto simp: in_indices still_pending_def split: option.splits)
qed

lemma batch_rounds_log:
  assumes own: "answers_own_items c"
  shows "distinct (indices pending) \<Longrightarrow> batch_rounds c False left pending results tr = (o1, tr') \<Longrightarrow>
    \<exists>evs. tr' = tr @ evs \<and> (i \<notin> set (indices pending) \<longrightarrow> item_log c i tr evs = [])
      \<and> list_all (refused c i) (butlast (item_log c i tr evs))"
proof (induction left arbitrary: pending results tr)
  case 0
  then show ?case by (auto simp: graph_ok_def graph_done_def)
next
  case (Suc left)
  let ?cks = "chunks BATCH_SIZE pending"
  have pending: "concat ?cks = pending" by (simp add: concat_chunks BATCH_SIZE_def)
  show ?case
  proof (cases "pending = []")
    case True
    with Suc.prems show ?thesis by (auto simp: graph_ok_def graph_done_def)
  next
    case False
    with Suc.prems have run: "graph_bind (post_chunks c False ?cks results []) (\<lambda>(results', retryable).
          if left = 0 then graph_ok (mark_throttled results' retryable)
          else
            (let next = still_pending pending retryable
             in graph_bind (pause_before next retryable) (\<lambda>_.
                batch_rounds c False left next results'))) tr = (o1, tr')" by simp
    obtain o2 tr1 where round: "post_chunks c False ?cks results [] tr = (o2, tr1)" by fastforce
    from post_chunks_log [OF own _ round, of i] Suc.prems(1) pending obtain evs where evs: "tr1 = tr @ evs"
      "i \<notin> set (indices pending) \<longrightarrow> item_log c i tr evs = []"
      "list_all (refused c i) (butlast (item_log c i tr evs))"
      "\<forall>res ret. o2 = Finished (Inr (res, ret)) \<and> i \<in> fst ` set ret \<longrightarrow> list_all (refused c i) (item_log c i tr evs)"
      by auto
    show ?thesis
    proof (cases "tr' = tr1")
      case True
      with evs show ?thesis by blast
    next
      case False
      with run round obtain res ret where o2: "o2 = Finished (Inr (res, ret))" and "left \<noteq> 0"
        by (auto simp: graph_bind_def graph_ok_def graph_done_def split: outcome.splits sum.splits if_splits)
      let ?next = "still_pending pending ret"
      obtain pause where pause: "pause_before ?next ret tr1 = (Finished (Inr ()), tr1 @ pause)"
        "item_log c i tr1 pause = []"
        by (cases "?next = []") (auto simp: pause_before_def)
      from run round o2 \<open>left \<noteq> 0\<close> pause have rest: "batch_rounds c False left ?next res (tr1 @ pause) = (o1, tr')"
        by (simp add: graph_bind_def Let_def)
      from Suc.IH [OF still_pending_indices(1) [OF Suc.prems(1)] rest] obtain evs2 where evs2:
        "tr' = (tr1 @ pause) @ evs2" "i \<notin> set (indices ?next) \<longrightarrow> item_log c i (tr1 @ pause) evs2 = []"
        "list_all (refused c i) (butlast (item_log c i (tr1 @ pause) evs2))" by blast
      have log: "item_log c i tr (evs @ pause @ evs2) = item_log c i tr evs @ item_log c i (tr1 @ pause) evs2"
        using pause(2) by (simp add: item_log_append evs(1))
      show ?thesis
      proof (cases "item_log c i (tr1 @ pause) evs2 = []")
        case True
        with log evs evs2 show ?thesis
          by (intro exI [of _ "evs @ pause @ evs2"]) auto
      next
        case False
        with evs2(2) still_pending_indices(2) [of i pending ret] have "i \<in> set (indices pending)" "i \<in> fst ` set ret"
          by blast+
        with log evs evs2 o2 False show ?thesis
          by (intro exI [of _ "evs @ pause @ evs2"]) (auto simp: butlast_append)
      qed
    qed
  qed
qed

section \<open>Where outcomes come from\<close>

text \<open>A sub-response that gives the item its outcome, and a reply with such a sub-response.\<close>

definition item_says :: "nat \<Rightarrow> unit result \<Rightarrow> json \<Rightarrow> bool" where
  "item_says i o1 q \<longleftrightarrow> item_index q = Some i
     \<and> (case o1 of
          Inr _ \<Rightarrow> 200 \<le> item_status q \<and> item_status q < 300
        | Inl e \<Rightarrow> \<not> (200 \<le> item_status q \<and> item_status q < 300)
            \<and> (\<exists>shown. e = Other (''Graph $batch item returned '' @ show_nat (item_status q) @ '': '' @ shown)))"

definition reply_says :: "GraphClient \<Rightarrow> nat \<Rightarrow> unit result \<Rightarrow> graph_reply \<Rightarrow> bool" where
  "reply_says c i o1 r \<longleftrightarrow>
     (\<exists>code header body v. r = Replied code header body \<and> is_success code
        \<and> json_parse (graph_json c) body = Some v \<and> list_ex (item_says i o1) (batch_responses v))"

text \<open>One of the requests sent between two moments was answered so.\<close>

definition answered :: "GraphClient \<Rightarrow> graph_trace \<Rightarrow> graph_trace \<Rightarrow> nat \<Rightarrow> unit result \<Rightarrow> bool" where
  "answered c tr tr' i o1 \<longleftrightarrow>
     (\<exists>p rest. tr' = p @ rest \<and> length tr < length p \<and> reply_says c i o1 (service c p))"

definition explained :: "GraphClient \<Rightarrow> graph_trace \<Rightarrow> graph_trace \<Rightarrow> nat \<Rightarrow> unit result \<Rightarrow> bool" where
  "explained c tr tr' i o1 \<longleftrightarrow> o1 = Inl no_response \<or> o1 = Inl still_throttled \<or> answered c tr tr' i o1"

lemma answered_mono:
  assumes "answered c tr1 tr2 i o1" "length tr \<le> length tr1"
  shows "answered c tr (tr2 @ evs) i o1"
proof -
  from assms obtain p rest where "tr2 = p @ rest" "length tr < length p" "reply_says c i o1 (service c p)"
    by (auto simp: answered_def)
  then show ?thesis unfolding answered_def by (intro exI [of _ p] exI [of _ "rest @ evs"]) simp
qed

lemma outcome_update:
  assumes "length rs' = length (rs[j := x])
      \<and> (\<forall>i < length (rs[j := x]). rs' ! i = rs[j := x] ! i \<or> list_ex (P i (rs' ! i)) qs)"
    and "P j x q"
  shows "length rs' = length rs \<and> (\<forall>i < length rs. rs' ! i = rs ! i \<or> list_ex (P i (rs' ! i)) (q # qs))"
proof (intro conjI allI impI)
  fix i assume i: "i < length rs"
  with assms have "rs' ! i = rs[j := x] ! i \<or> list_ex (P i (rs' ! i)) qs" by simp
  then show "rs' ! i = rs ! i \<or> list_ex (P i (rs' ! i)) (q # qs)"
    using i assms(2) by (cases "i = j") auto
qed (use assms in simp)

lemma apply_items_outcomes:
  "apply_items c rt rs results retryable = Some (results', retryable') \<Longrightarrow>
     length results' = length results
     \<and> (\<forall>i < length results. results' ! i = results ! i \<or> list_ex (item_says i (results' ! i)) rs)"
proof (induction rs arbitrary: results retryable)
  case (Cons r rs)
  show ?case
  proof (cases "item_index r")
    case (Some j)
    show ?thesis
    proof (cases "j < length results")
      case True
      consider (ok) "200 \<le> item_status r \<and> item_status r < 300"
          "apply_items c rt rs (results[j := Inr ()]) retryable = Some (results', retryable')"
        | (throttled) ys where "apply_items c rt rs results ys = Some (results', retryable')"
        | (error) shown where "\<not> (200 \<le> item_status r \<and> item_status r < 300)"
          "apply_items c rt rs (results[j := Inl (Other (''Graph $batch item returned '' @ show_nat (item_status r) @ '': '' @ shown))])
             retryable = Some (results', retryable')"
        using Cons.prems Some True
        by (auto simp: Let_def split: if_splits option.splits)
      then show ?thesis
      proof cases
        case ok
        from ok(1) Some have "item_says j (Inr ()) r" by (simp add: item_says_def)
        with Cons.IH [OF ok(2)] show ?thesis by (rule outcome_update)
      next
        case (throttled ys)
        from Cons.IH [OF throttled] show ?thesis by auto
      next
        case (error shown)
        from error(1) Some have "item_says j (Inl (Other (''Graph $batch item returned ''
            @ show_nat (item_status r) @ '': '' @ shown))) r" by (simp add: item_says_def)
        with Cons.IH [OF error(2)] show ?thesis by (rule outcome_update)
      qed
    next
      case False
      with Cons Some show ?thesis by auto
    qed
  next
    case None
    with Cons show ?thesis by auto
  qed
qed simp

lemma sends_longer: "sends c req rt left tr tr' \<Longrightarrow> \<exists>evs. tr' = tr @ evs \<and> evs \<noteq> []"
  by (induction rule: sends.induct) auto

lemma post_json_answered:
  assumes "post_json c path v tr = (Finished (Inr resp), tr')" "q \<in> set (batch_responses resp)" "item_says i o1 q"
  shows "answered c tr tr' i o1"
  using assms(1)
proof (cases rule: post_json_sends)
  case (sent req)
  from sends_longer [OF sent(2)] have "length tr < length tr'" by auto
  moreover have "reply_says c i o1 (service c tr')"
    using sent(3) [OF refl] assms(2,3) by (auto simp: reply_says_def list_ex_iff)
  ultimately show ?thesis unfolding answered_def by (metis append_Nil2)
qed simp

lemma post_json_extends: "post_json c path v tr = (o1, tr') \<Longrightarrow> \<exists>evs. tr' = tr @ evs"
  by (cases rule: post_json_sends) (auto dest: sends_longer)

lemma post_chunks_outcomes:
  "post_chunks c rt cks results retryable tr = (Finished (Inr (results', retryable')), tr') \<Longrightarrow>
     (\<exists>evs. tr' = tr @ evs) \<and> length results' = length results
     \<and> (\<forall>i < length results. results' ! i = results ! i \<or> answered c tr tr' i (results' ! i))"
proof (induction cks arbitrary: results retryable tr)
  case Nil
  then show ?case by (simp add: graph_ok_def graph_done_def)
next
  case (Cons ck cks)
  from Cons.prems obtain resp tr1 where post: "post_json c ''/$batch'' (batch_body ck) tr = (Finished (Inr resp), tr1)"
    and cont: "(case apply_batch_responses c rt resp results of
         None \<Rightarrow> graph_done Panicked
       | Some (results', throttled) \<Rightarrow> post_chunks c rt cks results' (retryable @ throttled)) tr1
       = (Finished (Inr (results', retryable')), tr')"
    by (auto elim!: graph_bind_cases)
  then obtain results1 throttled where apply1: "apply_batch_responses c rt resp results = Some (results1, throttled)"
    and rest: "post_chunks c rt cks results1 (retryable @ throttled) tr1 = (Finished (Inr (results', retryable')), tr')"
    by (auto simp: graph_done_def split: option.splits)
  from post_json_extends [OF post] obtain evs1 where evs1: "tr1 = tr @ evs1" by blast
  from Cons.IH [OF rest] obtain evs2 where evs2: "tr' = tr1 @ evs2" and len: "length results' = length results1"
    and IH: "\<And>i. i < length results1 \<Longrightarrow> results' ! i = results1 ! i \<or> answered c tr1 tr' i (results' ! i)" by blast
  from apply_items_outcomes [OF apply1 [unfolded apply_batch_responses_def]]
  have len1: "length results1 = length results"
    and step: "\<And>i. i < length results \<Longrightarrow> results1 ! i = results ! i
      \<or> list_ex (item_says i (results1 ! i)) (batch_responses resp)" by blast+
  have "results' ! i = results ! i \<or> answered c tr tr' i (results' ! i)" if i: "i < length results" for i
  proof (cases "answered c tr1 tr' i (results' ! i)")
    case True
    from answered_mono [OF True, of tr "[]"] show ?thesis by (simp add: evs1)
  next
    case False
    with IH i len1 have same: "results' ! i = results1 ! i" by auto
    from step [OF i] show ?thesis
    proof
      assume "list_ex (item_says i (results1 ! i)) (batch_responses resp)"
      then obtain q where "q \<in> set (batch_responses resp)" "item_says i (results1 ! i) q" by (auto simp: list_ex_iff)
      from post_json_answered [OF post this] have "answered c tr tr1 i (results1 ! i)" .
      from answered_mono [OF this, of tr evs2] show ?thesis by (simp add: same evs2)
    qed (simp add: same)
  qed
  with evs1 evs2 len len1 show ?case by auto
qed

lemma mark_throttled_outcomes:
  "length (mark_throttled results retryable) = length results"
  "i < length results \<Longrightarrow> mark_throttled results retryable ! i = results ! i
     \<or> mark_throttled results retryable ! i = Inl still_throttled"
proof -
  show len: "length (mark_throttled results retryable) = length results" for results retryable
    by (induction retryable arbitrary: results) (auto simp: mark_throttled_def split: prod.splits)
  show "i < length results \<Longrightarrow> mark_throttled results retryable ! i = results ! i
     \<or> mark_throttled results retryable ! i = Inl still_throttled"
  proof (induction retryable arbitrary: results)
    case (Cons p retryable)
    have "mark_throttled results (p # retryable) = mark_throttled (results[fst p := Inl still_throttled]) retryable"
      by (simp add: mark_throttled_def case_prod_unfold)
    moreover have "results[fst p := Inl still_throttled] ! i = (if i = fst p then Inl still_throttled else results ! i)"
      using Cons.prems by simp
    ultimately show ?case using Cons.IH [of "results[fst p := Inl still_throttled]"] Cons.prems
      by (auto split: if_splits)
  qed (simp add: mark_throttled_def)
qed

lemma batch_rounds_outcomes:
  "batch_rounds c rt left pending results tr = (Finished (Inr results'), tr') \<Longrightarrow>
     (\<exists>evs. tr' = tr @ evs) \<and> length results' = length results
     \<and> (\<forall>i < length results. results' ! i = results ! i \<or> results' ! i = Inl still_throttled
          \<or> answered c tr tr' i (results' ! i))"
proof (induction left arbitrary: pending results tr)
  case 0
  then show ?case by (simp add: graph_ok_def graph_done_def)
next
  case (Suc left)
  show ?case
  proof (cases "pending = []")
    case True
    with Suc.prems show ?thesis by (simp add: graph_ok_def graph_done_def)
  next
    case False
    with Suc.prems obtain results1 retryable tr1 where
      round: "post_chunks c rt (chunks BATCH_SIZE pending) results [] tr = (Finished (Inr (results1, retryable)), tr1)"
      and cont: "(if left = 0 then graph_ok (mark_throttled results1 retryable)
          else
            (let next = still_pending pending retryable
             in graph_bind (pause_before next retryable) (\<lambda>_.
                batch_rounds c rt left next results1))) tr1 = (Finished (Inr results'), tr')"
      by (auto elim!: graph_bind_cases)
    from post_chunks_outcomes [OF round] obtain evs1 where evs1: "tr1 = tr @ evs1"
      and len1: "length results1 = length results"
      and step: "\<And>i. i < length results \<Longrightarrow> results1 ! i = results ! i \<or> answered c tr tr1 i (results1 ! i)" by blast
    show ?thesis
    proof (cases "left = 0")
      case True
      with cont have "results' = mark_throttled results1 retryable" "tr' = tr1"
        by (simp_all add: graph_ok_def graph_done_def)
      with evs1 len1 step mark_throttled_outcomes show ?thesis by metis
    next
      case False
      obtain pause where "pause_before (still_pending pending retryable) retryable tr1 = (Finished (Inr ()), tr1 @ pause)"
        by (cases "still_pending pending retryable = []") (auto simp: pause_before_def)
      with False cont have rest: "batch_rounds c rt left (still_pending pending retryable) results1 (tr1 @ pause)
          = (Finished (Inr results'), tr')"
        by (simp add: Let_def graph_bind_def)
      from Suc.IH [OF rest] obtain evs2 where evs2: "tr' = (tr1 @ pause) @ evs2"
        and len2: "length results' = length results1"
        and IH: "\<And>i. i < length results1 \<Longrightarrow> results' ! i = results1 ! i \<or> results' ! i = Inl still_throttled
          \<or> answered c (tr1 @ pause) tr' i (results' ! i)" by blast
      have "results' ! i = results ! i \<or> results' ! i = Inl still_throttled \<or> answered c tr tr' i (results' ! i)"
        if i: "i < length results" for i
      proof -
        have "answered c tr tr' i (results' ! i)" if "answered c (tr1 @ pause) tr' i (results' ! i)"
          using answered_mono [OF that, of tr "[]"] by (simp add: evs1)
        moreover have "answered c tr tr' i (results1 ! i)" if "answered c tr tr1 i (results1 ! i)"
          using answered_mono [OF that, of tr "pause @ evs2"] by (simp add: evs2)
        ultimately show ?thesis using IH i len1 step by metis
      qed
      with evs1 evs2 len1 len2 show ?thesis by auto
    qed
  qed
qed

lemma execute_batch_outcomes:
  assumes "execute_batch_with_retry c requests rt tr = (Finished (Inr results), tr')"
  shows "length results = length requests" "i < length requests \<Longrightarrow> explained c tr tr' i (results ! i)"
  using batch_rounds_outcomes [OF assms [unfolded execute_batch_with_retry_def]]
  by (auto simp: explained_def)

section \<open>The guarantees\<close>

lemma indices_map:
  "(\<And>x. x \<in> set xs \<Longrightarrow> item_index (f x) = Some (g x)) \<Longrightarrow> indices (map f xs) = map g xs"
  by (induction xs) (auto simp: indices_Cons indices_def List.map_filter_def)

lemma item_index_copy:
  "n < 2 ^ 64 \<Longrightarrow> item_index (copy_item dest (n, m)) = Some n"
  by (simp add: item_index_def copy_item_def jfield_def parse_unsigned_show_nat)

lemma indices_copies:
  assumes "length ids < 2 ^ 64"
  shows "indices (map (copy_item dest) (enumerate 0 ids)) = [0..<length ids]"
proof -
  have "indices (map (copy_item dest) (enumerate 0 ids)) = map fst (enumerate 0 ids)"
    by (rule indices_map) (use assms in \<open>auto simp: in_set_enumerate_eq item_index_copy\<close>)
  then show ?thesis by simp
qed


text \<open>Operations whose missing messages count as done.\<close>

fun removal_refs :: "MailOp \<Rightarrow> BackendMessageRef list option" where
  "removal_refs (MoveMessages refs target_folder) = Some refs"
| "removal_refs (DeleteMessages refs) = Some refs"
| "removal_refs mop = None"

lemma report_failures_Inr:
  assumes "report_failures what accepted ids outcomes = Inr ()" "i < length ids" "length outcomes = length ids"
  shows "outcomes ! i = Inr () \<or> (\<exists>e. outcomes ! i = Inl e \<and> accepted e)"
proof -
  have "List.map_filter (item_failure accepted) (zip ids outcomes) = []"
    using assms(1) by (auto simp: report_failures_def Let_def split: if_splits)
  then have "\<forall>p \<in> set (zip ids outcomes). item_failure accepted p = None"
    by (auto simp: List.map_filter_def filter_empty_conv)
  moreover have "(ids ! i, outcomes ! i) \<in> set (zip ids outcomes)"
    using assms(2,3) by (auto simp: set_zip)
  ultimately have "item_failure accepted (ids ! i, outcomes ! i) = None" by blast
  then show ?thesis by (cases "outcomes ! i") (auto simp: item_failure_def split: if_splits)
qed

lemma not_found_needs_answer: "\<not> is_item_not_found no_response" "\<not> is_item_not_found still_throttled"
  by code_simp+

lemma removal_explained:
  assumes batch: "execute_batch_with_retry c (map f (enumerate 0 ids)) True tr = (Finished (Inr outcomes), tr')"
    and ok: "report_failures what is_item_not_found ids outcomes = Inr ()" and i: "i < length ids"
  shows "answered c tr tr' i (Inr ()) \<or> (\<exists>e. is_item_not_found e \<and> answered c tr tr' i (Inl e))"
proof -
  have "explained c tr tr' i (outcomes ! i)" "length outcomes = length ids"
    using execute_batch_outcomes [OF batch] i by simp_all
  with report_failures_Inr [OF ok i] not_found_needs_answer show ?thesis
    by (auto simp: explained_def no_response_def)
qed


section \<open>An error text that cannot be cut\<close>

lemma truncate_inside:
  assumes "list_all is_ascii a" "\<not> is_ascii ch" "limit = Suc (length a)"
  shows "truncate_text (a @ ch # rest) limit = None"
proof -
  have "limit < str_len (a @ ch # rest)"
    using assms by (simp add: str_len_ascii utf8_len_def)
  with assms show ?thesis by (simp add: truncate_text_def cut_bytes_inside)
qed

text \<open>C36: an item answered with an error whose text has a character of several bytes across byte 300, as
  the messages of a localized service do, makes the copy panic instead of failing: the outcomes of
  the whole batch are lost, and the account's worker with the operations of its queue.
\<close>

theorem localized_error_panics:
  assumes reply: "\<And>events req. service c (events @ [Sent req]) = Replied 200 header body"
    and url: "url_segments c (v1_url c ''/$batch'') = Inr segments"
    and parse: "json_parse (graph_json c) body = Some v" "body \<noteq> []" "batch_responses v = [q]"
    and item: "item_index q = Some 0" "400 \<le> item_status q" "item_status q \<noteq> 429"
    and shown: "json_text (graph_json c) (jfield ''body'' q) = a @ ch # rest" "length a = 299"
      "list_all is_ascii a" "\<not> is_ascii ch"
  shows "fst (graph_execute (Inr c) send_smtp (CopyMessages [Graph item] dest) tr) = Panicked"
proof -
  let ?requests = "[copy_item dest (0, item)]"
  have "truncate_text (json_text (graph_json c) (jfield ''body'' q)) 300 = None"
    using truncate_inside [OF shown(3,4), of 300] shown(1,2) by simp
  then have "apply_batch_responses c False v [Inl no_response] = None"
    using item by (simp add: apply_batch_responses_def parse(3) Let_def)
  moreover have "\<exists>tr'. post_json c ''/$batch'' (batch_body ?requests) tr = (Finished (Inr v), tr')"
    using url parse(1,2)
    by (simp add: post_json_def send_with_retry_def graph_bind_def graph_done_def parsed_body_def
        is_success_def send_attempts.simps Let_def reply)
  moreover have "chunks BATCH_SIZE ?requests = [?requests]"
    by (subst chunks.simps, simp, subst chunks.simps) (simp add: BATCH_SIZE_def)
  ultimately show ?thesis
    by (auto simp: graph_execute_def collect_item_ids_def graph_lift_def graph_done_def graph_bind_def
        copy_messages_batch_def execute_batch_with_retry_def MAX_ROUNDS_def numeral_3_eq_3)
qed

section \<open>Concrete inputs\<close>

text \<open>A service that throttles the second message of the first request it gets.\<close>

definition sample_batch_answer :: "nat \<Rightarrow> nat \<Rightarrow> json" where
  "sample_batch_answer i status = JObj [(''id'', JStr (show_nat i)), (''status'', JInt (int status))]"

definition sample_graph_json :: externals where
  "sample_graph_json =
     \<lparr>json_text = (\<lambda>v. replicate 299 CHR ''x'' @ [char_of (233 :: nat)]),
      json_parse = (\<lambda>s.
        if s = ''first'' then Some (JObj [(''responses'', JArr [sample_batch_answer 0 201, sample_batch_answer 1 429])])
        else if s = ''second'' then Some (JObj [(''responses'', JArr [sample_batch_answer 1 201])])
        else if s = ''refused'' then Some (JObj [(''responses'', JArr [sample_batch_answer 0 403])])
        else None),
      b64_encode = (\<lambda>b. []), b64_decode = (\<lambda>s. None), hash_iter = (\<lambda>m. m)\<rparr>"

definition sample_service :: "graph_trace \<Rightarrow> graph_reply" where
  "sample_service tr =
     (case last tr of
        Slept n \<Rightarrow> Unsent ''no request''
      | Sent req \<Rightarrow>
          (case request_json req of
             None \<Rightarrow> Unsent ''no body''
           | Some body \<Rightarrow>
               if indices (sub_requests body) = [0, 1] then Replied 200 None ''first''
               else if indices (sub_requests body) = [1] then Replied 200 None ''second''
               else Unsent ''unexpected''))"

definition sample_graph :: GraphClient where
  "sample_graph =
     \<lparr>v1_api_root = ''https://graph/v1'', beta_api_root = ''https://graph/beta'', service = sample_service,
      url_segments = (\<lambda>u. Inr []), url_parse = (\<lambda>u. Inl ''unused''), status_text = show_nat,
      seconds_until = (\<lambda>s. None), graph_json = sample_graph_json, json_error = (\<lambda>s. ''malformed'')\<rparr>"

lemma sample_answers: "item_index (sample_batch_answer i status) = (if i < 2 ^ 64 then Some i else None)" if "i < 2"
  using that by (simp add: item_index_def sample_batch_answer_def jfield_def parse_unsigned_show_nat)

lemma sample_own_items: "answers_own_items sample_graph"
  unfolding answers_own_items_def
proof (intro allI impI, elim conjE)
  fix tr req code header body v requests
  assume reply: "service sample_graph (tr @ [Sent req]) = Replied code header body"
    and parse: "json_parse (graph_json sample_graph) body = Some v"
    and body: "request_json req = Some (batch_body requests)"
  from reply body have "indices requests = [0, 1] \<and> body = ''first'' \<or> indices requests = [1] \<and> body = ''second''"
    by (auto simp: sample_graph_def sample_service_def simp del: sub_requests.simps split: if_splits)
  then show "distinct (List.map_filter item_index (batch_responses v))
      \<and> set (List.map_filter item_index (batch_responses v)) \<subseteq> set (List.map_filter item_index requests)"
    using parse
    by (auto simp: sample_graph_def sample_graph_json_def batch_responses_def jfield_def or_default_def
        sample_answers indices_def List.map_filter_simps)
qed

definition sample_post :: "json list \<Rightarrow> graph_request" where
  "sample_post requests =
     \<lparr>request_method = ''POST'', request_url = v1_url sample_graph ''/$batch'', request_params = [],
      request_json = Some (batch_body requests), request_headers = []\<rparr>"

lemma sample_post_json:
  assumes "indices requests = [0, 1] \<and> v = JObj [(''responses'', JArr [sample_batch_answer 0 201, sample_batch_answer 1 429])]
    \<or> indices requests = [1] \<and> v = JObj [(''responses'', JArr [sample_batch_answer 1 201])]"
  shows "post_json sample_graph ''/$batch'' (batch_body requests) tr =
     (Finished (Inr v), tr @ [Sent (sample_post requests)])"
  using assms
  by (auto simp: post_json_def send_with_retry_def graph_bind_def graph_done_def parsed_body_def
      is_success_def send_attempts.simps Let_def sample_graph_def sample_service_def sample_graph_json_def
      sample_post_def prepared_def v1_url_def simp del: sub_requests.simps)

lemma chunks_small: "xs \<noteq> [] \<Longrightarrow> length xs \<le> n \<Longrightarrow> chunks n xs = [xs]"
  by (subst chunks.simps, subst chunks.simps) (cases xs, auto)

lemma sample_indices: "item_index (sample_batch_answer 0 s) = Some 0" "item_index (sample_batch_answer (Suc 0) s) = Some (Suc 0)"
  using sample_answers [of 0 s] sample_answers [of 1 s] by simp_all

lemma sample_items:
  "item_status (sample_batch_answer i 201) = 201" "item_status (sample_batch_answer i 429) = 429"
  "batch_item_retry_after (sample_batch_answer i s) = None"
  by (simp_all add: item_status_def sample_batch_answer_def jfield_def or_default_def
      batch_item_retry_after_def)

lemma sample_batch_run:
  assumes f: "item_index (f (0, a)) = Some 0" "item_index (f (Suc 0, b)) = Some (Suc 0)"
  shows "execute_batch_with_retry sample_graph (map f (enumerate 0 [a, b])) rt [] =
    (Finished (Inr [Inr (), Inr ()]),
     [Sent (sample_post [f (0, a), f (Suc 0, b)]), Slept 5, Sent (sample_post [f (Suc 0, b)])])"
proof -
  have requests: "map f (enumerate 0 [a, b]) = [f (0, a), f (Suc 0, b)]" by simp
  have both: "indices [f (0, a), f (Suc 0, b)] = [0, 1]" and second: "indices [f (Suc 0, b)] = [1]"
    using f by (simp_all add: indices_def List.map_filter_simps)
  let ?v = "JObj [(''responses'', JArr [sample_batch_answer 0 201, sample_batch_answer 1 429])]"
  let ?w = "JObj [(''responses'', JArr [sample_batch_answer 1 201])]"
  have v: "apply_batch_responses sample_graph rt ?v [Inl no_response, Inl no_response] =
      Some ([Inr (), Inl no_response], [(Suc 0, 5)])"
    by (simp add: apply_batch_responses_def batch_responses_def jfield_def or_default_def sample_items sample_indices Let_def)
  have w: "apply_batch_responses sample_graph rt ?w [Inr (), Inl no_response] = Some ([Inr (), Inr ()], [])"
    by (simp add: apply_batch_responses_def batch_responses_def jfield_def or_default_def sample_items sample_indices Let_def)
  have round1: "post_chunks sample_graph rt [[f (0, a), f (Suc 0, b)]] [Inl no_response, Inl no_response] [] [] =
      (Finished (Inr ([Inr (), Inl no_response], [(Suc 0, 5)])), [Sent (sample_post [f (0, a), f (Suc 0, b)])])"
    using sample_post_json [of "[f (0, a), f (Suc 0, b)]" ?v "[]"] both v
    by (simp add: graph_bind_def graph_ok_def graph_done_def)
  have round2: "post_chunks sample_graph rt [[f (Suc 0, b)]] [Inr (), Inl no_response] [] tr =
      (Finished (Inr ([Inr (), Inr ()], [])), tr @ [Sent (sample_post [f (Suc 0, b)])])" for tr
    using sample_post_json [of "[f (Suc 0, b)]" ?w tr] second w
    by (simp add: graph_bind_def graph_ok_def graph_done_def)
  have next1: "still_pending [f (0, a), f (Suc 0, b)] [(Suc 0, 5)] = [f (Suc 0, b)]"
    and next2: "still_pending [f (Suc 0, b)] [] = []"
    using f by (simp_all add: still_pending_def)
  have size: "chunks BATCH_SIZE [f (0, a), f (Suc 0, b)] = [[f (0, a), f (Suc 0, b)]]"
    "chunks BATCH_SIZE [f (Suc 0, b)] = [[f (Suc 0, b)]]"
    by (simp_all add: chunks_small BATCH_SIZE_def)
  have last: "batch_rounds sample_graph rt (Suc 0) [] [Inr (), Inr ()] tr = (Finished (Inr [Inr (), Inr ()]), tr)" for tr
    by (simp add: graph_ok_def graph_done_def)
  have second_round: "batch_rounds sample_graph rt (Suc (Suc 0)) [f (Suc 0, b)] [Inr (), Inl no_response] tr =
      (Finished (Inr [Inr (), Inr ()]), tr @ [Sent (sample_post [f (Suc 0, b)])])" for tr
    using last [of "tr @ [Sent (sample_post [f (Suc 0, b)])]"]
    by (subst batch_rounds.simps)
      (simp add: size round2 graph_bind_def next2 pause_before_def Let_def del: batch_rounds.simps post_chunks.simps)
  have "batch_rounds sample_graph rt (Suc (Suc (Suc 0))) [f (0, a), f (Suc 0, b)] [Inl no_response, Inl no_response] [] =
      (Finished (Inr [Inr (), Inr ()]),
       [Sent (sample_post [f (0, a), f (Suc 0, b)]), Slept 5, Sent (sample_post [f (Suc 0, b)])])"
    by (subst batch_rounds.simps)
      (simp add: size round1 graph_bind_def next1 pause_before_def second_round Let_def MAX_RETRY_AFTER_SECS_def
        del: batch_rounds.simps post_chunks.simps)
  then show ?thesis
    unfolding requests execute_batch_with_retry_def MAX_ROUNDS_def by (simp add: numeral_3_eq_3 del: batch_rounds.simps)
qed

lemma copy_items: "item_index (copy_item dest (0, m)) = Some 0" "item_index (copy_item dest (Suc 0, m)) = Some (Suc 0)"
  by (simp_all add: item_index_copy)

lemma move_items: "item_index (move_item dest (0, m)) = Some 0" "item_index (move_item dest (Suc 0, m)) = Some (Suc 0)"
  by (simp_all add: item_index_def move_item_def jfield_def parse_unsigned_show_nat)



lemma localized_error_panics_witness:
  "fst (graph_execute (Inr (sample_graph\<lparr>service := \<lambda>tr. Replied 200 None ''refused''\<rparr>))
     (\<lambda>mop. graph_ok ()) (CopyMessages [Graph ''a''] ''dest'') []) = Panicked"
proof (rule localized_error_panics)
  let ?c = "sample_graph\<lparr>service := \<lambda>tr. Replied 200 None ''refused''\<rparr>"
  let ?v = "JObj [(''responses'', JArr [sample_batch_answer 0 403])]"
  show "service ?c (events @ [Sent req]) = Replied 200 None ''refused''" for events req by simp
  show "url_segments ?c (v1_url ?c ''/$batch'') = Inr []" by (simp add: sample_graph_def)
  show "json_parse (graph_json ?c) ''refused'' = Some ?v" by (simp add: sample_graph_def sample_graph_json_def)
  show "batch_responses ?v = [sample_batch_answer 0 403]" by (simp add: batch_responses_def jfield_def or_default_def)
  show "item_index (sample_batch_answer 0 403) = Some 0" by (simp add: sample_answers)
  show "400 \<le> item_status (sample_batch_answer 0 403)" "item_status (sample_batch_answer 0 403) \<noteq> 429"
    by (simp_all add: item_status_def sample_batch_answer_def jfield_def or_default_def)
  show "json_text (graph_json ?c) (jfield ''body'' (sample_batch_answer 0 403)) =
      replicate 299 CHR ''x'' @ char_of (233 :: nat) # []"
    by (simp add: sample_graph_def sample_graph_json_def)
  show "list_all is_ascii (replicate 299 CHR ''x'')" by (simp add: list_all_iff is_ascii_def char_code_def)
  show "\<not> is_ascii (char_of (233 :: nat))" by (simp add: is_ascii_def char_code_def)
qed simp_all

end
