(* ===== verification/Graph_Pages.thy ===== *)
theory Graph_Pages
  imports Graph_Net
begin

text \<open>
  Paged collections over Microsoft Graph: the access token only goes to origins the client is
  configured with, a collection of finitely many pages is read completely, and one whose pages
  always name a successor is never finished with.
\<close>

section \<open>Where requests go\<close>

definition trusted_target :: "GraphClient \<Rightarrow> string \<Rightarrow> bool" where
  "trusted_target c target \<longleftrightarrow>
     (\<exists>link url root r. url_parse c link = Inr url \<and> target = url_display url \<and> \<not> url_has_credentials url
        \<and> root \<in> {v1_api_root c, beta_api_root c} \<and> url_parse c root = Inr r \<and> url_origin url = url_origin r)"

definition only_to :: "(string \<Rightarrow> bool) \<Rightarrow> graph_trace \<Rightarrow> graph_trace \<Rightarrow> bool" where
  "only_to P tr tr' \<longleftrightarrow> (\<exists>evs. tr' = tr @ evs \<and> (\<forall>req. Sent req \<in> set evs \<longrightarrow> P (request_url req)))"

lemma only_to_refl [simp]: "only_to P tr tr"
  by (simp add: only_to_def)

lemma only_to_trans: "only_to P tr tr1 \<Longrightarrow> only_to P tr1 tr2 \<Longrightarrow> only_to P tr tr2"
  unfolding only_to_def by (metis append.assoc Un_iff set_append)

lemma only_to_mono: "only_to P tr tr' \<Longrightarrow> (\<And>u. P u \<Longrightarrow> Q u) \<Longrightarrow> only_to Q tr tr'"
  unfolding only_to_def by blast

lemma prepared_url [simp]: "request_url (prepared segments req) = request_url req"
  by (simp add: prepared_def)

lemma sends_only_to: "sends c req rt left tr tr' \<Longrightarrow> only_to (\<lambda>u. u = request_url req) tr tr'"
proof (induction rule: sends.induct)
  case (again tr secs left tr')
  then show ?case by (auto simp: only_to_def)
qed (auto simp: only_to_def)

lemma send_with_retry_only_to:
  assumes "send_with_retry c req what rt tr = (r, tr')"
  shows "only_to (\<lambda>u. u = request_url req) tr tr'"
proof (cases "url_segments c (request_url req)")
  case (Inl e)
  with assms show ?thesis by (auto simp: send_with_retry_def send_attempts_unbuilt)
next
  case (Inr segments)
  from sends_only_to [OF send_attempts_sends [OF Inr assms [unfolded send_with_retry_def]]]
  show ?thesis by simp
qed

lemma graph_bind_done_trace: "snd (graph_bind m (\<lambda>a. graph_done (f a)) tr) = snd (m tr)"
  by (auto simp: graph_bind_def graph_done_def split: prod.splits outcome.splits sum.splits)

lemma graph_get_only_to:
  assumes "graph_get c path params tr = (r, tr')"
  shows "only_to (\<lambda>u. u = v1_url c path) tr tr'"
proof -
  let ?m = "send_with_retry c (get_request (v1_url c path) params) (''GET '' @ path) True"
  have "snd (?m tr) = tr'"
    using assms graph_bind_done_trace [of ?m "\<lambda>(code, body).
        if \<not> is_success code then status_error c (''GET '' @ path) code body
        else parsed_body c ''Graph JSON'' body" tr]
    by (simp add: graph_get_def case_prod_unfold)
  then show ?thesis
    using send_with_retry_only_to [of c "get_request (v1_url c path) params" _ _ tr "fst (?m tr)" tr']
    by (metis graph_request.select_convs(2) get_request_def prod.collapse)
qed

lemma trusted_origin_True:
  "trusted_origin c url roots = Inr True \<Longrightarrow>
     \<exists>root \<in> set roots. \<exists>r. url_parse c root = Inr r \<and> url_origin url = url_origin r"
  by (induction roots) (auto split: sum.splits if_splits)

lemma get_absolute_only_to:
  assumes "get_absolute c link tr = (r, tr')"
  shows "only_to (trusted_target c) tr tr'"
proof (cases "\<exists>url. url_parse c link = Inr url \<and> \<not> url_has_credentials url
    \<and> trusted_origin c url [v1_api_root c, beta_api_root c] = Inr True")
  case True
  then obtain url where url: "url_parse c link = Inr url" "\<not> url_has_credentials url"
    "trusted_origin c url [v1_api_root c, beta_api_root c] = Inr True" by blast
  then have target: "trusted_target c (url_display url)"
  proof -
    from trusted_origin_True [OF url(3)] obtain root r where
      "root \<in> {v1_api_root c, beta_api_root c}" "url_parse c root = Inr r" "url_origin url = url_origin r" by auto
    with url(1,2) show ?thesis unfolding trusted_target_def by blast
  qed
  let ?m = "send_with_retry c (get_request (url_display url) []) ''GET (absolute)'' True"
  have "snd (?m tr) = tr'"
    using assms url graph_bind_done_trace [of ?m "\<lambda>(code, body).
        if \<not> is_success code then status_error c (''GET '' @ url_display url) code body
        else parsed_body c ''Graph JSON'' body" tr]
    by (simp add: get_absolute_def case_prod_unfold)
  then have "only_to (\<lambda>u. u = url_display url) tr tr'"
    using send_with_retry_only_to [of c "get_request (url_display url) []" _ _ tr "fst (?m tr)" tr']
    by (metis graph_request.select_convs(2) get_request_def prod.collapse)
  then show ?thesis by (rule only_to_mono) (simp add: target)
next
  case False
  with assms show ?thesis
    by (auto simp: get_absolute_def graph_fail_def graph_done_def split: sum.splits if_splits bool.splits)
qed

lemma get_pages_only_to:
  assumes "get_pages c items page tr = Some y"
  shows "only_to (trusted_target c) tr (snd y)"
proof (rule get_pages.raw_induct [OF _ assms, of "\<lambda>c items page tr y. only_to (trusted_target c) tr (snd y)"])
  fix loop c items page tr y
  assume IH: "\<And>c items page tr y. loop c items page tr = Some y \<Longrightarrow> only_to (trusted_target c) tr (snd y)"
    and run: "(case next_link page of
        None \<Rightarrow> Some (Finished (Inr (items @ page_values page)), tr)
      | Some link \<Rightarrow>
          (case get_absolute c link tr of
             (Panicked, tr') \<Rightarrow> Some (Panicked, tr')
           | (Finished r, tr') \<Rightarrow>
               (case r of
                  Inl e \<Rightarrow> Some (Finished (Inl e), tr')
                | Inr page' \<Rightarrow> loop c (items @ page_values page) page' tr'))) = Some y"
  show "only_to (trusted_target c) tr (snd y)"
  proof (cases "next_link page")
    case None
    with run show ?thesis by auto
  next
    case (Some link)
    obtain o1 tr1 where step: "get_absolute c link tr = (o1, tr1)" by fastforce
    from get_absolute_only_to [OF step] have home: "only_to (trusted_target c) tr tr1" .
    show ?thesis
      using run Some step
      by (auto split: outcome.splits sum.splits intro: home only_to_trans [OF home] IH)
  qed
qed

text \<open>C34: reading a collection sends requests, with the access token they carry, to the collection's
  own URL and to continuations without credentials at an origin the client is configured with, and
  nowhere else, whatever links the service returns.
\<close>

theorem continuations_stay_home:
  assumes "get_all c path params tr = Some (r, tr')"
  shows "only_to (\<lambda>u. u = v1_url c path \<or> trusted_target c u) tr tr'"
proof -
  obtain o1 tr1 where first: "graph_get c path params tr = (o1, tr1)" by fastforce
  have here: "only_to (\<lambda>u. u = v1_url c path \<or> trusted_target c u) tr tr1"
    by (rule only_to_mono [OF graph_get_only_to [OF first]]) simp
  show ?thesis
  proof (cases "tr' = tr1")
    case True
    with here show ?thesis by simp
  next
    case False
    with assms first obtain page where "get_pages c [] page tr1 = Some (r, tr')"
      by (auto simp: get_all_def split: outcome.splits sum.splits)
    from only_to_mono [OF get_pages_only_to [OF this]] here show ?thesis
      by (auto intro: only_to_trans)
  qed
qed

section \<open>How many pages\<close>

text \<open>Pages that lead from one to the next, each of which the service gives whenever it is asked.\<close>

fun page_chain :: "GraphClient \<Rightarrow> json list \<Rightarrow> bool" where
  "page_chain c [] \<longleftrightarrow> False"
| "page_chain c [p] \<longleftrightarrow> next_link p = None"
| "page_chain c (p # q # ps) \<longleftrightarrow>
     (\<exists>link. next_link p = Some link \<and> (\<forall>tr. \<exists>tr'. get_absolute c link tr = (Finished (Inr q), tr')))
   \<and> page_chain c (q # ps)"

lemma get_pages_chain:
  "page_chain c (p # ps) \<Longrightarrow>
     \<exists>tr'. get_pages c items p tr = Some (Finished (Inr (items @ concat (map page_values (p # ps)))), tr')"
proof (induction ps arbitrary: p items tr)
  case Nil
  then show ?case by (subst get_pages.simps) simp
next
  case (Cons q ps)
  from Cons.prems obtain link tr1 where "next_link p = Some link" "get_absolute c link tr = (Finished (Inr q), tr1)"
    by auto metis
  moreover from Cons.prems have "page_chain c (q # ps)" by simp
  ultimately show ?case
    using Cons.IH [of q "items @ page_values p" tr1] by (subst get_pages.simps) simp
qed

text \<open>C35: a collection that the service serves in finitely many pages is read to its end: the call
  returns, with the items of all pages in order.
\<close>

theorem get_all_complete:
  assumes "page_chain c (p # ps)"
    and "graph_get c path params tr = (Finished (Inr p), tr1)"
  shows "\<exists>tr'. get_all c path params tr = Some (Finished (Inr (concat (map page_values (p # ps)))), tr')"
  using get_pages_chain [OF assms(1), of "[]" tr1] assms(2) by (simp add: get_all_def)

text \<open>
  A page that names itself, or any page of a set each of which leads into the set, keeps the call
  going for ever: unlike the reading of contacts, it neither counts pages nor remembers links.
\<close>

lemma get_pages_endless:
  assumes "\<And>page tr. page \<in> P \<Longrightarrow> \<exists>link page' tr'. next_link page = Some link
      \<and> get_absolute c link tr = (Finished (Inr page'), tr') \<and> page' \<in> P"
    and "page \<in> P"
  shows "get_pages c items page tr = None"
proof (rule ccontr)
  assume "get_pages c items page tr \<noteq> None"
  then obtain y where y: "get_pages c items page tr = Some y" by blast
  have "c = c0 \<longrightarrow> page \<notin> P" if "c0 = c" for c0
  proof (rule get_pages.raw_induct [OF _ y, of "\<lambda>c items page tr y. c = c0 \<longrightarrow> page \<notin> P"])
    fix loop c1 items1 page1 tr1 y1
    assume IH: "\<And>c items page tr y. loop c items page tr = Some y \<Longrightarrow> c = c0 \<longrightarrow> page \<notin> P"
      and run: "(case next_link page1 of
          None \<Rightarrow> Some (Finished (Inr (items1 @ page_values page1)), tr1)
        | Some link \<Rightarrow>
            (case get_absolute c1 link tr1 of
               (Panicked, tr') \<Rightarrow> Some (Panicked, tr')
             | (Finished r, tr') \<Rightarrow>
                 (case r of
                    Inl e \<Rightarrow> Some (Finished (Inl e), tr')
                  | Inr page' \<Rightarrow> loop c1 (items1 @ page_values page1) page' tr'))) = Some y1"
    show "c1 = c0 \<longrightarrow> page1 \<notin> P"
    proof (intro impI notI)
      assume "c1 = c0" "page1 \<in> P"
      with assms(1) [of page1 tr1] that obtain link page' tr' where "next_link page1 = Some link"
        "get_absolute c1 link tr1 = (Finished (Inr page'), tr')" "page' \<in> P" by auto
      with run IH [of c1 "items1 @ page_values page1" page' tr' y1] \<open>c1 = c0\<close> show False by simp
    qed
  qed
  with assms(2) show False by simp
qed

section \<open>Concrete inputs\<close>

text \<open>A collection of two pages.\<close>

definition first_page :: json where
  "first_page = JObj [(''@odata.nextLink'', JStr ''https://graph/v1/next''), (''value'', JArr [JInt 1])]"

definition second_page :: json where
  "second_page = JObj [(''value'', JArr [JInt 2])]"

definition two_pages :: GraphClient where
  "two_pages =
     \<lparr>v1_api_root = ''https://graph/v1'', beta_api_root = ''https://graph/beta'',
      service = (\<lambda>tr. case last tr of
        Slept n \<Rightarrow> Unsent ''no request''
      | Sent req \<Rightarrow> if request_url req = ''https://graph/v1/next'' then Replied 200 None ''second''
          else Replied 200 None ''first''),
      url_segments = (\<lambda>u. Inr []),
      url_parse = (\<lambda>u. Inr \<lparr>url_has_credentials = False, url_origin = (''https'', Some ''graph'', Some 443), url_display = u\<rparr>),
      status_text = show_nat, seconds_until = (\<lambda>s. None),
      graph_json = \<lparr>json_text = (\<lambda>v. []), json_parse = (\<lambda>s. if s = ''first'' then Some first_page else Some second_page),
        b64_encode = (\<lambda>b. []), b64_decode = (\<lambda>s. None), hash_iter = (\<lambda>m. m)\<rparr>,
      json_error = (\<lambda>s. [])\<rparr>"

lemma two_pages_get:
  "\<exists>tr1. graph_get two_pages ''/me/items'' [] tr = (Finished (Inr first_page), tr1)"
  "\<exists>tr1. get_absolute two_pages ''https://graph/v1/next'' tr = (Finished (Inr second_page), tr1)"
  by (simp_all add: graph_get_def get_absolute_def send_with_retry_def graph_bind_def graph_done_def
      parsed_body_def is_success_def send_attempts.simps Let_def two_pages_def get_request_def prepared_def
      v1_url_def join_url_def trim_end_char_def trim_start_matches_def)

lemma two_pages_chain: "page_chain two_pages [first_page, second_page]"
  using two_pages_get(2) by (simp add: next_link_def first_page_def second_page_def jfield_def)

lemma get_all_complete_witness:
  "\<exists>tr'. get_all two_pages ''/me/items'' [] [] = Some (Finished (Inr [JInt 1, JInt 2]), tr')"
proof -
  obtain tr1 where "graph_get two_pages ''/me/items'' [] [] = (Finished (Inr first_page), tr1)"
    using two_pages_get(1) by blast
  from get_all_complete [OF two_pages_chain this] show ?thesis
    by (simp add: page_values_def first_page_def second_page_def jfield_def or_default_def)
qed

lemma two_pages_returns: "\<exists>r tr'. get_all two_pages ''/me/items'' [] [] = Some (r, tr')"
proof -
  obtain tr1 where "graph_get two_pages ''/me/items'' [] [] = (Finished (Inr first_page), tr1)"
    using two_pages_get(1) by blast
  with get_pages_chain [OF two_pages_chain, of "[]" tr1] show ?thesis by (auto simp: get_all_def)
qed

lemma continuations_stay_home_witness:
  "\<exists>tr'. (\<exists>r. get_all two_pages ''/me/items'' [] [] = Some (r, tr'))
     \<and> only_to (\<lambda>u. u = v1_url two_pages ''/me/items'' \<or> trusted_target two_pages u) [] tr'"
  using two_pages_returns continuations_stay_home by blast

end
