(* ===== verification/Jmap_Fetch.thy ===== *)
theory Jmap_Fetch
  imports Jmap_Mailboxes Mail_Search
begin

text \<open>
  Reading mail over JMAP (\<^verbatim>\<open>mail/jmap/mail.rs\<close>): the changes since a state, in pages, or the whole
  mailbox, and the server-side search. The conversions of \<^verbatim>\<open>chrono\<close> are parameters: an RFC 3339
  date in UTC, and its Unix time.
\<close>

section \<open>Messages\<close>

record JmapEmail =
  email_id :: string
  email_subject :: "string option"
  email_from_name :: "string option"
  email_from_email :: "string option"
  email_to :: string
  email_cc :: string
  email_date :: string
  email_message_id :: "string option"
  email_in_reply_to :: "string option"
  email_references :: "string list"
  email_size :: nat
  email_has_attachments :: bool
  email_flags :: "string list"
  email_preview :: "string option"
  email_mailbox_ids :: "string list"

record JmapFetchResult =
  fetched_emails :: "JmapEmail list"
  fetched_destroyed :: "string list"
  fetched_state :: string
  is_full :: bool

text \<open>What the client uses of other libraries here.\<close>

record mail_env =
  env_json :: externals
  utc_date :: "string \<Rightarrow> string option"
  unix_time :: "string \<Rightarrow> int option"

definition elements :: "json \<Rightarrow> json list" where
  "elements v = or_default [] (as_array v)"

definition first_element :: "json \<Rightarrow> json option" where
  "first_element v = Option.bind (as_array v) (\<lambda>vs. case vs of [] \<Rightarrow> None | a # _ \<Rightarrow> Some a)"

definition optional_text :: "string option \<Rightarrow> json" where
  "optional_text t = (case t of None \<Rightarrow> JNull | Some s \<Rightarrow> JStr s)"

definition addresses_to_json :: "mail_env \<Rightarrow> json \<Rightarrow> string" where
  "addresses_to_json env addrs =
     json_text (env_json env)
       (JArr (map (\<lambda>a. JObj [(''name'', optional_text (as_str (jfield ''name'' a))),
                             (''email'', JStr (or_default [] (as_str (jfield ''email'' a))))])
         (elements addrs)))"

definition sender_name :: "json \<Rightarrow> string option" where
  "sender_name e = Option.bind (first_element (jfield ''from'' e)) (\<lambda>f. as_str (jfield ''name'' f))"

definition sender_email :: "json \<Rightarrow> string option" where
  "sender_email e = Option.bind (first_element (jfield ''from'' e)) (\<lambda>f. as_str (jfield ''email'' f))"

definition first_message_id :: "json \<Rightarrow> string option" where
  "first_message_id v = Option.bind (Option.bind (first_element v) as_str) normalize_message_id"

definition keyword_flags :: "json \<Rightarrow> string list" where
  "keyword_flags keywords =
     (case as_object keywords of
        None \<Rightarrow> []
      | Some kw \<Rightarrow>
          (if contains_key ''$seen'' kw then [''seen''] else [])
        @ (if contains_key ''$flagged'' kw then [''flagged''] else [])
        @ (if contains_key ''$answered'' kw then [''answered''] else [])
        @ (if contains_key ''$draft'' kw then [''draft''] else []))"

definition parse_jmap_email :: "mail_env \<Rightarrow> json \<Rightarrow> JmapEmail" where
  "parse_jmap_email env e =
     \<lparr>email_id = or_default [] (as_str (jfield ''id'' e)),
      email_subject = as_str (jfield ''subject'' e),
      email_from_name = sender_name e,
      email_from_email = sender_email e,
      email_to = addresses_to_json env (jfield ''to'' e),
      email_cc = addresses_to_json env (jfield ''cc'' e),
      email_date = or_default [] (Option.bind (as_str (jfield ''receivedAt'' e)) (utc_date env)),
      email_message_id = first_message_id (jfield ''messageId'' e),
      email_in_reply_to = first_message_id (jfield ''inReplyTo'' e),
      email_references =
        List.map_filter normalize_message_id (List.map_filter as_str (elements (jfield ''references'' e))),
      email_size = or_default 0 (as_u64 (jfield ''size'' e)),
      email_has_attachments = or_default False (as_bool (jfield ''hasAttachment'' e)),
      email_flags = keyword_flags (jfield ''keywords'' e),
      email_preview = as_str (jfield ''preview'' e),
      email_mailbox_ids = map fst (or_default [] (as_object (jfield ''mailboxIds'' e)))\<rparr>"

section \<open>Requests\<close>

definition method_call :: "string \<Rightarrow> json \<Rightarrow> string \<Rightarrow> json" where
  "method_call method args call_id = JArr [JStr method, args, JStr call_id]"

definition mail_calls :: "json list \<Rightarrow> json" where
  "mail_calls calls =
     jobj [(''using'', json_strings [CORE_CAPABILITY, MAIL_CAPABILITY]), (''methodCalls'', JArr calls)]"

definition EMAIL_PROPERTIES :: "string list" where
  "EMAIL_PROPERTIES =
     [''id'', ''subject'', ''from'', ''to'', ''cc'', ''receivedAt'', ''size'', ''keywords'', ''messageId'',
      ''inReplyTo'', ''references'', ''hasAttachment'', ''preview'', ''mailboxIds'']"

text \<open>The messages another call of the same request names.\<close>

definition get_call :: "JmapConnection \<Rightarrow> string \<Rightarrow> string \<Rightarrow> string \<Rightarrow> string list \<Rightarrow> string \<Rightarrow> json" where
  "get_call conn result_of name path properties call_id =
     method_call ''Email/get''
       (jobj [(''#ids'', jobj [(''resultOf'', JStr result_of), (''name'', JStr name), (''path'', JStr path)]),
              (''accountId'', JStr (jmap_account_id conn)),
              (''properties'', json_strings properties)]) call_id"

definition answer_body :: "nat \<Rightarrow> json \<Rightarrow> json" where
  "answer_body i resp = jelem 1 (jelem i (jfield ''methodResponses'' resp))"

section \<open>Changes\<close>

datatype DeltaSyncFallbackReason = CannotCalculateChanges | InvalidArguments | ExceededPageCap | StalledState

datatype FetchEmailChangesError = Fallback DeltaSyncFallbackReason | Fatal error

definition MAX_CHANGES_PER_PAGE :: nat where "MAX_CHANGES_PER_PAGE = 5000"
definition MAX_PAGES :: nat where "MAX_PAGES = 100"

definition changes_request :: "JmapConnection \<Rightarrow> string \<Rightarrow> json" where
  "changes_request conn cursor =
     mail_calls
       [method_call ''Email/changes''
          (jobj [(''accountId'', JStr (jmap_account_id conn)), (''sinceState'', JStr cursor),
                 (''maxChanges'', JInt (int MAX_CHANGES_PER_PAGE))]) ''c1'',
        get_call conn ''c1'' ''Email/changes'' ''/created'' EMAIL_PROPERTIES ''g1'',
        get_call conn ''c1'' ''Email/changes'' ''/updated'' EMAIL_PROPERTIES ''g2'']"

definition changes_error :: "json \<Rightarrow> FetchEmailChangesError option" where
  "changes_error resp =
     map_option
       (\<lambda>t. if t = ''cannotCalculateChanges'' then Fallback CannotCalculateChanges
            else if t = ''invalidArguments'' then Fallback InvalidArguments
            else Fatal (Other (''Email/changes error: '' @ t)))
       (as_str (jfield ''type'' (answer_body 0 resp)))"

definition page_state :: "json \<Rightarrow> string" where
  "page_state resp = or_default [] (as_str (jfield ''newState'' (answer_body 0 resp)))"

definition page_has_more :: "json \<Rightarrow> bool" where
  "page_has_more resp = or_default False (as_bool (jfield ''hasMoreChanges'' (answer_body 0 resp)))"

definition page_destroyed :: "json \<Rightarrow> string list" where
  "page_destroyed resp = List.map_filter as_str (elements (jfield ''destroyed'' (answer_body 0 resp)))"

definition page_emails :: "mail_env \<Rightarrow> json \<Rightarrow> JmapEmail list" where
  "page_emails env resp =
     map (parse_jmap_email env)
       (elements (jfield ''list'' (answer_body 1 resp)) @ elements (jfield ''list'' (answer_body 2 resp)))"

function changes_loop ::
    "mail_env \<Rightarrow> server \<Rightarrow> JmapConnection \<Rightarrow> string \<Rightarrow> nat \<Rightarrow> JmapEmail list \<Rightarrow> string list
     \<Rightarrow> trace \<Rightarrow> (FetchEmailChangesError + JmapFetchResult) \<times> trace" where
  "changes_loop env srv conn cursor pages emails destroyed tr =
     (case api_request srv (changes_request conn cursor) tr of
        (Inl e, tr') \<Rightarrow> (Inl (Fatal e), tr')
      | (Inr resp, tr') \<Rightarrow>
          (case changes_error resp of
             Some e \<Rightarrow> (Inl e, tr')
           | None \<Rightarrow>
               (let emails' = emails @ page_emails env resp;
                    destroyed' = destroyed @ page_destroyed resp
                in if \<not> page_has_more resp
                   then (Inr \<lparr>fetched_emails = emails', fetched_destroyed = destroyed',
                              fetched_state = page_state resp, is_full = False\<rparr>, tr')
                   else if pages + 1 \<ge> MAX_PAGES then (Inl (Fallback ExceededPageCap), tr')
                   else if page_state resp = cursor then (Inl (Fallback StalledState), tr')
                   else changes_loop env srv conn (page_state resp) (pages + 1) emails' destroyed' tr')))"
  by pat_completeness auto
termination by (relation "measure (\<lambda>(env, srv, conn, cursor, pages, emails, destroyed, tr). MAX_PAGES - pages)") auto

declare changes_loop.simps [simp del]

definition fetch_email_changes ::
    "mail_env \<Rightarrow> server \<Rightarrow> JmapConnection \<Rightarrow> string \<Rightarrow> trace
     \<Rightarrow> (FetchEmailChangesError + JmapFetchResult) \<times> trace" where
  "fetch_email_changes env srv conn since_state tr = changes_loop env srv conn since_state 0 [] [] tr"

section \<open>The whole mailbox\<close>

definition JMAP_PAGE_SIZE :: nat where "JMAP_PAGE_SIZE = 500"

definition query_request :: "JmapConnection \<Rightarrow> string \<Rightarrow> nat \<Rightarrow> json" where
  "query_request conn mailbox_id position =
     mail_calls
       [method_call ''Email/query''
          (jobj [(''accountId'', JStr (jmap_account_id conn)),
                 (''filter'', jobj [(''inMailbox'', JStr mailbox_id)]),
                 (''sort'', JArr [jobj [(''property'', JStr ''receivedAt''), (''isAscending'', JBool False)]]),
                 (''position'', JInt (int position)), (''limit'', JInt (int JMAP_PAGE_SIZE))]) ''q1'',
        get_call conn ''q1'' ''Email/query'' ''/ids'' EMAIL_PROPERTIES ''g1'']"

text \<open>The loop ends with the server's first short page; if none comes, it never ends.\<close>

partial_function (option) full_loop ::
    "mail_env \<Rightarrow> server \<Rightarrow> JmapConnection \<Rightarrow> string \<Rightarrow> JmapEmail list \<Rightarrow> nat \<Rightarrow> string \<Rightarrow> trace
     \<Rightarrow> (JmapFetchResult result \<times> trace) option" where
  "full_loop env srv conn mailbox_id all_emails position state tr =
     (case api_request srv (query_request conn mailbox_id position) tr of
        (Inl e, tr') \<Rightarrow> Some (Inl e, tr')
      | (Inr resp, tr') \<Rightarrow>
          (case as_array (jfield ''list'' (answer_body 1 resp)) of
             None \<Rightarrow> Some (Inl (Other ''Invalid Email/get response''), tr')
           | Some emails_json \<Rightarrow>
               (let state' = (if state = [] then or_default [] (as_str (jfield ''state'' (answer_body 1 resp))) else state);
                    emails' = all_emails @ map (parse_jmap_email env) emails_json
                in if length emails_json < JMAP_PAGE_SIZE
                   then Some (Inr \<lparr>fetched_emails = emails', fetched_destroyed = [], fetched_state = state',
                                   is_full = True\<rparr>, tr')
                   else full_loop env srv conn mailbox_id emails' (position + length emails_json) state' tr')))"

definition fetch_emails_full ::
    "mail_env \<Rightarrow> server \<Rightarrow> JmapConnection \<Rightarrow> string \<Rightarrow> trace \<Rightarrow> (JmapFetchResult result \<times> trace) option" where
  "fetch_emails_full env srv conn mailbox_id tr = full_loop env srv conn mailbox_id [] 0 [] tr"

definition fetch_emails ::
    "mail_env \<Rightarrow> server \<Rightarrow> JmapConnection \<Rightarrow> string \<Rightarrow> string option \<Rightarrow> trace
     \<Rightarrow> (JmapFetchResult result \<times> trace) option" where
  "fetch_emails env srv conn mailbox_id since_state tr =
     (case since_state of
        Some state \<Rightarrow>
          if state = [] then fetch_emails_full env srv conn mailbox_id tr
          else
            (case fetch_email_changes env srv conn state tr of
               (Inr delta, tr') \<Rightarrow> Some (Inr delta, tr')
             | (Inl (Fallback reason), tr') \<Rightarrow> fetch_emails_full env srv conn mailbox_id tr'
             | (Inl (Fatal e), tr') \<Rightarrow> Some (Inl e, tr'))
      | None \<Rightarrow> fetch_emails_full env srv conn mailbox_id tr)"

section \<open>Search\<close>

record SearchHit =
  hit_account_id :: string
  hit_folder_path :: string
  hit_uid :: "u32 option"
  hit_message_id :: "string option"
  hit_backend_id :: string
  hit_subject :: string
  hit_from_name :: "string option"
  hit_from_email :: "string option"
  hit_date :: int
  hit_snippet :: "string option"

definition parse_jmap_search_hit :: "mail_env \<Rightarrow> string \<Rightarrow> json \<Rightarrow> SearchHit" where
  "parse_jmap_search_hit env account_id e =
     \<lparr>hit_account_id = account_id,
      hit_folder_path =
        (case find (\<lambda>(k, v). or_default False (as_bool v)) (or_default [] (as_object (jfield ''mailboxIds'' e))) of
           None \<Rightarrow> [] | Some (k, v) \<Rightarrow> k),
      hit_uid = None,
      hit_message_id =
        map_option (\<lambda>s. ''<'' @ s @ ''>'') (Option.bind (first_element (jfield ''messageId'' e)) as_str),
      hit_backend_id = or_default [] (as_str (jfield ''id'' e)),
      hit_subject = or_default [] (as_str (jfield ''subject'' e)),
      hit_from_name = sender_name e,
      hit_from_email = sender_email e,
      hit_date = or_default 0 (Option.bind (as_str (jfield ''receivedAt'' e)) (unix_time env)),
      hit_snippet = as_str (jfield ''preview'' e)\<rparr>"

definition search_request :: "JmapConnection \<Rightarrow> json \<Rightarrow> json" where
  "search_request conn condition =
     mail_calls
       [method_call ''Email/query''
          (jobj [(''accountId'', JStr (jmap_account_id conn)), (''filter'', condition),
                 (''sort'', JArr [jobj [(''property'', JStr ''receivedAt''), (''isAscending'', JBool False)]]),
                 (''limit'', JInt 200)]) ''sq'',
        get_call conn ''sq'' ''Email/query'' ''/ids''
          [''id'', ''subject'', ''from'', ''receivedAt'', ''preview'', ''messageId'', ''mailboxIds''] ''sg'']"

text \<open>Nothing when encoding the query panics.\<close>

definition search_account ::
    "mail_env \<Rightarrow> date_before \<Rightarrow> server \<Rightarrow> JmapConnection \<Rightarrow> string \<Rightarrow> SearchQuery
     \<Rightarrow> (SearchHit list net) option" where
  "search_account env after srv conn account_id query =
     (case build_jmap_filter after query of
        None \<Rightarrow> None
      | Some None \<Rightarrow> Some (net_lift (Inr []))
      | Some (Some condition) \<Rightarrow>
          Some (net_bind (api_request srv (search_request conn condition)) (\<lambda>resp. net_lift
            (map_sum id (map (parse_jmap_search_hit env account_id))
               (ok_or (Other ''Invalid Email/get response in search'')
                  (as_array (jfield ''list'' (answer_body 1 resp))))))))"

end
