(* ===== verification/Jmap_Scan.thy ===== *)
theory Jmap_Scan
  imports Jmap_Fetch
begin

text \<open>
  What reading mail over JMAP gives: a complete scan of a mailbox from a server that serves the
  page size asked for, a truncated one from a server that serves less, and the chained pages of the
  changes since a state.
\<close>

section \<open>The whole mailbox\<close>

text \<open>
  A server on which a mailbox holds given messages, newest first, and whose page is the client's
  page size or its own limit, whichever is less.
\<close>

definition serves_mailbox ::
    "server \<Rightarrow> JmapConnection \<Rightarrow> string \<Rightarrow> nat \<Rightarrow> json list \<Rightarrow> string \<Rightarrow> bool" where
  "serves_mailbox srv conn mailbox_id limit messages state \<longleftrightarrow>
     (\<forall>tr position. position \<le> length messages \<longrightarrow> (\<exists>status resp.
        srv (tr @ [ApiPost (query_request conn mailbox_id position)]) = Answered Success status (Inr resp)
      \<and> as_array (jfield ''list'' (answer_body 1 resp)) =
          Some (take (min JMAP_PAGE_SIZE limit) (drop position messages))
      \<and> as_str (jfield ''state'' (answer_body 1 resp)) = Some state))"

definition page_posts :: "JmapConnection \<Rightarrow> string \<Rightarrow> nat \<Rightarrow> nat \<Rightarrow> trace" where
  "page_posts conn mailbox_id position n =
     map (\<lambda>k. ApiPost (query_request conn mailbox_id (position + k * JMAP_PAGE_SIZE))) [0..<n]"

lemma page_posts_Suc:
  "page_posts conn mailbox_id position (Suc n) =
     ApiPost (query_request conn mailbox_id position) # page_posts conn mailbox_id (position + JMAP_PAGE_SIZE) n"
proof -
  have "[0..<Suc n] = 0 # map Suc [0..<n]" by (simp add: map_Suc_upt upt_conv_Cons)
  then show ?thesis by (simp add: page_posts_def add.assoc del: upt_Suc)
qed

lemma api_request_served:
  assumes "serves_mailbox srv conn mailbox_id limit messages state" "position \<le> length messages"
  obtains resp where
    "api_request srv (query_request conn mailbox_id position) tr =
       (Inr resp, tr @ [ApiPost (query_request conn mailbox_id position)])"
    "as_array (jfield ''list'' (answer_body 1 resp)) =
       Some (take (min JMAP_PAGE_SIZE limit) (drop position messages))"
    "as_str (jfield ''state'' (answer_body 1 resp)) = Some state"
proof -
  from assms obtain status resp where
    served: "srv (tr @ [ApiPost (query_request conn mailbox_id position)]) = Answered Success status (Inr resp)"
      "as_array (jfield ''list'' (answer_body 1 resp)) =
         Some (take (min JMAP_PAGE_SIZE limit) (drop position messages))"
      "as_str (jfield ''state'' (answer_body 1 resp)) = Some state"
    unfolding serves_mailbox_def by blast
  show thesis by (rule that [OF _ served(2,3)]) (simp add: api_request_def served(1))
qed

lemma full_loop_served:
  assumes served: "serves_mailbox srv conn mailbox_id limit messages state" and limit: "JMAP_PAGE_SIZE \<le> limit"
  shows "st = [] \<or> st = state \<Longrightarrow> position \<le> length messages \<Longrightarrow>
    full_loop env srv conn mailbox_id emails position st tr =
      Some (Inr \<lparr>fetched_emails = emails @ map (parse_jmap_email env) (drop position messages),
                 fetched_destroyed = [], fetched_state = state, is_full = True\<rparr>,
            tr @ page_posts conn mailbox_id position (Suc ((length messages - position) div JMAP_PAGE_SIZE)))"
proof (induction "length messages - position" arbitrary: emails position st tr rule: less_induct)
  case less
  obtain resp where resp: "api_request srv (query_request conn mailbox_id position) tr =
       (Inr resp, tr @ [ApiPost (query_request conn mailbox_id position)])"
    "as_array (jfield ''list'' (answer_body 1 resp)) = Some (take JMAP_PAGE_SIZE (drop position messages))"
    "as_str (jfield ''state'' (answer_body 1 resp)) = Some state"
    using api_request_served [OF served less.prems(2)] limit by (metis min.absorb1)
  have positive: "0 < JMAP_PAGE_SIZE" by (simp add: JMAP_PAGE_SIZE_def)
  have st: "(if st = [] then or_default [] (as_str (jfield ''state'' (answer_body 1 resp))) else st) = state"
    using less.prems(1) resp(3) by (auto simp: or_default_def)
  show ?case
  proof (cases "length messages - position < JMAP_PAGE_SIZE")
    case True
    then show ?thesis
      by (subst full_loop.simps)
        (use less.prems in \<open>auto simp: resp or_default_def page_posts_Suc page_posts_def Let_def simp del: One_nat_def\<close>)
  next
    case False
    let ?next = "position + JMAP_PAGE_SIZE"
    let ?page = "take JMAP_PAGE_SIZE (drop position messages)"
    have page: "length ?page = JMAP_PAGE_SIZE" using False by simp
    have messages: "?page @ drop ?next messages = drop position messages"
      by (metis add.commute append_take_drop_id drop_drop)
    have count: "(length messages - position) div JMAP_PAGE_SIZE = Suc ((length messages - ?next) div JMAP_PAGE_SIZE)"
      using le_div_geq [OF positive, of "length messages - position"] False by simp
    have rest: "full_loop env srv conn mailbox_id (emails @ map (parse_jmap_email env) ?page) ?next state
        (tr @ [ApiPost (query_request conn mailbox_id position)]) =
      Some (Inr \<lparr>fetched_emails = (emails @ map (parse_jmap_email env) ?page)
              @ map (parse_jmap_email env) (drop ?next messages),
            fetched_destroyed = [], fetched_state = state, is_full = True\<rparr>,
          (tr @ [ApiPost (query_request conn mailbox_id position)])
            @ page_posts conn mailbox_id ?next (Suc ((length messages - ?next) div JMAP_PAGE_SIZE)))"
      by (rule less.hyps) (use False positive in auto)
    have "full_loop env srv conn mailbox_id emails position st tr =
        full_loop env srv conn mailbox_id (emails @ map (parse_jmap_email env) ?page) ?next state
          (tr @ [ApiPost (query_request conn mailbox_id position)])"
      by (subst full_loop.simps) (simp add: resp(1,2) st page Let_def del: One_nat_def length_take split del: if_split)
    moreover have "map (parse_jmap_email env) (drop position messages) =
        map (parse_jmap_email env) ?page @ map (parse_jmap_email env) (drop ?next messages)"
      by (metis messages map_append)
    ultimately show ?thesis by (simp add: rest count page_posts_Suc)
  qed
qed

text \<open>C37: a full scan of a mailbox that the server serves in the pages asked for returns, after as many
  requests as the mailbox has whole pages and one more, with every message of it in the server's
  order and the state of the first page.
\<close>

theorem full_scan_complete:
  assumes "serves_mailbox srv conn mailbox_id limit messages state" "JMAP_PAGE_SIZE \<le> limit"
  shows "fetch_emails_full env srv conn mailbox_id tr =
     Some (Inr \<lparr>fetched_emails = map (parse_jmap_email env) messages, fetched_destroyed = [],
                fetched_state = state, is_full = True\<rparr>,
           tr @ page_posts conn mailbox_id 0 (Suc (length messages div JMAP_PAGE_SIZE)))"
  using full_loop_served [OF assms, where st = "[]" and position = 0 and emails = "[]" and env = env and tr = tr] by (simp add: fetch_emails_full_def)

text \<open>C40: a server whose own limit is below the page size, which the protocol lets it have, makes the
  scan stop after the first page: the messages beyond it are missing from a result that is marked as
  the complete mailbox, so that the caller removes them.
\<close>

theorem capped_scan_truncated:
  assumes "serves_mailbox srv conn mailbox_id limit messages state" "limit < JMAP_PAGE_SIZE"
  shows "\<exists>tr'. fetch_emails_full env srv conn mailbox_id tr =
     Some (Inr \<lparr>fetched_emails = map (parse_jmap_email env) (take limit messages), fetched_destroyed = [],
                fetched_state = state, is_full = True\<rparr>, tr')"
proof -
  obtain resp where resp: "api_request srv (query_request conn mailbox_id 0) tr =
       (Inr resp, tr @ [ApiPost (query_request conn mailbox_id 0)])"
    "as_array (jfield ''list'' (answer_body 1 resp)) = Some (take (min JMAP_PAGE_SIZE limit) (drop 0 messages))"
    "as_str (jfield ''state'' (answer_body 1 resp)) = Some state"
    using api_request_served [OF assms(1), of 0] by auto
  then show ?thesis
    using assms(2)
    by (subst fetch_emails_full_def, subst full_loop.simps)
      (simp add: Let_def or_default_def min_def del: One_nat_def)
qed

section \<open>The changes since a state\<close>

text \<open>The states the requests start from: the given one, then the one each page ended with.\<close>

fun cursors :: "string \<Rightarrow> json list \<Rightarrow> string list" where
  "cursors since [] = []"
| "cursors since (resp # resps) = since # cursors (page_state resp) resps"

definition change_posts :: "JmapConnection \<Rightarrow> string \<Rightarrow> json list \<Rightarrow> trace" where
  "change_posts conn since resps = map (\<lambda>s. ApiPost (changes_request conn s)) (cursors since resps)"

lemma changes_loop_Inr:
  assumes "changes_loop env srv conn cursor pages emails destroyed tr = (Inr result, tr')" "pages < MAX_PAGES"
  shows "\<exists>resps final. length resps + pages < MAX_PAGES
     \<and> tr' = tr @ change_posts conn cursor (resps @ [final])
     \<and> list_all page_has_more resps \<and> \<not> page_has_more final
     \<and> list_all (\<lambda>r. changes_error r = None) (resps @ [final])
     \<and> result = \<lparr>fetched_emails = emails @ concat (map (page_emails env) (resps @ [final])),
                 fetched_destroyed = destroyed @ concat (map page_destroyed (resps @ [final])),
                 fetched_state = page_state final, is_full = False\<rparr>"
  using assms
proof (induction env srv conn cursor pages emails destroyed tr rule: changes_loop.induct)
  case (1 env srv conn cursor pages emails destroyed tr)
  obtain q tr1 where request: "api_request srv (changes_request conn cursor) tr = (q, tr1)" by fastforce
  then have tr1: "tr1 = tr @ [ApiPost (changes_request conn cursor)]"
    using api_request_trace [of srv "changes_request conn cursor" tr] by simp
  from "1.prems"(1) request obtain resp where q: "q = Inr resp" and fine: "changes_error resp = None"
    by (subst (asm) changes_loop.simps) (auto split: sum.splits option.splits)
  show ?case
  proof (cases "page_has_more resp")
    case False
    with "1.prems"(1) request q fine tr1 have "tr' = tr @ [ApiPost (changes_request conn cursor)]"
      "result = \<lparr>fetched_emails = emails @ page_emails env resp,
          fetched_destroyed = destroyed @ page_destroyed resp, fetched_state = page_state resp, is_full = False\<rparr>"
      by (subst (asm) changes_loop.simps, simp add: Let_def)+
    with False fine "1.prems"(2) show ?thesis
      by (intro exI [of _ "[]"] exI [of _ resp]) (simp add: change_posts_def)
  next
    case True
    with "1.prems"(1) request q fine have more: "pages + 1 < MAX_PAGES" "page_state resp \<noteq> cursor"
      and rest: "changes_loop env srv conn (page_state resp) (pages + 1) (emails @ page_emails env resp)
          (destroyed @ page_destroyed resp) tr1 = (Inr result, tr')"
      by (subst (asm) changes_loop.simps, simp add: Let_def split: if_splits)+
    from "1.IH" [OF request [symmetric] q fine refl refl _ _ more(2) rest] True more(1)
    obtain resps final where IH: "length resps + (pages + 1) < MAX_PAGES"
      "tr' = tr1 @ change_posts conn (page_state resp) (resps @ [final])"
      "list_all page_has_more resps" "\<not> page_has_more final"
      "list_all (\<lambda>r. changes_error r = None) (resps @ [final])"
      "result = \<lparr>fetched_emails = (emails @ page_emails env resp) @ concat (map (page_emails env) (resps @ [final])),
                 fetched_destroyed = (destroyed @ page_destroyed resp) @ concat (map page_destroyed (resps @ [final])),
                 fetched_state = page_state final, is_full = False\<rparr>"
      by auto
    then show ?thesis
      using True fine more(1) tr1
      by (intro exI [of _ "resp # resps"] exI [of _ final]) (simp add: change_posts_def)
  qed
qed


text \<open>Whatever the server answers, the number of requests is bounded.\<close>

lemma changes_loop_bounded:
  "pages < MAX_PAGES \<Longrightarrow> length (snd (changes_loop env srv conn cursor pages emails destroyed tr)) + pages
     \<le> length tr + MAX_PAGES"
proof (induction env srv conn cursor pages emails destroyed tr rule: changes_loop.induct)
  case (1 env srv conn cursor pages emails destroyed tr)
  obtain q tr1 where request: "api_request srv (changes_request conn cursor) tr = (q, tr1)" by fastforce
  then have tr1: "tr1 = tr @ [ApiPost (changes_request conn cursor)]"
    using api_request_trace [of srv "changes_request conn cursor" tr] by simp
  show ?case
  proof (cases "\<exists>resp. q = Inr resp \<and> changes_error resp = None \<and> page_has_more resp \<and> pages + 1 < MAX_PAGES
      \<and> page_state resp \<noteq> cursor")
    case True
    then obtain resp where q: "q = Inr resp" and fine: "changes_error resp = None" "page_has_more resp"
      "pages + 1 < MAX_PAGES" "page_state resp \<noteq> cursor" by blast
    from "1.IH" [OF request [symmetric] q fine(1) refl refl _ _ fine(4)] fine
    have "length (snd (changes_loop env srv conn (page_state resp) (pages + 1) (emails @ page_emails env resp)
        (destroyed @ page_destroyed resp) tr1)) + (pages + 1) \<le> length tr1 + MAX_PAGES" by simp
    then show ?thesis
      using fine request q tr1 by (subst changes_loop.simps) (simp add: Let_def)
  next
    case False
    then show ?thesis
      using request tr1 "1.prems"
      by (subst changes_loop.simps) (auto simp: Let_def split: sum.split option.split)
  qed
qed

text \<open>C39: when the server refuses to return the changed messages, as it does when a page of up to 5000
  changes exceeds the number of objects it returns at once, the changes are lost: the result has no
  messages and the new state all the same.
\<close>

theorem refused_changes_lost:
  assumes "srv (tr @ [ApiPost (changes_request conn state)]) = Answered Success status (Inr resp)"
    and "state \<noteq> []" "changes_error resp = None" "\<not> page_has_more resp"
    and "jfield ''list'' (answer_body 1 resp) = JNull" "jfield ''list'' (answer_body 2 resp) = JNull"
  shows "\<exists>tr'. fetch_emails env srv conn mailbox_id (Some state) tr =
     Some (Inr \<lparr>fetched_emails = [], fetched_destroyed = page_destroyed resp,
                fetched_state = page_state resp, is_full = False\<rparr>, tr')"
proof -
  have "api_request srv (changes_request conn state) tr = (Inr resp, tr @ [ApiPost (changes_request conn state)])"
    using assms(1) by (simp add: api_request_Inr)
  moreover have "page_emails env resp = []"
    using assms(5,6) by (simp add: page_emails_def elements_def or_default_def)
  ultimately show ?thesis
    using assms(2-4)
    by (simp add: fetch_emails_def fetch_email_changes_def changes_loop.simps Let_def)
qed

section \<open>Concrete inputs\<close>

definition sample_mail_env :: mail_env where
  "sample_mail_env =
     \<lparr>env_json = \<lparr>json_text = (\<lambda>v. ''[]''), json_parse = (\<lambda>s. None), b64_encode = (\<lambda>b. []),
        b64_decode = (\<lambda>s. None), hash_iter = (\<lambda>m. m)\<rparr>,
      utc_date = Some, unix_time = (\<lambda>s. Some 0)\<rparr>"

definition sample_mail_connection :: JmapConnection where
  "sample_mail_connection =
     \<lparr>api_url = ''https://jmap/api'', download_url_template = [], upload_url_template = [],
      event_source_url_template = None, jmap_account_id = ''A'', contacts_account = None,
      max_objects_in_get = 500, max_objects_in_set = 500, submission_extensions = []\<rparr>"

definition multi_answer :: "json list \<Rightarrow> json" where
  "multi_answer bodies =
     JObj [(''methodResponses'', JArr (map (\<lambda>b. JArr [JStr ''m'', b, JStr ''c'']) bodies))]"

lemma answer_body_multi [simp]: "i < length bodies \<Longrightarrow> answer_body i (multi_answer bodies) = bodies ! i"
  by (simp add: answer_body_def multi_answer_def jfield_def)

text \<open>A server that reads the position of the request it answers.\<close>

definition request_position :: "json \<Rightarrow> nat" where
  "request_position body =
     or_default 0 (as_u64 (jfield ''position'' (jelem 1 (jelem 0 (jfield ''methodCalls'' body)))))"

definition sample_messages :: "json list" where
  "sample_messages = [JObj [(''id'', JStr ''e1'')], JObj [(''id'', JStr ''e2'')]]"

definition sample_mail_server :: "nat \<Rightarrow> server" where
  "sample_mail_server limit tr =
     (case last tr of
        ApiPost body \<Rightarrow> Answered Success ''200 OK''
          (Inr (multi_answer [JNull, JObj [(''list'', JArr (take (min JMAP_PAGE_SIZE limit)
             (drop (request_position body) sample_messages))), (''state'', JStr ''s1'')]]))
      | _ \<Rightarrow> Failed ExecutionFailure ''down'')"

lemma request_position_query:
  "position \<le> 2 \<Longrightarrow> request_position (query_request conn mailbox_id position) = position"
  by (simp add: request_position_def query_request_def mail_calls_def method_call_def jfield_def or_default_def)

lemma sample_serves:
  "serves_mailbox (sample_mail_server limit) sample_mail_connection mailbox_id limit sample_messages ''s1''"
  unfolding serves_mailbox_def
proof (intro allI impI)
  fix tr position
  assume "position \<le> length sample_messages"
  then have "request_position (query_request sample_mail_connection mailbox_id position) = position"
    by (intro request_position_query) (simp add: sample_messages_def)
  then show "\<exists>status resp. sample_mail_server limit (tr @ [ApiPost (query_request sample_mail_connection mailbox_id position)])
        = Answered Success status (Inr resp)
      \<and> as_array (jfield ''list'' (answer_body 1 resp)) = Some (take (min JMAP_PAGE_SIZE limit) (drop position sample_messages))
      \<and> as_str (jfield ''state'' (answer_body 1 resp)) = Some ''s1''"
    by (simp add: sample_mail_server_def jfield_def)
qed

lemma full_scan_complete_witness:
  "\<exists>tr'. fetch_emails_full sample_mail_env (sample_mail_server 500) sample_mail_connection ''inbox'' [] =
     Some (Inr \<lparr>fetched_emails = map (parse_jmap_email sample_mail_env) sample_messages, fetched_destroyed = [],
                fetched_state = ''s1'', is_full = True\<rparr>, tr')"
  using full_scan_complete [OF sample_serves [of 500 "''inbox''"]] by (simp add: JMAP_PAGE_SIZE_def)

lemma capped_scan_truncated_witness:
  "\<exists>tr'. fetch_emails_full sample_mail_env (sample_mail_server 1) sample_mail_connection ''inbox'' [] =
     Some (Inr \<lparr>fetched_emails = [parse_jmap_email sample_mail_env (JObj [(''id'', JStr ''e1'')])],
                fetched_destroyed = [], fetched_state = ''s1'', is_full = True\<rparr>, tr')"
  using capped_scan_truncated [OF sample_serves [of 1 "''inbox''"], of sample_mail_env "[]"]
  by (simp add: JMAP_PAGE_SIZE_def sample_messages_def)

text \<open>A server with a page of changes whose messages it refuses to return.\<close>

definition lossy_mail_answer :: json where
  "lossy_mail_answer =
     multi_answer [JObj [(''newState'', JStr ''s2''), (''hasMoreChanges'', JBool False), (''destroyed'', JArr [JStr ''e9''])],
       JObj [(''type'', JStr ''requestTooLarge'')], JObj [(''type'', JStr ''requestTooLarge'')]]"

definition lossy_mail_server :: server where
  "lossy_mail_server tr = Answered Success ''200 OK'' (Inr lossy_mail_answer)"

lemma lossy_mail_answer_facts:
  "changes_error lossy_mail_answer = None" "\<not> page_has_more lossy_mail_answer"
  "jfield ''list'' (answer_body 1 lossy_mail_answer) = JNull" "jfield ''list'' (answer_body 2 lossy_mail_answer) = JNull"
  "page_destroyed lossy_mail_answer = [''e9'']" "page_state lossy_mail_answer = ''s2''"
  by (simp_all add: changes_error_def page_has_more_def page_destroyed_def page_state_def lossy_mail_answer_def
      jfield_def or_default_def elements_def List.map_filter_simps)

lemma refused_changes_lost_witness:
  "\<exists>tr'. fetch_emails sample_mail_env lossy_mail_server sample_mail_connection ''inbox'' (Some ''s1'') [] =
     Some (Inr \<lparr>fetched_emails = [], fetched_destroyed = [''e9''], fetched_state = ''s2'', is_full = False\<rparr>, tr')"
  using refused_changes_lost [of lossy_mail_server "[]" sample_mail_connection "''s1''" _ lossy_mail_answer sample_mail_env "''inbox''"]
  by (simp add: lossy_mail_answer_facts lossy_mail_server_def del: One_nat_def)

lemma sample_changes:
  "fetch_email_changes sample_mail_env lossy_mail_server sample_mail_connection ''s1'' [] =
     (Inr \<lparr>fetched_emails = [], fetched_destroyed = [''e9''], fetched_state = ''s2'', is_full = False\<rparr>,
      [ApiPost (changes_request sample_mail_connection ''s1'')])"
  by (simp add: fetch_email_changes_def changes_loop.simps api_request_def Let_def lossy_mail_server_def
      lossy_mail_answer_facts page_emails_def elements_def or_default_def del: One_nat_def)


end
