(* ===== verification/Spec2Isabelle.thy ===== *)
theory Spec2Isabelle
  imports Worker Lifecycle Filter_Service Contact_Delta Recurrence_Index Jmap_Effects
    Mail_Search Graph_Outcomes Graph_Pages Jmap_Scan
begin

text \<open>
  Chithi is a desktop mail, calendar and contacts client: a Vue front end over a Rust backend
  (\<^verbatim>\<open>src/src-tauri/src\<close>; the paths below are relative to it). This development models the parts of
  the backend that decide what happens to a user's data, and proves that they decide it right.

  \<^bold>\<open>The program's parts and how they interact.\<close> A user action becomes a \<^verbatim>\<open>MailOp\<close> on the queue of
  its account's worker. The worker registry (\<^verbatim>\<open>ops/lifecycle.rs\<close>) keeps one worker per account; the
  worker (\<^verbatim>\<open>ops/worker.rs\<close>) takes operations in batches, coalesces them (\<^verbatim>\<open>ops/coalesce.rs\<close>), runs
  them against the mail provider, and writes the ones that failed to the outbox table
  (\<^verbatim>\<open>ops/offline.rs\<close>) in an encoded form, from which it replays them later. Flag changes that a newer
  change or a deletion makes obsolete are subtracted from the ones still queued (\<^verbatim>\<open>ops/flags.rs\<close>).
  After a synchronisation, the user's rules are evaluated on the new messages and their actions are
  carried out (\<^verbatim>\<open>filters/\<close>). On a JMAP account the worker's operations become method calls to the server
  (\<^verbatim>\<open>backend/mail/jmap.rs\<close>, \<^verbatim>\<open>mail/jmap/\<close>), on a Graph account batches of sub-requests
  (\<^verbatim>\<open>backend/mail/graph.rs\<close>, \<^verbatim>\<open>mail/graph.rs\<close>), and the addresses of an outgoing message are first read by a
  parser that keeps their meaning apart from their spelling (\<^verbatim>\<open>mail/mailbox.rs\<close>). A synchronisation reads a mailbox in pages; a search is
  encoded in the language of the provider (\<^verbatim>\<open>mail/search.rs\<close>). Contacts are reconciled with what the provider reports
  (\<^verbatim>\<open>contact/reconcile.rs\<close>). The positions of a recurring event of the calendar are computed from its
  rule (\<^verbatim>\<open>calendar/simple_recurrence.rs\<close>).

  \<^bold>\<open>Theories and sources.\<close>
  \<^item> \<^verbatim>\<open>Rust_Prelude\<close>: what the code uses of Rust's standard library, and the lemmas on lists, text and
    numbers that several components share. \<^verbatim>\<open>Error_Model\<close>: \<^verbatim>\<open>error.rs\<close>. \<^verbatim>\<open>Json_Value\<close>: JSON values as
    \<^verbatim>\<open>serde_json\<close> builds them. \<^verbatim>\<open>Sql_Store\<close>: a database connection whose statements may fail, with
    transactions; the two stores below extend its record by their tables.
  \<^item> \<^verbatim>\<open>Message\<close>: \<^verbatim>\<open>message.rs\<close> (references to messages and their database ids, locations of bodies).
  \<^item> \<^verbatim>\<open>Flags\<close>: \<^verbatim>\<open>ops/flags.rs\<close>. \<^verbatim>\<open>Queue\<close>: \<^verbatim>\<open>ops/queue.rs\<close> and \<^verbatim>\<open>ops/coalesce.rs\<close>.
  \<^item> \<^verbatim>\<open>Outbox_Codec\<close>: the encoding and decoding of operations in \<^verbatim>\<open>ops/offline.rs\<close>. \<^verbatim>\<open>Outbox_Table\<close> and
    \<^verbatim>\<open>Outbox\<close>: the outbox table of \<^verbatim>\<open>db/schema.rs\<close> and every operation on it in \<^verbatim>\<open>ops/offline.rs\<close> and
    \<^verbatim>\<open>commands/outbox.rs\<close>. \<^verbatim>\<open>Send_Protocol\<close>: the life of a queued send as a step relation over them.
  \<^item> \<^verbatim>\<open>Worker\<close>: \<^verbatim>\<open>ops/worker.rs\<close>, whose state is the table, the transport's answers still to come and
    the events emitted. \<^verbatim>\<open>Lifecycle\<close>: \<^verbatim>\<open>ops/lifecycle.rs\<close> as a step relation, with a step at every
    await.
  \<^item> \<^verbatim>\<open>Filters\<close>: \<^verbatim>\<open>filters/rules.rs\<close> and \<^verbatim>\<open>filters/engine.rs\<close>. \<^verbatim>\<open>Filter_Service\<close>: \<^verbatim>\<open>filters/service.rs\<close>.
  \<^item> \<^verbatim>\<open>Contact_Plan\<close>: the data, the matching and the plans of \<^verbatim>\<open>contact/reconcile.rs\<close>; \<^verbatim>\<open>Contact_Store\<close>:
    its operations on the contacts tables; \<^verbatim>\<open>Contact_Sync\<close> and \<^verbatim>\<open>Contact_Delta\<close>: the theorems on
    complete snapshots and on deltas.
  \<^item> \<^verbatim>\<open>Chrono_Model\<close>: the interface of \<^verbatim>\<open>chrono\<close> and \<^verbatim>\<open>chrono_tz\<close> as a record of functions;
    \<^verbatim>\<open>Calendar_Event\<close>: \<^verbatim>\<open>calendar/mod.rs\<close> and \<^verbatim>\<open>calendar/recurrence_identity.rs\<close>; \<^verbatim>\<open>Recurrence_Rule\<close>
    and \<^verbatim>\<open>Recurrence_Schedule\<close>: \<^verbatim>\<open>calendar/simple_recurrence.rs\<close>; \<^verbatim>\<open>Recurrence_Series\<close> and
    \<^verbatim>\<open>Recurrence_Expand\<close>: the series a rule denotes, and its enumeration; \<^verbatim>\<open>Gregorian\<close>: a concrete
    calendar; \<^verbatim>\<open>Recurrence_Index\<close>: the theorems and their concrete inputs.
  \<^item> \<^verbatim>\<open>Net_Addr\<close>: the IPv4 and IPv6 addresses of Rust's standard library, read and displayed.
    \<^verbatim>\<open>Mailbox\<close>: \<^verbatim>\<open>mail/mailbox.rs\<close>; \<^verbatim>\<open>Mailbox_Wire\<close>: the theorems on it.
  \<^item> \<^verbatim>\<open>Jmap_Net\<close>: the session, the URLs and \<^verbatim>\<open>api_request\<close> of \<^verbatim>\<open>mail/jmap/mod.rs\<close>; an operation of the
    client maps the requests made so far to its result and the requests made then.
    \<^verbatim>\<open>Jmap_Envelope\<close>: the submission envelope of \<^verbatim>\<open>mail/jmap/mail.rs\<close> and \<^verbatim>\<open>mail/jmap/identities.rs\<close>;
    \<^verbatim>\<open>Jmap_Mailboxes\<close>: \<^verbatim>\<open>mail/jmap/mailboxes.rs\<close>; \<^verbatim>\<open>Jmap_Submission\<close>: sending, drafts and imports, and the
    reading of their replies; \<^verbatim>\<open>Jmap_Delivery\<close>: the theorems on them, against a server that keeps the
    contract of the protocol; \<^verbatim>\<open>Jmap_Mailops\<close>: flags, deletions, moves and copies, and the executor of
    \<^verbatim>\<open>backend/mail/jmap.rs\<close>; \<^verbatim>\<open>Jmap_Effects\<close>: the theorems on these. \<^verbatim>\<open>Jmap_Fetch\<close>: the reading of changes
    and of whole mailboxes, and the search, of \<^verbatim>\<open>mail/jmap/mail.rs\<close>; \<^verbatim>\<open>Jmap_Scan\<close>: the theorems on it.
  \<^item> \<^verbatim>\<open>Mail_Search\<close>: \<^verbatim>\<open>mail/search.rs\<close>, and its theorems.
  \<^item> \<^verbatim>\<open>Graph_Net\<close>: the requests, retries and continued collections of \<^verbatim>\<open>mail/graph.rs\<close>; an operation maps
    the events so far (requests and pauses) to its result and the events then, or panics.
    \<^verbatim>\<open>Graph_Batch\<close>: its batches and the executor of \<^verbatim>\<open>backend/mail/graph.rs\<close>; \<^verbatim>\<open>Graph_Outcomes\<close> and
    \<^verbatim>\<open>Graph_Pages\<close>: the theorems on these.

  \<^bold>\<open>What the lemmas show.\<close> A send is not delivered again automatically once an earlier delivery may
  have succeeded, and a restart quarantines it; the replay of the outbox follows that protocol. An
  account never has two workers at work. Coalescing and the subtraction of flag changes keep what the
  user asked for. Encoding and decoding of operations are inverse, and what is decoded can be stored.
  Multi-statement operations are atomic. The filter engine fires the rules it should, and the
  executors account for every planned action. A reconciliation of contacts never overwrites a local
  edit, converges to the snapshot and is then finished; the repair of duplicates loses no contact. A
  rule survives serialisation; a cursor enumerates the series in order; the expansion of a window
  lists the positions that overlap it, all of them unless it says that there are more. An accepted
  mailbox carries no control character, and its wire form means the same mailbox; nested comments are
  read exactly. A JMAP send asks for one submission at most, and unless it ends in the indeterminate
  error the caller knows whether the server accepted the message; a deletion reported done left none
  of its messages, and its requests stay within the server's limit. A full scan returns every message of
  a mailbox that is served in the pages asked for, and the two cases in which messages are lost are
  stated; changes are read in chained pages. A Graph copy is repeated only after a certain refusal, a
  removal reported done was confirmed for every message, a finite collection is read to its end, and
  its continuations stay at trusted origins; a localized error text panics. No text of an IMAP search
  injects keys, and a JMAP filter selects what the query asks for.

  \<^bold>\<open>Bounds and fuel.\<close> No function of the model takes fuel. The two loops that follow a server's
  pages without a limit are partial functions, whose value \<^verbatim>\<open>None\<close> means that they do not return: their
  theorems prove a result. The changes of a JMAP account are read in at most 100 pages, and a Graph
  batch in three rounds of three attempts, as in the code. The loops of the recurrence generator
  are bounded by the code's own budget of 200000 candidates, which is the measure of their
  termination proofs; every other loop is structural. Slots, counters and list lengths are natural
  numbers where the code cannot reach the end of the machine type, and checked arithmetic is written
  out where it can.

  \<^bold>\<open>Parameters.\<close> Code outside the repository is an argument: JSON text, base64 and the iteration order
  of hash maps, regular expressions, the protocol clients' answers, and calendars and time zones. The
  laws a theorem needs of them are its hypotheses, stated as locales where several share them, and
  each such locale is interpreted on concrete functions. A JMAP server is a function of the whole
  list of requests it has received; \<^verbatim>\<open>honours_jmap\<close> and \<^verbatim>\<open>honours_destroy\<close> state what the protocol's
  documents promise of its replies to a submission and a deletion, and \<^verbatim>\<open>idna_stable\<close> what the IDNA
  library promises of the domains it returns. URLs are parsed by a parameter. \<^verbatim>\<open>serves_mailbox\<close> states that a
  server answers a query from a position with the messages there, up to its limit. The Graph service is
  a function of the events as well, and \<^verbatim>\<open>answers_own_items\<close> states that a batch is answered for the
  items it has. Date conversions are parameters of the reading of messages.

  \<^bold>\<open>Not modelled.\<close> The Vue front end; the protocol clients other than JMAP mail and Graph mail
  operations (\<^verbatim>\<open>mail/\<close>, \<^verbatim>\<open>backend/\<close>: IMAP, SMTP, Google, CalDAV), whose content is network traffic and
  whose parsers are those of libraries; of the JMAP client, credentials, discovery, the download of
  bodies, calendars and contacts; of the Graph client, streaming, delta synchronisation, calendars,
  contacts and rooms; key storage, OAuth, PGP and logging, which
  call services and libraries; the search index; the calendar's commands, its tables and its iCalendar
  reader, and the remaining database modules. Of \<^verbatim>\<open>ops/worker.rs\<close>, task spawning, folder
  synchronisation and the follow-up of a delivered send are left out.
\<close>

end
